(* ===== verification/Py_Prelude.thy ===== *)
theory Py_Prelude
  imports Main "HOL-Library.AList" "HOL-Library.Sublist"
begin

text \<open>
  The vocabulary every component shares. Python text is a list of code points
  (\<open>pystr\<close>; a literal is written \<open>ustr ''...''\<close>), a dictionary is an association list in
  insertion order (the library's \<open>AList\<close> operations overwrite in place and append new keys,
  as \<open>dict\<close> does), and a raised exception is the \<open>Inl\<close> of a sum whose value carries the
  exception's class and message. \<open>bindR\<close> sequences computations that may raise, \<open>bindS\<close>
  those that also thread a state and keep it when they raise, as Python objects keep the
  mutations made before an exception.
\<close>

named_theorems py_defs \<open>definitions that component proofs unfold together\<close>
named_theorems step_frame \<open>fields an operation leaves unchanged\<close>

section \<open>Text\<close>

type_synonym pystr = "int list"

definition ustr :: "string \<Rightarrow> pystr" where
  "ustr s = List.map of_char s"

lemma ustr_inject [simp]: "ustr s = ustr t \<longleftrightarrow> s = t"
  by (simp add: ustr_def inj_map_eq_map inj_def)

lemma ustr_Nil [simp]: "ustr [] = []"
  by (simp add: ustr_def)

lemma ustr_eq_Nil [simp]: "ustr s = [] \<longleftrightarrow> s = []"
  by (simp add: ustr_def)

lemma Nil_eq_ustr [simp]: "[] = ustr s \<longleftrightarrow> s = []"
  by (auto simp add: ustr_def)

lemma length_ustr [simp]: "length (ustr s) = length s"
  by (simp add: ustr_def)

lemma ustr_append: "ustr (s @ t) = ustr s @ ustr t"
  by (simp add: ustr_def)

text \<open>\<open>str.isspace\<close> holds for exactly these code points (the Unicode whitespace of CPython).\<close>

definition py_spaces :: "int list" where
  "py_spaces = [9, 10, 11, 12, 13, 28, 29, 30, 31, 32, 133, 160, 5760,
     8192, 8193, 8194, 8195, 8196, 8197, 8198, 8199, 8200, 8201, 8202,
     8232, 8233, 8239, 8287, 12288]"

definition is_space :: "int \<Rightarrow> bool" where
  "is_space c \<longleftrightarrow> c \<in> set py_spaces"

definition lstrip :: "pystr \<Rightarrow> pystr" where
  "lstrip s = dropWhile is_space s"

definition rstrip :: "pystr \<Rightarrow> pystr" where
  "rstrip s = rev (dropWhile is_space (rev s))"

definition strip :: "pystr \<Rightarrow> pystr" where
  "strip s = rstrip (lstrip s)"

text \<open>
  \<open>str.encode("utf-8")\<close> fails on exactly the surrogate code points, which Python text can
  hold (from \<open>json\<close> escapes or \<open>surrogateescape\<close>).
\<close>

definition is_surrogate :: "int \<Rightarrow> bool" where
  "is_surrogate c \<longleftrightarrow> 55296 \<le> c \<and> c \<le> 57343"

definition utf8_encodable :: "pystr \<Rightarrow> bool" where
  "utf8_encodable s \<longleftrightarrow> list_all (\<lambda>c. \<not> is_surrogate c) s"

definition utf8_len :: "int \<Rightarrow> nat" where
  "utf8_len c = (if c < 128 then 1 else if c < 2048 then 2 else if c < 65536 then 3 else 4)"

definition blank :: "pystr \<Rightarrow> bool" where
  "blank s \<longleftrightarrow> strip s = []"

lemma lstrip_Nil_iff: "lstrip s = [] \<longleftrightarrow> list_all is_space s"
  by (auto simp: lstrip_def list_all_iff)

lemma rstrip_Nil_iff: "rstrip s = [] \<longleftrightarrow> list_all is_space s"
  by (auto simp: rstrip_def list_all_iff)

lemma blank_iff: "blank s \<longleftrightarrow> list_all is_space s"
proof
  assume "blank s"
  then have "list_all is_space (lstrip s)"
    by (simp add: blank_def strip_def rstrip_Nil_iff)
  then have "lstrip s = []"
    by (auto simp: lstrip_def list_all_iff dropWhile_eq_Nil_conv)
       (metis dropWhile_eq_Nil_conv hd_dropWhile list.set_sel(1))
  then show "list_all is_space s"
    by (simp add: lstrip_Nil_iff)
next
  assume "list_all is_space s"
  then show "blank s"
    by (simp add: blank_def strip_def lstrip_Nil_iff [THEN iffD2] rstrip_def)
qed

lemma blank_Nil [simp]: "blank []"
  by (simp add: blank_iff)

lemma not_blank_nonempty: "\<not> blank s \<Longrightarrow> s \<noteq> []"
  by auto

lemma strip_length_le: "length (strip s) \<le> length s"
proof -
  have "length (rstrip t) \<le> length t" for t
    by (simp add: rstrip_def) (metis length_dropWhile_le length_rev)
  moreover have "length (lstrip s) \<le> length s"
    by (simp add: lstrip_def length_dropWhile_le)
  ultimately show ?thesis
    unfolding strip_def by (meson le_trans)
qed

lemma strip_id: "s \<noteq> [] \<Longrightarrow> \<not> is_space (hd s) \<Longrightarrow> \<not> is_space (last s) \<Longrightarrow> strip s = s"
proof -
  assume s: "s \<noteq> []" "\<not> is_space (hd s)" "\<not> is_space (last s)"
  then have "lstrip s = s" by (cases s) (auto simp: lstrip_def)
  moreover from s have "dropWhile is_space (rev s) = rev s"
    by (cases s rule: rev_cases) auto
  ultimately show ?thesis by (simp add: strip_def rstrip_def)
qed

lemma strip_strip [simp]: "strip (strip s) = strip s"
proof (cases "strip s = []")
  case False
  have last: "\<not> is_space (last (rstrip t))" if "rstrip t \<noteq> []" for t
    using that hd_dropWhile [of is_space "rev t"] by (auto simp: rstrip_def last_rev)
  have hd: "hd (rstrip t) = hd t" if "rstrip t \<noteq> []" for t
  proof -
    have "t = rstrip t @ rev (takeWhile is_space (rev t))"
      by (simp add: rstrip_def) (metis rev_append rev_rev_ident takeWhile_dropWhile_id)
    with that show ?thesis by (metis hd_append2)
  qed
  from False have "lstrip s \<noteq> []"
    by (auto simp: strip_def rstrip_def)
  then have "\<not> is_space (hd (lstrip s))"
    by (simp add: lstrip_def hd_dropWhile)
  with False last [of "lstrip s"] hd [of "lstrip s"] show ?thesis
    by (intro strip_id) (simp_all add: strip_def)
next
  case True
  then show ?thesis by (simp only: True) (simp add: strip_def lstrip_def rstrip_def)
qed

definition startswith :: "pystr \<Rightarrow> pystr \<Rightarrow> bool" where
  "startswith s p \<longleftrightarrow> take (length p) s = p"

definition removeprefix :: "pystr \<Rightarrow> pystr \<Rightarrow> pystr" where
  "removeprefix s p = (if startswith s p then drop (length p) s else s)"

lemma startswith_append [simp]: "startswith (p @ s) p"
  by (simp add: startswith_def)

lemma startswith_iff: "startswith s p \<longleftrightarrow> (\<exists>t. s = p @ t)"
  unfolding startswith_def by (metis append_eq_conv_conj append_take_drop_id)

lemma startswith_shorter: "startswith s (p @ q) \<Longrightarrow> startswith s p"
  by (auto simp: startswith_iff)

lemma removeprefix_append [simp]: "removeprefix (p @ s) p = s"
  by (simp add: removeprefix_def)

text \<open>\<open>sep.join(parts)\<close>.\<close>

fun join :: "pystr \<Rightarrow> pystr list \<Rightarrow> pystr" where
  "join sep [] = []"
| "join sep [x] = x"
| "join sep (x # y # ys) = x @ sep @ join sep (y # ys)"

lemma join_Cons: "ys \<noteq> [] \<Longrightarrow> join sep (x # ys) = x @ sep @ join sep ys"
  by (cases ys) auto

lemma join_snoc: "xs \<noteq> [] \<Longrightarrow> join sep (xs @ [y]) = join sep xs @ sep @ y"
  by (induction xs rule: induct_list012) (auto simp: join_Cons)

text \<open>\<open>str(n)\<close> of an integer.\<close>

fun digits :: "nat \<Rightarrow> pystr" where
  "digits n = (if n < 10 then [48 + int n] else digits (n div 10) @ [48 + int (n mod 10)])"

declare digits.simps [simp del]

definition str_int :: "int \<Rightarrow> pystr" where
  "str_int i = (if i < 0 then 45 # digits (nat (- i)) else digits (nat i))"

text \<open>
  \<open>int(s)\<close> of a text in ASCII digits: surrounding whitespace, a sign and single
  underscores between digits are accepted. (Python also takes the digits of other scripts;
  the model refuses them.)
\<close>

fun parse_digits :: "int \<Rightarrow> bool \<Rightarrow> pystr \<Rightarrow> int option" where
  "parse_digits acc prev [] = (if prev then Some acc else None)"
| "parse_digits acc prev (c # s) =
     (if 48 \<le> c \<and> c \<le> 57 then parse_digits (10 * acc + (c - 48)) True s
      else if c = 95 \<and> prev then parse_digits acc False s
      else None)"

text \<open>\<open>int(text)\<close> for ASCII digits; other decimal digits of Unicode are refused here, and neither this nor
  \<open>str\<close> has the interpreter's limit of 4300 digits.\<close>

definition py_int :: "pystr \<Rightarrow> int option" where
  "py_int s = (case strip s of
      [] \<Rightarrow> None
    | c # r \<Rightarrow> if c = 45 then map_option uminus (parse_digits 0 False r)
        else if c = 43 then parse_digits 0 False r
        else parse_digits 0 False (c # r))"

lemma digits_range: "c \<in> set (digits n) \<Longrightarrow> 48 \<le> c \<and> c \<le> 57"
proof (induction n rule: digits.induct)
  case (1 n)
  then show ?case
    by (cases "n < 10") (auto simp: digits.simps [of n])
qed

lemma digits_nonempty [simp]: "digits n \<noteq> []"
  by (subst digits.simps) simp

lemma parse_digits_append:
  "list_all (\<lambda>c. 48 \<le> c \<and> c \<le> 57) s \<Longrightarrow> s \<noteq> [] \<Longrightarrow>
     parse_digits acc prev (s @ t) = parse_digits (foldl (\<lambda>a c. 10 * a + (c - 48)) acc s) True t"
proof (induction s arbitrary: acc prev)
  case (Cons c s)
  then show ?case by (cases "s = []") auto
qed simp

lemma foldl_digits: "foldl (\<lambda>a c. 10 * a + (c - 48)) 0 (digits n) = int n"
proof (induction n rule: digits.induct)
  case (1 n)
  show ?case
  proof (cases "n < 10")
    case True
    then show ?thesis by (simp add: digits.simps [of n])
  next
    case False
    with 1 have "foldl (\<lambda>a c. 10 * a + (c - 48)) 0 (digits n) = 10 * int (n div 10) + int (n mod 10)"
      by (simp add: digits.simps [of n])
    also have "\<dots> = int n"
      by (metis mult_div_mod_eq of_nat_add of_nat_mult of_nat_numeral)
    finally show ?thesis .
  qed
qed

lemma digits_not_special: "c \<in> set (digits n) \<Longrightarrow> \<not> is_space c \<and> c \<noteq> 45 \<and> c \<noteq> 43"
  using digits_range [of c n] by (auto simp: is_space_def py_spaces_def)

lemma parse_digits_digits: "parse_digits 0 False (digits n) = Some (int n)"
  using parse_digits_append [of "digits n" 0 False "[]"] digits_range [of _ n]
  by (auto simp: list_all_iff foldl_digits)

lemma py_int_str_int [simp]: "py_int (str_int i) = Some i"
proof -
  have d: "strip (digits n) = digits n" for n
    by (rule strip_id)
       (use digits_not_special [of _ n] hd_in_set [of "digits n"] last_in_set [of "digits n"] in auto)
  have m: "strip (45 # digits n) = 45 # digits n" for n
    by (rule strip_id)
       (use digits_not_special [of _ n] last_in_set [of "digits n"]
        in \<open>auto simp: is_space_def py_spaces_def\<close>)
  show ?thesis
  proof (cases "i < 0")
    case True
    then show ?thesis
      by (simp add: py_int_def str_int_def m parse_digits_digits)
  next
    case False
    obtain c r where cr: "digits (nat i) = c # r"
      using digits_nonempty [of "nat i"] by (cases "digits (nat i)") auto
    then have "c \<noteq> 45" "c \<noteq> 43"
      using digits_not_special [of c "nat i"] by auto
    then have "py_int (str_int i) = parse_digits 0 False (digits (nat i))"
      using False cr d [of "nat i"] by (simp add: py_int_def str_int_def)
    with False show ?thesis by (simp add: parse_digits_digits)
  qed
qed

lemma str_int_inject [simp]: "str_int i = str_int j \<longleftrightarrow> i = j"
  by (metis py_int_str_int option.inject)

text \<open>\<open>str.replace\<close> with a nonempty pattern: leftmost matches, not overlapping.\<close>

function replace_all :: "pystr \<Rightarrow> pystr \<Rightarrow> pystr \<Rightarrow> pystr" where
  "replace_all pat new s =
     (if s = [] then []
      else if pat \<noteq> [] \<and> take (length pat) s = pat
        then new @ replace_all pat new (drop (length pat) s)
      else hd s # replace_all pat new (tl s))"
  by pat_completeness auto
termination
  by (relation "measure (\<lambda>(pat, new, s). length s)") (auto simp: neq_Nil_conv)

declare replace_all.simps [simp del]

lemma replace_all_Nil [simp]: "replace_all pat new [] = []"
  by (simp add: replace_all.simps)

lemma replace_all_single:
  "replace_all [c] new (x # s) = (if x = c then new @ replace_all [c] new s else x # replace_all [c] new s)"
  by (subst replace_all.simps) simp

lemma replace_all_single_set: "set (replace_all [c] new s) \<subseteq> (set s - {c}) \<union> set new"
  by (induction s) (auto simp: replace_all_single)

lemma replace_all_shrinks:
  "length new \<le> length pat \<Longrightarrow> length (replace_all pat new s) \<le> length s"
proof (induction pat new s rule: replace_all.induct)
  case (1 pat new s)
  show ?case
  proof (cases "s = []")
    case False
    show ?thesis
    proof (cases "pat \<noteq> [] \<and> take (length pat) s = pat")
      case True
      then have "length pat \<le> length s" by (metis length_take min.cobounded1)
      have "length (replace_all pat new s) = length new + length (replace_all pat new (drop (length pat) s))"
        using True False by (subst replace_all.simps) simp
      with 1(1) [OF False True 1(3)] \<open>length pat \<le> length s\<close> 1(3) show ?thesis
        by simp
    next
      case nomatch: False
      have "length (replace_all pat new s) = Suc (length (replace_all pat new (tl s)))"
        using nomatch False by (subst replace_all.simps) (simp only: if_False if_not_P, simp)
      with 1(2) [OF False nomatch 1(3)] False show ?thesis
        by (cases s) simp_all
    qed
  qed simp
qed

section \<open>Exceptions\<close>

datatype exn_class =
    BaseException | KeyboardInterrupt | TaskCancelled
  | Exception | ValueError | UnicodeError | TypeError | LookupError | KeyError | IndexError
  | OSError | FileNotFoundError | FileExistsError | PermissionError | TimeoutError | ConnectionError
  | RuntimeError | RecursionError | OverflowError | StopIteration
  | ConfigurationError | ProviderResponseError | PluginError | GoalJudgeResponseError
  | WorkerStopped | InvalidStateError

text \<open>The direct base class of each class the code raises or catches.\<close>

fun exn_base :: "exn_class \<Rightarrow> exn_class option" where
  "exn_base BaseException = None"
| "exn_base KeyboardInterrupt = Some BaseException"
| "exn_base TaskCancelled = Some BaseException"
| "exn_base Exception = Some BaseException"
| "exn_base UnicodeError = Some ValueError"
| "exn_base KeyError = Some LookupError"
| "exn_base IndexError = Some LookupError"
| "exn_base FileNotFoundError = Some OSError"
| "exn_base FileExistsError = Some OSError"
| "exn_base PermissionError = Some OSError"
| "exn_base TimeoutError = Some OSError"
| "exn_base ConnectionError = Some OSError"
| "exn_base RecursionError = Some RuntimeError"
| "exn_base ConfigurationError = Some RuntimeError"
| "exn_base ProviderResponseError = Some RuntimeError"
| "exn_base PluginError = Some RuntimeError"
| "exn_base GoalJudgeResponseError = Some RuntimeError"
| "exn_base _ = Some Exception"

datatype exn = Exn (exn_kind: exn_class) (exn_text: pystr)

text \<open>\<open>type(e).__name__\<close>.\<close>

definition exn_class_name :: "exn_class \<Rightarrow> string" where
  "exn_class_name c = (case c of
      BaseException \<Rightarrow> ''BaseException'' | KeyboardInterrupt \<Rightarrow> ''KeyboardInterrupt''
    | TaskCancelled \<Rightarrow> ''TaskCancelled'' | Exception \<Rightarrow> ''Exception'' | ValueError \<Rightarrow> ''ValueError''
    | UnicodeError \<Rightarrow> ''UnicodeError'' | TypeError \<Rightarrow> ''TypeError'' | LookupError \<Rightarrow> ''LookupError''
    | KeyError \<Rightarrow> ''KeyError'' | IndexError \<Rightarrow> ''IndexError'' | OSError \<Rightarrow> ''OSError''
    | FileNotFoundError \<Rightarrow> ''FileNotFoundError'' | FileExistsError \<Rightarrow> ''FileExistsError''
    | PermissionError \<Rightarrow> ''PermissionError'' | TimeoutError \<Rightarrow> ''TimeoutError''
    | RuntimeError \<Rightarrow> ''RuntimeError'' | RecursionError \<Rightarrow> ''RecursionError''
    | OverflowError \<Rightarrow> ''OverflowError'' | StopIteration \<Rightarrow> ''StopIteration''
    | ConfigurationError \<Rightarrow> ''ConfigurationError'' | ProviderResponseError \<Rightarrow> ''ProviderResponseError''
    | PluginError \<Rightarrow> ''PluginError''
    | ConnectionError \<Rightarrow> ''ConnectionError'' | GoalJudgeResponseError \<Rightarrow> ''GoalJudgeResponseError''
    | WorkerStopped \<Rightarrow> ''_WorkerStoppedError'' | InvalidStateError \<Rightarrow> ''InvalidStateError'')"

text \<open>\<open>isinstance(e, C)\<close>; the class hierarchy above is at most four levels deep.\<close>

fun isa_within :: "nat \<Rightarrow> exn_class \<Rightarrow> exn_class \<Rightarrow> bool" where
  "isa_within 0 c d \<longleftrightarrow> c = d"
| "isa_within (Suc n) c d \<longleftrightarrow> c = d \<or> (case exn_base c of None \<Rightarrow> False | Some b \<Rightarrow> isa_within n b d)"

definition isa :: "exn_class \<Rightarrow> exn_class \<Rightarrow> bool" where
  "isa c d = isa_within 4 c d"

definition caught_by :: "exn_class list \<Rightarrow> exn \<Rightarrow> bool" where
  "caught_by cs e \<longleftrightarrow> list_ex (isa (exn_kind e)) cs"

type_synonym 'a result = "exn + 'a"

definition raise :: "exn_class \<Rightarrow> string \<Rightarrow> 'a result" where
  "raise c m = Inl (Exn c (ustr m))"

definition raise_text :: "exn_class \<Rightarrow> pystr \<Rightarrow> 'a result" where
  "raise_text c m = Inl (Exn c m)"

definition bindR :: "'a result \<Rightarrow> ('a \<Rightarrow> 'b result) \<Rightarrow> 'b result" where
  "bindR r f = (case r of Inl e \<Rightarrow> Inl e | Inr x \<Rightarrow> f x)"

text \<open>\<open>except cs as e: raise C(m) from e\<close> around a computation.\<close>

definition rescue :: "exn_class list \<Rightarrow> (exn \<Rightarrow> 'a result) \<Rightarrow> 'a result \<Rightarrow> 'a result" where
  "rescue cs h r = (case r of Inl e \<Rightarrow> if caught_by cs e then h e else Inl e | Inr x \<Rightarrow> Inr x)"

lemma bindR_simps [simp]:
  "bindR (Inl e) f = Inl e"
  "bindR (Inr x) f = f x"
  by (simp_all add: bindR_def)

lemma bindR_Inr_iff: "bindR r f = Inr y \<longleftrightarrow> (\<exists>x. r = Inr x \<and> f x = Inr y)"
  by (cases r) auto

lemma bindR_Inl_iff: "bindR r f = Inl e \<longleftrightarrow> r = Inl e \<or> (\<exists>x. r = Inr x \<and> f x = Inl e)"
  by (cases r) auto

lemma raise_simps [simp]:
  "raise c m \<noteq> Inr x" "Inr x \<noteq> raise c m"
  "raise_text c t \<noteq> Inr x" "Inr x \<noteq> raise_text c t"
  by (simp_all add: raise_def raise_text_def)

lemma bindR_raise [simp]:
  "bindR (raise c m) f = raise c m"
  "bindR (raise_text c t) f = raise_text c t"
  by (simp_all add: raise_def raise_text_def)

lemma isa_refl [simp]: "isa c c"
  by (simp add: isa_def numeral_eq_Suc)

lemma rescue_simps [simp]:
  "rescue cs h (Inr x) = Inr x"
  "rescue cs h (Inl e) = (if caught_by cs e then h e else Inl e)"
  by (simp_all add: rescue_def)

text \<open>Every element through a checker, left to right, stopping at the first exception.\<close>

fun mapR :: "('a \<Rightarrow> 'b result) \<Rightarrow> 'a list \<Rightarrow> 'b list result" where
  "mapR f [] = Inr []"
| "mapR f (x # xs) = bindR (f x) (\<lambda>y. bindR (mapR f xs) (\<lambda>ys. Inr (y # ys)))"

lemma mapR_Inr_iff: "mapR f xs = Inr ys \<longleftrightarrow> list_all2 (\<lambda>x y. f x = Inr y) xs ys"
  by (induction xs arbitrary: ys) (auto simp: bindR_Inr_iff list_all2_Cons1)

lemma mapR_cong [fundef_cong]:
  "xs = ys \<Longrightarrow> (\<And>x. x \<in> set ys \<Longrightarrow> f x = g x) \<Longrightarrow> mapR f xs = mapR g ys"
  by (induction xs arbitrary: ys) auto

lemma mapR_length: "mapR f xs = Inr ys \<Longrightarrow> length ys = length xs"
  by (auto simp: mapR_Inr_iff dest: list_all2_lengthD)

lemma mapR_id: "(\<And>x. x \<in> set xs \<Longrightarrow> f x = Inr (g x)) \<Longrightarrow> mapR f xs = Inr (map g xs)"
  by (induction xs) auto

text \<open>The classes a computation can raise.\<close>

definition only_raises :: "exn_class list \<Rightarrow> 'a result \<Rightarrow> bool" where
  "only_raises cs r \<longleftrightarrow> (\<forall>e. r = Inl e \<longrightarrow> caught_by cs e)"

lemma only_raises_simps [simp]:
  "only_raises cs (Inr x)"
  "only_raises cs (raise c m) = list_ex (isa c) cs" "only_raises cs (raise_text c t) = list_ex (isa c) cs"
  by (auto simp: only_raises_def raise_def raise_text_def caught_by_def)

lemma only_raises_bindR:
  "only_raises cs r \<Longrightarrow> (\<And>x. r = Inr x \<Longrightarrow> only_raises cs (f x)) \<Longrightarrow> only_raises cs (bindR r f)"
  by (cases r) (auto simp: only_raises_def)

lemma only_raises_mapR: "(\<And>x. x \<in> set xs \<Longrightarrow> only_raises cs (f x)) \<Longrightarrow> only_raises cs (mapR f xs)"
  by (induction xs) (auto intro!: only_raises_bindR)

lemma only_raises_rescue:
  "only_raises (ds @ cs) r \<Longrightarrow> (\<And>e. only_raises cs (h e)) \<Longrightarrow> only_raises cs (rescue ds h r)"
  by (cases r) (auto simp: only_raises_def caught_by_def)

lemma only_raises_mono: "only_raises cs r \<Longrightarrow> set cs \<subseteq> set ds \<Longrightarrow> only_raises ds r"
  by (auto simp: only_raises_def caught_by_def list_ex_iff)

lemma total_iff: "only_raises [] r \<longleftrightarrow> (\<exists>x. r = Inr x)"
  by (cases r) (auto simp: only_raises_def caught_by_def)

section \<open>State with exceptions\<close>

type_synonym ('s, 'a) eff = "'s \<Rightarrow> 's \<times> 'a result"

definition retS :: "'a \<Rightarrow> ('s, 'a) eff" where
  "retS x s = (s, Inr x)"

definition bindS :: "('s, 'a) eff \<Rightarrow> ('a \<Rightarrow> ('s, 'b) eff) \<Rightarrow> ('s, 'b) eff" where
  "bindS m f s = (case m s of (s', Inl e) \<Rightarrow> (s', Inl e) | (s', Inr x) \<Rightarrow> f x s')"

definition thenS :: "('s, 'a) eff \<Rightarrow> ('s, 'b) eff \<Rightarrow> ('s, 'b) eff" where
  "thenS m n = bindS m (\<lambda>_. n)"

definition liftR :: "'a result \<Rightarrow> ('s, 'a) eff" where
  "liftR r s = (s, r)"

definition modS :: "('s \<Rightarrow> 's) \<Rightarrow> ('s, unit) eff" where
  "modS f s = (f s, Inr ())"

definition getS :: "('s \<Rightarrow> ('s, 'a) eff) \<Rightarrow> ('s, 'a) eff" where
  "getS f s = f s s"

text \<open>\<open>try: m finally: n\<close>; an exception of \<open>n\<close> replaces the outcome of \<open>m\<close>.\<close>

definition finallyS :: "('s, 'a) eff \<Rightarrow> ('s, unit) eff \<Rightarrow> ('s, 'a) eff" where
  "finallyS m n s = (case m s of (s1, r) \<Rightarrow>
     (case n s1 of (s2, Inl e) \<Rightarrow> (s2, Inl e) | (s2, Inr _) \<Rightarrow> (s2, r)))"

text \<open>\<open>try: m except cs as e: h e\<close>.\<close>

definition rescueS :: "exn_class list \<Rightarrow> (exn \<Rightarrow> ('s, 'a) eff) \<Rightarrow> ('s, 'a) eff \<Rightarrow> ('s, 'a) eff" where
  "rescueS cs h m s = (case m s of (s1, Inl e) \<Rightarrow> if caught_by cs e then h e s1 else (s1, Inl e)
     | (s1, Inr x) \<Rightarrow> (s1, Inr x))"

fun forS :: "'a list \<Rightarrow> ('a \<Rightarrow> ('s, unit) eff) \<Rightarrow> ('s, unit) eff" where
  "forS [] f = retS ()"
| "forS (x # xs) f = bindS (f x) (\<lambda>_. forS xs f)"

lemmas eff_defs = retS_def bindS_def thenS_def liftR_def modS_def getS_def finallyS_def rescueS_def

lemma retS_simp [simp]: "retS x s = (s, Inr x)"
  by (simp add: retS_def)

lemma liftR_simp [simp]: "liftR r s = (s, r)"
  by (simp add: liftR_def)

lemma modS_simp [simp]: "modS f s = (f s, Inr ())"
  by (simp add: modS_def)

lemma getS_simp [simp]: "getS f s = f s s"
  by (simp add: getS_def)

lemma bindS_Inl [simp]: "m s = (s', Inl e) \<Longrightarrow> bindS m f s = (s', Inl e)"
  by (simp add: bindS_def)

lemma bindS_Inr [simp]: "m s = (s', Inr x) \<Longrightarrow> bindS m f s = f x s'"
  by (simp add: bindS_def)

text \<open>What every step keeps, a sequence of steps keeps, whichever way it ends.\<close>

definition keeps :: "('s \<Rightarrow> bool) \<Rightarrow> ('s, 'a) eff \<Rightarrow> bool" where
  "keeps I m \<longleftrightarrow> (\<forall>s. I s \<longrightarrow> I (fst (m s)))"

lemma keepsI: "(\<And>s. I s \<Longrightarrow> I (fst (m s))) \<Longrightarrow> keeps I m"
  by (simp add: keeps_def)

lemma keepsD: "keeps I m \<Longrightarrow> I s \<Longrightarrow> I (fst (m s))"
  by (simp add: keeps_def)

lemma keeps_ret [intro, simp]: "keeps I (retS x)"
  by (simp add: keeps_def)

lemma keeps_lift [intro, simp]: "keeps I (liftR r)"
  by (simp add: keeps_def)

lemma keeps_mod [intro]: "(\<And>s. I s \<Longrightarrow> I (f s)) \<Longrightarrow> keeps I (modS f)"
  by (simp add: keeps_def)

lemma keeps_get [intro]: "(\<And>s. I s \<Longrightarrow> keeps I (f s)) \<Longrightarrow> keeps I (getS f)"
  by (simp add: keeps_def)

lemma keeps_bind [intro]: "keeps I m \<Longrightarrow> (\<And>x. keeps I (f x)) \<Longrightarrow> keeps I (bindS m f)"
proof (rule keepsI)
  fix s
  assume m: "keeps I m" and f: "\<And>x. keeps I (f x)" and "I s"
  obtain s1 r where s1: "m s = (s1, r)" by (cases "m s")
  have "I s1" using keepsD [OF m \<open>I s\<close>] by (simp add: s1)
  with f show "I (fst (bindS m f s))"
    by (cases r) (simp_all add: bindS_def s1 keepsD)
qed

lemma keeps_then [intro]: "keeps I m \<Longrightarrow> keeps I n \<Longrightarrow> keeps I (thenS m n)"
  unfolding thenS_def by (intro keeps_bind)

lemma keeps_finally [intro]: "keeps I m \<Longrightarrow> keeps I n \<Longrightarrow> keeps I (finallyS m n)"
proof (rule keepsI)
  fix s
  assume m: "keeps I m" and n: "keeps I n" and "I s"
  obtain s1 r where s1: "m s = (s1, r)" by (cases "m s")
  obtain s2 r' where s2: "n s1 = (s2, r')" by (cases "n s1")
  have "I s1" using keepsD [OF m \<open>I s\<close>] by (simp add: s1)
  then have "I s2" using keepsD [OF n, of s1] by (simp add: s2)
  then show "I (fst (finallyS m n s))"
    by (cases r') (simp_all add: finallyS_def s1 s2)
qed

lemma keeps_rescue [intro]: "keeps I m \<Longrightarrow> (\<And>e. keeps I (h e)) \<Longrightarrow> keeps I (rescueS cs h m)"
proof (rule keepsI)
  fix s
  assume m: "keeps I m" and h: "\<And>e. keeps I (h e)" and "I s"
  obtain s1 r where s1: "m s = (s1, r)" by (cases "m s")
  have "I s1" using keepsD [OF m \<open>I s\<close>] by (simp add: s1)
  with h show "I (fst (rescueS cs h m s))"
    by (cases r) (simp_all add: rescueS_def s1 keepsD)
qed

lemma keeps_for [intro]: "(\<And>x. x \<in> set xs \<Longrightarrow> keeps I (f x)) \<Longrightarrow> keeps I (forS xs f)"
  by (induction xs) auto

lemma keeps_if [intro]: "(b \<Longrightarrow> keeps I m) \<Longrightarrow> (\<not> b \<Longrightarrow> keeps I n) \<Longrightarrow> keeps I (if b then m else n)"
  by simp

lemma keeps_option [intro]:
  "(x = None \<Longrightarrow> keeps I m) \<Longrightarrow> (\<And>y. x = Some y \<Longrightarrow> keeps I (f y)) \<Longrightarrow>
     keeps I (case x of None \<Rightarrow> m | Some y \<Rightarrow> f y)"
  by (cases x) simp_all

lemma keeps_sum [intro]:
  "(\<And>y. x = Inl y \<Longrightarrow> keeps I (f y)) \<Longrightarrow> (\<And>y. x = Inr y \<Longrightarrow> keeps I (g y)) \<Longrightarrow>
     keeps I (case x of Inl y \<Rightarrow> f y | Inr y \<Rightarrow> g y)"
  by (cases x) simp_all

lemma keeps_pair [intro]: "(\<And>y z. x = (y, z) \<Longrightarrow> keeps I (f y z)) \<Longrightarrow> keeps I (case x of (y, z) \<Rightarrow> f y z)"
  by (cases x) simp

lemma keeps_let [intro]: "keeps I (f x) \<Longrightarrow> keeps I (Let x f)"
  by simp

lemmas keeps_rules = keeps_bind keeps_rescue keeps_for keeps_if keeps_option keeps_sum keeps_pair
  keeps_let keeps_get keeps_ret keeps_lift

section \<open>Loops\<close>

text \<open>
  A loop whose length the code does not bound runs on fuel: \<open>None\<close> is a run that has not ended
  yet, so that the claim that a loop ends is the claim that some fuel gives \<open>Some\<close>.
\<close>

type_synonym ('s, 'a) loop = "'s \<Rightarrow> ('s \<times> 'a result) option"

definition onceL :: "('s, 'a) eff \<Rightarrow> ('s, 'a) loop" where
  "onceL m s = Some (m s)"

definition bindL :: "('s, 'a) loop \<Rightarrow> ('a \<Rightarrow> ('s, 'b) loop) \<Rightarrow> ('s, 'b) loop" where
  "bindL m f s = (case m s of None \<Rightarrow> None
     | Some (s', Inl e) \<Rightarrow> Some (s', Inl e)
     | Some (s', Inr x) \<Rightarrow> f x s')"

lemma onceL_simp [simp]: "onceL m s = Some (m s)"
  by (simp add: onceL_def)

lemma bindL_SomeE:
  assumes "bindL m f s = Some (s', r)"
  obtains (failed) e where "m s = Some (s', Inl e)" "r = Inl e"
    | (next_step) s1 x where "m s = Some (s1, Inr x)" "f x s1 = Some (s', r)"
  using assms by (auto simp: bindL_def split: option.splits prod.splits sum.splits)

definition keepsL :: "('s \<Rightarrow> bool) \<Rightarrow> ('s, 'a) loop \<Rightarrow> bool" where
  "keepsL I m \<longleftrightarrow> (\<forall>s s' r. I s \<longrightarrow> m s = Some (s', r) \<longrightarrow> I s')"

lemma keepsL_once [intro]: "keeps I m \<Longrightarrow> keepsL I (onceL m)"
  unfolding keepsL_def keeps_def onceL_def by (metis fst_conv option.inject)

lemma keepsL_bind [intro]: "keepsL I m \<Longrightarrow> (\<And>x. keepsL I (f x)) \<Longrightarrow> keepsL I (bindL m f)"
proof (unfold keepsL_def, intro allI impI)
  fix s s' r
  assume m: "\<forall>s s' r. I s \<longrightarrow> m s = Some (s', r) \<longrightarrow> I s'"
    and f: "\<And>x. \<forall>s s' r. I s \<longrightarrow> f x s = Some (s', r) \<longrightarrow> I s'"
    and "I s" "bindL m f s = Some (s', r)"
  from this(4) show "I s'"
    by (cases rule: bindL_SomeE) (use m f \<open>I s\<close> in blast)+
qed

lemma keepsL_if [intro]: "(b \<Longrightarrow> keepsL I m) \<Longrightarrow> (\<not> b \<Longrightarrow> keepsL I n) \<Longrightarrow> keepsL I (if b then m else n)"
  by simp

lemma keepsL_option [intro]:
  "(x = None \<Longrightarrow> keepsL I m) \<Longrightarrow> (\<And>y. x = Some y \<Longrightarrow> keepsL I (f y)) \<Longrightarrow>
     keepsL I (case x of None \<Rightarrow> m | Some y \<Rightarrow> f y)"
  by (cases x) simp_all

section \<open>Dictionaries\<close>

type_synonym ('k, 'v) dict = "('k \<times> 'v) list"

definition keys :: "('k, 'v) dict \<Rightarrow> 'k list" where
  "keys d = map fst d"

definition has_key :: "('k, 'v) dict \<Rightarrow> 'k \<Rightarrow> bool" where
  "has_key d k \<longleftrightarrow> k \<in> set (keys d)"

definition dict_ok :: "('k, 'v) dict \<Rightarrow> bool" where
  "dict_ok d \<longleftrightarrow> distinct (keys d)"

lemma has_key_iff: "has_key d k \<longleftrightarrow> map_of d k \<noteq> None"
  by (simp add: has_key_def keys_def map_of_eq_None_iff)

lemma dict_ok_Nil [simp]: "dict_ok []"
  by (simp add: dict_ok_def keys_def)

lemma dict_ok_update [intro, simp]: "dict_ok d \<Longrightarrow> dict_ok (AList.update k v d)"
  by (simp add: dict_ok_def keys_def distinct_update)

lemma dict_ok_delete [intro, simp]: "dict_ok d \<Longrightarrow> dict_ok (AList.delete k d)"
  by (simp add: dict_ok_def keys_def distinct_delete)

lemma dict_get_update [simp]: "map_of (AList.update k v d) = (map_of d)(k \<mapsto> v)"
  by (rule update_conv')

lemma dict_get_delete [simp]: "map_of (AList.delete k d) = (map_of d)(k := None)"
  by (rule delete_conv')

section \<open>Lists\<close>

text \<open>\<open>xs[i]\<close>: negative indices count from the end, others out of range raise.\<close>

definition py_nth :: "'a list \<Rightarrow> int \<Rightarrow> 'a result" where
  "py_nth xs i = (let size = int (length xs); place = (if 0 \<le> i then i else i + size)
     in if place < 0 \<or> size \<le> place then raise IndexError ''list index out of range''
        else Inr (xs ! nat place))"

lemma py_nth_nat [simp]: "k < length xs \<Longrightarrow> py_nth xs (int k) = Inr (xs ! k)"
  by (simp add: py_nth_def Let_def)

text \<open>\<open>max(low, min(v, high))\<close>.\<close>

definition clamp :: "int \<Rightarrow> int \<Rightarrow> int \<Rightarrow> int" where
  "clamp low high v = max low (min v high)"

lemma clamp_in: "low \<le> high \<Longrightarrow> clamp low high v \<in> {low..high}"
  by (auto simp: clamp_def)

lemma find_SomeD: "List.find P xs = Some x \<Longrightarrow> x \<in> set xs \<and> P x"
  by (induction xs) (auto split: if_splits)

lemma sorted_wrt_append_single:
  "sorted_wrt R (xs @ [x]) \<longleftrightarrow> sorted_wrt R xs \<and> (\<forall>y\<in>set xs. R y x)"
  by (simp add: sorted_wrt_append)

end
