(* ===== verification/Py_Value.thy ===== *)
theory Py_Value
  imports Complex_Main Py_Prelude
begin

text \<open>
  The unknown values (\<open>object\<close>) the validators inspect. Dictionaries keep insertion order and
  may have keys that are not text; \<open>VProxy\<close> is \<open>MappingProxyType\<close>, the other \<open>Mapping\<close> the
  code builds; \<open>VOther\<close> stands for any object of another class (a callable, a set). A float
  is a rational, an infinity or NaN; \<open>float_of_int\<close> is Python's conversion, which rounds to
  53 significant bits, ties to even, and raises \<open>OverflowError\<close> beyond the largest double.
\<close>

datatype pyfloat = Fin rat | PosInf | NegInf | NaN

datatype pyval =
    VNone
  | VBool bool
  | VInt int
  | VFloat pyfloat
  | VStr pystr
  | VList "pyval list"
  | VTuple "pyval list"
  | VDict "(pyval \<times> pyval) list"
  | VProxy "(pyval \<times> pyval) list"
  | VOther nat

type_synonym fields = "(pystr \<times> pyval) list"

fun is_text :: "pyval \<Rightarrow> bool" where
  "is_text (VStr _) = True"
| "is_text _ = False"

fun the_text :: "pyval \<Rightarrow> pystr" where
  "the_text (VStr s) = s"
| "the_text _ = []"

definition text_keys :: "(pyval \<times> pyval) list \<Rightarrow> fields option" where
  "text_keys d = (if list_all (\<lambda>p. is_text (fst p)) d
     then Some (map (\<lambda>p. (the_text (fst p), snd p)) d) else None)"

definition dict_of :: "fields \<Rightarrow> pyval" where
  "dict_of fs = VDict (map (\<lambda>p. (VStr (fst p), snd p)) fs)"

text \<open>\<open>bool(v)\<close>; an object of another class counts as true.\<close>

fun truthy :: "pyval \<Rightarrow> bool" where
  "truthy VNone = False"
| "truthy (VBool b) = b"
| "truthy (VInt i) = (i \<noteq> 0)"
| "truthy (VFloat f) = (f \<noteq> Fin 0)"
| "truthy (VStr s) = (s \<noteq> [])"
| "truthy (VList xs) = (xs \<noteq> [])"
| "truthy (VTuple xs) = (xs \<noteq> [])"
| "truthy (VDict d) = (d \<noteq> [])"
| "truthy (VProxy d) = (d \<noteq> [])"
| "truthy (VOther n) = True"

lemma is_text_iff: "is_text v \<longleftrightarrow> (\<exists>s. v = VStr s)"
  by (cases v) auto

lemma text_keys_map [simp]: "text_keys (map (\<lambda>p. (VStr (fst p), snd p)) fs) = Some fs"
  by (simp add: text_keys_def list_all_iff comp_def)

lemma text_keys_SomeD: "text_keys d = Some fs \<Longrightarrow> d = map (\<lambda>p. (VStr (fst p), snd p)) fs"
proof -
  assume "text_keys d = Some fs"
  then have all: "\<forall>p\<in>set d. is_text (fst p)"
    and fs: "fs = map (\<lambda>p. (the_text (fst p), snd p)) d"
    by (auto simp: text_keys_def list_all_iff split: if_splits)
  have "map (\<lambda>p. (VStr (fst p), snd p)) fs = map (\<lambda>p. p) d"
    unfolding fs map_map comp_def
    by (rule map_cong [OF refl]) (use all in \<open>auto simp: is_text_iff\<close>)
  then show ?thesis by simp
qed

lemma text_keys_Some_iff: "text_keys d = Some fs \<longleftrightarrow> d = map (\<lambda>p. (VStr (fst p), snd p)) fs"
  using text_keys_SomeD by auto

lemma text_keys_None_iff: "text_keys d = None \<longleftrightarrow> (\<exists>p\<in>set d. \<not> is_text (fst p))"
  by (auto simp: text_keys_def list_all_iff)

text \<open>\<open>d[k]\<close>: the stored value, or \<open>KeyError\<close>.\<close>

definition item :: "fields \<Rightarrow> string \<Rightarrow> pyval result" where
  "item d k = (case map_of d (ustr k) of None \<Rightarrow> raise KeyError k | Some v \<Rightarrow> Inr v)"

text \<open>\<open>d.get(k)\<close>.\<close>

definition get :: "fields \<Rightarrow> string \<Rightarrow> pyval" where
  "get d k = (case map_of d (ustr k) of None \<Rightarrow> VNone | Some v \<Rightarrow> v)"

lemma item_Inr_iff: "item d k = Inr v \<longleftrightarrow> map_of d (ustr k) = Some v"
  by (simp add: item_def split: option.splits)

section \<open>Integers as floats\<close>

fun bit_length :: "nat \<Rightarrow> nat" where
  "bit_length n = (if n = 0 then 0 else Suc (bit_length (n div 2)))"

declare bit_length.simps [simp del]

definition round_half_even :: "nat \<Rightarrow> nat \<Rightarrow> nat" where
  "round_half_even m e =
     (let q = m div 2 ^ e; r = m mod 2 ^ e
      in if 2 * r > 2 ^ e \<or> (2 * r = 2 ^ e \<and> odd q) then Suc q else q)"

definition float_of_nat :: "nat \<Rightarrow> nat option" where
  "float_of_nat m =
     (if bit_length m \<le> 53 then Some m
      else let e = bit_length m - 53; v = round_half_even m e * 2 ^ e
           in if v < 2 ^ 1024 then Some v else None)"

definition float_of_int :: "int \<Rightarrow> rat option" where
  "float_of_int i =
     (case float_of_nat (nat \<bar>i\<bar>) of None \<Rightarrow> None
      | Some v \<Rightarrow> Some (if i < 0 then - of_nat v else of_nat v))"

lemma bit_length_bounds: "0 < n \<Longrightarrow> 2 ^ (bit_length n - 1) \<le> n \<and> n < 2 ^ bit_length n"
proof (induction n rule: bit_length.induct)
  case (1 n)
  show ?case
  proof (cases "n div 2 = 0")
    case True
    with "1.prems" have "n = 1" by auto
    then show ?thesis by (simp add: bit_length.simps)
  next
    case False
    with "1.IH" "1.prems" have b: "2 ^ (bit_length (n div 2) - 1) \<le> n div 2"
      "n div 2 < 2 ^ bit_length (n div 2)" by auto
    from False have "bit_length (n div 2) \<noteq> 0"
      by (subst bit_length.simps) simp
    then obtain k where k: "bit_length (n div 2) = Suc k" by (cases "bit_length (n div 2)") auto
    from b k have "2 * 2 ^ k \<le> n" "n < 2 * (2 * 2 ^ k)" by auto
    moreover have "bit_length n = Suc (Suc k)"
      using "1.prems" k by (subst bit_length.simps) simp
    ultimately show ?thesis by simp
  qed
qed

lemma round_half_even_ge: "m div 2 ^ e \<le> round_half_even m e"
  by (simp add: round_half_even_def Let_def)

lemma float_of_nat_pos: "float_of_nat m = Some v \<Longrightarrow> (0 < v) = (0 < m)"
proof -
  assume v: "float_of_nat m = Some v"
  show ?thesis
  proof (cases "bit_length m \<le> 53")
    case True
    with v show ?thesis by (simp add: float_of_nat_def)
  next
    case False
    define e where "e = bit_length m - 53"
    have pos: "0 < m" using False by (cases "m = 0") (simp_all add: bit_length.simps)
    have "2 ^ e \<le> m"
      using bit_length_bounds [OF pos] False unfolding e_def
      by (meson diff_le_mono2 le_trans one_le_numeral power_increasing)
    then have "0 < m div 2 ^ e" by (simp add: div_greater_zero_iff)
    then have "0 < round_half_even m e"
      using round_half_even_ge [of m e] by linarith
    moreover have "v = round_half_even m e * 2 ^ e"
      using v False by (simp add: float_of_nat_def Let_def e_def [symmetric] split: if_splits)
    ultimately show ?thesis using pos by simp
  qed
qed

lemma float_of_int_exact: "\<bar>i\<bar> < 2 ^ 53 \<Longrightarrow> float_of_int i = Some (of_int i)"
proof -
  assume small: "\<bar>i\<bar> < 2 ^ 53"
  have "bit_length (nat \<bar>i\<bar>) \<le> 53"
  proof (cases "nat \<bar>i\<bar> = 0")
    case True
    then show ?thesis by (simp add: bit_length.simps)
  next
    case False
    then have "2 ^ (bit_length (nat \<bar>i\<bar>) - 1) \<le> nat \<bar>i\<bar>"
      using bit_length_bounds by blast
    also have "nat \<bar>i\<bar> < nat (2 ^ 53)" using small by (subst nat_less_eq_zless) simp_all
    also have "nat (2 ^ 53) = 2 ^ 53" by simp
    finally have "(2::nat) ^ (bit_length (nat \<bar>i\<bar>) - 1) < 2 ^ 53" .
    then show ?thesis
      using power_less_imp_less_exp [of "2::nat" "bit_length (nat \<bar>i\<bar>) - 1" 53] by simp
  qed
  then show ?thesis
    by (simp add: float_of_int_def float_of_nat_def)
qed

lemma float_of_int_sign:
  "float_of_int i = Some x \<Longrightarrow> (0 < x) = (0 < i)"
  "float_of_int i = Some x \<Longrightarrow> (0 \<le> x) = (0 \<le> i)"
proof -
  assume "float_of_int i = Some x"
  then obtain v where v: "float_of_nat (nat \<bar>i\<bar>) = Some v"
    and x: "x = (if i < 0 then - of_nat v else of_nat v)"
    by (auto simp: float_of_int_def split: option.splits)
  from float_of_nat_pos [OF v] x
  show "(0 < x) = (0 < i)" by (auto split: if_splits)
  from float_of_nat_pos [OF v] x
  show "(0 \<le> x) = (0 \<le> i)" by (auto split: if_splits)
qed

text \<open>\<open>float(value)\<close> of a built-in number; \<open>None\<close> is \<open>OverflowError\<close>.\<close>

definition finite_float :: "pyfloat \<Rightarrow> bool" where
  "finite_float f \<longleftrightarrow> (case f of Fin _ \<Rightarrow> True | _ \<Rightarrow> False)"

end
