(* ===== verification/Validation.thy ===== *)
theory Validation
  imports Py_Value
begin

text \<open>
  \<open>raychat/validation.py\<close>: the checkers that turn an unknown value into a typed field or raise
  \<open>ConfigurationError\<close> with the schema path, the detaching and freezing of JSON settings, and
  the two hooks that make \<open>json.loads\<close> strict (no repeated key, no non-finite constant). The
  decoder itself is the standard library's: \<open>rawjson\<close> is the parse tree it hands to the hooks.
\<close>

section \<open>Field checkers\<close>

definition array_field :: "pyval \<Rightarrow> pystr \<Rightarrow> pyval list result" where
  "array_field v path = (case v of VList xs \<Rightarrow> Inr xs
     | _ \<Rightarrow> raise_text ConfigurationError (path @ ustr '' must be an array.''))"

definition configuration_fields :: "pyval \<Rightarrow> pystr \<Rightarrow> fields result" where
  "configuration_fields v path =
     (let checked = (\<lambda>d. case text_keys d of
            None \<Rightarrow> raise_text ConfigurationError (path @ ustr '' must contain only string keys.'')
          | Some fs \<Rightarrow> Inr fs)
      in case v of VDict d \<Rightarrow> checked d | VProxy d \<Rightarrow> checked d
         | _ \<Rightarrow> raise_text ConfigurationError (path @ ustr '' must be an object.''))"

definition object_field :: "pyval \<Rightarrow> pystr \<Rightarrow> fields result" where
  "object_field v path = (case v of
       VDict d \<Rightarrow> (case text_keys d of
            None \<Rightarrow> raise_text ConfigurationError (path @ ustr '' must contain only string keys.'')
          | Some fs \<Rightarrow> Inr fs)
     | _ \<Rightarrow> raise_text ConfigurationError (path @ ustr '' must be a JSON object.''))"

definition text_field :: "bool \<Rightarrow> bool \<Rightarrow> pyval \<Rightarrow> pystr \<Rightarrow> pystr option result" where
  "text_field nullable allow_empty v path =
     (if nullable \<and> v = VNone then Inr None
      else case v of
          VStr s \<Rightarrow> if s = [] \<and> \<not> allow_empty
            then raise_text ConfigurationError (path @ ustr '' must be nonempty text.'')
            else Inr (Some s)
        | _ \<Rightarrow> raise_text ConfigurationError (path @ ustr '' must be nonempty text.''))"

text \<open>The two overloads that cannot return \<open>None\<close>.\<close>

definition required_text :: "pyval \<Rightarrow> pystr \<Rightarrow> pystr result" where
  "required_text v path = bindR (text_field False False v path) (\<lambda>t. case t of
     Some s \<Rightarrow> Inr s | None \<Rightarrow> Inr [])"

definition any_text :: "pyval \<Rightarrow> pystr \<Rightarrow> pystr result" where
  "any_text v path = bindR (text_field False True v path) (\<lambda>t. case t of
     Some s \<Rightarrow> Inr s | None \<Rightarrow> Inr [])"

definition boolean_field :: "pyval \<Rightarrow> pystr \<Rightarrow> bool result" where
  "boolean_field v path = (case v of VBool b \<Rightarrow> Inr b
     | _ \<Rightarrow> raise_text ConfigurationError (path @ ustr '' must be a boolean.''))"

definition integer_field :: "int option \<Rightarrow> pyval \<Rightarrow> pystr \<Rightarrow> int result" where
  "integer_field minimum v path =
     (let bound = (case minimum of None \<Rightarrow> [] | Some m \<Rightarrow> ustr '' of at least '' @ str_int m);
          failure = raise_text ConfigurationError
            (path @ ustr '' must be an integer'' @ bound @ ustr ''.'')
      in case v of
          VInt i \<Rightarrow> (case minimum of Some m \<Rightarrow> if i < m then failure else Inr i | None \<Rightarrow> Inr i)
        | _ \<Rightarrow> failure)"

text \<open>\<open>shown\<close> is how \<open>str\<close> prints the lower bound.\<close>

definition number_field :: "rat \<Rightarrow> pystr \<Rightarrow> pyval \<Rightarrow> pystr \<Rightarrow> rat result" where
  "number_field minimum shown v path =
     (let failure = raise_text ConfigurationError
            (path @ ustr '' must be a finite number above '' @ shown @ ustr ''.'');
          bounded = (\<lambda>x. if x \<le> minimum then failure else Inr x)
      in case v of
          VInt i \<Rightarrow> (case float_of_int i of None \<Rightarrow> failure | Some x \<Rightarrow> bounded x)
        | VFloat f \<Rightarrow> (case f of Fin x \<Rightarrow> bounded x | _ \<Rightarrow> failure)
        | _ \<Rightarrow> failure)"

definition finite_timeout :: "bool \<Rightarrow> pyval \<Rightarrow> bool" where
  "finite_timeout allow_zero v =
     (let accept = (\<lambda>x::rat. if allow_zero then 0 \<le> x else 0 < x)
      in case v of
          VInt i \<Rightarrow> (case float_of_int i of None \<Rightarrow> False | Some x \<Rightarrow> accept x)
        | VFloat f \<Rightarrow> (case f of Fin x \<Rightarrow> accept x | _ \<Rightarrow> False)
        | _ \<Rightarrow> False)"

definition string_list_field :: "bool \<Rightarrow> pyval \<Rightarrow> pystr \<Rightarrow> pystr list result" where
  "string_list_field allow_empty v path =
     (let failure = raise_text ConfigurationError
            (path @ ustr '' must be a list of nonempty strings.'')
      in case v of
          VList xs \<Rightarrow>
            if (\<not> allow_empty \<and> xs = []) \<or> \<not> list_all (\<lambda>x. is_text x \<and> the_text x \<noteq> []) xs
            then failure else Inr (map the_text xs)
        | _ \<Rightarrow> failure)"

lemma array_field_Inr_iff: "array_field v path = Inr xs \<longleftrightarrow> v = VList xs"
  by (auto simp: array_field_def split: pyval.splits)

lemma object_field_Inr_iff: "object_field v path = Inr fs \<longleftrightarrow> v = dict_of fs"
  by (auto simp: object_field_def dict_of_def split: pyval.splits option.splits
      dest: text_keys_SomeD)

lemma configuration_fields_Inr_iff:
  "configuration_fields v path = Inr fs \<longleftrightarrow>
     (\<exists>d. (v = VDict d \<or> v = VProxy d) \<and> text_keys d = Some fs)"
  by (auto simp: configuration_fields_def Let_def split: pyval.splits option.splits)

lemma required_text_Inr_iff: "required_text v path = Inr s \<longleftrightarrow> v = VStr s \<and> s \<noteq> []"
  by (auto simp: required_text_def text_field_def bindR_Inr_iff
      split: pyval.splits if_splits option.splits)

lemma any_text_Inr_iff: "any_text v path = Inr s \<longleftrightarrow> v = VStr s"
  by (auto simp: any_text_def text_field_def bindR_Inr_iff
      split: pyval.splits if_splits option.splits)

lemma boolean_field_Inr_iff: "boolean_field v path = Inr b \<longleftrightarrow> v = VBool b"
  by (auto simp: boolean_field_def split: pyval.splits)

lemma integer_field_Inr_iff:
  "integer_field m v path = Inr i \<longleftrightarrow> v = VInt i \<and> (\<forall>lo. m = Some lo \<longrightarrow> lo \<le> i)"
  by (auto simp: integer_field_def Let_def split: pyval.splits option.splits if_splits)

lemma string_list_field_Inr_iff:
  "string_list_field e v path = Inr ss \<longleftrightarrow>
     v = VList (map VStr ss) \<and> [] \<notin> set ss \<and> (ss = [] \<longrightarrow> e)"
proof -
  have "list_all (\<lambda>x. is_text x \<and> the_text x \<noteq> []) xs \<and> map the_text xs = ss \<longleftrightarrow>
        xs = map VStr ss \<and> [] \<notin> set ss" for xs
  proof (induction xs arbitrary: ss)
    case Nil
    then show ?case by auto
  next
    case (Cons x xs)
    then show ?case by (cases ss; cases x) auto
  qed
  note elems = this
  show ?thesis
  proof (cases v)
    case (VList xs)
    have "string_list_field e v path = Inr ss \<longleftrightarrow>
        \<not> (\<not> e \<and> xs = []) \<and> (list_all (\<lambda>x. is_text x \<and> the_text x \<noteq> []) xs \<and> map the_text xs = ss)"
      by (simp add: string_list_field_def VList Let_def)
    also have "\<dots> \<longleftrightarrow> VList xs = VList (map VStr ss) \<and> [] \<notin> set ss \<and> (ss = [] \<longrightarrow> e)"
      unfolding elems by auto
    finally show ?thesis unfolding VList .
  qed (simp_all add: string_list_field_def Let_def)
qed

lemmas field_Inr_iffs = array_field_Inr_iff object_field_Inr_iff configuration_fields_Inr_iff
  required_text_Inr_iff any_text_Inr_iff boolean_field_Inr_iff integer_field_Inr_iff
  string_list_field_Inr_iff

text \<open>Every checker fails with \<open>ConfigurationError\<close> and with nothing else.\<close>

definition config_failure :: "'a result \<Rightarrow> bool" where
  "config_failure r \<longleftrightarrow> (case r of Inl e \<Rightarrow> exn_kind e = ConfigurationError | Inr _ \<Rightarrow> True)"

lemma config_failure_raise [simp]: "config_failure (raise_text ConfigurationError t)"
  by (simp add: config_failure_def raise_text_def)

lemma config_failure_Inr [simp]: "config_failure (Inr x)"
  by (simp add: config_failure_def)

lemma config_failure_bind:
  "config_failure r \<Longrightarrow> (\<And>x. r = Inr x \<Longrightarrow> config_failure (f x)) \<Longrightarrow> config_failure (bindR r f)"
  by (cases r) (auto simp: config_failure_def)

lemma field_failures:
  "config_failure (array_field v p)" "config_failure (object_field v p)"
  "config_failure (configuration_fields v p)" "config_failure (text_field n e v p)"
  "config_failure (boolean_field v p)" "config_failure (integer_field m v p)"
  "config_failure (number_field lo sh v p)" "config_failure (string_list_field e v p)"
  by (auto simp: array_field_def object_field_def configuration_fields_def text_field_def
      boolean_field_def integer_field_def number_field_def string_list_field_def Let_def
      split: pyval.splits option.splits pyfloat.splits)

section \<open>Detaching and freezing\<close>

fun plain :: "pyval \<Rightarrow> pyval" where
  "plain (VDict d) = VDict (map (\<lambda>(k, x). (k, plain x)) d)"
| "plain (VProxy d) = VDict (map (\<lambda>(k, x). (k, plain x)) d)"
| "plain (VList xs) = VList (map plain xs)"
| "plain (VTuple xs) = VList (map plain xs)"
| "plain v = v"

text \<open>
  The recursion writes the two comprehensions out: \<open>freeze_items\<close> freezes the fields of a
  mapping in order, \<open>freeze_elems\<close> the elements of a list with their index.
\<close>

fun freeze_settings :: "pyval \<Rightarrow> pystr \<Rightarrow> pyval result"
  and freeze_items :: "(pyval \<times> pyval) list \<Rightarrow> pystr \<Rightarrow> (pyval \<times> pyval) list result"
  and freeze_elems :: "pyval list \<Rightarrow> nat \<Rightarrow> pystr \<Rightarrow> pyval list result" where
  "freeze_settings (VDict d) path =
     bindR (configuration_fields (VDict d) path)
       (\<lambda>_. bindR (freeze_items d path) (\<lambda>d'. Inr (VProxy d')))"
| "freeze_settings (VProxy d) path =
     bindR (configuration_fields (VProxy d) path)
       (\<lambda>_. bindR (freeze_items d path) (\<lambda>d'. Inr (VProxy d')))"
| "freeze_settings (VList xs) path = bindR (freeze_elems xs 0 path) (\<lambda>ys. Inr (VTuple ys))"
| "freeze_settings VNone path = Inr VNone"
| "freeze_settings (VBool b) path = Inr (VBool b)"
| "freeze_settings (VInt i) path = Inr (VInt i)"
| "freeze_settings (VStr s) path = Inr (VStr s)"
| "freeze_settings (VFloat f) path =
     (if finite_float f then Inr (VFloat f)
      else raise_text ConfigurationError (path @ ustr '' must contain finite JSON values.''))"
| "freeze_settings v path =
     raise_text ConfigurationError (path @ ustr '' must contain finite JSON values.'')"
| "freeze_items [] path = Inr []"
| "freeze_items ((k, x) # d) path =
     bindR (freeze_settings x (path @ ustr ''.'' @ the_text k))
       (\<lambda>y. bindR (freeze_items d path) (\<lambda>d'. Inr ((k, y) # d')))"
| "freeze_elems [] i path = Inr []"
| "freeze_elems (x # xs) i path =
     bindR (freeze_settings x (path @ ustr ''['' @ str_int (int i) @ ustr '']''))
       (\<lambda>y. bindR (freeze_elems xs (Suc i) path) (\<lambda>ys. Inr (y # ys)))"

definition frozen_fields :: "pyval \<Rightarrow> pystr \<Rightarrow> fields result" where
  "frozen_fields v path =
     bindR (freeze_settings (plain v) path) (\<lambda>f. configuration_fields f path)"

text \<open>\<open>shown\<close> prints the missing and the extra names, each sorted.\<close>

definition settings_fields ::
    "(pystr list \<Rightarrow> pystr list \<Rightarrow> pystr) \<Rightarrow> pystr list \<Rightarrow> pystr list \<Rightarrow> pyval \<Rightarrow> pystr \<Rightarrow> fields result" where
  "settings_fields shown required optional v path =
     bindR (configuration_fields (plain v) path) (\<lambda>fs.
       let missing = filter (\<lambda>k. \<not> has_key fs k) required;
           extra = filter (\<lambda>k. k \<notin> set required \<and> k \<notin> set optional) (keys fs)
       in if missing \<noteq> [] \<or> extra \<noteq> []
          then raise_text ConfigurationError (path @ ustr '' fields differ; '' @ shown missing extra)
          else Inr fs)"

text \<open>A value no caller can mutate: scalars, tuples and read-only mappings of such values.\<close>

fun frozen :: "pyval \<Rightarrow> bool" where
  "frozen VNone = True"
| "frozen (VBool _) = True"
| "frozen (VInt _) = True"
| "frozen (VStr _) = True"
| "frozen (VFloat f) = finite_float f"
| "frozen (VTuple xs) = list_all frozen xs"
| "frozen (VProxy d) = list_all (\<lambda>(k, x). is_text k \<and> frozen x) d"
| "frozen _ = False"

text \<open>Finite JSON data with mutable containers only: what a decoder produces.\<close>

fun json_data :: "pyval \<Rightarrow> bool" where
  "json_data VNone = True"
| "json_data (VBool _) = True"
| "json_data (VInt _) = True"
| "json_data (VStr _) = True"
| "json_data (VFloat f) = finite_float f"
| "json_data (VList xs) = list_all json_data xs"
| "json_data (VDict d) = list_all (\<lambda>(k, x). is_text k \<and> json_data x) d"
| "json_data _ = False"

lemma freeze_frozen:
  "freeze_settings v path = Inr w \<Longrightarrow> frozen w"
  "freeze_items d path = Inr d' \<Longrightarrow> list_all (\<lambda>(k, x). is_text k) d \<Longrightarrow>
     list_all (\<lambda>(k, x). is_text k \<and> frozen x) d'"
  "freeze_elems xs i path = Inr ys \<Longrightarrow> list_all frozen ys"
proof (induction v path and d path and xs i path arbitrary: w and d' and ys
    rule: freeze_settings_freeze_items_freeze_elems.induct)
  case (1 d path)
  then show ?case
    by (auto simp: bindR_Inr_iff configuration_fields_Inr_iff text_keys_Some_iff list_all_iff)
next
  case (2 d path)
  then show ?case
    by (auto simp: bindR_Inr_iff configuration_fields_Inr_iff text_keys_Some_iff list_all_iff)
qed (auto simp: bindR_Inr_iff split: if_splits)

lemma freeze_plain:
  "freeze_settings v path = Inr w \<Longrightarrow> plain w = plain v"
  "freeze_items d path = Inr d' \<Longrightarrow>
     map (\<lambda>(k, x). (k, plain x)) d' = map (\<lambda>(k, x). (k, plain x)) d"
  "freeze_elems xs i path = Inr ys \<Longrightarrow> map plain ys = map plain xs"
  by (induction v path and d path and xs i path arbitrary: w and d' and ys
      rule: freeze_settings_freeze_items_freeze_elems.induct)
     (auto simp: bindR_Inr_iff split: if_splits)

lemma json_data_freezes:
  "json_data v \<Longrightarrow> \<exists>w. freeze_settings v path = Inr w"
  "list_all (\<lambda>(k, x). is_text k \<and> json_data x) d \<Longrightarrow> \<exists>d'. freeze_items d path = Inr d'"
  "list_all json_data xs \<Longrightarrow> \<exists>ys. freeze_elems xs i path = Inr ys"
proof (induction v path and d path and xs i path
    rule: freeze_settings_freeze_items_freeze_elems.induct)
  case (1 d path)
  then have "\<exists>fs. text_keys d = Some fs"
    by (auto simp: text_keys_def list_all_iff)
  with 1 show ?case
    by (auto simp: configuration_fields_def)
qed auto

lemma plain_frozen_json_data: "frozen v \<Longrightarrow> json_data (plain v)"
  by (induction v) (auto simp: list_all_iff)

lemma plain_idem [simp]: "plain (plain v) = plain v"
  by (induction v) auto

lemma json_data_plain: "json_data v \<Longrightarrow> plain v = v"
  by (induction v) (force simp: list_all_iff intro!: map_idI)+

lemma json_data_freeze_plain:
  assumes "json_data v" and "freeze_settings v path = Inr w"
  shows "frozen w" and "plain w = v"
  using assms by (auto dest: freeze_frozen(1) freeze_plain(1) simp: json_data_plain)

section \<open>Strict JSON\<close>

text \<open>
  The tree the decoder walks. Numbers arrive converted; \<open>RConst\<close> is one of the literals
  \<open>NaN\<close>, \<open>Infinity\<close> and \<open>-Infinity\<close> that Python's decoder accepts.
\<close>

datatype rawjson =
    RNull
  | RBool bool
  | RInt int
  | RFloat pyfloat
  | RConst pystr
  | RStr pystr
  | RArr "rawjson list"
  | RObj "(pystr \<times> rawjson) list"

fun unique_loop :: "fields \<Rightarrow> fields \<Rightarrow> fields result" where
  "unique_loop res [] = Inr res"
| "unique_loop res ((k, v) # ps) =
     (if has_key res k then raise_text ValueError (ustr ''Duplicate JSON key: '' @ k)
      else unique_loop (AList.update k v res) ps)"

definition unique_object :: "fields \<Rightarrow> fields result" where
  "unique_object ps = unique_loop [] ps"

text \<open>The decoder calls the hooks as it goes, so the first offence in the text is reported.\<close>

fun json_object :: "rawjson \<Rightarrow> pyval result"
  and json_elems :: "rawjson list \<Rightarrow> pyval list result"
  and json_pairs :: "(pystr \<times> rawjson) list \<Rightarrow> fields result" where
  "json_object RNull = Inr VNone"
| "json_object (RBool b) = Inr (VBool b)"
| "json_object (RInt i) = Inr (VInt i)"
| "json_object (RFloat f) = Inr (VFloat f)"
| "json_object (RConst c) = raise_text ValueError (ustr ''Non-finite JSON: '' @ c)"
| "json_object (RStr s) = Inr (VStr s)"
| "json_object (RArr xs) = bindR (json_elems xs) (\<lambda>ys. Inr (VList ys))"
| "json_object (RObj ps) =
     bindR (json_pairs ps) (\<lambda>qs. bindR (unique_object qs) (\<lambda>fs. Inr (dict_of fs)))"
| "json_elems [] = Inr []"
| "json_elems (x # xs) =
     bindR (json_object x) (\<lambda>y. bindR (json_elems xs) (\<lambda>ys. Inr (y # ys)))"
| "json_pairs [] = Inr []"
| "json_pairs ((k, x) # ps) =
     bindR (json_object x) (\<lambda>y. bindR (json_pairs ps) (\<lambda>qs. Inr ((k, y) # qs)))"

lemma update_new_key: "\<not> has_key d k \<Longrightarrow> AList.update k v d = d @ [(k, v)]"
  by (induction d) (auto simp: has_key_def keys_def)

lemma unique_loop_eq:
  "dict_ok res \<Longrightarrow> unique_loop res ps =
     (if distinct (keys (res @ ps)) then Inr (res @ ps) else unique_loop res ps)"
  by (induction res ps rule: unique_loop.induct)
     (auto simp: update_new_key has_key_def keys_def dict_ok_def)

lemma unique_loop_Inr:
  "dict_ok res \<Longrightarrow> unique_loop res ps = Inr fs \<longleftrightarrow> fs = res @ ps \<and> distinct (keys (res @ ps))"
proof (induction ps arbitrary: res)
  case Nil
  then show ?case by (auto simp: dict_ok_def)
next
  case (Cons p ps)
  obtain k v where p: "p = (k, v)" by (cases p)
  show ?case
  proof (cases "has_key res k")
    case True
    then show ?thesis by (auto simp: p has_key_def keys_def)
  next
    case False
    with Cons.prems have "dict_ok (res @ [(k, v)])"
      by (auto simp: dict_ok_def keys_def has_key_def)
    with Cons.IH [OF this] False show ?thesis
      by (auto simp: p update_new_key)
  qed
qed

lemma unique_object_Inr_iff: "unique_object ps = Inr fs \<longleftrightarrow> fs = ps \<and> distinct (keys ps)"
  by (auto simp: unique_object_def unique_loop_Inr)

text \<open>Every dictionary inside a decoded value has text keys, each once.\<close>

fun unambiguous :: "pyval \<Rightarrow> bool" where
  "unambiguous (VDict d) \<longleftrightarrow> distinct (map fst d) \<and> list_all (\<lambda>(k, x). is_text k \<and> unambiguous x) d"
| "unambiguous (VList xs) \<longleftrightarrow> list_all unambiguous xs"
| "unambiguous _ \<longleftrightarrow> True"

lemma json_object_unambiguous:
  "json_object r = Inr v \<Longrightarrow> unambiguous v"
  "json_elems rs = Inr vs \<Longrightarrow> list_all unambiguous vs"
  "json_pairs ps = Inr fs \<Longrightarrow> list_all (\<lambda>(k, x). unambiguous x) fs"
proof (induction r and rs and ps arbitrary: v and vs and fs
    rule: json_object_json_elems_json_pairs.induct)
  case (8 ps)
  then show ?case
    by (auto simp: bindR_Inr_iff unique_object_Inr_iff dict_of_def keys_def comp_def
        list_all_iff distinct_map inj_on_def split: prod.splits)
qed (auto simp: bindR_Inr_iff)

section \<open>Assistant text\<close>

definition assistant_text :: "nat \<Rightarrow> pyval \<Rightarrow> pystr result" where
  "assistant_text maximum_chars v = (case v of
      VStr s \<Rightarrow>
        if blank s then raise ProviderResponseError
          ''The chat provider did not return nonempty assistant text.''
        else if length s > maximum_chars then raise ProviderResponseError
          ''The chat provider returned assistant text over the size limit.''
        else if \<not> utf8_encodable s then raise ProviderResponseError
          ''The chat provider returned invalid Unicode text.''
        else Inr s
    | _ \<Rightarrow> raise ProviderResponseError ''The chat provider did not return assistant text.'')"

lemma assistant_text_Inr_iff:
  "assistant_text n v = Inr s \<longleftrightarrow>
     v = VStr s \<and> \<not> blank s \<and> length s \<le> n \<and> utf8_encodable s"
  by (auto simp: assistant_text_def split: pyval.splits if_splits)

section \<open>Properties\<close>

text \<open>Freezing settings and thawing them again is the identity on JSON data, and the frozen
  value has no mutable container in it.\<close>

theorem freeze_plain_roundtrip:
  assumes "json_data v"
  shows "\<exists>w. freeze_settings v path = Inr w \<and> frozen w \<and> plain w = v"
  using json_data_freezes(1) [OF assms] json_data_freeze_plain [OF assms] by blast

theorem freeze_plain_roundtrip_witness:
  "\<exists>w. freeze_settings (VDict [(VStr (ustr ''a''), VList [VInt 1, VNone])]) (ustr ''s'') = Inr w \<and>
     frozen w \<and> plain w = VDict [(VStr (ustr ''a''), VList [VInt 1, VNone])]"
  by (rule freeze_plain_roundtrip) simp

text \<open>Strict JSON has one reading: a decoded value has no dictionary with a repeated key at any
  depth, and an object decodes exactly when its values do and its keys are distinct.\<close>

theorem strict_json_is_unambiguous:
  "(case json_object r of Inr v \<Rightarrow> unambiguous v | Inl _ \<Rightarrow> True) \<and>
   (json_object (RObj ps) = Inr v) = (\<exists>qs. json_pairs ps = Inr qs \<and> distinct (keys qs) \<and> v = dict_of qs)"
  using json_object_unambiguous(1) [of r] by (auto simp: bindR_Inr_iff unique_object_Inr_iff split: sum.splits)

text \<open>The provider's reply is accepted exactly when it is nonblank text within the limit that
  UTF-8 can encode, and it is passed on unchanged; everything else is a provider error.\<close>

theorem assistant_text_contract:
  "(assistant_text n v = Inr s) = (v = VStr s \<and> \<not> blank s \<and> length s \<le> n \<and> utf8_encodable s) \<and>
   (case assistant_text n v of Inl e \<Rightarrow> exn_kind e = ProviderResponseError | Inr _ \<Rightarrow> True)"
  by (auto simp: assistant_text_Inr_iff assistant_text_def raise_def split: pyval.splits)

end
