(* ===== verification/Action_Protocol.thy ===== *)
theory Action_Protocol
  imports Validation "HOL-Library.List_Lexorder"
begin

text \<open>
  \<open>raychat/protocol.py\<close>: model replies decoded into one action object, and the check of a
  plugin's action fields against its schema. \<open>loads\<close>, a parameter, is the standard decoder up
  to the point where it calls the strict hooks of \<open>Validation\<close>; \<open>limit\<close> is the configured
  \<open>MAX_REPLY_CHARS\<close>. A schema is the pair of required and optional field names.
\<close>

section \<open>Lines and fences\<close>

text \<open>\<open>str.splitlines\<close>: the line boundaries of Python, with \<open>\r\n\<close> as one of them.\<close>

definition is_break :: "int \<Rightarrow> bool" where
  "is_break c \<longleftrightarrow> c \<in> {10, 11, 12, 13, 28, 29, 30, 133, 8232, 8233}"

fun splitlines_from :: "pystr \<Rightarrow> pystr \<Rightarrow> pystr list" where
  "splitlines_from cur [] = (if cur = [] then [] else [rev cur])"
| "splitlines_from cur (c # s) =
     (if c = 13 \<and> s \<noteq> [] \<and> hd s = 10 then rev cur # splitlines_from [] (tl s)
      else if is_break c then rev cur # splitlines_from [] s
      else splitlines_from (c # cur) s)"

definition splitlines :: "pystr \<Rightarrow> pystr list" where
  "splitlines s = splitlines_from [] s"

definition sp_tab :: "int \<Rightarrow> bool" where
  "sp_tab c \<longleftrightarrow> c = 32 \<or> c = 9"

text \<open>
  The letters of \<open>json\<close> under \<open>re.IGNORECASE\<close>: either case, and for \<open>s\<close> also the long s,
  whose simple case folding is \<open>s\<close>.
\<close>

definition json_word :: "pystr \<Rightarrow> bool" where
  "json_word w \<longleftrightarrow> length w = 4 \<and> w ! 0 \<in> {106, 74} \<and> w ! 1 \<in> {115, 83, 383}
     \<and> w ! 2 \<in> {111, 79} \<and> w ! 3 \<in> {110, 78}"

text \<open>The group \<open>fence\<close> of a full match of the opening pattern.\<close>

definition opening_fence :: "pystr \<Rightarrow> pystr option" where
  "opening_fence line =
     (let fence = take 3 line; rest = dropWhile sp_tab (drop 3 line)
      in if fence \<noteq> ustr ''```'' \<and> fence \<noteq> ustr ''~~~'' then None
         else if rest = [] then Some fence
         else if json_word (take 4 rest) \<and> dropWhile sp_tab (drop 4 rest) = [] then Some fence
         else None)"

definition unfenced :: "pystr \<Rightarrow> pystr" where
  "unfenced text =
     (let lines = splitlines (strip text)
      in if 3 \<le> length lines \<and> opening_fence (strip (hd lines)) = Some (strip (last lines))
         then join [10] (butlast (tl lines))
         else strip text)"

section \<open>Decoding\<close>

definition string_field :: "pyval \<Rightarrow> pystr \<Rightarrow> pystr result" where
  "string_field v key = (case v of
      VStr s \<Rightarrow> if \<not> utf8_encodable s
        then raise_text ValueError (key @ ustr '' must be valid Unicode text.'') else Inr s
    | _ \<Rightarrow> raise_text TypeError (key @ ustr '' must be a string.''))"

definition action_object :: "pyval \<Rightarrow> fields result" where
  "action_object v = bindR (object_field v (ustr ''action''))
     (\<lambda>a. bindR (string_field (get a ''action'') (ustr ''action'')) (\<lambda>_. Inr a))"

definition reply_text :: "nat \<Rightarrow> pyval \<Rightarrow> pystr result" where
  "reply_text limit v = (case v of
      VStr s \<Rightarrow> if length s > limit then raise ValueError ''Reply must be text within the size limit.''
        else Inr s
    | _ \<Rightarrow> raise ValueError ''Reply must be text within the size limit.'')"

definition action_name :: "fields \<Rightarrow> pystr result" where
  "action_name a = bindR (item a ''action'') (\<lambda>v. string_field v (ustr ''action''))"

text \<open>The completion contract: exactly an action and a nonblank, encodable message.\<close>

definition done_ok :: "fields \<Rightarrow> bool" where
  "done_ok a \<longleftrightarrow>
     set (keys a) = {ustr ''action'', ustr ''message''} \<and>
     (case get a ''message'' of VStr m \<Rightarrow> \<not> blank m \<and> utf8_encodable m | _ \<Rightarrow> False)"

definition decode_action :: "nat \<Rightarrow> (pystr \<Rightarrow> rawjson result) \<Rightarrow> pyval \<Rightarrow> fields result" where
  "decode_action limit loads v =
     bindR (reply_text limit v) (\<lambda>text.
     if \<not> utf8_encodable text then raise ValueError ''Reply must be valid Unicode text.''
     else bindR
       (rescue [ConfigurationError, TypeError]
          (\<lambda>_. raise ValueError ''Expected a single JSON object with a string action.'')
          (bindR (bindR (loads (unfenced text)) json_object) action_object))
       (\<lambda>action.
         if get action ''action'' = VStr (ustr ''done'') \<and> \<not> done_ok action
         then raise ValueError ''done requires a nonempty message string.''
         else Inr action))"

section \<open>Action fields\<close>

type_synonym schemas = "(pystr \<times> (pystr list \<times> pystr list)) list"

fun check_strings :: "fields \<Rightarrow> pystr list \<Rightarrow> unit result" where
  "check_strings a [] = Inr ()"
| "check_strings a (k # ks) =
     bindR (case map_of a k of None \<Rightarrow> raise_text KeyError k | Some v \<Rightarrow> string_field v k)
       (\<lambda>_. check_strings a ks)"

text \<open>\<open>shown\<close> prints the sorted required and optional names of the refused action.\<close>

definition validate_fields_inner ::
    "(pystr \<Rightarrow> pystr list \<Rightarrow> pystr list \<Rightarrow> pystr) \<Rightarrow> fields \<Rightarrow> schemas \<Rightarrow> pystr list \<Rightarrow> pystr result" where
  "validate_fields_inner shown action schemas non_string =
     bindR (action_name action) (\<lambda>name.
     case map_of schemas name of None \<Rightarrow> raise_text KeyError name
     | Some (required_fields, optional) \<Rightarrow>
         let required = ustr ''action'' # required_fields
         in if \<not> list_all (has_key action) required
               \<or> \<not> list_all (\<lambda>k. k \<in> set required \<or> k \<in> set optional) (keys action)
            then raise_text ValueError (shown name required optional)
            else bindR (check_strings action
                   (filter (\<lambda>k. k \<notin> set non_string)
                      (required_fields @ filter (has_key action) optional)))
                   (\<lambda>_. Inr name))"

definition validate_fields ::
    "(pystr \<Rightarrow> pystr list \<Rightarrow> pystr list \<Rightarrow> pystr) \<Rightarrow> fields \<Rightarrow> schemas \<Rightarrow> pystr list \<Rightarrow> pystr result" where
  "validate_fields shown action schemas non_string =
     rescue [TypeError] (\<lambda>e. raise_text ValueError (exn_text e))
       (validate_fields_inner shown action schemas non_string)"

definition describe_fields :: "schemas \<Rightarrow> pystr \<Rightarrow> (pystr list \<times> pystr list) result" where
  "describe_fields schemas name = (case map_of schemas name of
      None \<Rightarrow> raise_text KeyError name
    | Some (required, optional) \<Rightarrow> Inr (sort (remdups required), sort (remdups optional)))"

section \<open>Facts\<close>

lemma string_field_Inr_iff: "string_field v k = Inr s \<longleftrightarrow> v = VStr s \<and> utf8_encodable s"
  by (auto simp: string_field_def split: pyval.splits if_splits)

lemma action_name_Inr_iff:
  "action_name a = Inr n \<longleftrightarrow> map_of a (ustr ''action'') = Some (VStr n) \<and> utf8_encodable n"
  by (auto simp: action_name_def bindR_Inr_iff item_Inr_iff string_field_Inr_iff)

lemma get_text: "get a k = VStr s \<longleftrightarrow> map_of a (ustr k) = Some (VStr s)"
  by (auto simp: get_def split: option.splits)

lemma action_object_Inr_iff:
  "action_object v = Inr a \<longleftrightarrow> v = dict_of a \<and> (\<exists>n. action_name a = Inr n)"
  by (auto simp: action_object_def bindR_Inr_iff object_field_Inr_iff string_field_Inr_iff
      action_name_Inr_iff get_text)

lemma unambiguous_dict_of: "unambiguous (dict_of a) \<Longrightarrow> dict_ok a"
  by (auto simp: dict_of_def dict_ok_def keys_def distinct_map comp_def inj_on_def)

lemma check_strings_Inr_iff:
  "check_strings a ks = Inr () \<longleftrightarrow>
     (\<forall>k\<in>set ks. \<exists>s. map_of a k = Some (VStr s) \<and> utf8_encodable s)"
  by (induction ks) (auto simp: bindR_Inr_iff string_field_Inr_iff split: option.splits)

lemma splitlines_from_plain:
  "list_all (\<lambda>c. \<not> is_break c) x \<Longrightarrow>
     splitlines_from cur (x @ 10 # s) = (rev cur @ x) # splitlines_from [] s"
  by (induction x arbitrary: cur) (auto simp: is_break_def)

lemma splitlines_from_last:
  "list_all (\<lambda>c. \<not> is_break c) x \<Longrightarrow> rev cur @ x \<noteq> [] \<Longrightarrow> splitlines_from cur x = [rev cur @ x]"
  by (induction x arbitrary: cur) (auto simp: is_break_def)

lemma splitlines_join:
  "list_all (list_all (\<lambda>c. \<not> is_break c)) xs \<Longrightarrow> xs \<noteq> [] \<Longrightarrow> last xs \<noteq> [] \<Longrightarrow>
     splitlines (join [10] xs) = xs"
proof (induction xs rule: induct_list012)
  case (3 x y zs)
  have "splitlines (join [10] (x # y # zs)) = splitlines_from [] (x @ 10 # join [10] (y # zs))"
    by (simp add: splitlines_def)
  also have "\<dots> = x # splitlines (join [10] (y # zs))"
    using "3.prems"(1) by (subst splitlines_from_plain) (simp_all add: splitlines_def)
  also have "splitlines (join [10] (y # zs)) = y # zs"
    by (rule "3.IH"(2)) (use "3.prems" in simp_all)
  finally show ?case .
next
  case (2 x)
  then show ?case
    by (simp only: join.simps splitlines_def) (subst splitlines_from_last; simp)
qed simp

lemma opening_fence_plain:
  "f = ustr ''```'' \<or> f = ustr ''~~~'' \<Longrightarrow> tag = [] \<or> tag = ustr ''json'' \<Longrightarrow>
     opening_fence (f @ tag) = Some f"
proof -
  have "opening_fence (ustr ''```'') = Some (ustr ''```'')"
    "opening_fence (ustr ''~~~'') = Some (ustr ''~~~'')"
    "opening_fence (ustr ''```'' @ ustr ''json'') = Some (ustr ''```'')"
    "opening_fence (ustr ''~~~'' @ ustr ''json'') = Some (ustr ''~~~'')"
    by code_simp+
  then show "f = ustr ''```'' \<or> f = ustr ''~~~'' \<Longrightarrow> tag = [] \<or> tag = ustr ''json'' \<Longrightarrow>
     opening_fence (f @ tag) = Some f"
    by (elim disjE) simp_all
qed

lemma fence_facts:
  assumes "f = ustr ''```'' \<or> f = ustr ''~~~''"
  shows "f \<noteq> []" "\<not> is_space (hd f)" "\<not> is_space (last f)" "list_all (\<lambda>c. \<not> is_break c) f"
  using assms by (auto simp: ustr_def is_space_def py_spaces_def is_break_def)

lemma json_tag_facts:
  assumes "tag = [] \<or> tag = ustr ''json''"
  shows "tag \<noteq> [] \<longrightarrow> \<not> is_space (last tag)" "list_all (\<lambda>c. \<not> is_break c) tag"
  using assms by (auto simp: ustr_def is_space_def py_spaces_def is_break_def)

lemma unfenced_fenced:
  assumes f: "f = ustr ''```'' \<or> f = ustr ''~~~''" and tag: "tag = [] \<or> tag = ustr ''json''"
    and xs: "xs \<noteq> []" "list_all (list_all (\<lambda>c. \<not> is_break c)) xs"
  shows "unfenced (join [10] ((f @ tag) # xs @ [f])) = join [10] xs"
proof -
  let ?t = "join [10] ((f @ tag) # xs @ [f])"
  note ff = fence_facts [OF f] and tf = json_tag_facts [OF tag]
  have t: "?t = (f @ tag) @ [10] @ join [10] xs @ [10] @ f"
    using xs(1) by (simp add: join_Cons join_snoc)
  have "strip ?t = ?t"
    by (rule strip_id) (use ff in \<open>simp_all add: t\<close>)
  moreover have "splitlines ?t = (f @ tag) # xs @ [f]"
    by (rule splitlines_join) (use ff tf xs in simp_all)
  moreover have "strip (f @ tag) = f @ tag"
    by (rule strip_id) (use ff tf in \<open>cases "tag = []"; simp\<close>)+
  moreover have "strip f = f"
    using ff by (intro strip_id)
  moreover have "3 \<le> length ((f @ tag) # xs @ [f])"
    using xs(1) by (cases xs) auto
  ultimately show ?thesis
    using opening_fence_plain [OF f tag] by (simp add: unfenced_def Let_def)
qed

lemma decode_action_Inr:
  assumes "decode_action limit loads v = Inr a"
  shows "\<exists>text. v = VStr text \<and> length text \<le> limit \<and> utf8_encodable text \<and>
     (\<exists>raw. loads (unfenced text) = Inr raw \<and> json_object raw = Inr (dict_of a)) \<and>
     (\<exists>n. action_name a = Inr n \<and> (n = ustr ''done'' \<longrightarrow> done_ok a))"
  using assms
  by (auto simp: decode_action_def bindR_Inr_iff reply_text_def action_object_Inr_iff
      action_name_Inr_iff get_text rescue_def caught_by_def
      split: pyval.splits if_splits sum.splits)

lemma done_okD:
  "done_ok a \<Longrightarrow> set (map fst a) = {ustr ''action'', ustr ''message''} \<and>
     (\<exists>m. map_of a (ustr ''message'') = Some (VStr m) \<and> utf8_encodable m \<and> (\<exists>c\<in>set m. \<not> is_space c))"
  by (auto simp: done_ok_def keys_def get_text blank_iff list_all_iff split: pyval.splits)

section \<open>Properties\<close>

text \<open>A reply wrapped in a Markdown fence, with or without the \<open>json\<close> tag, is read as the
  lines inside it.\<close>

theorem fenced_reply_unwraps:
  assumes "f = ustr ''```'' \<or> f = ustr ''~~~''" "tag = [] \<or> tag = ustr ''json''"
    and "xs \<noteq> []" "list_all (list_all (\<lambda>c. \<not> is_break c)) xs"
  shows "unfenced (join [10] ((f @ tag) # xs @ [f])) = join [10] xs"
  by (rule unfenced_fenced [OF assms])

theorem fenced_reply_unwraps_witness:
  "unfenced (join [10] [ustr ''```json'', ustr ''{}'', ustr ''```'']) = ustr ''{}''"
proof -
  have "unfenced (join [10] ((ustr ''```'' @ ustr ''json'') # [ustr ''{}''] @ [ustr ''```''])) = join [10] [ustr ''{}'']"
    by (rule fenced_reply_unwraps) (simp_all add: ustr_def is_break_def)
  then show ?thesis by (simp add: ustr_append [symmetric])
qed

text \<open>C40: Only well-formed replies become actions: a decoded action came from valid text within
  the limit and is the object its JSON (without a fence) denotes, no key twice; its \<open>action\<close> is
  valid text, and if that is \<open>done\<close> then it has no fields but \<open>action\<close> and \<open>message\<close>, and the message
  is valid text with a character that is not white space.\<close>

theorem decoded_action_is_well_formed:
  assumes "decode_action limit loads v = Inr a"
  shows "distinct (map fst a) \<and>
    (\<exists>text raw. v = VStr text \<and> length text \<le> limit \<and> utf8_encodable text \<and>
       loads (unfenced text) = Inr raw \<and> json_object raw = Inr (dict_of a)) \<and>
    (\<exists>n. map_of a (ustr ''action'') = Some (VStr n) \<and> utf8_encodable n \<and>
       (n = ustr ''done'' \<longrightarrow> set (map fst a) = {ustr ''action'', ustr ''message''} \<and>
         (\<exists>m. map_of a (ustr ''message'') = Some (VStr m) \<and> utf8_encodable m \<and> (\<exists>c\<in>set m. \<not> is_space c))))"
proof -
  from decode_action_Inr [OF assms] obtain reply raw n where
    t: "v = VStr reply" "length reply \<le> limit" "utf8_encodable reply"
      "loads (unfenced reply) = Inr raw" "json_object raw = Inr (dict_of a)"
    and n: "action_name a = Inr n" "n = ustr ''done'' \<longrightarrow> done_ok a" by blast
  have "distinct (map fst a)"
    using unambiguous_dict_of [OF json_object_unambiguous(1) [OF t(5)]] by (simp add: dict_ok_def keys_def)
  with t n done_okD [of a] show ?thesis by (auto simp: action_name_Inr_iff)
qed

theorem decoded_action_is_well_formed_witness:
  "\<exists>m. map_of [(ustr ''action'', VStr (ustr ''done'')), (ustr ''message'', VStr (ustr ''ok''))] (ustr ''message'') =
     Some (VStr m) \<and> (\<exists>c\<in>set m. \<not> is_space c)"
proof -
  have "decode_action 9 (\<lambda>_. Inr (RObj [(ustr ''action'', RStr (ustr ''done'')), (ustr ''message'', RStr (ustr ''ok''))]))
      (VStr (ustr ''x'')) = Inr [(ustr ''action'', VStr (ustr ''done'')), (ustr ''message'', VStr (ustr ''ok''))]"
    by code_simp
  from decoded_action_is_well_formed [OF this] show ?thesis by auto
qed

end
