(* ===== verification/Line_Editor.thy ===== *)
theory Line_Editor
  imports Py_Value
begin

text \<open>
  \<open>LineEditor\<close> of \<open>raychat/ui/terminal.py\<close>: the composer's bounded buffer, its cursor and the
  revision that frontends compare to detect a change. Operations are effects on the record: an
  exception leaves with the state as it was when it was raised. Arguments the code checks with
  \<open>isinstance\<close> stay unknown values.
\<close>

record editor =
  max_chars :: nat
  ed_text :: pystr
  cursor :: nat
  revision :: nat

record key_event =
  kind :: string
  ev_text :: pystr
  ev_x :: "int option"
  ev_y :: "int option"

definition key :: "string \<Rightarrow> pystr \<Rightarrow> key_event" where
  "key k s = \<lparr>kind = k, ev_text = s, ev_x = None, ev_y = None\<rparr>"

definition new_editor :: "pyval \<Rightarrow> pyval \<Rightarrow> editor result" where
  "new_editor text limit = (case limit of
      VInt m \<Rightarrow>
        if m < 1 then raise ValueError ''max_chars must be a positive integer.''
        else (case text of
            VStr s \<Rightarrow> if length s > nat m
              then raise ValueError ''Initial text must fit within max_chars.''
              else Inr \<lparr>max_chars = nat m, ed_text = s, cursor = length s, revision = 0\<rparr>
          | _ \<Rightarrow> raise ValueError ''Initial text must fit within max_chars.'')
    | _ \<Rightarrow> raise ValueError ''max_chars must be a positive integer.'')"

definition set_text :: "pyval \<Rightarrow> pyval \<Rightarrow> (editor, unit) eff" where
  "set_text text position e = (case text of
      VStr s \<Rightarrow>
        if length s > max_chars e then (e, raise ValueError ''Text must fit within max_chars.'')
        else (case (if position = VNone then VInt (int (length s)) else position) of
            VInt c \<Rightarrow>
              if 0 \<le> c \<and> c \<le> int (length s)
              then (if s \<noteq> ed_text e \<or> nat c \<noteq> cursor e
                    then e\<lparr>ed_text := s, cursor := nat c, revision := Suc (revision e)\<rparr>
                    else e, Inr ())
              else (e, raise ValueError ''Cursor is outside the text.'')
          | _ \<Rightarrow> (e, raise ValueError ''Cursor is outside the text.''))
    | _ \<Rightarrow> (e, raise ValueError ''Text must fit within max_chars.''))"

definition clear_editor :: "(editor, unit) eff" where
  "clear_editor = set_text (VStr []) VNone"

definition submit :: "(editor, pystr) eff" where
  "submit e = bindS (set_text (VStr []) VNone) (\<lambda>_. retS (ed_text e)) e"

definition normalize_input :: "pystr \<Rightarrow> pystr" where
  "normalize_input s = replace_all [0] [] (replace_all [13] [10] (replace_all [13, 10] [10] s))"

definition insert_text :: "pyval \<Rightarrow> (editor, nat) eff" where
  "insert_text v e = (case v of
      VStr raw \<Rightarrow>
        (let s = normalize_input raw; available = int (max_chars e) - int (length (ed_text e))
         in if int (length s) > available
            then (e, raise_text ValueError (ustr ''Input rejected: exceeds '' @
                   str_int (int (max_chars e)) @ ustr '' characters ('' @ str_int available @
                   ustr '' available). Draft unchanged.''))
            else if s \<noteq> [] then
              (e\<lparr>ed_text := take (cursor e) (ed_text e) @ s @ drop (cursor e) (ed_text e),
                 cursor := cursor e + length s, revision := Suc (revision e)\<rparr>,
               Inr (length s))
            else (e, Inr 0))
    | _ \<Rightarrow> (e, raise TypeError ''Inserted text must be a string.''))"

definition cursor_target :: "string \<Rightarrow> editor \<Rightarrow> nat" where
  "cursor_target k e =
     (if k = ''left'' then cursor e - 1
      else if k = ''right'' then min (length (ed_text e)) (cursor e + 1)
      else if k = ''home'' then 0
      else if k = ''end'' then length (ed_text e)
      else cursor e)"

definition move_cursor :: "string \<Rightarrow> editor \<Rightarrow> editor" where
  "move_cursor k e =
     (let position = cursor_target k e
      in if position \<noteq> cursor e
         then e\<lparr>cursor := position, revision := Suc (revision e)\<rparr> else e)"

text \<open>The answer is the submitted draft for \<open>enter\<close> and \<open>None\<close> otherwise.\<close>

definition handle_key :: "key_event \<Rightarrow> (editor, pystr option) eff" where
  "handle_key ev e =
     (let k = kind ev in
      if k = ''text'' \<or> k = ''paste'' then bindS (insert_text (VStr (ev_text ev))) (\<lambda>_. retS None) e
      else if k \<in> {''left'', ''right'', ''home'', ''end''} then (move_cursor k e, Inr None)
      else if k = ''backspace'' \<and> 0 < cursor e then
        (e\<lparr>ed_text := take (cursor e - 1) (ed_text e) @ drop (cursor e) (ed_text e),
           cursor := cursor e - 1, revision := Suc (revision e)\<rparr>, Inr None)
      else if k = ''delete'' \<and> cursor e < length (ed_text e) then
        (e\<lparr>ed_text := take (cursor e) (ed_text e) @ drop (cursor e + 1) (ed_text e),
           revision := Suc (revision e)\<rparr>, Inr None)
      else if k = ''kill_to_end'' \<and> cursor e < length (ed_text e) then
        (e\<lparr>ed_text := take (cursor e) (ed_text e), revision := Suc (revision e)\<rparr>, Inr None)
      else if k = ''enter'' then bindS submit (\<lambda>s. retS (Some s)) e
      else (e, Inr None))"

section \<open>The invariant\<close>

definition editor_ok :: "editor \<Rightarrow> bool" where
  "editor_ok e \<longleftrightarrow> length (ed_text e) \<le> max_chars e \<and> cursor e \<le> length (ed_text e)"

text \<open>Failing leaves the editor unchanged; succeeding counts a change exactly when there is one.\<close>

definition revises :: "(editor, 'a) eff \<Rightarrow> bool" where
  "revises m \<longleftrightarrow> (\<forall>e. editor_ok e \<longrightarrow>
     (let e' = fst (m e) in editor_ok e' \<and> max_chars e' = max_chars e \<and>
        revision e' = (if ed_text e' = ed_text e \<and> cursor e' = cursor e
                       then revision e else Suc (revision e)) \<and>
        (\<forall>x. snd (m e) = Inl x \<longrightarrow> e' = e)))"

lemma normalize_input_clean: "13 \<notin> set (normalize_input s)" "0 \<notin> set (normalize_input s)"
  using replace_all_single_set [of 0 "[]" "replace_all [13] [10] (replace_all [13, 10] [10] s)"]
    replace_all_single_set [of 13 "[10]" "replace_all [13, 10] [10] s"]
  by (auto simp: normalize_input_def)

lemma normalize_input_length: "length (normalize_input s) \<le> length s"
  unfolding normalize_input_def
  using replace_all_shrinks [of "[10]" "[13, 10]" s]
    replace_all_shrinks [of "[10]" "[13]" "replace_all [13, 10] [10] s"]
    replace_all_shrinks [of "[]" "[0]" "replace_all [13] [10] (replace_all [13, 10] [10] s)"]
  by simp

lemma new_editor_ok: "new_editor v m = Inr e \<Longrightarrow> editor_ok e"
  by (auto simp: new_editor_def editor_ok_def split: pyval.splits if_splits)

lemma set_text_outcomes:
  "set_text v p e = (e, Inr ()) \<or>
   (\<exists>s c. set_text v p e = (e\<lparr>ed_text := s, cursor := c, revision := Suc (revision e)\<rparr>, Inr ()) \<and>
      length s \<le> max_chars e \<and> c \<le> length s \<and> v = VStr s \<and> (s \<noteq> ed_text e \<or> c \<noteq> cursor e)) \<or>
   (\<exists>x. set_text v p e = (e, Inl x))"
proof (cases "\<exists>s. v = VStr s \<and> length s \<le> max_chars e")
  case True
  then obtain s where s: "v = VStr s" "length s \<le> max_chars e" by blast
  show ?thesis
  proof (cases "\<exists>c. (if p = VNone then VInt (int (length s)) else p) = VInt c \<and> 0 \<le> c \<and> c \<le> int (length s)")
    case True
    then obtain c where c: "(if p = VNone then VInt (int (length s)) else p) = VInt c"
      "0 \<le> c" "c \<le> int (length s)" by blast
    then have "set_text v p e = (if s \<noteq> ed_text e \<or> nat c \<noteq> cursor e
        then e\<lparr>ed_text := s, cursor := nat c, revision := Suc (revision e)\<rparr> else e, Inr ())"
      using s by (simp add: set_text_def)
    then show ?thesis
      using c s by (cases "s \<noteq> ed_text e \<or> nat c \<noteq> cursor e") auto
  next
    case False
    then show ?thesis
      using s by (auto simp: set_text_def raise_def split: pyval.splits if_splits)
  qed
next
  case False
  then show ?thesis
    by (auto simp: set_text_def raise_def split: pyval.splits)
qed

lemma revises_set_text: "revises (set_text v p)"
  unfolding revises_def
proof (intro allI impI)
  fix e :: editor
  assume "editor_ok e"
  then show "let e' = fst (set_text v p e) in editor_ok e' \<and> max_chars e' = max_chars e \<and>
        revision e' = (if ed_text e' = ed_text e \<and> cursor e' = cursor e
                       then revision e else Suc (revision e)) \<and>
        (\<forall>x. snd (set_text v p e) = Inl x \<longrightarrow> e' = e)"
    using set_text_outcomes [of v p e] by (auto simp: editor_ok_def)
qed

lemma set_text_full [simp]:
  "length s \<le> max_chars e \<Longrightarrow> snd (set_text (VStr s) VNone e) = Inr ()"
  "length s \<le> max_chars e \<Longrightarrow> ed_text (fst (set_text (VStr s) VNone e)) = s"
  "length s \<le> max_chars e \<Longrightarrow> cursor (fst (set_text (VStr s) VNone e)) = length s"
  by (auto simp: set_text_def)

lemma set_text_at:
  "length s \<le> max_chars e \<Longrightarrow> c \<le> length s \<Longrightarrow>
     \<exists>e'. set_text (VStr s) (VInt (int c)) e = (e', Inr ()) \<and> ed_text e' = s \<and> cursor e' = c
       \<and> max_chars e' = max_chars e"
  by (auto simp: set_text_def)

lemma set_text_max_chars [simp]: "max_chars (fst (set_text v p e)) = max_chars e"
  using set_text_outcomes [of v p e] by auto

lemma submit_eq: "submit e = (fst (set_text (VStr []) VNone e), Inr (ed_text e))"
  by (simp add: submit_def bindS_def set_text_def)

lemma revises_submit: "revises submit"
  using revises_set_text [of "VStr []" VNone]
  by (auto simp: revises_def submit_eq Let_def)

lemma revises_insert: "revises (insert_text v)"
  by (cases v) (auto simp: revises_def insert_text_def Let_def editor_ok_def raise_def raise_text_def
      dest: arg_cong [where f = length])

lemma move_cursor_frame [simp]:
  "ed_text (move_cursor k e) = ed_text e" "max_chars (move_cursor k e) = max_chars e"
  by (simp_all add: move_cursor_def Let_def)

lemma revises_move: "revises (\<lambda>e. (move_cursor k e, Inr x))"
proof -
  have "cursor_target k e \<le> length (ed_text e)" if "editor_ok e" for e
    using that by (simp add: cursor_target_def editor_ok_def le_trans [OF diff_le_self])
  then have "let e' = move_cursor k e in editor_ok e' \<and> max_chars e' = max_chars e \<and>
      revision e' = (if ed_text e' = ed_text e \<and> cursor e' = cursor e then revision e
        else Suc (revision e))" if "editor_ok e" for e
    using that
    by (cases "cursor_target k e = cursor e") (simp_all add: move_cursor_def editor_ok_def Let_def)
  then show ?thesis by (simp add: revises_def Let_def)
qed

lemma bind_ret_eq:
  "bindS m (\<lambda>x. retS (f x)) s = (fst (m s), case snd (m s) of Inl e \<Rightarrow> Inl e | Inr x \<Rightarrow> Inr (f x))"
  by (simp add: bindS_def split: prod.splits sum.splits)

lemma revises_bind_ret: "revises m \<Longrightarrow> revises (bindS m (\<lambda>x. retS (f x)))"
  by (simp add: revises_def bind_ret_eq Let_def split: sum.splits)

lemma handle_key_text: "kind ev \<in> {''text'', ''paste''} \<Longrightarrow>
    handle_key ev = bindS (insert_text (VStr (ev_text ev))) (\<lambda>_. retS None)"
  by (auto simp: handle_key_def fun_eq_iff)

lemma handle_key_move: "kind ev \<in> {''left'', ''right'', ''home'', ''end''} \<Longrightarrow>
    handle_key ev = (\<lambda>e. (move_cursor (kind ev) e, Inr None))"
  by (auto simp: handle_key_def fun_eq_iff)

lemma handle_key_enter: "kind ev = ''enter'' \<Longrightarrow> handle_key ev = bindS submit (\<lambda>s. retS (Some s))"
  by (auto simp: handle_key_def fun_eq_iff)

lemma handle_key_backspace: "kind ev = ''backspace'' \<Longrightarrow> handle_key ev e =
    (if 0 < cursor e then e\<lparr>ed_text := take (cursor e - 1) (ed_text e) @ drop (cursor e) (ed_text e),
       cursor := cursor e - 1, revision := Suc (revision e)\<rparr> else e, Inr None)"
  by (simp add: handle_key_def)

lemma handle_key_delete: "kind ev = ''delete'' \<Longrightarrow> handle_key ev e =
    (if cursor e < length (ed_text e)
     then e\<lparr>ed_text := take (cursor e) (ed_text e) @ drop (cursor e + 1) (ed_text e),
       revision := Suc (revision e)\<rparr> else e, Inr None)"
  by (simp add: handle_key_def)

lemma handle_key_kill: "kind ev = ''kill_to_end'' \<Longrightarrow> handle_key ev e =
    (if cursor e < length (ed_text e)
     then e\<lparr>ed_text := take (cursor e) (ed_text e), revision := Suc (revision e)\<rparr> else e, Inr None)"
  by (simp add: handle_key_def)

lemma handle_key_other: "kind ev \<notin> {''text'', ''paste'', ''left'', ''right'', ''home'', ''end'',
    ''backspace'', ''delete'', ''kill_to_end'', ''enter''} \<Longrightarrow> handle_key ev e = (e, Inr None)"
  by (simp add: handle_key_def)

lemma key_cases [case_names typed move backspace delete kill enter other]:
  assumes "k \<in> {''text'', ''paste''} \<Longrightarrow> P" "k \<in> {''left'', ''right'', ''home'', ''end''} \<Longrightarrow> P"
    "k = ''backspace'' \<Longrightarrow> P" "k = ''delete'' \<Longrightarrow> P" "k = ''kill_to_end'' \<Longrightarrow> P" "k = ''enter'' \<Longrightarrow> P"
    "k \<notin> {''text'', ''paste'', ''left'', ''right'', ''home'', ''end'', ''backspace'', ''delete'',
       ''kill_to_end'', ''enter''} \<Longrightarrow> P"
  shows P
proof -
  have "k \<in> {''text'', ''paste''} \<or> k \<in> {''left'', ''right'', ''home'', ''end''} \<or> k = ''backspace'' \<or>
    k = ''delete'' \<or> k = ''kill_to_end'' \<or> k = ''enter'' \<or>
    k \<notin> {''text'', ''paste'', ''left'', ''right'', ''home'', ''end'', ''backspace'', ''delete'',
       ''kill_to_end'', ''enter''}"
    by simp argo
  then show P by (elim disjE) (fact assms)+
qed

lemma revises_handle_key: "revises (handle_key ev)"
proof (cases "kind ev" rule: key_cases)
  case typed
  then show ?thesis
    by (simp only: handle_key_text revises_bind_ret [OF revises_insert])
next
  case move
  then show ?thesis by (simp only: handle_key_move revises_move)
next
  case enter
  then show ?thesis by (simp only: handle_key_enter revises_bind_ret [OF revises_submit])
next
  case backspace
  then show ?thesis
    by (auto simp: revises_def handle_key_backspace editor_ok_def Let_def)
next
  case delete
  have "take c s @ drop (Suc c) s \<noteq> s" if "c < length s" for c and s :: pystr
    using that by (auto dest!: arg_cong [where f = length])
  with delete show ?thesis
    by (auto simp: revises_def handle_key_delete editor_ok_def Let_def)
next
  case kill
  then show ?thesis
    by (auto simp: revises_def handle_key_kill editor_ok_def Let_def)
next
  case other
  then show ?thesis by (simp add: revises_def handle_key_other)
qed

section \<open>The abstract editor: a zipper\<close>

text \<open>The text before the cursor, nearest character first, and the text after it.\<close>

type_synonym zipper = "pystr \<times> pystr"

definition zip_of :: "editor \<Rightarrow> zipper" where
  "zip_of e = (rev (take (cursor e) (ed_text e)), drop (cursor e) (ed_text e))"

fun zip_key :: "string \<Rightarrow> pystr \<Rightarrow> zipper \<Rightarrow> zipper" where
  "zip_key k s (l, r) =
     (if k = ''text'' \<or> k = ''paste'' then (rev s @ l, r)
      else if k = ''left'' then (case l of [] \<Rightarrow> (l, r) | c # l' \<Rightarrow> (l', c # r))
      else if k = ''right'' then (case r of [] \<Rightarrow> (l, r) | c # r' \<Rightarrow> (c # l, r'))
      else if k = ''home'' then ([], rev l @ r)
      else if k = ''end'' then (rev r @ l, [])
      else if k = ''backspace'' then (tl l, r)
      else if k = ''delete'' then (l, tl r)
      else if k = ''kill_to_end'' then (l, [])
      else if k = ''enter'' then ([], [])
      else (l, r))"

lemma take_pred: "0 < c \<Longrightarrow> c \<le> length s \<Longrightarrow> take c s = take (c - 1) s @ [s ! (c - 1)]"
  by (metis One_nat_def Suc_diff_1 Suc_le_lessD take_Suc_conv_app_nth)

lemma drop_pred: "0 < c \<Longrightarrow> c \<le> length s \<Longrightarrow> drop (c - 1) s = s ! (c - 1) # drop c s"
  by (metis Cons_nth_drop_Suc One_nat_def Suc_diff_1 Suc_le_lessD)

lemma zip_insert:
  "cursor e \<le> length (ed_text e) \<Longrightarrow> snd (insert_text (VStr s) e) = Inr n \<Longrightarrow>
     zip_of (fst (insert_text (VStr s) e)) =
       (rev (normalize_input s) @ fst (zip_of e), snd (zip_of e))"
  by (auto simp: insert_text_def zip_of_def Let_def split: if_splits)

lemma zip_move:
  assumes "cursor e \<le> length (ed_text e)" and "k \<in> {''left'', ''right'', ''home'', ''end''}"
  shows "zip_of (move_cursor k e) = zip_key k s (zip_of e)"
proof -
  have left: "zip_of (move_cursor ''left'' e) = zip_key ''left'' s (zip_of e)"
  proof (cases "cursor e = 0")
    case True
    then show ?thesis by (simp add: move_cursor_def cursor_target_def zip_of_def Let_def)
  next
    case False
    with assms(1) have t: "take (cursor e) (ed_text e) = take (cursor e - 1) (ed_text e) @ [ed_text e ! (cursor e - 1)]"
      and d: "drop (cursor e - 1) (ed_text e) = ed_text e ! (cursor e - 1) # drop (cursor e) (ed_text e)"
      using take_pred [of "cursor e"] drop_pred [of "cursor e"] by simp_all
    from False have "cursor e - 1 \<noteq> cursor e" by simp
    with t d show ?thesis
      by (simp add: move_cursor_def cursor_target_def zip_of_def Let_def)
  qed
  have right: "zip_of (move_cursor ''right'' e) = zip_key ''right'' s (zip_of e)"
  proof (cases "cursor e = length (ed_text e)")
    case True
    then show ?thesis by (simp add: move_cursor_def cursor_target_def zip_of_def Let_def)
  next
    case False
    with assms(1) have lt: "cursor e < length (ed_text e)" by simp
    then have "drop (cursor e) (ed_text e) = ed_text e ! cursor e # drop (Suc (cursor e)) (ed_text e)"
      by (simp add: Cons_nth_drop_Suc)
    with lt show ?thesis
      by (simp add: move_cursor_def cursor_target_def zip_of_def Let_def take_Suc_conv_app_nth)
  qed
  have home_end: "zip_of (move_cursor ''home'' e) = zip_key ''home'' s (zip_of e)"
    "zip_of (move_cursor ''end'' e) = zip_key ''end'' s (zip_of e)"
    using assms(1) by (auto simp: move_cursor_def cursor_target_def zip_of_def Let_def simp flip: rev_append)
  from assms(2) left right home_end show ?thesis by auto
qed

text \<open>The whole key handler computes on the zipper whatever it computes on the buffer.\<close>

lemma zip_handle_key:
  assumes ok: "editor_ok e" and step: "handle_key ev e = (e', Inr r)"
  shows "zip_of e' = zip_key (kind ev) (normalize_input (ev_text ev)) (zip_of e)"
    and "r = (if kind ev = ''enter'' then Some (ed_text e) else None)"
proof -
  note c = ok [unfolded editor_ok_def, THEN conjunct2]
  have "zip_of e' = zip_key (kind ev) (normalize_input (ev_text ev)) (zip_of e) \<and>
        r = (if kind ev = ''enter'' then Some (ed_text e) else None)"
  proof (cases "kind ev" rule: key_cases)
    case typed
    with step have e': "e' = fst (insert_text (VStr (ev_text ev)) e)" "r = None"
      and "\<exists>n. snd (insert_text (VStr (ev_text ev)) e) = Inr n"
      by (auto simp: handle_key_text bind_ret_eq split: sum.splits)
    with zip_insert [OF c] typed show ?thesis by (cases "zip_of e") auto
  next
    case move
    with step have "e' = move_cursor (kind ev) e" "r = None"
      by (auto simp: handle_key_move)
    with zip_move [OF c move] move show ?thesis by auto
  next
    case enter
    with step ok show ?thesis
      by (auto simp: handle_key_enter bind_ret_eq submit_eq set_text_def zip_of_def editor_ok_def)
  next
    case backspace
    with step c take_pred [of "cursor e" "ed_text e"] show ?thesis
      by (cases "cursor e = 0") (auto simp: handle_key_backspace zip_of_def)
  next
    case delete
    with step c show ?thesis
      by (auto simp: handle_key_delete zip_of_def tl_drop [symmetric] drop_Suc)
  next
    case kill
    with step c show ?thesis by (auto simp: handle_key_kill zip_of_def)
  next
    case other
    with step show ?thesis by (auto simp: handle_key_other zip_of_def)
  qed
  then show "zip_of e' = zip_key (kind ev) (normalize_input (ev_text ev)) (zip_of e)"
    and "r = (if kind ev = ''enter'' then Some (ed_text e) else None)" by simp_all
qed

section \<open>Properties\<close>

text \<open>A key event keeps the cursor inside the text and the text within its limit, and bumps the
  revision exactly when the text or the cursor changed, also when the key is rejected.\<close>

theorem key_keeps_editor:
  assumes "editor_ok e"
  shows "editor_ok (fst (handle_key ev e)) \<and> max_chars (fst (handle_key ev e)) = max_chars e \<and>
    (revision (fst (handle_key ev e)) =
      (if ed_text (fst (handle_key ev e)) = ed_text e \<and> cursor (fst (handle_key ev e)) = cursor e
       then revision e else Suc (revision e)))"
  using revises_handle_key [of ev] assms by (simp add: revises_def Let_def)

definition demo_editor :: editor where
  "demo_editor = \<lparr>max_chars = 4, ed_text = ustr ''abc'', cursor = 2, revision = 0\<rparr>"

theorem key_keeps_editor_witness:
  "editor_ok (fst (handle_key (key ''paste'' (ustr ''xyz'')) demo_editor))"
proof -
  have "editor_ok demo_editor" by code_simp
  from key_keeps_editor [OF this] show ?thesis by blast
qed

text \<open>C31: The buffer implements a zipper: every accepted key does to the text before and after the
  cursor what the abstract editor does, and \<open>enter\<close> returns the whole text.\<close>

theorem editor_refines_zipper:
  assumes "editor_ok e" "handle_key ev e = (e', Inr r)"
  shows "zip_of e' = zip_key (kind ev) (normalize_input (ev_text ev)) (zip_of e) \<and>
    r = (if kind ev = ''enter'' then Some (ed_text e) else None)"
  using zip_handle_key [OF assms] by simp

theorem editor_refines_zipper_witness:
  "zip_of (fst (handle_key (key ''left'' ([])) demo_editor)) = (ustr ''a'', ustr ''bc'')"
proof -
  have ok: "editor_ok demo_editor" by code_simp
  have "snd (handle_key (key ''left'' ([])) demo_editor) = Inr None" by code_simp
  then obtain e' where s: "handle_key (key ''left'' ([])) demo_editor = (e', Inr None)"
    by (metis prod.collapse)
  have z: "zip_key ''left'' (normalize_input []) (zip_of demo_editor) = (ustr ''a'', ustr ''bc'')" by code_simp
  from editor_refines_zipper [OF ok s] s z show ?thesis by (simp add: key_def)
qed

end
