(* ===== verification/Machines.thy ===== *)
theory Machines
  imports Py_Prelude
begin

text \<open>
  Two contracts that several components meet. An \<open>op_machine\<close> is an object whose operations all
  keep an invariant, whatever they return or raise, as long as their arguments are valid; what
  holds of one operation then holds of every sequence of them. A \<open>frame_machine\<close> adds a view of the state that a class of operations
  does not change.
\<close>

definition run_ops :: "('op \<Rightarrow> 's \<Rightarrow> 's) \<Rightarrow> 'op list \<Rightarrow> 's \<Rightarrow> 's" where
  "run_ops perform ops s = fold perform ops s"

lemma run_ops_simps [simp]:
  "run_ops perform [] s = s"
  "run_ops perform (x # xs) s = run_ops perform xs (perform x s)"
  "run_ops perform (xs @ ys) s = run_ops perform ys (run_ops perform xs s)"
  by (simp_all add: run_ops_def)

locale op_machine =
  fixes perform :: "'op \<Rightarrow> 's \<Rightarrow> 's"
    and inv :: "'s \<Rightarrow> bool"
    and valid :: "'op \<Rightarrow> bool"
  assumes step_inv: "inv s \<Longrightarrow> valid x \<Longrightarrow> inv (perform x s)"
begin

lemma run_inv: "inv s \<Longrightarrow> list_all valid xs \<Longrightarrow> inv (run_ops perform xs s)"
  by (induction xs arbitrary: s) (simp_all add: step_inv)

lemma run_monotone:
  assumes mono: "\<And>s x. inv s \<Longrightarrow> valid x \<Longrightarrow> f s \<le> (f (perform x s) :: 'a :: preorder)"
  shows "inv s \<Longrightarrow> list_all valid xs \<Longrightarrow> f s \<le> f (run_ops perform xs s)"
proof (induction xs arbitrary: s)
  case (Cons x xs)
  then have "f (perform x s) \<le> f (run_ops perform xs (perform x s))"
    by (simp add: step_inv)
  with mono [of s x] Cons.prems show ?case
    by (simp add: order_trans)
qed simp

end

locale frame_machine = op_machine perform inv valid
  for perform :: "'op \<Rightarrow> 's \<Rightarrow> 's" and inv :: "'s \<Rightarrow> bool" and valid :: "'op \<Rightarrow> bool" +
  fixes view :: "'s \<Rightarrow> 'v"
    and quiet :: "'op \<Rightarrow> bool"
    and during :: "'s \<Rightarrow> bool"
  assumes quiet_valid: "quiet x \<Longrightarrow> valid x"
    and step_view: "inv s \<Longrightarrow> during s \<Longrightarrow> quiet x \<Longrightarrow> view (perform x s) = view s"
    and step_during: "inv s \<Longrightarrow> during s \<Longrightarrow> quiet x \<Longrightarrow> during (perform x s)"
begin

lemma run_view:
  "inv s \<Longrightarrow> during s \<Longrightarrow> list_all quiet xs \<Longrightarrow>
     inv (run_ops perform xs s) \<and> during (run_ops perform xs s) \<and>
     view (run_ops perform xs s) = view s"
  by (induction xs arbitrary: s) (simp_all add: step_inv step_view step_during quiet_valid)

end

end
