(* ===== verification/Message_Queue.thy ===== *)
theory Message_Queue
  imports Line_Editor Validation Machines
begin

text \<open>
  \<open>raychat/ui/message_queue.py\<close> with the editor fields of \<open>raychat/handoff.py\<close>: pending prompts
  in first-in first-out order, and one edit transaction over them that borrows the composer's
  editor. The state is the queue together with that editor, because every operation of the
  transaction mutates both; an operation that raises keeps the mutations made before.
\<close>

section \<open>Editor fields of a handoff\<close>

definition optional_index :: "pyval \<Rightarrow> pystr \<Rightarrow> nat option result" where
  "optional_index v name = (if v = VNone then Inr None
     else bindR (integer_field (Some 0) v name) (\<lambda>i. Inr (Some (nat i))))"

definition editor_state :: "pystr \<Rightarrow> nat \<Rightarrow> pyval" where
  "editor_state s c = dict_of [(ustr ''text'', VStr s), (ustr ''cursor'', VInt (int c))]"

definition editor_parts :: "pyval \<Rightarrow> (pystr \<times> nat) result" where
  "editor_parts v =
     bindR (configuration_fields v (ustr ''editor'')) (\<lambda>data.
     bindR (item data ''text'') (\<lambda>t. bindR (any_text t (ustr ''editor text'')) (\<lambda>s.
     bindR (item data ''cursor'') (\<lambda>c. bindR (integer_field (Some 0) c (ustr ''cursor'')) (\<lambda>i.
     if i > int (length s) then raise ValueError ''Editor cursor exceeds its text.''
     else Inr (s, nat i))))))"

lemma configuration_fields_dict_of [simp]: "configuration_fields (dict_of fs) p = Inr fs"
  by (simp add: configuration_fields_def dict_of_def)

lemma editor_state_not_None [simp]: "editor_state s c \<noteq> VNone"
  by (simp add: editor_state_def dict_of_def)

lemma editor_parts_state: "c \<le> length s \<Longrightarrow> editor_parts (editor_state s c) = Inr (s, c)"
  by (simp add: editor_parts_def editor_state_def item_def any_text_def text_field_def
      integer_field_def Let_def)

lemma editor_parts_bounds: "editor_parts v = Inr (s, c) \<Longrightarrow> c \<le> length s"
  by (auto simp: editor_parts_def bindR_Inr_iff split: if_splits)

section \<open>The queue\<close>

record queued =
  ident :: int
  body :: pystr

record mqueue =
  items :: "queued list"
  selected :: "nat option"
  next_id :: int
  edits :: "(int, pystr) dict"
  draft :: "(pystr \<times> nat) option"

record qstate =
  queue :: mqueue
  composer :: editor

definition new_queue :: mqueue where
  "new_queue = \<lparr>items = [], selected = None, next_id = 0, edits = [], draft = None\<rparr>"

definition editing :: "mqueue \<Rightarrow> bool" where
  "editing q \<longleftrightarrow> selected q \<noteq> None"

definition export_queue :: "mqueue \<Rightarrow> pyval" where
  "export_queue q = dict_of
     [(ustr ''items'', VList (map (\<lambda>m. dict_of
         [(ustr ''id'', VInt (ident m)), (ustr ''text'', VStr (body m))]) (items q))),
      (ustr ''selected'', case selected q of None \<Rightarrow> VNone | Some i \<Rightarrow> VInt (int i)),
      (ustr ''next_id'', VInt (next_id q)),
      (ustr ''edits'', dict_of (map (\<lambda>(k, s). (str_int k, VStr s)) (edits q))),
      (ustr ''draft'', case draft q of None \<Rightarrow> VNone | Some (s, c) \<Rightarrow> editor_state s c)]"

definition read_item :: "pyval \<Rightarrow> queued result" where
  "read_item raw =
     bindR (configuration_fields raw (ustr ''queue item'')) (\<lambda>it.
     bindR (item it ''id'') (\<lambda>i. bindR (integer_field (Some 1) i (ustr ''message id'')) (\<lambda>n.
     bindR (item it ''text'') (\<lambda>t. bindR (required_text t (ustr ''queued text'')) (\<lambda>s.
     Inr \<lparr>ident = n, body = s\<rparr>)))))"

text \<open>The dictionary comprehension over the saved edits: later keys overwrite equal ones.\<close>

fun read_edits :: "(int, pystr) dict \<Rightarrow> fields \<Rightarrow> (int, pystr) dict result" where
  "read_edits acc [] = Inr acc"
| "read_edits acc ((k, v) # rest) =
     (case py_int k of None \<Rightarrow> raise ValueError ''invalid literal for int() with base 10''
      | Some n \<Rightarrow> bindR (any_text v (ustr ''temporary edit''))
          (\<lambda>s. read_edits (AList.update n s acc) rest))"

definition restore_queue :: "pyval \<Rightarrow> mqueue result" where
  "restore_queue v =
     bindR (configuration_fields v (ustr ''queue handoff'')) (\<lambda>data.
     bindR (item data ''items'') (\<lambda>raw. bindR (array_field raw (ustr ''queue items'')) (\<lambda>raws.
     bindR (mapR read_item raws) (\<lambda>its.
     bindR (item data ''selected'') (\<lambda>s. bindR (optional_index s (ustr ''queue selection'')) (\<lambda>sel.
     bindR (item data ''next_id'') (\<lambda>n. bindR (integer_field (Some 0) n (ustr ''next message id'')) (\<lambda>nid.
     bindR (item data ''edits'') (\<lambda>e. bindR (configuration_fields e (ustr ''queue edits'')) (\<lambda>es.
     bindR (read_edits [] es) (\<lambda>eds.
     bindR (item data ''draft'') (\<lambda>d.
     bindR (if d = VNone then Inr None else bindR (editor_parts d) (\<lambda>p. Inr (Some p))) (\<lambda>dr.
     let ids = map ident its in
     if \<not> distinct ids \<or> foldl max 0 ids > nid \<or> \<not> set (keys eds) \<subseteq> set ids
        \<or> (case sel of None \<Rightarrow> False | Some i \<Rightarrow> i \<ge> length its)
     then raise ValueError ''Inconsistent queue handoff.''
     else if (sel = None) \<noteq> (dr = None)
     then raise ValueError ''Queue edit draft and selection must be transferred together.''
     else Inr \<lparr>items = its, selected = sel, next_id = nid, edits = eds, draft = dr\<rparr>)))))))))))))"

definition restore_handoff :: "pyval \<Rightarrow> (qstate, unit) eff" where
  "restore_handoff v s = (case restore_queue v of
      Inl e \<Rightarrow> (s, Inl e) | Inr q \<Rightarrow> (s\<lparr>queue := q\<rparr>, Inr ()))"

definition append_message :: "pystr \<Rightarrow> (qstate, unit) eff" where
  "append_message text s =
     (if blank text then (s, raise ValueError ''Queued messages cannot be empty.'')
      else let q = queue s; n = next_id q + 1 in
        (s\<lparr>queue := q\<lparr>next_id := n, items := items q @ [\<lparr>ident = n, body = text\<rparr>]\<rparr>\<rparr>, Inr ()))"

definition take_message :: "(qstate, pystr option) eff" where
  "take_message s =
     (let q = queue s in
      if editing q \<or> items q = [] then (s, Inr None)
      else (s\<lparr>queue := q\<lparr>items := tl (items q)\<rparr>\<rparr>, Inr (Some (body (hd (items q))))))"

definition replace_editor :: "pystr \<Rightarrow> nat option \<Rightarrow> (qstate, unit) eff" where
  "replace_editor text c s =
     (case set_text (VStr text) (case c of None \<Rightarrow> VNone | Some n \<Rightarrow> VInt (int n)) (composer s) of
        (e, r) \<Rightarrow> (s\<lparr>composer := e\<rparr>, r))"

definition remember :: "(qstate, unit) eff" where
  "remember s = (case selected (queue s) of None \<Rightarrow> (s, Inr ())
     | Some i \<Rightarrow> (case py_nth (items (queue s)) (int i) of
         Inl e \<Rightarrow> (s, Inl e)
       | Inr m \<Rightarrow> (s\<lparr>queue := (queue s)\<lparr>edits :=
             AList.update (ident m) (ed_text (composer s)) (edits (queue s))\<rparr>\<rparr>, Inr ())))"

definition current_text :: "mqueue \<Rightarrow> queued \<Rightarrow> pystr" where
  "current_text q m = (case map_of (edits q) (ident m) of None \<Rightarrow> body m | Some t \<Rightarrow> t)"

definition open_message :: "int \<Rightarrow> (qstate, unit) eff" where
  "open_message index s =
     (if items (queue s) = [] then (s, Inr ())
      else bindS remember (\<lambda>_.
        bindS (modS (\<lambda>s. if draft (queue s) = None
            then s\<lparr>queue := (queue s)\<lparr>draft := Some (ed_text (composer s), cursor (composer s))\<rparr>\<rparr>
            else s)) (\<lambda>_.
        getS (\<lambda>s. let i = nat (clamp 0 (int (length (items (queue s))) - 1) index) in
          bindS (modS (\<lambda>s. s\<lparr>queue := (queue s)\<lparr>selected := Some i\<rparr>\<rparr>)) (\<lambda>_.
          bindS (liftR (py_nth (items (queue s)) (int i))) (\<lambda>m.
          replace_editor (current_text (queue s) m) None))))) s)"

definition navigate :: "int \<Rightarrow> (qstate, unit) eff" where
  "navigate direction s = open_message
     (case selected (queue s) of None \<Rightarrow> int (length (items (queue s))) - 1
      | Some i \<Rightarrow> int i + direction) s"

definition preview :: "int \<Rightarrow> qstate \<Rightarrow> pystr result" where
  "preview index s = bindR (py_nth (items (queue s)) index) (\<lambda>m. Inr
     (if (case selected (queue s) of None \<Rightarrow> False | Some i \<Rightarrow> int i = index)
      then ed_text (composer s) else current_text (queue s) m))"

definition commit_edits :: "mqueue \<Rightarrow> mqueue" where
  "commit_edits q = q\<lparr>items := map (\<lambda>m. \<lparr>ident = ident m, body = current_text q m\<rparr>) (items q)\<rparr>"

definition finish :: "bool \<Rightarrow> (qstate, unit) eff" where
  "finish save s =
     (if \<not> editing (queue s) then (s, Inr ())
      else bindS remember (\<lambda>_.
        bindS (\<lambda>s. if save then
              (if list_ex (\<lambda>p. blank (snd p)) (edits (queue s))
               then (s, raise ValueError (''Queued messages cannot be empty. '' @
                      ''Edit the message or press Escape to discard changes.''))
               else (s\<lparr>queue := commit_edits (queue s)\<rparr>, Inr ()))
            else (s, Inr ())) (\<lambda>_.
        bindS (getS (\<lambda>s. case draft (queue s) of None \<Rightarrow> retS ()
            | Some (t, c) \<Rightarrow> replace_editor t (Some c))) (\<lambda>_.
        modS (\<lambda>s. s\<lparr>queue := (queue s)\<lparr>selected := None, draft := None, edits := []\<rparr>\<rparr>)))) s)"

definition clear_queue :: "(qstate, unit) eff" where
  "clear_queue = bindS (finish False) (\<lambda>_. modS (\<lambda>s. s\<lparr>queue := (queue s)\<lparr>items := []\<rparr>\<rparr>))"

section \<open>The invariant\<close>

definition queue_ok :: "qstate \<Rightarrow> bool" where
  "queue_ok s \<longleftrightarrow> (let q = queue s in
     editor_ok (composer s) \<and>
     sorted_wrt (<) (map ident (items q)) \<and>
     (\<forall>m\<in>set (items q). 1 \<le> ident m \<and> ident m \<le> next_id q \<and> \<not> blank (body m)) \<and>
     0 \<le> next_id q \<and>
     dict_ok (edits q) \<and> set (keys (edits q)) \<subseteq> set (map ident (items q)) \<and>
     (case (selected q, draft q) of
        (None, None) \<Rightarrow> edits q = []
      | (Some i, Some (t, c)) \<Rightarrow> i < length (items q) \<and> c \<le> length t \<and> length t \<le> max_chars (composer s)
      | _ \<Rightarrow> False))"

lemma queue_ok_new: "editor_ok e \<Longrightarrow> queue_ok \<lparr>queue = new_queue, composer = e\<rparr>"
  by (simp add: queue_ok_def new_queue_def keys_def)

lemma queue_ok_selected:
  "queue_ok s \<Longrightarrow> selected (queue s) = Some i \<Longrightarrow> i < length (items (queue s)) \<and>
     (\<exists>t c. draft (queue s) = Some (t, c) \<and> c \<le> length t \<and> length t \<le> max_chars (composer s))"
  by (auto simp: queue_ok_def Let_def split: option.splits)

lemma queue_ok_idle:
  "queue_ok s \<Longrightarrow> \<not> editing (queue s) \<Longrightarrow> draft (queue s) = None \<and> edits (queue s) = []"
  by (auto simp: queue_ok_def editing_def Let_def split: option.splits)

text \<open>What \<open>remember\<close> does in a consistent state.\<close>

lemma remember_ok:
  assumes "queue_ok s"
  shows "remember s = (case selected (queue s) of None \<Rightarrow> (s, Inr ())
     | Some i \<Rightarrow> (s\<lparr>queue := (queue s)\<lparr>edits := AList.update (ident (items (queue s) ! i))
         (ed_text (composer s)) (edits (queue s))\<rparr>\<rparr>, Inr ()))"
  using queue_ok_selected [OF assms] by (auto simp: remember_def split: option.splits)

lemma remember_state:
  assumes "queue_ok s"
  obtains s1 es where "remember s = (s1, Inr ())" "s1 = s\<lparr>queue := (queue s)\<lparr>edits := es\<rparr>\<rparr>"
    "queue_ok s1" "selected (queue s) = None \<Longrightarrow> s1 = s"
proof (cases "selected (queue s)")
  case None
  then show ?thesis
    using that [of s "edits (queue s)"] assms by (simp add: remember_ok)
next
  case (Some i)
  define es where "es = AList.update (ident (items (queue s) ! i)) (ed_text (composer s)) (edits (queue s))"
  have i: "i < length (items (queue s))" using queue_ok_selected [OF assms Some] by simp
  have "set (keys es) \<subseteq> set (map ident (items (queue s)))"
    using assms i by (auto simp: es_def keys_def queue_ok_def Let_def dom_update)
  moreover have "dict_ok es" using assms by (simp add: es_def queue_ok_def Let_def)
  ultimately have "queue_ok (s\<lparr>queue := (queue s)\<lparr>edits := es\<rparr>\<rparr>)"
    using assms Some by (auto simp: queue_ok_def Let_def split: option.splits)
  then show ?thesis
    using that assms Some by (auto simp: remember_ok es_def)
qed

section \<open>Every operation keeps the invariant\<close>

text \<open>The composer as it will be when no transaction is open: the suspended draft, if any.\<close>

definition suspended :: "qstate \<Rightarrow> pystr \<times> nat" where
  "suspended s = (case draft (queue s) of
     None \<Rightarrow> (ed_text (composer s), cursor (composer s)) | Some p \<Rightarrow> p)"

lemma set_text_editor_ok: "editor_ok e \<Longrightarrow> editor_ok (fst (set_text v p e))"
  using revises_set_text [of v p] by (auto simp: revises_def Let_def)

lemma replace_editor_eq:
  "replace_editor t c s =
     (let r = set_text (VStr t) (case c of None \<Rightarrow> VNone | Some n \<Rightarrow> VInt (int n)) (composer s)
      in (s\<lparr>composer := fst r\<rparr>, snd r))"
  by (simp add: replace_editor_def Let_def split: prod.splits)

lemma replace_editor_ok:
  assumes "queue_ok s"
  shows "queue_ok (fst (replace_editor t c s))" "queue (fst (replace_editor t c s)) = queue s"
  using assms set_text_editor_ok [of "composer s"]
  by (auto simp: replace_editor_eq queue_ok_def Let_def split: option.splits)

lemma replace_editor_max [simp]: "max_chars (composer (fst (replace_editor t c s))) = max_chars (composer s)"
  by (simp add: replace_editor_eq Let_def)

lemma clamp_index: "n \<noteq> 0 \<Longrightarrow> nat (clamp 0 (int n - 1) i) < n"
  by (auto simp: clamp_def)

lemma open_message_eq:
  assumes ok: "queue_ok s" and ne: "items (queue s) \<noteq> []"
  shows "\<exists>es i. i < length (items (queue s)) \<and>
    i = nat (clamp 0 (int (length (items (queue s))) - 1) index) \<and>
    (let s2 = s\<lparr>queue := (queue s)\<lparr>edits := es, draft := Some (suspended s), selected := Some i\<rparr>\<rparr>
     in queue_ok s2 \<and> remember s = (s\<lparr>queue := (queue s)\<lparr>edits := es\<rparr>\<rparr>, Inr ()) \<and>
        open_message index s = replace_editor (current_text (queue s2) (items (queue s) ! i)) None s2)"
proof -
  define i where "i = nat (clamp 0 (int (length (items (queue s))) - 1) index)"
  from ne have i: "i < length (items (queue s))"
    unfolding i_def by (intro clamp_index) simp
  obtain s1 es where r: "remember s = (s1, Inr ())" "s1 = s\<lparr>queue := (queue s)\<lparr>edits := es\<rparr>\<rparr>" "queue_ok s1"
    by (rule remember_state [OF ok])
  let ?s2 = "s\<lparr>queue := (queue s)\<lparr>edits := es, draft := Some (suspended s), selected := Some i\<rparr>\<rparr>"
  have "editor_ok (composer s)" using ok by (simp add: queue_ok_def Let_def)
  then have ok2: "queue_ok ?s2"
    using r(2,3) i ok
    by (auto simp: queue_ok_def suspended_def editor_ok_def Let_def split: option.splits)
  have "open_message index s = replace_editor (current_text (queue ?s2) (items (queue s) ! i)) None ?s2"
    using ne i r(1,2) py_nth_nat [OF i] i_def [symmetric]
    by (cases s; cases "queue s"; cases "draft (queue s)")
       (simp_all add: open_message_def bindS_def suspended_def current_text_def Let_def
         del: int_nat_eq)
  with i i_def ok2 r(1,2) show ?thesis by (auto simp: Let_def)
qed

lemma open_message_frame:
  fixes index :: int
  assumes ok: "queue_ok s"
  defines "s' \<equiv> fst (open_message index s)"
  shows "queue_ok s'" "items (queue s') = items (queue s)" "next_id (queue s') = next_id (queue s)"
    "suspended s' = suspended s" "max_chars (composer s') = max_chars (composer s)"
    "items (queue s) \<noteq> [] \<Longrightarrow> editing (queue s')"
proof -
  have "queue_ok s' \<and> items (queue s') = items (queue s) \<and> next_id (queue s') = next_id (queue s) \<and>
    suspended s' = suspended s \<and> max_chars (composer s') = max_chars (composer s) \<and>
    (items (queue s) \<noteq> [] \<longrightarrow> editing (queue s'))"
  proof (cases "items (queue s) = []")
    case True
    then show ?thesis using ok by (simp add: s'_def open_message_def)
  next
    case False
    from open_message_eq [OF ok this, of index] obtain s2 es i t where
      s2: "s2 = s\<lparr>queue := (queue s)\<lparr>edits := es, draft := Some (suspended s), selected := Some i\<rparr>\<rparr>"
      and ok2: "queue_ok s2" and eq: "open_message index s = replace_editor t None s2"
      by (auto simp: Let_def)
    note fr = replace_editor_ok [OF ok2, of t None]
    show ?thesis
      using fr by (simp add: s'_def eq) (simp add: s2 suspended_def editing_def)
  qed
  then show "queue_ok s'" "items (queue s') = items (queue s)" "next_id (queue s') = next_id (queue s)"
    "suspended s' = suspended s" "max_chars (composer s') = max_chars (composer s)"
    "items (queue s) \<noteq> [] \<Longrightarrow> editing (queue s')"
    by simp_all
qed

lemma append_message_ok: "queue_ok s \<Longrightarrow> queue_ok (fst (append_message t s))"
  by (auto simp: append_message_def queue_ok_def Let_def sorted_wrt_append split: option.splits)

lemma take_message_ok: "queue_ok s \<Longrightarrow> queue_ok (fst (take_message s))"
  by (cases "items (queue s)")
     (auto simp: take_message_def queue_ok_def editing_def Let_def keys_def split: option.splits)

lemma commit_edits_frame [simp]:
  "map ident (items (commit_edits q)) = map ident (items q)"
  "length (items (commit_edits q)) = length (items q)"
  "next_id (commit_edits q) = next_id q" "selected (commit_edits q) = selected q"
  "draft (commit_edits q) = draft q" "edits (commit_edits q) = edits q"
  by (simp_all add: commit_edits_def comp_def)

lemma commit_edits_ok:
  assumes ok: "queue_ok s" and nb: "\<not> list_ex (\<lambda>p. blank (snd p)) (edits (queue s))"
  shows "queue_ok (s\<lparr>queue := commit_edits (queue s)\<rparr>)"
proof -
  have "\<not> blank (current_text (queue s) m)" if "m \<in> set (items (queue s))" for m
    using ok nb that map_of_SomeD [of "edits (queue s)" "ident m"]
    by (force simp: current_text_def queue_ok_def list_ex_iff Let_def split: option.splits)
  then show ?thesis
    using ok unfolding queue_ok_def Let_def
    by (auto simp: commit_edits_def comp_def split: option.splits)
qed

text \<open>What finishing a transaction leaves.\<close>

definition idle :: "mqueue \<Rightarrow> mqueue" where
  "idle q = q\<lparr>selected := None, draft := None, edits := []\<rparr>"

lemma finish_cases:
  assumes ok: "queue_ok s" and ed: "editing (queue s)"
  obtains s1 where "remember s = (s1, Inr ())" "queue_ok s1" "items (queue s1) = items (queue s)"
    "suspended s1 = suspended s" "max_chars (composer s1) = max_chars (composer s)"
    "next_id (queue s1) = next_id (queue s)" "selected (queue s1) = selected (queue s)"
    "finish save s =
       (if save \<and> list_ex (\<lambda>p. blank (snd p)) (edits (queue s1))
        then (s1, raise ValueError (''Queued messages cannot be empty. '' @
                      ''Edit the message or press Escape to discard changes.''))
        else (\<lparr>queue = idle (if save then commit_edits (queue s1) else queue s1),
          composer = fst (set_text (VStr (fst (suspended s))) (VInt (int (snd (suspended s)))) (composer s))\<rparr>, Inr ()))"
proof -
  obtain i where i: "selected (queue s) = Some i" using ed by (auto simp: editing_def)
  from queue_ok_selected [OF ok i] obtain t c where
    d: "draft (queue s) = Some (t, c)" "c \<le> length t" "length t \<le> max_chars (composer s)" by blast
  obtain s1 es where r: "remember s = (s1, Inr ())" "s1 = s\<lparr>queue := (queue s)\<lparr>edits := es\<rparr>\<rparr>" "queue_ok s1"
    by (rule remember_state [OF ok])
  obtain e' where e': "set_text (VStr t) (VInt (int c)) (composer s) = (e', Inr ())"
    using set_text_at [of t "composer s" c] d by blast
  have "finish save s =
       (if save \<and> list_ex (\<lambda>p. blank (snd p)) (edits (queue s1))
        then (s1, raise ValueError (''Queued messages cannot be empty. '' @
                      ''Edit the message or press Escape to discard changes.''))
        else (\<lparr>queue = idle (if save then commit_edits (queue s1) else queue s1), composer = e'\<rparr>, Inr ()))"
    using ed r(1,2) d(1) e'
    by (simp add: finish_def bindS_def raise_def replace_editor_def idle_def split: prod.splits)
  with that r d i e' show ?thesis by (auto simp: suspended_def)
qed

lemma idle_ok:
  "queue_ok s \<Longrightarrow> editor_ok e \<Longrightarrow> queue_ok \<lparr>queue = idle (queue s), composer = e\<rparr>"
  by (auto simp: queue_ok_def idle_def Let_def keys_def)

lemma finish_ok:
  assumes ok: "queue_ok s"
  shows "queue_ok (fst (finish save s))"
proof (cases "editing (queue s)")
  case False
  then show ?thesis using ok by (simp add: finish_def)
next
  case True
  have e: "editor_ok (composer s)" using ok by (simp add: queue_ok_def Let_def)
  show ?thesis
    by (rule finish_cases [OF ok True, of save])
       (use idle_ok [OF commit_edits_ok] idle_ok set_text_editor_ok [OF e] in auto)
qed

lemma clear_queue_eq:
  assumes "queue_ok s"
  shows "clear_queue s = (let s' = fst (finish False s) in (s'\<lparr>queue := (queue s')\<lparr>items := []\<rparr>\<rparr>, Inr ()))"
    and "\<not> editing (queue (fst (finish False s)))"
proof -
  have "\<exists>s'. finish False s = (s', Inr ()) \<and> \<not> editing (queue s')"
  proof (cases "editing (queue s)")
    case False
    then show ?thesis by (simp add: finish_def)
  next
    case True
    show ?thesis
      by (rule finish_cases [OF assms True, of False]) (auto simp: idle_def editing_def)
  qed
  then show "clear_queue s = (let s' = fst (finish False s) in (s'\<lparr>queue := (queue s')\<lparr>items := []\<rparr>\<rparr>, Inr ()))"
    and "\<not> editing (queue (fst (finish False s)))"
    by (auto simp: clear_queue_def bindS_def Let_def)
qed

lemma clear_items_ok:
  assumes "queue_ok s" and "\<not> editing (queue s)"
  shows "queue_ok (s\<lparr>queue := (queue s)\<lparr>items := []\<rparr>\<rparr>)"
proof -
  from queue_ok_idle [OF assms] have "draft (queue s) = None" "edits (queue s) = []" by simp_all
  moreover have "selected (queue s) = None" using assms(2) by (simp add: editing_def)
  ultimately show ?thesis
    using assms(1) by (simp add: queue_ok_def Let_def keys_def)
qed

lemma clear_queue_ok: "queue_ok s \<Longrightarrow> queue_ok (fst (clear_queue s))"
  using clear_items_ok [OF finish_ok clear_queue_eq(2)] clear_queue_eq(1) [of s]
  by (simp add: Let_def)

section \<open>The queue as a machine\<close>

datatype queue_op = QAppend pystr | QTake | QOpen int | QNavigate int | QFinish bool | QClear
  | QKey key_event

fun queue_perform :: "queue_op \<Rightarrow> qstate \<Rightarrow> qstate" where
  "queue_perform (QAppend t) s = fst (append_message t s)"
| "queue_perform QTake s = fst (take_message s)"
| "queue_perform (QOpen i) s = fst (open_message i s)"
| "queue_perform (QNavigate d) s = fst (navigate d s)"
| "queue_perform (QFinish b) s = fst (finish b s)"
| "queue_perform QClear s = fst (clear_queue s)"
| "queue_perform (QKey ev) s = s\<lparr>composer := fst (handle_key ev (composer s))\<rparr>"

lemma key_keeps_queue:
  assumes "queue_ok s"
  shows "queue_ok (s\<lparr>composer := fst (handle_key ev (composer s))\<rparr>)"
proof -
  have "editor_ok (composer s)" using assms by (simp add: queue_ok_def Let_def)
  with revises_handle_key [of ev] have "editor_ok (fst (handle_key ev (composer s)))"
    "max_chars (fst (handle_key ev (composer s))) = max_chars (composer s)"
    by (auto simp: revises_def Let_def)
  with assms show ?thesis by (auto simp: queue_ok_def Let_def split: option.splits)
qed

lemma queue_step_ok: "queue_ok s \<Longrightarrow> queue_ok (queue_perform x s)"
  by (cases x) (simp_all add: append_message_ok take_message_ok open_message_frame(1) navigate_def
      finish_ok clear_queue_ok key_keeps_queue)

text \<open>While a transaction is open: everything but closing it.\<close>

fun transaction_op :: "queue_op \<Rightarrow> bool" where
  "transaction_op (QFinish _) = False"
| "transaction_op QClear = False"
| "transaction_op (QAppend _) = False"
| "transaction_op _ = True"

definition kept :: "qstate \<Rightarrow> queued list \<times> int \<times> pystr \<times> nat" where
  "kept s = (items (queue s), next_id (queue s), suspended s)"

lemma transaction_view:
  assumes "queue_ok s" "editing (queue s)" "transaction_op x"
  shows "kept (queue_perform x s) = kept s" and "editing (queue (queue_perform x s))"
proof -
  obtain i where i: "selected (queue s) = Some i" using assms(2) by (auto simp: editing_def)
  from queue_ok_selected [OF assms(1) i] have ne: "items (queue s) \<noteq> []"
    and d: "\<exists>p. draft (queue s) = Some p" by auto
  show "kept (queue_perform x s) = kept s" and "editing (queue (queue_perform x s))"
    using assms open_message_frame [OF assms(1)] ne d
    by (cases x; auto simp: kept_def take_message_def navigate_def suspended_def Let_def)+
qed

text \<open>The two operations that open a transaction.\<close>

fun opening_op :: "queue_op \<Rightarrow> bool" where
  "opening_op (QOpen _) = True"
| "opening_op (QNavigate _) = True"
| "opening_op _ = False"

lemma opening_view:
  assumes "queue_ok s" "items (queue s) \<noteq> []" "opening_op x"
  shows "kept (queue_perform x s) = kept s" "editing (queue (queue_perform x s))"
  using assms open_message_frame [OF assms(1)]
  by (cases x; simp add: kept_def navigate_def)+

interpretation queue_machine: frame_machine queue_perform queue_ok "\<lambda>_. True"
    kept transaction_op "\<lambda>s. editing (queue s)"
  by unfold_locales (simp_all add: queue_step_ok transaction_view)

lemma queue_run_next_id: "queue_ok s \<Longrightarrow>
    next_id (queue s) \<le> next_id (queue (run_ops queue_perform xs s))"
proof (rule queue_machine.run_monotone, goal_cases)
  case (1 s x)
  then have ok: "queue_ok s" by simp
  have fin: "next_id (queue (fst (finish b s))) = next_id (queue s)" for b
  proof (cases "editing (queue s)")
    case True
    show ?thesis by (rule finish_cases [OF ok True, of b]) (auto simp: idle_def)
  qed (simp add: finish_def)
  show ?case
    using ok by (cases x) (simp_all add: append_message_def take_message_def navigate_def
        open_message_frame fin clear_queue_eq Let_def)
qed (simp_all add: list_all_iff)

text \<open>The identifiers a run issues: those of the messages that appear in the queue, step by step.\<close>

definition new_idents :: "qstate \<Rightarrow> qstate \<Rightarrow> int list" where
  "new_idents s s' = filter (\<lambda>i. i \<notin> set (map ident (items (queue s)))) (map ident (items (queue s')))"

fun issued :: "queue_op list \<Rightarrow> qstate \<Rightarrow> int list" where
  "issued [] s = []"
| "issued (x # xs) s = new_idents s (queue_perform x s) @ issued xs (queue_perform x s)"

lemma append_idents:
  "new_idents s (fst (append_message t s)) \<in> {[], [next_id (queue s) + 1]}"
  by (auto simp: append_message_def new_idents_def Let_def)

lemma finish_idents:
  assumes "queue_ok s"
  shows "map ident (items (queue (fst (finish b s)))) = map ident (items (queue s))"
proof (cases "editing (queue s)")
  case True
  show ?thesis by (rule finish_cases [OF assms True, of b]) (auto simp: idle_def)
qed (simp add: finish_def)

lemma step_idents:
  assumes "queue_ok s"
  shows "new_idents s (queue_perform x s) \<in> {[], [next_id (queue s) + 1]}"
proof (cases "\<exists>t. x = QAppend t")
  case True
  then obtain t where "x = QAppend t" by blast
  with append_idents [of s t] show ?thesis by simp
next
  case False
  have "set (map ident (items (queue (queue_perform x s)))) \<subseteq> set (map ident (items (queue s)))"
    using False finish_idents [OF assms] open_message_frame(2) [OF assms]
    by (cases x) (auto simp: take_message_def navigate_def clear_queue_eq(1) [OF assms] Let_def dest: list.set_sel(2) [rotated])
  then have "new_idents s (queue_perform x s) = []"
    unfolding new_idents_def filter_empty_conv by blast
  then show ?thesis by simp
qed

lemma new_idents_bound:
  "queue_ok s' \<Longrightarrow> set (new_idents s s') \<subseteq> {1..next_id (queue s')}"
  by (auto simp: new_idents_def queue_ok_def Let_def)

lemma issued_ascending:
  "queue_ok s \<Longrightarrow> sorted_wrt (<) (next_id (queue s) # issued xs s)"
proof (induction xs arbitrary: s)
  case (Cons x xs)
  let ?s = "queue_perform x s"
  have ok: "queue_ok ?s" by (rule queue_step_ok [OF Cons.prems])
  have mono: "next_id (queue s) \<le> next_id (queue ?s)"
    using queue_run_next_id [OF Cons.prems, of "[x]"] by simp
  have rest: "sorted_wrt (<) (next_id (queue ?s) # issued xs ?s)" by (rule Cons.IH [OF ok])
  show ?case
    using step_idents [OF Cons.prems, of x] new_idents_bound [OF ok, of s] rest mono
    by (auto simp: sorted_wrt_append)
qed simp

lemma finish_discard_restores:
  assumes ok: "queue_ok s" and ed: "editing (queue s)"
  shows "queue (fst (finish False s)) = (queue s)\<lparr>selected := None, draft := None, edits := []\<rparr>"
    "(ed_text (composer (fst (finish False s))), cursor (composer (fst (finish False s)))) = suspended s"
    "snd (finish False s) = Inr ()" "\<not> editing (queue (fst (finish False s)))"
proof -
  obtain i where i: "selected (queue s) = Some i" using ed by (auto simp: editing_def)
  from queue_ok_selected [OF ok i] obtain t c where
    d: "draft (queue s) = Some (t, c)" "c \<le> length t" "length t \<le> max_chars (composer s)" by blast
  from set_text_at [of t "composer s" c] d(2,3) obtain e' where e':
    "set_text (VStr t) (VInt (int c)) (composer s) = (e', Inr ())" "ed_text e' = t" "cursor e' = c" by blast
  have q: "queue s1 = (queue s)\<lparr>edits := edits (queue s1)\<rparr>" if "remember s = (s1, Inr ())" for s1
    using that remember_ok [OF ok] i by auto
  show "queue (fst (finish False s)) = (queue s)\<lparr>selected := None, draft := None, edits := []\<rparr>"
  proof (rule finish_cases [OF ok ed, of False])
    fix s1 assume "remember s = (s1, Inr ())" and f: "finish False s =
       (if False \<and> list_ex (\<lambda>p. blank (snd p)) (edits (queue s1))
        then (s1, raise ValueError (''Queued messages cannot be empty. '' @
                      ''Edit the message or press Escape to discard changes.''))
        else (\<lparr>queue = idle (if False then commit_edits (queue s1) else queue s1),
          composer = fst (set_text (VStr (fst (suspended s))) (VInt (int (snd (suspended s)))) (composer s))\<rparr>, Inr ()))"
    have "(queue s1)\<lparr>selected := None, draft := None, edits := []\<rparr> = (queue s)\<lparr>selected := None, draft := None, edits := []\<rparr>"
      by (subst q [OF \<open>remember s = (s1, Inr ())\<close>]) simp
    then show ?thesis by (simp add: f idle_def)
  qed
  show "(ed_text (composer (fst (finish False s))), cursor (composer (fst (finish False s)))) = suspended s"
    "snd (finish False s) = Inr ()" "\<not> editing (queue (fst (finish False s)))"
    by (rule finish_cases [OF ok ed, of False],
        use e' d in \<open>simp add: suspended_def idle_def editing_def\<close>)+
qed

section \<open>Handoff round trip\<close>

lemma read_edits_saved:
  "dict_ok (acc @ es) \<Longrightarrow> read_edits acc (map (\<lambda>(k, s). (str_int k, VStr s)) es) = Inr (acc @ es)"
proof (induction es arbitrary: acc)
  case (Cons p es)
  obtain k t where p: "p = (k, t)" by (cases p)
  from Cons.prems have "\<not> has_key acc k"
    by (auto simp: p dict_ok_def keys_def has_key_def)
  with Cons show ?case
    by (simp add: p any_text_def text_field_def update_new_key)
qed simp

lemma read_item_saved:
  "1 \<le> ident m \<Longrightarrow> body m \<noteq> [] \<Longrightarrow>
     read_item (dict_of [(ustr ''id'', VInt (ident m)), (ustr ''text'', VStr (body m))]) = Inr m"
  by (simp add: read_item_def item_def integer_field_def required_text_def text_field_def Let_def)

lemma foldl_max_le: "(\<forall>x\<in>set xs. x \<le> n) \<Longrightarrow> a \<le> n \<Longrightarrow> foldl max a xs \<le> (n::int)"
  by (induction xs arbitrary: a) auto

lemma restore_export:
  assumes ok: "queue_ok s"
  shows "restore_queue (export_queue (queue s)) = Inr (queue s)"
proof -
  let ?q = "queue s"
  have its: "mapR read_item (map (\<lambda>m. dict_of
      [(ustr ''id'', VInt (ident m)), (ustr ''text'', VStr (body m))]) (items ?q)) = Inr (items ?q)"
    using ok by (auto simp: mapR_Inr_iff list_all2_conv_all_nth queue_ok_def Let_def not_blank_nonempty
        intro!: read_item_saved)
  have eds: "read_edits [] (map (\<lambda>(k, s). (str_int k, VStr s)) (edits ?q)) = Inr (edits ?q)"
    using read_edits_saved [of "[]"] ok by (simp add: queue_ok_def Let_def)
  have ids: "distinct (map ident (items ?q))" "foldl max 0 (map ident (items ?q)) \<le> next_id ?q"
    using ok by (auto simp: queue_ok_def Let_def strict_sorted_iff intro!: foldl_max_le)
  show ?thesis
    using ok its eds ids queue_ok_idle [OF ok]
    by (cases "selected ?q"; cases "draft ?q")
       (auto simp: restore_queue_def export_queue_def item_def array_field_def optional_index_def
         integer_field_def Let_def editing_def editor_parts_state editor_state_def [symmetric]
         queue_ok_def dict_of_def [of "[_, _]"] split: option.splits)
qed

section \<open>Properties\<close>

definition demo_queue :: qstate where
  "demo_queue = \<lparr>queue = \<lparr>items = [\<lparr>ident = 1, body = ustr ''a''\<rparr>, \<lparr>ident = 2, body = ustr ''b''\<rparr>],
       selected = None, next_id = 2, edits = [], draft = None\<rparr>,
     composer = \<lparr>max_chars = 10, ed_text = ustr ''hi'', cursor = 1, revision = 0\<rparr>\<rparr>"

lemma demo_queue_ok: "queue_ok demo_queue"
  by code_simp

text \<open>C26: The queue invariant (identifiers strictly increasing and at most the last one issued,
  no blank message, edits only of queued messages, a saved draft exactly while a message is
  selected) holds after every sequence of operations and key presses, those that raise included.
  The identifiers of all the messages that appear in the queue along the run, also of those that
  are gone again, are pairwise different and different from every identifier issued before it.\<close>

theorem every_run_keeps_queue:
  assumes "queue_ok s"
  shows "queue_ok (run_ops queue_perform xs s) \<and>
    next_id (queue s) \<le> next_id (queue (run_ops queue_perform xs s)) \<and>
    distinct (issued xs s) \<and> list_all (\<lambda>i. next_id (queue s) < i) (issued xs s)"
  using queue_machine.run_inv [OF assms, of xs] queue_run_next_id [OF assms, of xs]
    issued_ascending [OF assms, of xs] strict_sorted_iff [of "issued xs s"]
  by (simp add: list_all_iff)

theorem every_run_keeps_queue_witness:
  "queue_ok (run_ops queue_perform [QTake, QTake, QAppend (ustr ''c''), QTake, QAppend (ustr ''d'')] demo_queue) \<and>
   issued [QTake, QTake, QAppend (ustr ''c''), QTake, QAppend (ustr ''d'')] demo_queue = [3, 4] \<and> distinct [3, 4 :: int]"
proof -
  let ?xs = "[QTake, QTake, QAppend (ustr ''c''), QTake, QAppend (ustr ''d'')]"
  have "issued ?xs demo_queue = [3, 4]" by code_simp
  with every_run_keeps_queue [OF demo_queue_ok, of ?xs] show ?thesis by metis
qed

text \<open>C25: Discarding an edit transaction undoes it. Begin with any consistent queue that holds
  messages and is not being edited, open a message (directly or by navigating), then open, navigate,
  type and take in any order: \<open>finish(save=False)\<close> succeeds, the queue is exactly what it was before
  the transaction opened (messages, last identifier, no selection, draft or edits), and the composer
  has the text and the cursor it had then.\<close>

theorem discard_undoes_transaction:
  assumes "queue_ok s" "\<not> editing (queue s)" "items (queue s) \<noteq> []"
    and "opening_op x" "list_all transaction_op xs"
  shows "\<exists>s'. finish False (run_ops queue_perform (x # xs) s) = (s', Inr ()) \<and> queue s' = queue s \<and>
    ed_text (composer s') = ed_text (composer s) \<and> cursor (composer s') = cursor (composer s)"
proof -
  let ?s1 = "queue_perform x s" and ?s2 = "run_ops queue_perform (x # xs) s"
  note op = opening_view [OF assms(1,3,4)]
  have s2: "queue_ok ?s2" "editing (queue ?s2)" "kept ?s2 = kept s"
    using queue_machine.run_view [OF queue_step_ok [OF assms(1)] op(2) assms(5)] op(1) by simp_all
  have idle: "selected (queue s) = None" "draft (queue s) = None" "edits (queue s) = []"
    using queue_ok_idle [OF assms(1,2)] assms(2) by (simp_all add: editing_def)
  note f = finish_discard_restores [OF s2(1,2)]
  have "queue (fst (finish False ?s2)) = queue s"
    using f(1) s2(3) idle by (simp add: kept_def)
  moreover have "suspended s = (ed_text (composer s), cursor (composer s))"
    using idle by (simp add: suspended_def)
  ultimately show ?thesis
    using f s2(3) by (intro exI [of _ "fst (finish False ?s2)"]) (simp add: kept_def prod_eq_iff)
qed

definition demo_editing :: qstate where
  "demo_editing = fst (open_message 0 demo_queue)"

theorem discard_undoes_transaction_witness:
  "\<exists>s'. finish False (run_ops queue_perform
     [QNavigate 0, QKey (key ''text'' (ustr ''x'')), QNavigate (-1), QTake] demo_queue) = (s', Inr ()) \<and>
   queue s' = queue demo_queue \<and> ed_text (composer s') = ustr ''hi'' \<and> cursor (composer s') = 1"
proof -
  have i: "\<not> editing (queue demo_queue)" "items (queue demo_queue) \<noteq> []"
    "ed_text (composer demo_queue) = ustr ''hi''" "cursor (composer demo_queue) = 1"
    by (simp_all add: demo_queue_def editing_def)
  from discard_undoes_transaction [OF demo_queue_ok i(1,2), of "QNavigate 0"
      "[QKey (key ''text'' (ustr ''x'')), QNavigate (-1), QTake]"] i(3,4)
  show ?thesis by simp
qed

text \<open>Saving a transaction is all or nothing: if some edited text is blank, it raises and no
  message changes; otherwise every message has its edited text, identifiers and order stay, and
  the composer gets its suspended draft back.\<close>

theorem save_is_all_or_nothing:
  assumes "queue_ok s" "editing (queue s)" "remember s = (s1, Inr ())"
  shows "if list_ex (\<lambda>p. blank (snd p)) (edits (queue s1))
    then isl (snd (finish True s)) \<and> items (queue (fst (finish True s))) = items (queue s) \<and>
      editing (queue (fst (finish True s)))
    else snd (finish True s) = Inr () \<and> \<not> editing (queue (fst (finish True s))) \<and>
      items (queue (fst (finish True s))) =
        map (\<lambda>m. m\<lparr>body := current_text (queue s1) m\<rparr>) (items (queue s))"
proof -
  have m: "\<lparr>ident = ident m, body = t\<rparr> = m\<lparr>body := t\<rparr>" for m :: queued and t by (cases m) simp
  show ?thesis
    by (rule finish_cases [OF assms(1,2), of True])
       (use assms(2,3) in \<open>auto simp: idle_def editing_def commit_edits_def raise_def m\<close>)
qed

theorem save_is_all_or_nothing_witness:
  "isl (snd (finish True (fst (queue_perform (QKey (key ''backspace'' ([]))) demo_editing, ()))))"
proof -
  let ?s = "queue_perform (QKey (key ''backspace'' ([]))) demo_editing"
  have ok: "queue_ok ?s" "editing (queue ?s)" by code_simp+
  obtain s1 where r: "remember ?s = (s1, Inr ())" by (rule finish_cases [OF ok, of True])
  have "list_ex (\<lambda>p. blank (snd p)) (edits (queue (fst (remember ?s))))" by code_simp
  with save_is_all_or_nothing [OF ok r] r show ?thesis by simp
qed

text \<open>C27: A queue survives its handoff: restoring the exported document of a consistent queue gives
  the same messages, selection, identifiers, temporary edits and draft.\<close>

theorem queue_handoff_roundtrip:
  assumes "queue_ok s"
  shows "restore_handoff (export_queue (queue s)) s0 = (s0\<lparr>queue := queue s\<rparr>, Inr ())"
  using restore_export [OF assms] by (simp add: restore_handoff_def)

theorem queue_handoff_roundtrip_witness:
  "restore_handoff (export_queue (queue demo_queue)) demo_editing = (demo_editing\<lparr>queue := queue demo_queue\<rparr>, Inr ())"
  by (rule queue_handoff_roundtrip [OF demo_queue_ok])

end
