(* ===== verification/Session_Store.thy ===== *)
theory Session_Store
  imports Validation Machines
begin

text \<open>
  \<open>raychat/storage.py\<close>: the append-only journal of a session, its tree of entries, the branch
  it last selected durably, and its recovery on reopening. The stream is a list of complete
  lines and a flag for unterminated bytes after the last newline. A system call consumes one
  outcome of the \<open>faults\<close> script, which decides whether it raises \<open>OSError\<close> and what a failed
  write left behind. \<open>images\<close> lists every content the file had since its last successful
  \<open>fsync\<close>: a crash leaves one of them. Identifiers and timestamps come from the supplies \<open>uuid\<close>
  and \<open>clock\<close>; the settings read from \<open>SETTINGS.storage\<close> are a parameter.
\<close>

section \<open>Records\<close>

record srecord =
  rid :: pystr
  parent :: "pystr option"
  timestamp :: pystr
  rtype :: pystr
  rdata :: fields

record storage_settings =
  schema_version :: int
  id_hex_chars :: nat
  record_types :: "pystr list"

text \<open>
  \<open>json.dumps(..., allow_nan=False)\<close> then UTF-8: the value a reader of the line decodes, or
  what writing raises. Keys that are not text, which the encoder would convert, count as not
  serializable here: the records' fields are \<open>dict[str, object]\<close>.
\<close>

fun dumps :: "pyval \<Rightarrow> pyval result"
  and dumps_elems :: "pyval list \<Rightarrow> pyval list result"
  and dumps_items :: "(pyval \<times> pyval) list \<Rightarrow> (pyval \<times> pyval) list result" where
  "dumps VNone = Inr VNone"
| "dumps (VBool b) = Inr (VBool b)"
| "dumps (VInt i) = Inr (VInt i)"
| "dumps (VFloat f) = (if finite_float f then Inr (VFloat f)
     else raise ValueError ''Out of range float values are not JSON compliant'')"
| "dumps (VStr s) = (if utf8_encodable s then Inr (VStr s) else raise UnicodeError ''surrogates not allowed'')"
| "dumps (VList xs) = bindR (dumps_elems xs) (\<lambda>ys. Inr (VList ys))"
| "dumps (VTuple xs) = bindR (dumps_elems xs) (\<lambda>ys. Inr (VList ys))"
| "dumps (VDict d) = bindR (dumps_items d) (\<lambda>d'. Inr (VDict d'))"
| "dumps v = raise TypeError ''Object is not JSON serializable''"
| "dumps_elems [] = Inr []"
| "dumps_elems (x # xs) = bindR (dumps x) (\<lambda>y. bindR (dumps_elems xs) (\<lambda>ys. Inr (y # ys)))"
| "dumps_items [] = Inr []"
| "dumps_items ((k, x) # d) =
     (if \<not> is_text k then raise TypeError ''keys must be str''
      else if \<not> utf8_encodable (the_text k) then raise UnicodeError ''surrogates not allowed''
      else bindR (dumps x) (\<lambda>y. bindR (dumps_items d) (\<lambda>d'. Inr ((k, y) # d'))))"

fun json_text :: "pyval \<Rightarrow> bool" where
  "json_text (VStr s) = utf8_encodable s"
| "json_text (VFloat f) = finite_float f"
| "json_text (VList xs) = list_all json_text xs"
| "json_text (VDict d) = list_all (\<lambda>(k, x). is_text k \<and> utf8_encodable (the_text k) \<and> json_text x) d"
| "json_text (VTuple _) = False"
| "json_text (VProxy _) = False"
| "json_text (VOther _) = False"
| "json_text _ = True"

lemma dumps_json_text:
  "json_text v \<Longrightarrow> dumps v = Inr v"
  "list_all json_text xs \<Longrightarrow> dumps_elems xs = Inr xs"
  "list_all (\<lambda>(k, x). is_text k \<and> utf8_encodable (the_text k) \<and> json_text x) d \<Longrightarrow> dumps_items d = Inr d"
  by (induction v and xs and d rule: dumps_dumps_elems_dumps_items.induct) auto

definition record_value :: "srecord \<Rightarrow> pyval" where
  "record_value r = dict_of
     [(ustr ''id'', VStr (rid r)),
      (ustr ''parent_id'', case parent r of None \<Rightarrow> VNone | Some p \<Rightarrow> VStr p),
      (ustr ''timestamp'', VStr (timestamp r)),
      (ustr ''type'', VStr (rtype r)),
      (ustr ''data'', dict_of (rdata r))]"

definition s_text :: "pyval \<Rightarrow> string \<Rightarrow> pystr result" where
  "s_text v m = (case v of VStr s \<Rightarrow> Inr s | _ \<Rightarrow> raise ValueError m)"

definition s_fields :: "pyval \<Rightarrow> string \<Rightarrow> fields result" where
  "s_fields v m = rescue [ConfigurationError] (\<lambda>_. raise ValueError m)
     (object_field v (ustr ''session record''))"

definition parse_record :: "pyval \<Rightarrow> srecord result" where
  "parse_record v =
     bindR (s_fields v ''Invalid session record.'') (\<lambda>r.
     if set (keys r) \<noteq> set (map ustr [''id'', ''parent_id'', ''timestamp'', ''type'', ''data''])
     then raise ValueError ''Invalid session record.''
     else
     bindR (s_text (get r ''id'') ''Invalid or duplicate session entry ID.'') (\<lambda>i.
     bindR (if get r ''parent_id'' = VNone then Inr None
            else bindR (s_text (get r ''parent_id'') ''Broken session parent chain.'') (\<lambda>p. Inr (Some p))) (\<lambda>p.
     bindR (s_text (get r ''timestamp'') ''Invalid session payload.'') (\<lambda>t.
     bindR (s_text (get r ''type'') ''Unsupported session record type.'') (\<lambda>k.
     bindR (s_fields (get r ''data'') ''Invalid session payload.'') (\<lambda>d.
     Inr \<lparr>rid = i, parent = p, timestamp = t, rtype = k, rdata = d\<rparr>))))))"

text \<open>\<open>SessionMessage\<close> of \<open>raychat/sdk.py\<close>, with the checks of its constructor.\<close>

record message =
  role :: pystr
  mcontent :: pystr
  mkind :: pystr
  prompt_id :: int

definition session_message :: "pystr \<Rightarrow> pystr \<Rightarrow> pystr \<Rightarrow> int \<Rightarrow> message result" where
  "session_message r c k n =
     (if k \<notin> {ustr ''prompt'', ustr ''assistant'', ustr ''host_result''}
         \<or> r \<noteq> (if k = ustr ''assistant'' then ustr ''assistant'' else ustr ''user'') \<or> n < 1
      then raise ValueError ''Invalid semantic session message.''
      else if \<not> utf8_encodable c then raise ValueError ''Session messages must contain valid Unicode.''
      else Inr \<lparr>role = r, mcontent = c, mkind = k, prompt_id = n\<rparr>)"

definition message_names :: "pystr list" where
  "message_names = map ustr [''role'', ''content'', ''kind'', ''prompt_id'']"

definition validate_message :: "fields \<Rightarrow> unit result" where
  "validate_message d =
     (if set (keys d) \<noteq> set message_names then raise ValueError ''Invalid saved message.''
      else bindR (s_text (get d ''role'') ''Invalid saved message.'') (\<lambda>r.
       bindR (s_text (get d ''content'') ''Invalid saved message.'') (\<lambda>c.
       bindR (s_text (get d ''kind'') ''Invalid saved message.'') (\<lambda>k.
       bindR (integer_field (Some 1) (get d ''prompt_id'') (ustr ''saved message prompt ID'')) (\<lambda>n.
       bindR (session_message r c k n) (\<lambda>_. Inr ()))))))"

section \<open>The journal and its entries\<close>

datatype line = Line pyval | Garbage

type_synonym image = "line list \<times> bool"

datatype fault = Fine | Fault nat

type_synonym entries = "(pystr, srecord) dict"

record store =
  content :: "line list"
  torn :: bool
  images :: "image list"
  faults :: "fault list"
  serial :: nat
  stream_open :: bool
  session_id :: pystr
  workspace :: pystr
  entries :: entries
  head :: "pystr option"
  committed :: "pystr option"
  failed :: bool

definition is_hex :: "int \<Rightarrow> bool" where
  "is_hex c \<longleftrightarrow> (48 \<le> c \<and> c \<le> 57) \<or> (97 \<le> c \<and> c \<le> 102)"

definition id_ok :: "storage_settings \<Rightarrow> pystr \<Rightarrow> bool" where
  "id_ok cfg s \<longleftrightarrow> length s = id_hex_chars cfg \<and> list_all is_hex s"

definition selects :: "pystr \<Rightarrow> bool" where
  "selects k \<longleftrightarrow> k = ustr ''turn_commit'' \<or> k = ustr ''state''"

text \<open>One journal record on top of the entries and the selection read so far.\<close>

definition load_record ::
    "storage_settings \<Rightarrow> srecord \<Rightarrow> entries \<times> pystr option \<Rightarrow> (entries \<times> pystr option) result" where
  "load_record cfg r = (\<lambda>(es, sel).
     if \<not> id_ok cfg (rid r) \<or> has_key es (rid r)
       then raise ValueError ''Invalid or duplicate session entry ID.''
     else if (case parent r of None \<Rightarrow> False | Some p \<Rightarrow> \<not> has_key es p)
       then raise ValueError ''Broken session parent chain.''
     else if rtype r \<notin> set (record_types cfg) then raise ValueError ''Unsupported session record type.''
     else bindR (if rtype r = ustr ''message'' then validate_message (rdata r) else Inr ()) (\<lambda>_.
       bindR (if selects (rtype r)
              then bindR (s_fields (get (rdata r) ''state'') ''Invalid saved plugin state.'') (\<lambda>_. Inr ())
              else Inr ()) (\<lambda>_.
       let es' = AList.update (rid r) r es in
       if selects (rtype r) then Inr (es', Some (rid r))
       else if rtype r = ustr ''select'' then
         (case get (rdata r) ''target'' of
            VNone \<Rightarrow> Inr (es', None)
          | VStr t \<Rightarrow> (case map_of es' t of
               Some e \<Rightarrow> if selects (rtype e) then Inr (es', Some t)
                 else raise ValueError ''Invalid selected branch.''
             | None \<Rightarrow> raise ValueError ''Invalid selected branch.'')
          | _ \<Rightarrow> raise ValueError ''Invalid selected branch.'')
       else Inr (es', sel))))"

definition decode_line :: "line \<Rightarrow> pyval result" where
  "decode_line l = (case l of Line v \<Rightarrow> Inr v | Garbage \<Rightarrow> raise ValueError ''Expecting value'')"

fun load_values ::
    "storage_settings \<Rightarrow> pyval list \<Rightarrow> entries \<times> pystr option \<Rightarrow> (entries \<times> pystr option) result" where
  "load_values cfg [] st = Inr st"
| "load_values cfg (v # vs) st =
     bindR (parse_record v) (\<lambda>r. bindR (load_record cfg r st) (load_values cfg vs))"

definition header :: "storage_settings \<Rightarrow> pystr \<Rightarrow> pystr \<Rightarrow> pyval" where
  "header cfg i w = dict_of [(ustr ''type'', VStr (ustr ''session'')),
     (ustr ''version'', VInt (schema_version cfg)), (ustr ''id'', VStr i), (ustr ''workspace'', VStr w)]"

text \<open>Dictionaries compare without regard to order.\<close>

definition same_fields :: "pyval \<Rightarrow> pyval \<Rightarrow> bool" where
  "same_fields v w = (case (v, w) of
      (VDict d, VDict e) \<Rightarrow> set d = set e \<and> length d = length e
    | _ \<Rightarrow> v = w)"

definition replay :: "storage_settings \<Rightarrow> pystr \<Rightarrow> pystr \<Rightarrow> line list \<Rightarrow> (entries \<times> pystr option) result" where
  "replay cfg i w ls =
     bindR (mapR decode_line ls) (\<lambda>vs. case vs of
        [] \<Rightarrow> raise ValueError ''Session header is incomplete.''
      | h # rest \<Rightarrow>
         if \<not> same_fields h (header cfg i w)
         then raise ValueError ''Unsupported session version or workspace mismatch.''
         else load_values cfg rest ([], None))"

section \<open>System calls\<close>

definition next_fault :: "store \<Rightarrow> fault \<times> store" where
  "next_fault s = (case faults s of [] \<Rightarrow> (Fine, s) | f # fs \<Rightarrow> (f, s\<lparr>faults := fs\<rparr>))"

definition io_error :: "'a result" where
  "io_error = raise OSError ''Input/output error''"

text \<open>The content is replaced, and what a crash may leave is extended by it.\<close>

definition put_content :: "line list \<Rightarrow> bool \<Rightarrow> store \<Rightarrow> store" where
  "put_content ls t s = s\<lparr>content := ls, torn := t, images := images s @ [(ls, t)]\<rparr>"

definition written :: "store \<Rightarrow> pyval \<Rightarrow> line list" where
  "written s v = content s @ [if torn s then Garbage else Line v]"

definition write_line :: "pyval \<Rightarrow> (store, unit) eff" where
  "write_line v s =
     (if failed s then (s, raise RuntimeError ''Session storage failed; reopen the session before continuing.'')
      else case dumps v of Inl e \<Rightarrow> (s, Inl e)
      | Inr v' \<Rightarrow>
        if \<not> stream_open s then (s, raise ValueError ''seek of closed file'')
        else (case next_fault s of
            (Fine, s1) \<Rightarrow> (put_content (written s1 v') False (put_content (content s1) True s1), Inr ())
          | (Fault n, s1) \<Rightarrow>
              ((if n = 0 then id
                else if n = 1 then put_content (content s1) True
                else put_content (written s1 v') False \<circ> put_content (content s1) True)
               (s1\<lparr>failed := True\<rparr>), io_error)))"

definition sync :: "(store, unit) eff" where
  "sync s =
     (if \<not> stream_open s then (s, raise ValueError ''flush of closed file'')
      else case next_fault s of
        (Fine, s1) \<Rightarrow> (s1\<lparr>images := [(content s1, torn s1)]\<rparr>, Inr ())
      | (Fault _, s1) \<Rightarrow> (s1\<lparr>failed := True\<rparr>, io_error))"

text \<open>An offset is the number of complete lines before it and whether bytes follow them.\<close>

definition truncate :: "nat \<times> bool \<Rightarrow> (store, unit) eff" where
  "truncate off s =
     (if \<not> stream_open s then (s, raise ValueError ''seek of closed file'')
      else case next_fault s of
        (Fine, s1) \<Rightarrow> (put_content (take (fst off) (content s1)) (snd off) s1, Inr ())
      | (Fault _, s1) \<Rightarrow> (s1, io_error))"

section \<open>Opening\<close>

definition fresh_store :: "storage_settings \<Rightarrow> pystr \<Rightarrow> pystr \<Rightarrow> image \<Rightarrow> nat \<Rightarrow> fault list \<Rightarrow> store" where
  "fresh_store cfg i w img n fs =
     \<lparr>content = fst img, torn = snd img, images = [img], faults = fs, serial = n,
      stream_open = True, session_id = i, workspace = w, entries = [], head = None,
      committed = None, failed = False\<rparr>"

text \<open>\<open>_load\<close>: an empty file gets its header, a complete one is replayed and its tail cut.\<close>

definition load_store :: "storage_settings \<Rightarrow> (store, unit) eff" where
  "load_store cfg s =
     (if content s = [] \<and> \<not> torn s then
        bindS (write_line (header cfg (session_id s) (workspace s))) (\<lambda>_. sync) s
      else if content s = [] then (s, raise ValueError ''Session header is incomplete.'')
      else case replay cfg (session_id s) (workspace s) (content s) of
          Inl e \<Rightarrow> (s, Inl e)
        | Inr (es, sel) \<Rightarrow>
            (let s1 = s\<lparr>entries := es, committed := sel, head := sel\<rparr> in
             if torn s then bindS (truncate (length (content s), False)) (\<lambda>_. sync) s1
             else (s1, Inr ())))"

text \<open>
  \<open>_open\<close> on the file found under the session's name (the empty image when there is none); an
  exception closes the stream again. \<open>requested\<close> tells a resumed session from a new one.
\<close>

definition open_store ::
    "storage_settings \<Rightarrow> bool \<Rightarrow> pystr \<Rightarrow> pystr \<Rightarrow> image option \<Rightarrow> nat \<Rightarrow> fault list \<Rightarrow> store result" where
  "open_store cfg requested i w found n fs =
     (if \<not> id_ok cfg i then raise ValueError ''Invalid session ID.''
      else if requested \<and> found = None then raise ValueError ''Session does not exist in this workspace.''
      else case load_store cfg (fresh_store cfg i w (case found of None \<Rightarrow> ([], False) | Some m \<Rightarrow> m) n fs) of
          (s, Inl e) \<Rightarrow> Inl e | (s, Inr _) \<Rightarrow> Inr s)"

section \<open>Operations\<close>

definition new_record :: "(nat \<Rightarrow> pystr) \<Rightarrow> (nat \<Rightarrow> pystr) \<Rightarrow> store \<Rightarrow> string \<Rightarrow> fields \<Rightarrow> srecord" where
  "new_record uuid clock s k d =
     \<lparr>rid = uuid (serial s), parent = head s, timestamp = clock (serial s), rtype = ustr k, rdata = d\<rparr>"

definition append_record :: "(nat \<Rightarrow> pystr) \<Rightarrow> (nat \<Rightarrow> pystr) \<Rightarrow> string \<Rightarrow> fields \<Rightarrow> (store, pystr) eff" where
  "append_record uuid clock k d s =
     (let r = new_record uuid clock s k d in
      bindS (write_line (record_value r)) (\<lambda>_.
        bindS (modS (\<lambda>s. s\<lparr>entries := AList.update (rid r) r (entries s), head := Some (rid r)\<rparr>))
          (\<lambda>_. retS (rid r))) (s\<lparr>serial := Suc (serial s)\<rparr>))"

definition undo_append ::
    "pystr option \<Rightarrow> nat \<times> bool \<Rightarrow> pystr option \<Rightarrow> exn \<Rightarrow> (store, pystr) eff" where
  "undo_append previous off entry e s =
     (let s1 = s\<lparr>head := previous,
            entries := (case entry of None \<Rightarrow> entries s | Some i \<Rightarrow> AList.delete i (entries s))\<rparr>
      in case bindS (truncate off) (\<lambda>_. sync) s1 of
          (s2, Inr _) \<Rightarrow> (s2, Inl e)
        | (s2, Inl f) \<Rightarrow> if caught_by [OSError, ValueError] f then (s2\<lparr>failed := True\<rparr>, Inl e)
            else (s2, Inl f))"

definition durable_append ::
    "(nat \<Rightarrow> pystr) \<Rightarrow> (nat \<Rightarrow> pystr) \<Rightarrow> string \<Rightarrow> fields \<Rightarrow> pystr option \<Rightarrow> (store, pystr) eff" where
  "durable_append uuid clock k d par s =
     (if \<not> stream_open s then (s, raise ValueError ''seek of closed file'')
      else let off = (length (content s), torn s) in
        case append_record uuid clock k d (s\<lparr>head := par\<rparr>) of
          (s1, Inl e) \<Rightarrow> undo_append (head s) off None e s1
        | (s1, Inr i) \<Rightarrow> (case sync s1 of
            (s2, Inl e) \<Rightarrow> undo_append (head s) off (Some i) e s2
          | (s2, Inr _) \<Rightarrow> (s2, Inr i)))"

text \<open>The plugin state is a dictionary; the record holds it under \<open>state\<close>.\<close>

definition commit :: "(nat \<Rightarrow> pystr) \<Rightarrow> (nat \<Rightarrow> pystr) \<Rightarrow> fields \<Rightarrow> (store, unit) eff" where
  "commit uuid clock state s =
     bindS (durable_append uuid clock ''turn_commit'' [(ustr ''state'', dict_of state)] (head s))
       (\<lambda>i. modS (\<lambda>s. s\<lparr>committed := Some i\<rparr>)) s"

definition checkpoint :: "(nat \<Rightarrow> pystr) \<Rightarrow> (nat \<Rightarrow> pystr) \<Rightarrow> fields \<Rightarrow> (store, unit) eff" where
  "checkpoint uuid clock state s =
     bindS (durable_append uuid clock ''state'' [(ustr ''state'', dict_of state)] (committed s))
       (\<lambda>i. modS (\<lambda>s'. s'\<lparr>committed := Some i,
          head := (if head s \<noteq> committed s then head s else head s')\<rparr>)) s"

definition abort :: "store \<Rightarrow> store" where
  "abort s = s\<lparr>head := committed s\<rparr>"

definition validate_fork :: "store \<Rightarrow> pystr \<Rightarrow> unit result" where
  "validate_fork s i = (case map_of (entries s) i of
      Some r \<Rightarrow> if rtype r = ustr ''turn_commit'' then Inr ()
        else raise ValueError ''Fork requires a completed-turn entry ID.''
    | None \<Rightarrow> raise ValueError ''Fork requires a completed-turn entry ID.'')"

definition fork :: "(nat \<Rightarrow> pystr) \<Rightarrow> (nat \<Rightarrow> pystr) \<Rightarrow> pystr \<Rightarrow> (store, unit) eff" where
  "fork uuid clock i s =
     bindS (liftR (validate_fork s i)) (\<lambda>_.
     bindS (durable_append uuid clock ''select'' [(ustr ''target'', VStr i)] (Some i)) (\<lambda>_.
     modS (\<lambda>s. s\<lparr>head := Some i, committed := Some i\<rparr>))) s"

definition close_store :: "store \<Rightarrow> store" where
  "close_store s = s\<lparr>stream_open := False\<rparr>"

text \<open>\<open>new_session\<close>: a new identifier has no file yet, so the journal starts empty.\<close>

definition new_session :: "storage_settings \<Rightarrow> (nat \<Rightarrow> pystr) \<Rightarrow> (store, unit) eff" where
  "new_session cfg uuid s =
     (let i = uuid (serial s); s0 = fresh_store cfg i (workspace s) ([], False) (Suc (serial s)) (faults s) in
      if \<not> id_ok cfg i
      then (close_store s\<lparr>session_id := i, serial := Suc (serial s)\<rparr>, raise ValueError ''Invalid session ID.'')
      else case load_store cfg s0 of
          (s1, Inl e) \<Rightarrow> (close_store s1, Inl e)
        | (s1, Inr _) \<Rightarrow> (s1, Inr ()))"

text \<open>The walk to the root; a missing entry is a \<open>KeyError\<close>, the fuel bounds a broken chain.\<close>

fun chain :: "nat \<Rightarrow> entries \<Rightarrow> pystr option \<Rightarrow> srecord list option result" where
  "chain fuel es None = Inr (Some [])"
| "chain 0 es (Some i) = Inr None"
| "chain (Suc n) es (Some i) = (case map_of es i of
      None \<Rightarrow> raise_text KeyError i
    | Some r \<Rightarrow> bindR (chain n es (parent r)) (\<lambda>c. Inr (map_option ((#) r) c)))"

definition state_at :: "entries \<Rightarrow> pystr option \<Rightarrow> pyval result" where
  "state_at es h = (case h of None \<Rightarrow> Inr (dict_of [])
     | Some i \<Rightarrow> if i = [] then Inr (dict_of [])
         else (case map_of es i of None \<Rightarrow> raise_text KeyError i
           | Some r \<Rightarrow> Inr (case map_of (rdata r) (ustr ''state'') of None \<Rightarrow> dict_of [] | Some v \<Rightarrow> v)))"

definition snapshot_of :: "entries \<Rightarrow> pystr option \<Rightarrow> (fields list \<times> pyval) option result" where
  "snapshot_of es h =
     bindR (chain (Suc (length es)) es h) (\<lambda>c. case c of None \<Rightarrow> Inr None
      | Some rs \<Rightarrow> bindR (state_at es h) (\<lambda>v. Inr (Some
          (map rdata (filter (\<lambda>r. rtype r = ustr ''message'') (rev rs)), v))))"

definition snapshot :: "pystr option \<Rightarrow> store \<Rightarrow> (fields list \<times> pyval) option result" where
  "snapshot place s = (case place of
      None \<Rightarrow> snapshot_of (entries s) (committed s)
    | Some i \<Rightarrow> bindR (validate_fork s i) (\<lambda>_. snapshot_of (entries s) (Some i)))"

section \<open>Reading back what was written\<close>

lemma s_fields_dict_of [simp]: "s_fields (dict_of fs) m = Inr fs"
  by (simp add: s_fields_def object_field_Inr_iff [THEN iffD2])

lemma parse_record_value: "parse_record (record_value r) = Inr r"
  by (cases r; cases "parent r") (auto simp: parse_record_def record_value_def keys_def get_def s_text_def)

lemma mapR_append: "mapR f (xs @ ys) = bindR (mapR f xs) (\<lambda>us. bindR (mapR f ys) (\<lambda>vs. Inr (us @ vs)))"
proof (induction xs)
  case Nil
  then show ?case by (cases "mapR f ys") auto
next
  case (Cons x xs)
  then show ?case by (cases "f x"; cases "mapR f xs"; cases "mapR f ys") auto
qed

lemma load_values_append:
  "load_values cfg (xs @ ys) st = bindR (load_values cfg xs st) (load_values cfg ys)"
proof (induction xs arbitrary: st)
  case (Cons x xs)
  then show ?case
    by (cases "parse_record x") (auto simp: bindR_def split: sum.splits)
qed simp

lemma replay_Inr_iff: "replay cfg i w ls = Inr st \<longleftrightarrow>
    (\<exists>h rest. mapR decode_line ls = Inr (h # rest) \<and> same_fields h (header cfg i w) \<and>
       load_values cfg rest ([], None) = Inr st)"
proof (cases "mapR decode_line ls")
  case (Inr vs)
  then show ?thesis by (cases vs) (simp_all add: replay_def)
qed (simp add: replay_def)

lemma replay_snoc:
  assumes "replay cfg i w ls = Inr st"
  shows "replay cfg i w (ls @ [Line v]) = bindR (parse_record v) (\<lambda>r. load_record cfg r st)"
proof -
  from assms obtain h rest where vs: "mapR decode_line ls = Inr (h # rest)"
    and hd: "same_fields h (header cfg i w)" and ld: "load_values cfg rest ([], None) = Inr st"
    by (auto simp: replay_Inr_iff)
  then show ?thesis
    by (cases "parse_record v")
       (auto simp: replay_def mapR_append decode_line_def load_values_append bindR_def split: sum.splits)
qed

text \<open>The entries form a forest in which every parent was recorded before its child.\<close>

fun forest_rev :: "entries \<Rightarrow> bool" where
  "forest_rev [] = True"
| "forest_rev ((k, r) # es) = (k = rid r \<and> \<not> has_key es k \<and>
     (case parent r of None \<Rightarrow> True | Some p \<Rightarrow> has_key es p) \<and> forest_rev es)"

definition forest :: "entries \<Rightarrow> bool" where
  "forest es = forest_rev (rev es)"

definition held :: "entries \<Rightarrow> pystr option \<Rightarrow> bool" where
  "held es h = (case h of None \<Rightarrow> True | Some i \<Rightarrow> has_key es i)"

lemma has_key_rev [simp]: "has_key (rev es) k = has_key es k"
  by (simp add: has_key_def keys_def)

lemma has_key_append [simp]: "has_key (xs @ ys) k = (has_key xs k \<or> has_key ys k)"
  by (auto simp: has_key_def keys_def)

lemma has_key_Cons [simp]: "has_key ((k, v) # d) j = (j = k \<or> has_key d j)"
  by (auto simp: has_key_def keys_def)

lemma has_key_Nil [simp]: "\<not> has_key [] k"
  by (simp add: has_key_def keys_def)

lemma held_simps [simp]: "held es None" "held es (Some i) = has_key es i"
  by (simp_all add: held_def)

lemma forest_Nil [simp]: "forest []"
  by (simp add: forest_def)

lemma forest_snoc [simp]:
  "forest (es @ [(k, r)]) = (forest es \<and> k = rid r \<and> \<not> has_key es k \<and> held es (parent r))"
  by (auto simp: forest_def held_def split: option.splits)

lemma load_record_cases:
  assumes "load_record cfg r (es, sel) = Inr (es', sel')"
  shows "id_ok cfg (rid r) \<and> \<not> has_key es (rid r) \<and> held es (parent r) \<and>
    es' = AList.update (rid r) r es \<and>
    (sel' = Some (rid r) \<or> sel' = sel \<or> sel' = None \<or> (\<exists>t e. sel' = Some t \<and> map_of es' t = Some e))"
  using assms unfolding load_record_def held_def bindR_Inr_iff Let_def
  by (auto simp: bindR_Inr_iff split: if_splits option.splits pyval.splits)

lemma load_record_Inr:
  assumes "load_record cfg r (es, sel) = Inr (es', sel')" and "forest es" and "held es sel"
  shows "es' = es @ [(rid r, r)]" "forest es'" "held es' sel'" "id_ok cfg (rid r)"
proof -
  note c = load_record_cases [OF assms(1)]
  then show es': "es' = es @ [(rid r, r)]" and "id_ok cfg (rid r)"
    by (simp_all add: update_new_key)
  show "forest es'" unfolding es' using c assms(2) by simp
  from c have "sel' = Some (rid r) \<or> sel' = sel \<or> sel' = None \<or> (\<exists>t. sel' = Some t \<and> has_key es' t)"
    by (auto simp: has_key_iff)
  with assms(3) show "held es' sel'"
    unfolding es' by (auto simp: held_def split: option.splits)
qed

lemma load_values_Inr:
  assumes "load_values cfg vs (es, sel) = Inr (es', sel')" and "forest es" and "held es sel"
  shows "forest es' \<and> held es' sel'"
  using assms
proof (induction vs arbitrary: es sel)
  case (Cons v vs)
  then obtain r es1 sel1 where "load_record cfg r (es, sel) = Inr (es1, sel1)"
    "load_values cfg vs (es1, sel1) = Inr (es', sel')"
    by (auto simp: bindR_Inr_iff)
  with Cons load_record_Inr show ?case by metis
qed simp

lemma replay_forest: "replay cfg i w ls = Inr (es, sel) \<Longrightarrow> forest es \<and> held es sel"
  by (auto simp: replay_Inr_iff dest: load_values_Inr)

section \<open>Snapshots depend on ancestors only\<close>

lemma chain_SucI:
  "map_of es i = Some r \<Longrightarrow> chain n es (parent r) = Inr (Some rs) \<Longrightarrow>
     chain (Suc n) es (Some i) = Inr (Some (r # rs))"
  by simp

lemma chain_SucE:
  assumes "chain (Suc n) es (Some i) = Inr (Some rs)"
  obtains r rs' where "map_of es i = Some r" "chain n es (parent r) = Inr (Some rs')" "rs = r # rs'"
proof (cases "map_of es i")
  case None
  with assms show ?thesis by simp
next
  case (Some r)
  with assms have b: "bindR (chain n es (parent r)) (\<lambda>c. Inr (map_option ((#) r) c)) = Inr (Some rs)"
    by simp
  then obtain c where c: "chain n es (parent r) = Inr c" "map_option ((#) r) c = Some rs"
    by (cases "chain n es (parent r)") simp_all
  then show ?thesis by (cases c) (simp_all add: that [OF Some])
qed

lemma chain_fuel: "chain n es h = Inr (Some rs) \<Longrightarrow> n \<le> m \<Longrightarrow> chain m es h = Inr (Some rs)"
proof (induction n arbitrary: m h rs)
  case 0
  then show ?case by (cases h) auto
next
  case (Suc n)
  from Suc.prems(2) obtain m' where m: "m = Suc m'" "n \<le> m'" by (cases m) auto
  show ?case
  proof (cases h)
    case (Some i)
    from Suc.prems(1) [unfolded Some] obtain r rs' where r: "map_of es i = Some r"
      "chain n es (parent r) = Inr (Some rs')" "rs = r # rs'"
      by (rule chain_SucE)
    show ?thesis
      unfolding Some m(1) r(3) using r(1) Suc.IH [OF r(2) m(2)] by (rule chain_SucI)
  qed (use Suc.prems in simp)
qed

lemma chain_extend:
  "chain n es h = Inr (Some rs) \<Longrightarrow> map_of es \<subseteq>\<^sub>m map_of es' \<Longrightarrow> chain n es' h = Inr (Some rs)"
proof (induction n arbitrary: h rs)
  case 0
  then show ?case by (cases h) auto
next
  case (Suc n)
  show ?case
  proof (cases h)
    case (Some i)
    from Suc.prems(1) [unfolded Some] obtain r rs' where r: "map_of es i = Some r"
      "chain n es (parent r) = Inr (Some rs')" "rs = r # rs'"
      by (rule chain_SucE)
    from r(1) Suc.prems(2) have "map_of es' i = Some r" by (auto simp: map_le_def dom_def)
    then show ?thesis
      unfolding Some r(3) using Suc.IH [OF r(2) Suc.prems(2)] by (rule chain_SucI)
  qed (use Suc.prems in simp)
qed

lemma forest_submap: "forest (es @ [(k, r)]) \<Longrightarrow> map_of es \<subseteq>\<^sub>m map_of (es @ [(k, r)])"
  by (auto simp: map_le_def map_add_def has_key_iff split: option.splits)

lemma chain_total: "forest es \<Longrightarrow> held es h \<Longrightarrow> \<exists>rs. chain (length es) es h = Inr (Some rs)"
proof (induction es arbitrary: h rule: rev_induct)
  case Nil
  then show ?case by (cases h) auto
next
  case (snoc x es)
  obtain k r where x: "x = (k, r)" by (cases x)
  note fo = snoc.prems(1) [unfolded x]
  show ?case
  proof (cases h)
    case None
    then show ?thesis by auto
  next
    case (Some i)
    show ?thesis
    proof (cases "i = k")
      case False
      with Some snoc.prems(2) x have "held es h" by simp
      with snoc.IH fo obtain rs where "chain (length es) es h = Inr (Some rs)" by auto
      then have "chain (length es) (es @ [(k, r)]) h = Inr (Some rs)"
        using forest_submap [OF fo] by (rule chain_extend)
      then show ?thesis using x chain_fuel [of "length es" "es @ [(k, r)]" h rs "length (es @ [x])"] by auto
    next
      case True
      from fo snoc.IH [of "parent r"] obtain rs where "chain (length es) es (parent r) = Inr (Some rs)" by auto
      then have "chain (length es) (es @ [(k, r)]) (parent r) = Inr (Some rs)"
        using forest_submap [OF fo] by (rule chain_extend)
      moreover have "map_of (es @ [(k, r)]) k = Some r"
        using fo by (auto simp: map_add_def has_key_iff)
      ultimately show ?thesis using Some True x by simp
    qed
  qed
qed

lemma snapshot_of_extend:
  assumes "forest es" "held es h" "map_of es \<subseteq>\<^sub>m map_of es'" "length es \<le> length es'"
  shows "snapshot_of es' h = snapshot_of es h" "\<exists>x. snapshot_of es h = Inr (Some x)"
proof -
  obtain rs where rs: "chain (length es) es h = Inr (Some rs)"
    using chain_total assms(1,2) by blast
  have c: "chain (Suc (length es)) es h = Inr (Some rs)"
    using rs by (rule chain_fuel) simp
  have c': "chain (Suc (length es')) es' h = Inr (Some rs)"
    using chain_extend [OF rs assms(3)] by (rule chain_fuel) (use assms(4) in simp)
  have st: "state_at es' h = state_at es h"
    using assms(2,3) by (auto simp: state_at_def held_def has_key_iff map_le_def dom_def split: option.splits)
  have "\<exists>v. state_at es h = Inr v"
    using assms(2) by (auto simp: state_at_def held_def has_key_iff split: option.splits)
  then show "snapshot_of es' h = snapshot_of es h" "\<exists>x. snapshot_of es h = Inr (Some x)"
    by (auto simp: snapshot_of_def c c' st)
qed

section \<open>The store agrees with its journal\<close>

definition settings_ok :: "storage_settings \<Rightarrow> bool" where
  "settings_ok cfg \<longleftrightarrow> 0 < id_hex_chars cfg \<and>
     set (map ustr [''message'', ''turn_start'', ''turn_commit'', ''select'', ''state''])
       \<subseteq> set (record_types cfg)"

text \<open>
  Lowercase-hexadecimal identifiers that do not repeat while there are any left, and encodable
  timestamps. There are only \<open>16 ^ id_hex_chars\<close> identifiers, so a store is promised nothing
  beyond that many records.
\<close>

definition id_space :: "storage_settings \<Rightarrow> nat" where
  "id_space cfg = 16 ^ id_hex_chars cfg"

definition supplies_ok :: "storage_settings \<Rightarrow> (nat \<Rightarrow> pystr) \<Rightarrow> (nat \<Rightarrow> pystr) \<Rightarrow> bool" where
  "supplies_ok cfg uuid clock \<longleftrightarrow>
     inj_on uuid {..<id_space cfg} \<and> (\<forall>n. id_ok cfg (uuid n)) \<and> (\<forall>n. utf8_encodable (clock n))"

definition supply_ready ::
    "storage_settings \<Rightarrow> (nat \<Rightarrow> pystr) \<Rightarrow> (nat \<Rightarrow> pystr) \<Rightarrow> store \<Rightarrow> bool" where
  "supply_ready cfg uuid clock s \<longleftrightarrow> supplies_ok cfg uuid clock \<and> serial s < id_space cfg"

definition replays :: "storage_settings \<Rightarrow> store \<Rightarrow> line list \<Rightarrow> entries \<Rightarrow> pystr option \<Rightarrow> bool" where
  "replays cfg s ls es sel \<longleftrightarrow> (\<exists>es'. replay cfg (session_id s) (workspace s) ls = Inr (es', sel) \<and>
     map_of es' \<subseteq>\<^sub>m map_of es \<and> length es' \<le> length es)"

definition store_ok :: "storage_settings \<Rightarrow> (nat \<Rightarrow> pystr) \<Rightarrow> store \<Rightarrow> bool" where
  "store_ok cfg uuid s \<longleftrightarrow>
     \<not> failed s \<and> \<not> torn s \<and> id_ok cfg (session_id s) \<and>
     replay cfg (session_id s) (workspace s) (content s) = Inr (entries s, committed s) \<and>
     held (entries s) (head s) \<and>
     (\<forall>n. serial s \<le> n \<and> n < id_space cfg \<longrightarrow> \<not> has_key (entries s) (uuid n)) \<and>
     (\<forall>img\<in>set (images s). replays cfg s (fst img) (entries s) (committed s))"

lemma store_ok_forest: "store_ok cfg uuid s \<Longrightarrow> forest (entries s) \<and> held (entries s) (committed s)"
  by (auto simp: store_ok_def dest: replay_forest)

lemma next_fault_cases:
  obtains fs where "next_fault s = (Fine, s\<lparr>faults := fs\<rparr>)"
  | fs n where "next_fault s = (Fault n, s\<lparr>faults := fs\<rparr>)"
proof (cases "faults s")
  case Nil
  then have "next_fault s = (Fine, s\<lparr>faults := faults s\<rparr>)"
    by (simp add: next_fault_def)
  then show ?thesis by (rule that(1))
next
  case (Cons f fs)
  then show ?thesis
    using that by (cases f) (auto simp: next_fault_def)
qed

lemma utf8_hex: "id_ok cfg s \<Longrightarrow> utf8_encodable s"
  by (auto simp: id_ok_def utf8_encodable_def list_all_iff is_hex_def is_surrogate_def)

lemma utf8_names [simp]:
  "utf8_encodable (ustr ''id'')" "utf8_encodable (ustr ''parent_id'')" "utf8_encodable (ustr ''timestamp'')"
  "utf8_encodable (ustr ''type'')" "utf8_encodable (ustr ''data'')" "utf8_encodable (ustr ''state'')"
  "utf8_encodable (ustr ''target'')" "utf8_encodable (ustr ''turn_commit'')" "utf8_encodable (ustr ''select'')"
  "utf8_encodable (ustr ''message'')" "utf8_encodable (ustr ''turn_start'')" "utf8_encodable (ustr ''prompt_id'')"
  by code_simp+

text \<open>A writable record: encodable, and acceptable to a reader of the journal so far.\<close>

definition writable :: "storage_settings \<Rightarrow> srecord \<Rightarrow> store \<Rightarrow> pystr option \<Rightarrow> bool" where
  "writable cfg r s sel \<longleftrightarrow> json_text (record_value r) \<and>
     load_record cfg r (entries s, committed s) = Inr (AList.update (rid r) r (entries s), sel)"

text \<open>What is left after a record was attempted: the old journal, a torn line, or the new line.\<close>

definition attempted :: "store \<Rightarrow> srecord \<Rightarrow> image set" where
  "attempted s r = {(content s, False), (content s, True), (content s @ [Line (record_value r)], False)}"

lemma write_line_cases:
  assumes "\<not> failed s" "\<not> torn s" "stream_open s" "json_text v"
  obtains (ok) fs where "write_line v s =
      (s\<lparr>faults := fs, content := content s @ [Line v], torn := False,
         images := images s @ [(content s, True), (content s @ [Line v], False)]\<rparr>, Inr ())"
  | (err) fs ls t im where "write_line v s =
      (s\<lparr>faults := fs, failed := True, content := ls, torn := t, images := images s @ im\<rparr>, io_error)"
      "set im \<subseteq> {(content s, True), (content s @ [Line v], False)}"
      "ls \<in> {content s, content s @ [Line v]}"
proof (cases s rule: next_fault_cases)
  case (1 fs)
  then show ?thesis
    using assms by (intro ok [where fs = fs]) (simp add: write_line_def dumps_json_text put_content_def written_def)
next
  case (2 fs n)
  consider "n = 0" | "n = 1" | "n > 1" by linarith
  then show ?thesis
  proof cases
    case 1
    with 2 assms show ?thesis
      by (intro err [where fs = fs and ls = "content s" and t = False and im = "[]"]) (simp_all add: write_line_def dumps_json_text)
  next
    case 2
    with \<open>next_fault s = _\<close> assms show ?thesis
      by (intro err [where fs = fs and ls = "content s" and t = True and im = "[(content s, True)]"])
         (simp_all add: write_line_def dumps_json_text put_content_def)
  next
    case 3
    with \<open>next_fault s = _\<close> assms show ?thesis
      by (intro err [where fs = fs and ls = "content s @ [Line v]" and t = False
          and im = "[(content s, True), (content s @ [Line v], False)]"])
         (simp_all add: write_line_def dumps_json_text put_content_def written_def)
  qed
qed

lemma update_delete_new: "\<not> has_key d k \<Longrightarrow> AList.delete k (AList.update k v d) = d"
  by (induction d) auto

lemma undo_append_failed:
  assumes "failed s" and "stream_open s"
  shows "\<exists>s'. undo_append prev (length ls, False) entry e s = (s', Inl e) \<and> failed s' \<and> head s' = prev \<and>
    committed s' = committed s \<and> session_id s' = session_id s \<and> workspace s' = workspace s \<and>
    entries s' = (case entry of None \<Rightarrow> entries s | Some i \<Rightarrow> AList.delete i (entries s)) \<and>
    set (images s') \<subseteq> set (images s) \<union> {(take (length ls) (content s), False)}"
proof -
  define s1 where "s1 = s\<lparr>head := prev,
    entries := (case entry of None \<Rightarrow> entries s | Some i \<Rightarrow> AList.delete i (entries s))\<rparr>"
  have io: "caught_by [OSError, ValueError] (Exn OSError m)" for m
    by (simp add: caught_by_def)
  have u: "undo_append prev (length ls, False) entry e s =
      (case bindS (truncate (length ls, False)) (\<lambda>_. sync) s1 of
          (s2, Inr _) \<Rightarrow> (s2, Inl e)
        | (s2, Inl f) \<Rightarrow> if caught_by [OSError, ValueError] f then (s2\<lparr>failed := True\<rparr>, Inl e) else (s2, Inl f))"
    by (simp add: undo_append_def s1_def)
  show ?thesis
  proof (cases s1 rule: next_fault_cases)
    case (2 fs n)
    then show ?thesis
      using assms by (auto simp: u bindS_def truncate_def io_error_def raise_def io s1_def)
  next
    case (1 fs)
    define s2 where "s2 = put_content (take (length ls) (content s)) False (s1\<lparr>faults := fs\<rparr>)"
    have t: "truncate (length ls, False) s1 = (s2, Inr ())"
      using 1 assms by (simp add: truncate_def s2_def s1_def)
    have op: "stream_open s2" using assms by (simp add: s2_def s1_def put_content_def)
    show ?thesis
    proof (cases s2 rule: next_fault_cases)
      case (1 gs)
      then show ?thesis
        using assms op by (auto simp: u bindS_def t sync_def) (auto simp: s2_def s1_def put_content_def)
    next
      case (2 gs n)
      then show ?thesis
        using assms op by (auto simp: u bindS_def t sync_def io_error_def raise_def io)
          (auto simp: s2_def s1_def put_content_def)
    qed
  qed
qed

text \<open>
  One append that a reader accepts: success extends journal, entries and working branch
  together; an \<open>OSError\<close> poisons the store, leaves its view of the past untouched, and leaves on
  disk only one of the attempted images.
\<close>

definition appended :: "store \<Rightarrow> srecord \<Rightarrow> fault list \<Rightarrow> image list \<Rightarrow> store" where
  "appended s r fs im = s\<lparr>serial := Suc (serial s), faults := fs, torn := False,
     content := content s @ [Line (record_value r)], images := im,
     entries := AList.update (rid r) r (entries s), head := Some (rid r)\<rparr>"

lemma append_record_cases:
  fixes s :: store and k :: string and d :: fields and uuid clock :: "nat \<Rightarrow> pystr"
  defines "r \<equiv> new_record uuid clock s k d"
  assumes pre: "\<not> failed s" "\<not> torn s" "stream_open s" and js: "json_text (record_value r)"
  obtains (success) fs where "append_record uuid clock k d s =
      (appended s r fs (images s @ [(content s, True), (content s @ [Line (record_value r)], False)]), Inr (rid r))"
  | (failure) s' where "append_record uuid clock k d s = (s', io_error)"
      "failed s'" "stream_open s'" "head s' = head s" "entries s' = entries s" "committed s' = committed s"
      "session_id s' = session_id s" "workspace s' = workspace s"
      "content s' \<in> {content s, content s @ [Line (record_value r)]}"
      "set (images s') \<subseteq> set (images s) \<union> attempted s r"
proof -
  have r: "new_record uuid clock s k d = r" by (simp add: r_def)
  have pre': "\<not> failed (s\<lparr>serial := Suc (serial s)\<rparr>)" "\<not> torn (s\<lparr>serial := Suc (serial s)\<rparr>)"
    "stream_open (s\<lparr>serial := Suc (serial s)\<rparr>)" using pre by simp_all
  show ?thesis
  proof (rule write_line_cases [OF pre' js], goal_cases ok err)
    case (ok fs)
    then show ?thesis
      by (intro success [where fs = fs])
         (simp add: append_record_def bindS_def r Let_def appended_def)
  next
    case (err fs ls t im)
    show ?thesis
    proof (rule failure)
      show "append_record uuid clock k d s = (s\<lparr>serial := Suc (serial s), faults := fs, failed := True,
          content := ls, torn := t, images := images s @ im\<rparr>, io_error)"
        by (simp add: append_record_def bindS_def r Let_def err io_error_def raise_def)
    qed (use err pre in \<open>auto simp: attempted_def\<close>)
  qed
qed

lemma durable_append_cases:
  fixes s :: store and k :: string and d :: fields and uuid clock :: "nat \<Rightarrow> pystr"
    and par :: "pystr option"
  defines "r \<equiv> new_record uuid clock (s\<lparr>head := par\<rparr>) k d"
  assumes pre: "\<not> failed s" "\<not> torn s" "stream_open s" and js: "json_text (record_value r)"
    and new: "\<not> has_key (entries s) (rid r)"
  obtains (success) fs where "durable_append uuid clock k d par s =
      (appended s r fs [(content s @ [Line (record_value r)], False)], Inr (rid r))"
  | (failure) s' e where "durable_append uuid clock k d par s = (s', Inl e)"
      "failed s'" "head s' = head s" "entries s' = entries s" "committed s' = committed s"
      "session_id s' = session_id s" "workspace s' = workspace s"
      "set (images s') \<subseteq> set (images s) \<union> attempted s r"
proof -
  let ?off = "(length (content s), False)"
  have d: "durable_append uuid clock k d par s = (case append_record uuid clock k d (s\<lparr>head := par\<rparr>) of
          (s1, Inl e) \<Rightarrow> undo_append (head s) ?off None e s1
        | (s1, Inr i) \<Rightarrow> (case sync s1 of
            (s2, Inl e) \<Rightarrow> undo_append (head s) ?off (Some i) e s2
          | (s2, Inr _) \<Rightarrow> (s2, Inr i)))"
    using pre by (simp add: durable_append_def Let_def)
  have r: "new_record uuid clock (s\<lparr>head := par\<rparr>) k d = r" by (simp add: r_def)
  have pre': "\<not> failed (s\<lparr>head := par\<rparr>)" "\<not> torn (s\<lparr>head := par\<rparr>)" "stream_open (s\<lparr>head := par\<rparr>)"
    and js': "json_text (record_value (new_record uuid clock (s\<lparr>head := par\<rparr>) k d))"
    using pre js by (simp_all add: r)
  show ?thesis
  proof (rule append_record_cases [OF pre' js'], goal_cases success failure)
    case (failure s')
    obtain e where e: "io_error = (Inl e :: pystr result)" by (simp add: io_error_def raise_def)
    from undo_append_failed [OF failure(2,3), of "head s" "content s" None e] obtain s2 where
      u: "undo_append (head s) ?off None e s' = (s2, Inl e)" "failed s2" "head s2 = head s"
        "committed s2 = committed s'" "session_id s2 = session_id s'" "workspace s2 = workspace s'"
        "entries s2 = entries s'"
        "set (images s2) \<subseteq> set (images s') \<union> {(take (length (content s)) (content s'), False)}"
      by auto
    show ?thesis
    proof (rule that(2))
      show "durable_append uuid clock k d par s = (s2, Inl e)"
        by (simp add: d failure(1) [unfolded e] u(1))
      have "take (length (content s)) (content s') = content s" using failure(9) by auto
      then show "set (images s2) \<subseteq> set (images s) \<union> attempted s r"
        using u(8) failure(10) by (auto simp: r attempted_def)
    qed (use u failure in simp_all)
  next
    case (success fs)
    define s1 where "s1 = appended (s\<lparr>head := par\<rparr>) r fs
      (images s @ [(content s, True), (content s @ [Line (record_value r)], False)])"
    have a: "append_record uuid clock k d (s\<lparr>head := par\<rparr>) = (s1, Inr (rid r))"
      using success by (simp add: r s1_def)
    show ?thesis
    proof (cases s1 rule: next_fault_cases)
      case (1 gs)
      then show ?thesis
        using pre by (intro that(1) [where fs = gs])
          (simp add: d a sync_def s1_def appended_def)
    next
      case (2 gs n)
      define s2 where "s2 = s1\<lparr>faults := gs, failed := True\<rparr>"
      obtain e where sy: "sync s1 = (s2, Inl e)"
        using 2 pre by (auto simp: sync_def s2_def s1_def appended_def io_error_def raise_def)
      have "failed s2" "stream_open s2" using pre by (simp_all add: s2_def s1_def appended_def)
      from undo_append_failed [OF this, of "head s" "content s" "Some (rid r)" e] obtain s3 where
        u: "undo_append (head s) ?off (Some (rid r)) e s2 = (s3, Inl e)" "failed s3" "head s3 = head s"
          "committed s3 = committed s2" "session_id s3 = session_id s2" "workspace s3 = workspace s2"
          "entries s3 = AList.delete (rid r) (entries s2)"
          "set (images s3) \<subseteq> set (images s2) \<union> {(take (length (content s)) (content s2), False)}"
        by auto
      show ?thesis
      proof (rule that(2))
        show "durable_append uuid clock k d par s = (s3, Inl e)"
          by (simp add: d a sy u(1))
        show "entries s3 = entries s"
          using new by (simp add: u(7) s2_def s1_def appended_def update_delete_new)
        show "set (images s3) \<subseteq> set (images s) \<union> attempted s r"
          using u(8) by (auto simp: s2_def s1_def appended_def attempted_def)
      qed (use u in \<open>simp_all add: s2_def s1_def appended_def\<close>)
    qed
  qed
qed

lemma replays_mono:
  "replays cfg s ls es sel \<Longrightarrow> map_of es \<subseteq>\<^sub>m map_of es' \<Longrightarrow> length es \<le> length es' \<Longrightarrow>
     session_id s' = session_id s \<Longrightarrow> workspace s' = workspace s \<Longrightarrow> replays cfg s' ls es' sel"
  unfolding replays_def by (metis le_trans map_le_trans)

lemma submap_update: "\<not> has_key es k \<Longrightarrow> map_of es \<subseteq>\<^sub>m map_of (AList.update k r es)"
  by (auto simp: map_le_def has_key_iff)

lemma uuid_fresh:
  "supplies_ok cfg uuid clock \<Longrightarrow> m < id_space cfg \<Longrightarrow> n < id_space cfg \<Longrightarrow> uuid m = uuid n \<longleftrightarrow> m = n"
  by (auto simp: supplies_ok_def inj_on_def)

lemma store_ok_appended:
  assumes ok: "store_ok cfg uuid s" and sup: "supply_ready cfg uuid clock s"
    and ld: "load_record cfg r (entries s, committed s) = Inr (AList.update (rid r) r (entries s), sel)"
    and i: "rid r = uuid (serial s)" and h: "held (AList.update (rid r) r (entries s)) h"
    and im: "\<And>img. img \<in> set im \<Longrightarrow> replays cfg s (fst img) (AList.update (rid r) r (entries s)) sel"
  shows "store_ok cfg uuid ((appended s r fs im)\<lparr>committed := sel, head := h\<rparr>)"
proof -
  have "replay cfg (session_id s) (workspace s) (content s @ [Line (record_value r)]) =
      Inr (AList.update (rid r) r (entries s), sel)"
    using replay_snoc [of cfg "session_id s" "workspace s" "content s"] ok ld
    by (simp add: store_ok_def parse_record_value)
  moreover have "\<not> has_key (AList.update (rid r) r (entries s)) (uuid n)" if "Suc (serial s) \<le> n" "n < id_space cfg" for n
    using ok that sup uuid_fresh [of cfg uuid clock "serial s" n]
    by (simp add: store_ok_def i has_key_iff supply_ready_def)
  ultimately show ?thesis
    using ok h im by (auto simp: store_ok_def appended_def replays_def)
qed

text \<open>The records the session writes are ones a reader accepts.\<close>

lemma load_plain_record:
  assumes "settings_ok cfg" "id_ok cfg (rid r)" "\<not> has_key es (rid r)" "held es (parent r)"
    and "rtype r = ustr ''turn_start'' \<or> rtype r = ustr ''message'' \<and> validate_message (rdata r) = Inr ()"
  shows "load_record cfg r (es, sel) = Inr (AList.update (rid r) r es, sel)"
  using assms by (auto simp: load_record_def settings_ok_def selects_def held_def split: option.splits)

lemma load_state_record:
  assumes "settings_ok cfg" "id_ok cfg (rid r)" "\<not> has_key es (rid r)" "held es (parent r)"
    and "rtype r = ustr ''turn_commit'' \<or> rtype r = ustr ''state''"
    and "rdata r = [(ustr ''state'', dict_of st)]"
  shows "load_record cfg r (es, sel) = Inr (AList.update (rid r) r es, Some (rid r))"
  using assms by (auto simp: load_record_def settings_ok_def selects_def held_def get_def split: option.splits)

lemma load_select_record:
  assumes "settings_ok cfg" "id_ok cfg (rid r)" "\<not> has_key es (rid r)" "held es (parent r)"
    and "rtype r = ustr ''select''" "rdata r = [(ustr ''target'', VStr t)]"
    and "map_of es t = Some e" "rtype e = ustr ''turn_commit''"
  shows "load_record cfg r (es, sel) = Inr (AList.update (rid r) r es, Some t)"
  using assms has_key_iff [of es "rid r"]
  by (auto simp: load_record_def settings_ok_def selects_def held_def get_def split: option.splits)

lemma json_text_dict_of:
  "json_text (dict_of fs) \<longleftrightarrow> list_all (\<lambda>(k, v). utf8_encodable k \<and> json_text v) fs"
  by (auto simp: dict_of_def list_all_iff)

lemma json_text_record:
  assumes "utf8_encodable (rid r)" "utf8_encodable (timestamp r)" "utf8_encodable (rtype r)"
    "json_text (dict_of (rdata r))" "\<And>p. parent r = Some p \<Longrightarrow> utf8_encodable p"
  shows "json_text (record_value r)"
  using assms by (auto simp: record_value_def json_text_dict_of split: option.splits)

text \<open>Identifiers already in a journal are well formed, so a parent link always encodes.\<close>

lemma load_values_ids:
  "load_values cfg vs (es, sel) = Inr (es', sel') \<Longrightarrow> forest es \<Longrightarrow> held es sel \<Longrightarrow>
     (\<forall>k\<in>set (keys es). id_ok cfg k) \<Longrightarrow> (\<forall>k\<in>set (keys es'). id_ok cfg k)"
proof (induction vs arbitrary: es sel)
  case (Cons v vs)
  then obtain r es1 sel1 where ld: "load_record cfg r (es, sel) = Inr (es1, sel1)"
    and rest: "load_values cfg vs (es1, sel1) = Inr (es', sel')"
    by (auto simp: bindR_Inr_iff)
  note l = load_record_Inr [OF ld Cons.prems(2,3)]
  have "\<forall>k\<in>set (keys es1). id_ok cfg k"
    using Cons.prems(4) l(1,4) by (auto simp: keys_def)
  with Cons.IH [OF rest l(2,3)] show ?case by simp
qed simp

lemma store_ok_ids:
  assumes "store_ok cfg uuid s" and "held (entries s) h" and "h = Some p"
  shows "id_ok cfg p"
proof -
  have "\<forall>k\<in>set (keys (entries s)). id_ok cfg k"
    using assms(1) load_values_ids [of cfg _ "[]" None]
    by (auto simp: store_ok_def replay_Inr_iff keys_def)
  with assms(2,3) show ?thesis by (auto simp: has_key_def)
qed

lemma new_record_facts:
  assumes ok: "store_ok cfg uuid s" and sup: "supply_ready cfg uuid clock s" and h: "held (entries s) h"
    and k: "utf8_encodable (ustr k)" and d: "json_text (dict_of d)"
  defines "r \<equiv> new_record uuid clock (s\<lparr>head := h\<rparr>) k d"
  shows "json_text (record_value r)" "\<not> has_key (entries s) (rid r)" "id_ok cfg (rid r)"
    "held (entries s) (parent r)" "rid r = uuid (serial s)" "parent r = h" "rtype r = ustr k" "rdata r = d"
proof -
  show "\<not> has_key (entries s) (rid r)" "id_ok cfg (rid r)" "held (entries s) (parent r)"
    "rid r = uuid (serial s)" "parent r = h" "rtype r = ustr k" "rdata r = d"
    using ok sup h by (simp_all add: r_def new_record_def store_ok_def supplies_ok_def supply_ready_def)
  show "json_text (record_value r)"
    by (rule json_text_record)
       (use sup k d store_ok_ids [OF ok h] in \<open>auto simp: r_def new_record_def supplies_ok_def supply_ready_def intro: utf8_hex\<close>)
qed

section \<open>Reopening\<close>

lemma open_image:
  assumes "id_ok cfg (session_id s)" and rp: "replays cfg s ls es sel" and "forest es" and sel: "held es sel"
  shows "\<exists>s'. open_store cfg True (session_id s) (workspace s) (Some (ls, t)) n [] = Inr s' \<and>
     committed s' = sel \<and> snapshot None s' = snapshot_of es sel"
proof -
  from rp obtain es' where r: "replay cfg (session_id s) (workspace s) ls = Inr (es', sel)"
    and sub: "map_of es' \<subseteq>\<^sub>m map_of es" "length es' \<le> length es" by (auto simp: replays_def)
  have ne: "ls \<noteq> []" using r by (auto simp: replay_def)
  from replay_forest [OF r] have fo: "forest es'" "held es' sel" by simp_all
  have "snapshot_of es sel = snapshot_of es' sel"
    by (rule snapshot_of_extend(1) [OF fo sub])
  then show ?thesis
    using assms(1) r ne
    by (cases t) (simp_all add: open_store_def load_store_def fresh_store_def bindS_def truncate_def
        next_fault_def put_content_def sync_def snapshot_def)
qed

lemma reopen_ok:
  assumes ok: "store_ok cfg uuid s" and img: "img \<in> set (images s)"
  shows "\<exists>s'. open_store cfg True (session_id s) (workspace s) (Some img) n [] = Inr s' \<and>
     snapshot None s' = snapshot None s"
  using open_image [of cfg s "fst img" "entries s" "committed s" "snd img" n] store_ok_forest [OF ok] ok img
  by (auto simp: store_ok_def snapshot_def)

lemma dumps_header: "dumps (header cfg i w) = Inr v \<Longrightarrow> v = header cfg i w"
proof -
  assume d: "dumps (header cfg i w) = Inr v"
  have "utf8_encodable (ustr ''type'')" "utf8_encodable (ustr ''version'')" "utf8_encodable (ustr ''id'')"
    "utf8_encodable (ustr ''workspace'')" "utf8_encodable (ustr ''session'')" by code_simp+
  with d show ?thesis
    by (auto simp: header_def dict_of_def split: if_splits)
qed

lemma same_fields_refl [simp]: "same_fields v v"
  by (cases v) (simp_all add: same_fields_def)

lemma load_fresh:
  assumes id: "id_ok cfg i" and ld: "load_store cfg (fresh_store cfg i w ([], False) n fs) = (s, Inr ())"
  shows "store_ok cfg uuid s \<and> stream_open s \<and> entries s = [] \<and> head s = None \<and> committed s = None \<and> serial s = n"
proof -
  let ?s0 = "fresh_store cfg i w ([], False) n fs"
  have b: "bindS (write_line (header cfg i w)) (\<lambda>_. sync) ?s0 = (s, Inr ())"
    using ld by (simp add: load_store_def fresh_store_def)
  then obtain s1 where w: "write_line (header cfg i w) ?s0 = (s1, Inr ())" and sy: "sync s1 = (s, Inr ())"
    by (auto simp: bindS_def split: prod.splits sum.splits)
  from w obtain v where v: "dumps (header cfg i w) = Inr v"
    by (auto simp: write_line_def fresh_store_def split: sum.splits)
  note v = v [unfolded dumps_header [OF v]]
  obtain fs1 where s1: "s1 = put_content [Line (header cfg i w)] False (put_content [] True (?s0\<lparr>faults := fs1\<rparr>))"
    using w v by (cases ?s0 rule: next_fault_cases)
      (auto simp: write_line_def fresh_store_def put_content_def written_def io_error_def raise_def)
  obtain fs2 where s: "s = s1\<lparr>faults := fs2, images := [(content s1, torn s1)]\<rparr>"
    using sy s1 by (cases s1 rule: next_fault_cases)
      (auto simp: sync_def fresh_store_def put_content_def io_error_def raise_def)
  have "replay cfg i w [Line (header cfg i w)] = Inr ([], None)"
    by (simp add: replay_def decode_line_def)
  then show ?thesis
    using id by (simp add: s s1 put_content_def fresh_store_def store_ok_def replays_def)
qed

lemma new_session_ok:
  assumes "new_session cfg uuid s = (s', Inr ())"
  shows "store_ok cfg uuid s' \<and> stream_open s' \<and> snapshot None s' = Inr (Some ([], dict_of []))"
proof -
  from assms have id: "id_ok cfg (uuid (serial s))"
    by (auto simp: new_session_def Let_def raise_def split: if_splits)
  from assms have "load_store cfg (fresh_store cfg (uuid (serial s)) (workspace s) ([], False)
      (Suc (serial s)) (faults s)) = (s', Inr ())"
    using id by (auto simp: new_session_def Let_def split: prod.splits sum.splits)
  from load_fresh [OF id this, of uuid] show ?thesis
    by (simp add: snapshot_def snapshot_of_def state_at_def)
qed

text \<open>Opening an existing journal whose identifiers the supply has not reached.\<close>

lemma open_store_ok:
  assumes op: "open_store cfg req i w (Some (ls, t)) n fs = Inr s" and ne: "ls \<noteq> []"
    and fresh: "\<And>es sel m. replay cfg i w ls = Inr (es, sel) \<Longrightarrow> n \<le> m \<Longrightarrow> \<not> has_key es (uuid m)"
  shows "store_ok cfg uuid s \<and> stream_open s \<and> head s = committed s \<and>
    replay cfg i w ls = Inr (entries s, committed s)"
proof -
  let ?s0 = "fresh_store cfg i w (ls, t) n fs"
  from op have id: "id_ok cfg i"
    by (auto simp: open_store_def raise_def split: if_splits)
  from op have ld: "load_store cfg ?s0 = (s, Inr ())"
    by (auto simp: open_store_def raise_def split: if_splits prod.splits sum.splits)
  obtain es sel where r: "replay cfg i w ls = Inr (es, sel)"
    using ld ne by (auto simp: load_store_def fresh_store_def split: sum.splits)
  note fo = replay_forest [OF r]
  show ?thesis
  proof (cases t)
    case False
    with ld r ne have "s = ?s0\<lparr>entries := es, committed := sel, head := sel\<rparr>"
      by (simp add: load_store_def fresh_store_def)
    with False r fo id fresh show ?thesis
      by (simp add: store_ok_def replays_def fresh_store_def)
  next
    case True
    let ?s1 = "?s0\<lparr>entries := es, committed := sel, head := sel\<rparr>"
    have "bindS (truncate (length ls, False)) (\<lambda>_. sync) ?s1 = (s, Inr ())"
      using ld r ne True by (simp add: load_store_def fresh_store_def)
    then obtain s2 where tr: "truncate (length ls, False) ?s1 = (s2, Inr ())" and sy: "sync s2 = (s, Inr ())"
      by (auto simp: bindS_def split: prod.splits sum.splits)
    obtain fs1 where s2: "s2 = put_content ls False (?s1\<lparr>faults := fs1\<rparr>)"
      using tr by (cases ?s1 rule: next_fault_cases)
        (auto simp: truncate_def fresh_store_def io_error_def raise_def)
    obtain fs2 where "s = s2\<lparr>faults := fs2, images := [(content s2, torn s2)]\<rparr>"
      using sy s2 by (cases s2 rule: next_fault_cases)
        (auto simp: sync_def fresh_store_def put_content_def io_error_def raise_def)
    with s2 r fo id fresh show ?thesis
      by (simp add: store_ok_def replays_def fresh_store_def put_content_def)
  qed
qed

section \<open>What each operation achieves\<close>

definition branch_history :: "entries \<Rightarrow> pystr option \<Rightarrow> fields list" where
  "branch_history es h = (case chain (Suc (length es)) es h of
      Inr (Some rs) \<Rightarrow> map rdata (filter (\<lambda>r. rtype r = ustr ''message'') (rev rs)) | _ \<Rightarrow> [])"

lemma branch_history_None [simp]: "branch_history es None = []"
  by (simp add: branch_history_def)

lemma length_update_new: "\<not> has_key es k \<Longrightarrow> length (AList.update k r es) = Suc (length es)"
  by (simp add: update_new_key)

lemma branch_history_extend:
  assumes "forest es" "held es h" "map_of es \<subseteq>\<^sub>m map_of es'" "length es \<le> length es'"
  shows "branch_history es' h = branch_history es h"
proof -
  obtain rs where rs: "chain (length es) es h = Inr (Some rs)"
    using chain_total assms(1,2) by blast
  have "chain (Suc (length es)) es h = Inr (Some rs)"
    using rs by (rule chain_fuel) simp
  moreover have "chain (Suc (length es')) es' h = Inr (Some rs)"
    using chain_extend [OF rs assms(3)] by (rule chain_fuel) (use assms(4) in simp)
  ultimately show ?thesis by (simp add: branch_history_def)
qed

lemma branch_new_record:
  assumes fo: "forest es" and h: "held es (parent r)" and new: "\<not> has_key es (rid r)"
  defines "es' \<equiv> AList.update (rid r) r es"
  shows "branch_history es' (Some (rid r)) =
      branch_history es (parent r) @ (if rtype r = ustr ''message'' then [rdata r] else [])"
    and "rid r \<noteq> [] \<Longrightarrow> map_of (rdata r) (ustr ''state'') = Some v \<Longrightarrow> rtype r \<noteq> ustr ''message'' \<Longrightarrow>
      snapshot_of es' (Some (rid r)) = Inr (Some (branch_history es (parent r), v))"
proof -
  obtain rs where rs: "chain (length es) es (parent r) = Inr (Some rs)"
    using chain_total fo h by blast
  have sub: "map_of es \<subseteq>\<^sub>m map_of es'" unfolding es'_def using new by (rule submap_update)
  have len: "length es' = Suc (length es)" using new by (simp add: es'_def length_update_new)
  have "chain (length es') es' (parent r) = Inr (Some rs)"
    using chain_extend [OF rs sub] by (rule chain_fuel) (simp add: len)
  moreover have "map_of es' (rid r) = Some r" by (simp add: es'_def)
  ultimately have c: "chain (Suc (length es')) es' (Some (rid r)) = Inr (Some (r # rs))"
    by simp
  have c0: "chain (Suc (length es)) es (parent r) = Inr (Some rs)"
    using rs by (rule chain_fuel) simp
  show "branch_history es' (Some (rid r)) =
      branch_history es (parent r) @ (if rtype r = ustr ''message'' then [rdata r] else [])"
    unfolding branch_history_def c c0 by simp
  assume st: "rid r \<noteq> []" "map_of (rdata r) (ustr ''state'') = Some v" "rtype r \<noteq> ustr ''message''"
  show "snapshot_of es' (Some (rid r)) = Inr (Some (branch_history es (parent r), v))"
    unfolding snapshot_of_def branch_history_def c c0 using st \<open>map_of es' (rid r) = Some r\<close>
    by (simp add: state_at_def)
qed

lemma id_nonempty: "settings_ok cfg \<Longrightarrow> id_ok cfg i \<Longrightarrow> i \<noteq> []"
  by (auto simp: settings_ok_def id_ok_def)

text \<open>Any image an interrupted append leaves reopens at the old selection or at the new one.\<close>

lemma attempted_reopens:
  assumes ok: "store_ok cfg uuid s" and s': "session_id s' = session_id s" "workspace s' = workspace s"
    and ld: "load_record cfg r (entries s, committed s) = Inr (AList.update (rid r) r (entries s), sel)"
    and img: "img \<in> set (images s) \<union> attempted s r"
  shows "\<exists>s''. open_store cfg True (session_id s') (workspace s') (Some img) n [] = Inr s'' \<and>
     snapshot None s'' \<in> {snapshot None s, snapshot_of (AList.update (rid r) r (entries s)) sel}"
proof -
  note fo = store_ok_forest [OF ok]
  have old: "replays cfg s (content s) (entries s) (committed s)"
    using ok by (simp add: store_ok_def replays_def)
  show ?thesis
  proof (cases "img = (content s @ [Line (record_value r)], False)")
    case False
    then have "replays cfg s (fst img) (entries s) (committed s)"
      using img ok old by (auto simp: attempted_def store_ok_def)
    with open_image [of cfg s "fst img" "entries s" "committed s" "snd img" n] fo ok s'
    show ?thesis by (auto simp: store_ok_def snapshot_def)
  next
    case True
    note l = load_record_Inr [OF ld conjunct1 [OF fo] conjunct2 [OF fo]]
    have "replays cfg s (fst img) (AList.update (rid r) r (entries s)) sel"
      using replay_snoc [of cfg "session_id s" "workspace s" "content s" "(entries s, committed s)"]
        ok ld by (simp add: True replays_def store_ok_def parse_record_value)
    with open_image [of cfg s "fst img" "AList.update (rid r) r (entries s)" sel "snd img" n] l ok s'
    show ?thesis by (auto simp: store_ok_def)
  qed
qed

text \<open>
  The outcome of a durable record: \<open>new\<close> is the snapshot it selects. Either it is selected and
  nothing but it can survive a crash, or the store refuses further writes, shows the old
  selection, and a crash leaves the old selection or the new one.
\<close>

definition durable_outcome ::
    "storage_settings \<Rightarrow> (nat \<Rightarrow> pystr) \<Rightarrow> store \<Rightarrow> (fields list \<times> pyval) option result \<Rightarrow> store \<times> unit result \<Rightarrow> bool" where
  "durable_outcome cfg uuid s new out \<longleftrightarrow> (case out of
      (s', Inr _) \<Rightarrow> store_ok cfg uuid s' \<and> stream_open s' \<and> snapshot None s' = new \<and>
         images s' = [(content s', False)]
    | (s', Inl _) \<Rightarrow> failed s' \<and> snapshot None s' = snapshot None s \<and> head s' = head s \<and>
         (\<forall>img\<in>set (images s'). \<exists>s''.
            open_store cfg True (session_id s') (workspace s') (Some img) 0 [] = Inr s'' \<and>
            snapshot None s'' \<in> {snapshot None s, new}))"

lemma durable_outcomeI:
  assumes ok: "store_ok cfg uuid s" and op: "stream_open s" and sup: "supply_ready cfg uuid clock s"
    and h: "held (entries s) h" and k: "utf8_encodable (ustr k)" and d: "json_text (dict_of d)"
  defines "r \<equiv> new_record uuid clock (s\<lparr>head := h\<rparr>) k d"
  assumes ld: "load_record cfg r (entries s, committed s) = Inr (AList.update (rid r) r (entries s), sel)"
    and h': "held (AList.update (rid r) r (entries s)) h'"
    and new: "snapshot_of (AList.update (rid r) r (entries s)) sel = new"
    and f: "\<And>fs im. f (rid r) (appended s r fs im) = (appended s r fs im)\<lparr>committed := sel, head := h'\<rparr>"
  shows "durable_outcome cfg uuid s new
    (bindS (durable_append uuid clock k d h) (\<lambda>i. modS (f i)) s)"
proof -
  note nr = new_record_facts [OF ok sup h k d, folded r_def]
  have pre: "\<not> failed s" "\<not> torn s" using ok by (simp_all add: store_ok_def)
  show ?thesis
  proof (rule durable_append_cases [OF pre op nr(1) [unfolded r_def] nr(2) [unfolded r_def], folded r_def],
      goal_cases success failure)
    case (success fs)
    have "store_ok cfg uuid ((appended s r fs [(content s @ [Line (record_value r)], False)])
        \<lparr>committed := sel, head := h'\<rparr>)"
    proof (rule store_ok_appended [OF ok sup ld nr(5) h'])
      show "replays cfg s (fst img) (AList.update (rid r) r (entries s)) sel"
        if "img \<in> set [(content s @ [Line (record_value r)], False)]" for img
        using that replay_snoc [of cfg "session_id s" "workspace s" "content s" "(entries s, committed s)"]
          ok ld by (simp add: replays_def store_ok_def parse_record_value)
    qed
    then show ?case
      using op new
      by (simp add: bindS_def success f durable_outcome_def snapshot_def) (simp add: appended_def)
  next
    case (failure s' e)
    then show ?case
      using attempted_reopens [OF ok failure(6,7) ld, of _ 0] new
      by (auto simp: bindS_def durable_outcome_def snapshot_def)
  qed
qed

lemma commit_outcome:
  assumes ok: "store_ok cfg uuid s" and op: "stream_open s" and sup: "supply_ready cfg uuid clock s"
    and cfg: "settings_ok cfg" and st: "json_text (dict_of st)"
  shows "durable_outcome cfg uuid s (Inr (Some (branch_history (entries s) (head s), dict_of st)))
    (commit uuid clock st s)"
proof -
  let ?d = "[(ustr ''state'', dict_of st)]"
  define r where "r = new_record uuid clock (s\<lparr>head := head s\<rparr>) ''turn_commit'' ?d"
  have h: "held (entries s) (head s)" using ok by (simp add: store_ok_def)
  have d: "json_text (dict_of ?d)" using st by (simp add: json_text_dict_of)
  note nr = new_record_facts [OF ok sup h _ d, of "''turn_commit''", folded r_def, simplified]
  have ld: "load_record cfg r (entries s, committed s) = Inr (AList.update (rid r) r (entries s), Some (rid r))"
    by (rule load_state_record [OF cfg nr(3,2,4)]) (simp_all add: nr)
  have new: "snapshot_of (AList.update (rid r) r (entries s)) (Some (rid r)) =
      Inr (Some (branch_history (entries s) (head s), dict_of st))"
    using branch_new_record(2) [OF _ nr(4,2), of "dict_of st"] store_ok_forest [OF ok]
      id_nonempty [OF cfg nr(3)] by (simp add: nr)
  have "durable_outcome cfg uuid s (Inr (Some (branch_history (entries s) (head s), dict_of st)))
    (bindS (durable_append uuid clock ''turn_commit'' ?d (head s)) (\<lambda>i. modS (\<lambda>s. s\<lparr>committed := Some i\<rparr>)) s)"
    by (rule durable_outcomeI [where k = "''turn_commit''", OF ok op sup h _ d, folded r_def, where sel = "Some (rid r)" and h' = "Some (rid r)"])
       (simp_all add: ld new appended_def has_key_iff)
  then show ?thesis by (simp add: commit_def)
qed

lemma checkpoint_outcome:
  assumes ok: "store_ok cfg uuid s" and op: "stream_open s" and sup: "supply_ready cfg uuid clock s"
    and cfg: "settings_ok cfg" and st: "json_text (dict_of st)"
  shows "durable_outcome cfg uuid s (Inr (Some (branch_history (entries s) (committed s), dict_of st)))
    (checkpoint uuid clock st s)"
proof -
  let ?d = "[(ustr ''state'', dict_of st)]"
  define r where "r = new_record uuid clock (s\<lparr>head := committed s\<rparr>) ''state'' ?d"
  have h: "held (entries s) (committed s)" using store_ok_forest [OF ok] by simp
  have d: "json_text (dict_of ?d)" using st by (simp add: json_text_dict_of)
  note nr = new_record_facts [OF ok sup h _ d, of "''state''", folded r_def, simplified]
  have ld: "load_record cfg r (entries s, committed s) = Inr (AList.update (rid r) r (entries s), Some (rid r))"
    by (rule load_state_record [OF cfg nr(3,2,4)]) (simp_all add: nr)
  have new: "snapshot_of (AList.update (rid r) r (entries s)) (Some (rid r)) =
      Inr (Some (branch_history (entries s) (committed s), dict_of st))"
    using branch_new_record(2) [OF _ nr(4,2), of "dict_of st"] store_ok_forest [OF ok]
      id_nonempty [OF cfg nr(3)] by (simp add: nr)
  let ?h = "if head s \<noteq> committed s then head s else Some (rid r)"
  have h': "held (AList.update (rid r) r (entries s)) ?h"
    using ok by (auto simp: store_ok_def held_def has_key_iff split: option.splits)
  have "durable_outcome cfg uuid s (Inr (Some (branch_history (entries s) (committed s), dict_of st)))
    (bindS (durable_append uuid clock ''state'' ?d (committed s)) (\<lambda>i. modS (\<lambda>s'. s'\<lparr>committed := Some i,
          head := (if head s \<noteq> committed s then head s else head s')\<rparr>)) s)"
    by (rule durable_outcomeI [where k = "''state''", OF ok op sup h _ d, folded r_def, where sel = "Some (rid r)" and h' = ?h])
       (simp_all add: ld new h' appended_def)
  then show ?thesis by (simp add: checkpoint_def)
qed

lemma validate_fork_Inr_iff:
  "validate_fork s i = Inr () \<longleftrightarrow> (\<exists>e. map_of (entries s) i = Some e \<and> rtype e = ustr ''turn_commit'')"
  by (auto simp: validate_fork_def split: option.splits)

lemma fork_outcome:
  assumes ok: "store_ok cfg uuid s" and op: "stream_open s" and sup: "supply_ready cfg uuid clock s"
    and cfg: "settings_ok cfg" and vf: "validate_fork s i = Inr ()"
  shows "durable_outcome cfg uuid s (snapshot (Some i) s) (fork uuid clock i s)"
proof -
  let ?d = "[(ustr ''target'', VStr i)]"
  define r where "r = new_record uuid clock (s\<lparr>head := Some i\<rparr>) ''select'' ?d"
  from vf obtain e where e: "map_of (entries s) i = Some e" "rtype e = ustr ''turn_commit''"
    by (auto simp: validate_fork_Inr_iff)
  have h: "held (entries s) (Some i)" using e by (simp add: has_key_iff)
  have d: "json_text (dict_of ?d)"
    using store_ok_ids [OF ok h refl] by (simp add: json_text_dict_of utf8_hex)
  note nr = new_record_facts [OF ok sup h _ d, of "''select''", folded r_def, simplified]
  have ld: "load_record cfg r (entries s, committed s) = Inr (AList.update (rid r) r (entries s), Some i)"
    by (rule load_select_record [where e = e, OF cfg nr(3,2,4)]) (simp_all add: nr e)
  have new: "snapshot_of (AList.update (rid r) r (entries s)) (Some i) = snapshot (Some i) s"
    using snapshot_of_extend(1) [OF conjunct1 [OF store_ok_forest [OF ok]] h submap_update [OF nr(2)]]
    by (simp add: snapshot_def vf length_update_new [OF nr(2)])
  have "held (AList.update (rid r) r (entries s)) (Some i)" using e by (simp add: has_key_iff)
  then have "durable_outcome cfg uuid s (snapshot (Some i) s)
    (bindS (durable_append uuid clock ''select'' ?d (Some i)) (\<lambda>_. modS (\<lambda>s. s\<lparr>head := Some i, committed := Some i\<rparr>)) s)"
    by (intro durable_outcomeI [where k = "''select''" and f = "\<lambda>_ s. s\<lparr>head := Some i, committed := Some i\<rparr>",
          OF ok op sup h _ d, folded r_def, where sel = "Some i" and h' = "Some i"])
       (simp_all add: ld new appended_def)
  then show ?thesis
    unfolding fork_def by (subst bindS_Inr [where s' = s and x = "()"]) (simp_all add: vf)
qed

text \<open>A pending record: the branch grows by it, and no crash can select it.\<close>

definition pending_outcome ::
    "storage_settings \<Rightarrow> (nat \<Rightarrow> pystr) \<Rightarrow> store \<Rightarrow> fields list \<Rightarrow> store \<times> pystr result \<Rightarrow> bool" where
  "pending_outcome cfg uuid s extra out \<longleftrightarrow> (case out of
      (s', Inr _) \<Rightarrow> store_ok cfg uuid s' \<and> stream_open s' \<and> snapshot None s' = snapshot None s \<and>
         branch_history (entries s') (head s') = branch_history (entries s) (head s) @ extra
    | (s', Inl _) \<Rightarrow> failed s' \<and> stream_open s' \<and> snapshot None s' = snapshot None s \<and>
         (\<forall>img\<in>set (images s'). \<exists>s''.
            open_store cfg True (session_id s') (workspace s') (Some img) 0 [] = Inr s'' \<and>
            snapshot None s'' = snapshot None s))"

lemma append_outcome:
  assumes ok: "store_ok cfg uuid s" and op: "stream_open s" and sup: "supply_ready cfg uuid clock s"
    and cfg: "settings_ok cfg" and js: "json_text (dict_of d)"
    and k: "k = ''turn_start'' \<and> extra = [] \<or> k = ''message'' \<and> extra = [d] \<and> validate_message d = Inr ()"
  shows "pending_outcome cfg uuid s extra (append_record uuid clock k d s)"
proof -
  define r where "r = new_record uuid clock s k d"
  have h: "held (entries s) (head s)" using ok by (simp add: store_ok_def)
  have ke: "utf8_encodable (ustr k)" using k by auto
  have sh: "s\<lparr>head := head s\<rparr> = s" by simp
  note nr = new_record_facts [OF ok sup h ke js, unfolded sh, folded r_def]
  have ld: "load_record cfg r (entries s, committed s) = Inr (AList.update (rid r) r (entries s), committed s)"
    by (rule load_plain_record [OF cfg nr(3,2,4)]) (use k in \<open>auto simp: nr\<close>)
  note fo = store_ok_forest [OF ok]
  have sub: "map_of (entries s) \<subseteq>\<^sub>m map_of (AList.update (rid r) r (entries s))"
    by (rule submap_update [OF nr(2)])
  have snap: "snapshot_of (AList.update (rid r) r (entries s)) (committed s) = snapshot None s"
    using snapshot_of_extend(1) [OF conjunct1 [OF fo] conjunct2 [OF fo] sub]
    by (simp add: snapshot_def length_update_new [OF nr(2)])
  have pre: "\<not> failed s" "\<not> torn s" using ok by (simp_all add: store_ok_def)
  show ?thesis
  proof (rule append_record_cases [OF pre op nr(1) [unfolded r_def], folded r_def], goal_cases success failure)
    case (success fs)
    let ?im = "images s @ [(content s, True), (content s @ [Line (record_value r)], False)]"
    have "store_ok cfg uuid ((appended s r fs ?im)\<lparr>committed := committed s, head := Some (rid r)\<rparr>)"
    proof (rule store_ok_appended [OF ok sup ld nr(5)])
      show "held (AList.update (rid r) r (entries s)) (Some (rid r))" by (simp add: has_key_iff)
      fix img assume "img \<in> set ?im"
      then consider "replays cfg s (fst img) (entries s) (committed s)"
        | "img = (content s @ [Line (record_value r)], False)"
        using ok by (auto simp: store_ok_def replays_def)
      then show "replays cfg s (fst img) (AList.update (rid r) r (entries s)) (committed s)"
      proof cases
        case 1
        then show ?thesis
          by (rule replays_mono) (use sub length_update_new [OF nr(2)] in simp_all)
      next
        case 2
        then show ?thesis
          using replay_snoc [of cfg "session_id s" "workspace s" "content s" "(entries s, committed s)"] ok ld
          by (simp add: replays_def store_ok_def parse_record_value)
      qed
    qed
    moreover have "(appended s r fs ?im)\<lparr>committed := committed s, head := Some (rid r)\<rparr> = appended s r fs ?im"
      by (simp add: appended_def)
    moreover have "branch_history (AList.update (rid r) r (entries s)) (Some (rid r)) =
        branch_history (entries s) (head s) @ extra"
      using branch_new_record(1) [OF conjunct1 [OF fo] nr(4,2)] k by (auto simp: nr)
    ultimately show ?case
      using op snap by (simp add: pending_outcome_def success) (simp add: appended_def snapshot_def)
  next
    case (failure s')
    obtain e where e: "io_error = (Inl e :: pystr result)" by (simp add: io_error_def raise_def)
    show ?case
      using failure attempted_reopens [OF ok failure(7,8) ld, of _ 0] snap
      by (auto simp: pending_outcome_def e snapshot_def)
  qed
qed

lemma abort_ok:
  "store_ok cfg uuid s \<Longrightarrow> store_ok cfg uuid (abort s) \<and> snapshot None (abort s) = snapshot None s"
  using store_ok_forest [of cfg uuid s] by (simp add: store_ok_def abort_def snapshot_def replays_def)

section \<open>The branch under the head\<close>

lemma write_line_frame: "entries (fst (write_line v s)) = entries s \<and> head (fst (write_line v s)) = head s
    \<and> committed (fst (write_line v s)) = committed s"
  by (cases s rule: next_fault_cases) (auto simp: write_line_def put_content_def split: sum.splits)

lemma sync_frame: "entries (fst (sync s)) = entries s \<and> head (fst (sync s)) = head s
    \<and> committed (fst (sync s)) = committed s"
  by (cases s rule: next_fault_cases) (auto simp: sync_def)

lemma append_record_Inr:
  assumes "append_record uuid clock k d s = (s', Inr i)"
  shows "head s' = Some i \<and> i = uuid (serial s) \<and>
    entries s' = AList.update i (new_record uuid clock s k d) (entries s)"
proof -
  let ?s = "s\<lparr>serial := Suc (serial s)\<rparr>"
  let ?r = "new_record uuid clock s k d"
  obtain s1 x where w: "write_line (record_value ?r) ?s = (s1, x)" by (cases "write_line (record_value ?r) ?s")
  have f: "entries s1 = entries s"
    using write_line_frame [of "record_value ?r" ?s] w by simp
  have "rid ?r = uuid (serial s)" by (simp add: new_record_def)
  then show ?thesis
    using assms f by (cases x) (auto simp: append_record_def Let_def bindS_def w)
qed

lemma durable_append_Inr:
  assumes "durable_append uuid clock k d par s = (s', Inr i)"
  shows "head s' = Some i \<and> i = uuid (serial s) \<and> (\<exists>r. entries s' = AList.update i r (entries s))"
proof -
  have no: "snd (undo_append p off x e t) \<noteq> Inr i" for p off x e t
    by (auto simp: undo_append_def Let_def split: prod.splits sum.splits)
  obtain s1 where a: "append_record uuid clock k d (s\<lparr>head := par\<rparr>) = (s1, Inr i)" and "sync s1 = (s', Inr ())"
    using assms no
    by (auto simp: durable_append_def Let_def raise_def split: if_splits prod.splits sum.splits) (metis snd_conv)+
  then show ?thesis
    using append_record_Inr [OF a] sync_frame [of s1] by auto
qed

lemma snapshot_branch:
  "snapshot None s = Inr (Some (h, v)) \<Longrightarrow> branch_history (entries s) (committed s) = h"
  by (auto simp: snapshot_def snapshot_of_def branch_history_def bindR_Inr_iff split: option.splits)

lemma snapshot_total:
  assumes "store_ok cfg uuid s"
  shows "\<exists>v. snapshot None s = Inr (Some (branch_history (entries s) (committed s), v))"
proof -
  note fo = store_ok_forest [OF assms]
  obtain rs where "chain (length (entries s)) (entries s) (committed s) = Inr (Some rs)"
    using chain_total fo by blast
  from chain_fuel [OF this, of "Suc (length (entries s))"]
  have c: "chain (Suc (length (entries s))) (entries s) (committed s) = Inr (Some rs)" by simp
  have "\<exists>v. state_at (entries s) (committed s) = Inr v"
    using fo by (cases "committed s") (auto simp: state_at_def has_key_iff split: option.splits)
  with c show ?thesis
    by (auto simp: snapshot_def snapshot_of_def branch_history_def simp del: chain.simps)
qed

lemma commit_branch:
  assumes ok: "store_ok cfg uuid s" "stream_open s" "supply_ready cfg uuid clock s" "settings_ok cfg"
      "json_text (dict_of st)"
    and c: "commit uuid clock st s = (s', Inr ())"
  shows "store_ok cfg uuid s' \<and> stream_open s' \<and> head s' = committed s' \<and>
    branch_history (entries s') (head s') = branch_history (entries s) (head s) \<and>
    snapshot None s' = Inr (Some (branch_history (entries s) (head s), dict_of st))"
proof -
  have out: "store_ok cfg uuid s'" "stream_open s'"
    "snapshot None s' = Inr (Some (branch_history (entries s) (head s), dict_of st))"
    using commit_outcome [OF ok] c by (simp_all add: durable_outcome_def)
  from c obtain i where "durable_append uuid clock ''turn_commit'' [(ustr ''state'', dict_of st)] (head s) s
      = (s'\<lparr>committed := committed (fst (durable_append uuid clock ''turn_commit'' [(ustr ''state'', dict_of st)] (head s) s))\<rparr>, Inr i)"
    and "committed s' = Some i"
    by (auto simp: commit_def bindS_def split: prod.splits sum.splits)
  then have "head s' = committed s'"
    using durable_append_Inr by fastforce
  with out snapshot_branch [OF out(3)] show ?thesis by simp
qed

lemma checkpoint_branch:
  assumes ok: "store_ok cfg uuid s" "stream_open s" "supply_ready cfg uuid clock s" "settings_ok cfg"
      "json_text (dict_of st)"
    and c: "checkpoint uuid clock st s = (s', Inr ())"
  shows "store_ok cfg uuid s' \<and> stream_open s' \<and> (head s = committed s \<longrightarrow> head s' = committed s') \<and>
    branch_history (entries s') (head s') = branch_history (entries s) (head s) \<and>
    snapshot None s' = Inr (Some (branch_history (entries s) (committed s), dict_of st))"
proof -
  have out: "store_ok cfg uuid s'" "stream_open s'"
    "snapshot None s' = Inr (Some (branch_history (entries s) (committed s), dict_of st))"
    using checkpoint_outcome [OF ok] c by (simp_all add: durable_outcome_def)
  obtain t i where t: "durable_append uuid clock ''state'' [(ustr ''state'', dict_of st)] (committed s) s = (t, Inr i)"
    and s': "s' = t\<lparr>committed := Some i, head := (if head s \<noteq> committed s then head s else head t)\<rparr>"
    using c by (auto simp: checkpoint_def bindS_def split: prod.splits sum.splits)
  from durable_append_Inr [OF t] obtain r where t': "head t = Some i" "i = uuid (serial s)"
    "entries t = AList.update i r (entries s)" by auto
  have new: "\<not> has_key (entries s) i" using ok(1,3) t'(2) by (simp add: store_ok_def supply_ready_def)
  have br: "branch_history (entries s') (head s) = branch_history (entries s) (head s)"
    using branch_history_extend [OF conjunct1 [OF store_ok_forest [OF ok(1)]] _ submap_update [OF new], of "head s" r]
      ok(1) length_update_new [OF new, of r]
    by (simp add: s' t'(3) store_ok_def)
  show ?thesis
  proof (cases "head s = committed s")
    case True
    then have "head s' = committed s'" using s' t' by simp
    with out snapshot_branch [OF out(3)] True show ?thesis by simp
  next
    case False
    then have "head s' = head s" using s' by simp
    with out br False show ?thesis by simp
  qed
qed

lemma abort_branch:
  "branch_history (entries (abort s)) (head (abort s)) = branch_history (entries s) (committed s)"
  by (simp add: abort_def)

section \<open>The store as a machine\<close>

datatype store_op = SStart int | SMessage message | SCommit fields | SCheckpoint fields | SAbort
  | SFork pystr

definition message_fields :: "message \<Rightarrow> fields" where
  "message_fields m = [(ustr ''role'', VStr (role m)), (ustr ''content'', VStr (mcontent m)),
     (ustr ''kind'', VStr (mkind m)), (ustr ''prompt_id'', VInt (prompt_id m))]"

definition message_ok :: "message \<Rightarrow> bool" where
  "message_ok m \<longleftrightarrow> session_message (role m) (mcontent m) (mkind m) (prompt_id m) = Inr m"

fun store_perform :: "(nat \<Rightarrow> pystr) \<Rightarrow> (nat \<Rightarrow> pystr) \<Rightarrow> store_op \<Rightarrow> store \<Rightarrow> store" where
  "store_perform uuid clock (SStart n) s =
     fst (append_record uuid clock ''turn_start'' [(ustr ''prompt_id'', VInt n)] s)"
| "store_perform uuid clock (SMessage m) s = fst (append_record uuid clock ''message'' (message_fields m) s)"
| "store_perform uuid clock (SCommit st) s = fst (commit uuid clock st s)"
| "store_perform uuid clock (SCheckpoint st) s = fst (checkpoint uuid clock st s)"
| "store_perform uuid clock SAbort s = abort s"
| "store_perform uuid clock (SFork i) s = fst (fork uuid clock i s)"

text \<open>Messages built by \<open>SessionMessage\<close>, plugin state that is JSON.\<close>

fun store_op_ok :: "store_op \<Rightarrow> bool" where
  "store_op_ok (SMessage m) = message_ok m"
| "store_op_ok (SCommit st) = json_text (dict_of st)"
| "store_op_ok (SCheckpoint st) = json_text (dict_of st)"
| "store_op_ok _ = True"

definition store_inv :: "storage_settings \<Rightarrow> (nat \<Rightarrow> pystr) \<Rightarrow> store \<Rightarrow> bool" where
  "store_inv cfg uuid s \<longleftrightarrow> stream_open s \<and> (failed s \<or> id_space cfg \<le> serial s \<or> store_ok cfg uuid s)"

lemma message_ok_facts:
  assumes "message_ok m"
  shows "validate_message (message_fields m) = Inr ()" "json_text (dict_of (message_fields m))"
proof -
  have k: "utf8_encodable (ustr ''assistant'')" "utf8_encodable (ustr ''user'')"
    "utf8_encodable (ustr ''prompt'')" "utf8_encodable (ustr ''host_result'')"
    "utf8_encodable (ustr ''role'')" "utf8_encodable (ustr ''content'')" "utf8_encodable (ustr ''kind'')"
    by code_simp+
  show "validate_message (message_fields m) = Inr ()"
    using assms by (auto simp: message_ok_def validate_message_def message_fields_def message_names_def
        keys_def get_def s_text_def integer_field_def Let_def session_message_def raise_def split: if_splits)
  show "json_text (dict_of (message_fields m))"
    using assms k by (auto simp: message_ok_def json_text_dict_of message_fields_def session_message_def
        raise_def split: if_splits)
qed

text \<open>No operation but \<open>close\<close> closes the stream, and identifiers are only used up.\<close>

definition alive :: "nat \<Rightarrow> store \<Rightarrow> bool" where
  "alive N s \<longleftrightarrow> stream_open s \<and> N \<le> serial s"

lemma undo_append_alive: "alive N s \<Longrightarrow> alive N (fst (undo_append prev off entry e s))"
proof -
  assume op: "alive N s"
  have sy: "alive N (fst (sync t))" if "alive N t" for t
    by (cases t rule: next_fault_cases) (use that in \<open>auto simp: alive_def sync_def\<close>)
  have tr: "alive N (fst (truncate off t))" if "alive N t" for t
    by (cases t rule: next_fault_cases) (use that in \<open>auto simp: alive_def truncate_def put_content_def\<close>)
  have both: "alive N (fst (bindS (truncate off) (\<lambda>_. sync) t))" if "alive N t" for t
    using sy [of "fst (truncate off t)"] tr [OF that]
    by (cases "truncate off t"; cases "snd (truncate off t)") (auto simp: bindS_def)
  define s1 where "s1 = s\<lparr>head := prev,
    entries := (case entry of None \<Rightarrow> entries s | Some i \<Rightarrow> AList.delete i (entries s))\<rparr>"
  obtain s2 r where b: "bindS (truncate off) (\<lambda>_. sync) s1 = (s2, r)" by (cases "bindS (truncate off) (\<lambda>_. sync) s1")
  have "alive N s2" using both [of s1] op b by (simp add: s1_def alive_def)
  then show ?thesis
    unfolding undo_append_def Let_def s1_def [symmetric] b by (cases r) (simp_all add: alive_def)
qed

lemma undo_append_open: "stream_open s \<Longrightarrow> stream_open (fst (undo_append prev off entry e s))"
  using undo_append_alive [of 0 s prev off entry e] by (simp add: alive_def)

text \<open>A failed store refuses every write and stays failed.\<close>

lemma write_failed: "failed s \<Longrightarrow> \<exists>e. write_line v s = (s, Inl e)"
  by (simp add: write_line_def raise_def)

lemma append_failed:
  assumes "failed s"
  shows "\<exists>e. append_record uuid clock k d s = (s\<lparr>serial := Suc (serial s)\<rparr>, Inl e)"
proof -
  have "failed (s\<lparr>serial := Suc (serial s)\<rparr>)" using assms by simp
  then obtain e where "write_line (record_value (new_record uuid clock s k d)) (s\<lparr>serial := Suc (serial s)\<rparr>) =
      (s\<lparr>serial := Suc (serial s)\<rparr>, Inl e)"
    using write_failed by blast
  then have "append_record uuid clock k d s = (s\<lparr>serial := Suc (serial s)\<rparr>, Inl e)"
    by (simp add: append_record_def Let_def bindS_def)
  then show ?thesis ..
qed

lemma undo_append_keeps_failed:
  "failed s \<Longrightarrow> stream_open s \<Longrightarrow> failed (fst (undo_append prev off entry e s))"
proof -
  assume f: "failed s" and op: "stream_open s"
  have sy: "failed (fst (sync t))" if "failed t" for t
    by (cases t rule: next_fault_cases) (use that in \<open>auto simp: sync_def\<close>)
  have tr: "failed (fst (truncate off t))" if "failed t" for t
    by (cases t rule: next_fault_cases) (use that in \<open>auto simp: truncate_def put_content_def\<close>)
  define s1 where "s1 = s\<lparr>head := prev,
    entries := (case entry of None \<Rightarrow> entries s | Some i \<Rightarrow> AList.delete i (entries s))\<rparr>"
  obtain s2 r where b: "bindS (truncate off) (\<lambda>_. sync) s1 = (s2, r)" by (cases "bindS (truncate off) (\<lambda>_. sync) s1")
  have "failed (fst (bindS (truncate off) (\<lambda>_. sync) s1))"
    using sy [of "fst (truncate off s1)"] tr [of s1] f
    by (cases "truncate off s1"; cases "snd (truncate off s1)") (auto simp: bindS_def s1_def)
  then have "failed s2" by (simp add: b)
  then show ?thesis
    unfolding undo_append_def Let_def s1_def [symmetric] b by (cases r) simp_all
qed

lemma durable_failed:
  assumes "failed s" "stream_open s"
  shows "\<exists>s' e. durable_append uuid clock k d par s = (s', Inl e) \<and> failed s' \<and> stream_open s'"
proof -
  obtain e where a: "append_record uuid clock k d (s\<lparr>head := par\<rparr>) =
      (s\<lparr>head := par, serial := Suc (serial s)\<rparr>, Inl e)"
    using append_failed [of "s\<lparr>head := par\<rparr>" uuid clock k d] assms(1) by fastforce
  let ?u = "undo_append (head s) (length (content s), torn s) None e (s\<lparr>head := par, serial := Suc (serial s)\<rparr>)"
  have u: "failed (fst ?u)" "stream_open (fst ?u)"
    using assms undo_append_keeps_failed undo_append_open by simp_all
  have "\<exists>e'. snd ?u = Inl e'"
    by (auto simp: undo_append_def Let_def split: prod.splits sum.splits)
  then show ?thesis
    using u assms by (cases ?u) (auto simp: durable_append_def a Let_def)
qed

lemma keeps_alive_write: "keeps (alive N) (write_line v)"
proof (rule keepsI)
  fix s :: store assume "alive N s"
  then show "alive N (fst (write_line v s))"
    by (cases s rule: next_fault_cases)
       (auto simp: alive_def write_line_def put_content_def split: sum.splits)
qed

lemma keeps_alive_sync: "keeps (alive N) sync"
proof (rule keepsI)
  fix s :: store assume "alive N s"
  then show "alive N (fst (sync s))" by (cases s rule: next_fault_cases) (auto simp: alive_def sync_def)
qed

lemma keeps_alive_append: "keeps (alive N) (append_record uuid clock k d)"
proof (rule keepsI)
  fix s :: store assume op: "alive N s"
  have "keeps (alive N) (bindS (write_line (record_value (new_record uuid clock s k d))) (\<lambda>_.
      bindS (modS (\<lambda>t. t\<lparr>entries := AList.update (rid (new_record uuid clock s k d))
        (new_record uuid clock s k d) (entries t), head := Some (rid (new_record uuid clock s k d))\<rparr>))
        (\<lambda>_. retS (rid (new_record uuid clock s k d)))))"
    by (intro keeps_bind keeps_alive_write keeps_mod keeps_ret) (simp add: alive_def)
  from keepsD [OF this, of "s\<lparr>serial := Suc (serial s)\<rparr>"] op
  show "alive N (fst (append_record uuid clock k d s))" by (simp add: append_record_def Let_def alive_def)
qed

lemma keeps_alive_durable: "keeps (alive N) (durable_append uuid clock k d par)"
proof (rule keepsI)
  fix s :: store assume op: "alive N s"
  obtain s1 r1 where a: "append_record uuid clock k d (s\<lparr>head := par\<rparr>) = (s1, r1)"
    by (cases "append_record uuid clock k d (s\<lparr>head := par\<rparr>)")
  have s1: "alive N s1"
    using keepsD [OF keeps_alive_append, of N "s\<lparr>head := par\<rparr>" uuid clock k d] op a by (simp add: alive_def)
  obtain s2 r2 where b: "sync s1 = (s2, r2)" by (cases "sync s1")
  have s2: "alive N s2" using keepsD [OF keeps_alive_sync s1] b by simp
  show "alive N (fst (durable_append uuid clock k d par s))"
    using op s1 s2 undo_append_alive
    by (cases r1; cases r2) (simp_all add: durable_append_def a b Let_def alive_def)
qed

lemma keeps_alive_ops:
  "keeps (alive N) (commit uuid clock st)" "keeps (alive N) (checkpoint uuid clock st)"
  "keeps (alive N) (fork uuid clock i)"
proof -
  show "keeps (alive N) (commit uuid clock st)" "keeps (alive N) (checkpoint uuid clock st)"
    by (intro keepsI, simp only: commit_def checkpoint_def,
        rule keepsD [OF keeps_bind [OF keeps_alive_durable keeps_mod]]; simp add: alive_def)+
  show "keeps (alive N) (fork uuid clock i)"
  proof (rule keepsI)
    fix s :: store assume op: "alive N s"
    have "keeps (alive N) (bindS (liftR (validate_fork s i)) (\<lambda>_.
       bindS (durable_append uuid clock ''select'' [(ustr ''target'', VStr i)] (Some i)) (\<lambda>_.
       modS (\<lambda>s. s\<lparr>head := Some i, committed := Some i\<rparr>))))"
      by (intro keeps_bind keeps_alive_durable keeps_mod keeps_lift) (simp add: alive_def)
    from keepsD [OF this op] show "alive N (fst (fork uuid clock i s))" by (simp add: fork_def)
  qed
qed

lemma keeps_open: "(\<And>N. keeps (alive N) m) \<Longrightarrow> keeps stream_open m"
  unfolding keeps_def alive_def by (metis le0)

lemmas keeps_open_append = keeps_open [OF keeps_alive_append]
lemmas keeps_open_ops = keeps_open [OF keeps_alive_ops(1)] keeps_open [OF keeps_alive_ops(2)]
  keeps_open [OF keeps_alive_ops(3)]

lemma alive_serial: "(\<And>N. keeps (alive N) m) \<Longrightarrow> stream_open s \<Longrightarrow> serial s \<le> serial (fst (m s))"
  unfolding keeps_def alive_def by (metis order_refl)

lemma durable_bind_failed:
  assumes "failed s" "stream_open s"
  shows "failed (fst (bindS (durable_append uuid clock k d par) f s))"
    "\<exists>e. snd (bindS (durable_append uuid clock k d par) f s) = Inl e"
  using durable_failed [OF assms, of uuid clock k d par] by auto

lemma ops_failed:
  assumes "failed s" "stream_open s"
  shows "failed (fst (commit uuid clock st s))" "failed (fst (checkpoint uuid clock st s))"
    "failed (fst (fork uuid clock i s))"
proof -
  show "failed (fst (commit uuid clock st s))" "failed (fst (checkpoint uuid clock st s))"
    by (simp_all add: commit_def checkpoint_def durable_bind_failed [OF assms])
  show "failed (fst (fork uuid clock i s))"
    using durable_bind_failed [OF assms] assms
    by (cases "validate_fork s i") (simp_all add: fork_def)
qed

lemma durable_inv:
  assumes "durable_outcome cfg uuid s new out" "stream_open (fst out)"
  shows "store_inv cfg uuid (fst out)"
  using assms by (auto simp: durable_outcome_def store_inv_def split: prod.splits sum.splits)

lemma pending_inv: "pending_outcome cfg uuid s extra out \<Longrightarrow> store_inv cfg uuid (fst out)"
  by (auto simp: pending_outcome_def store_inv_def split: prod.splits sum.splits)

lemma store_perform_failed:
  assumes "failed s" "stream_open s"
  shows "failed (store_perform uuid clock x s) \<and> stream_open (store_perform uuid clock x s)"
proof -
  have ap: "failed (fst (append_record uuid clock k d s)) \<and> stream_open (fst (append_record uuid clock k d s))" for k d
    using append_failed [OF assms(1), of uuid clock k d] assms by auto
  have "stream_open (store_perform uuid clock x s)"
    using assms keepsD [OF keeps_open_append, of s uuid clock] keepsD [OF keeps_open_ops(1), of s uuid clock]
      keepsD [OF keeps_open_ops(2), of s uuid clock] keepsD [OF keeps_open_ops(3), of s uuid clock]
    by (cases x) (simp_all add: abort_def)
  moreover have "failed (store_perform uuid clock x s)"
    using assms ap ops_failed [OF assms] by (cases x) (simp_all add: abort_def)
  ultimately show ?thesis by simp
qed

lemma store_perform_alive:
  "stream_open s \<Longrightarrow> stream_open (store_perform uuid clock x s) \<and> serial s \<le> serial (store_perform uuid clock x s)"
  using keepsD [OF keeps_alive_append, of "serial s" s uuid clock] keepsD [OF keeps_alive_ops(1), of "serial s" s uuid clock]
    keepsD [OF keeps_alive_ops(2), of "serial s" s uuid clock] keepsD [OF keeps_alive_ops(3), of "serial s" s uuid clock]
  by (cases x) (simp_all add: abort_def alive_def)

lemma fork_refused:
  assumes "validate_fork s i = Inl e"
  shows "fork uuid clock i s = (s, Inl e)"
  using assms by (simp add: fork_def)

lemma json_text_prompt: "json_text (dict_of [(ustr ''prompt_id'', VInt n)])"
proof -
  have "utf8_encodable (ustr ''prompt_id'')" by code_simp
  then show ?thesis by (simp add: json_text_dict_of)
qed

lemma store_perform_ok:
  assumes ok: "store_ok cfg uuid s" and op: "stream_open s" and sup: "supply_ready cfg uuid clock s"
    and cfg: "settings_ok cfg" and v: "store_op_ok x"
  shows "store_inv cfg uuid (store_perform uuid clock x s)"
proof (cases x)
  case (SStart n)
  then show ?thesis
    using pending_inv [OF append_outcome [OF ok op sup cfg json_text_prompt, of "''turn_start''" "[]"]] by simp
next
  case (SMessage m)
  with v have "validate_message (message_fields m) = Inr ()" "json_text (dict_of (message_fields m))"
    using message_ok_facts by simp_all
  then show ?thesis
    using pending_inv [OF append_outcome [OF ok op sup cfg, of "message_fields m" "''message''" "[message_fields m]"]]
      SMessage by simp
next
  case (SCommit st)
  with v show ?thesis
    using durable_inv [OF commit_outcome [OF ok op sup cfg]] keepsD [OF keeps_open_ops(1) op] by simp
next
  case (SCheckpoint st)
  with v show ?thesis
    using durable_inv [OF checkpoint_outcome [OF ok op sup cfg]] keepsD [OF keeps_open_ops(2) op] by simp
next
  case SAbort
  then show ?thesis using abort_ok [OF ok] op by (simp add: store_inv_def abort_def)
next
  case (SFork i)
  show ?thesis
  proof (cases "validate_fork s i")
    case (Inl e)
    with SFork ok op show ?thesis by (simp add: fork_refused store_inv_def)
  next
    case (Inr u)
    then show ?thesis
      using durable_inv [OF fork_outcome [OF ok op sup cfg]] keepsD [OF keeps_open_ops(3) op] SFork by simp
  qed
qed

definition store_machine_inv ::
    "storage_settings \<Rightarrow> (nat \<Rightarrow> pystr) \<Rightarrow> (nat \<Rightarrow> pystr) \<Rightarrow> store \<Rightarrow> bool" where
  "store_machine_inv cfg uuid clock s \<longleftrightarrow> settings_ok cfg \<and> supplies_ok cfg uuid clock \<and> store_inv cfg uuid s"

interpretation store_machine: op_machine "store_perform uuid clock" "store_machine_inv cfg uuid clock" store_op_ok
  for cfg uuid clock
proof
  fix s x assume "store_machine_inv cfg uuid clock s" "store_op_ok x"
  then show "store_machine_inv cfg uuid clock (store_perform uuid clock x s)"
    using store_perform_ok [of cfg uuid s clock x] store_perform_failed [of s uuid clock x]
      store_perform_alive [of s uuid clock x]
    by (cases "serial s < id_space cfg") (auto simp: store_machine_inv_def store_inv_def supply_ready_def)
qed

section \<open>A supply of identifiers\<close>

definition hex_digit :: "nat \<Rightarrow> int" where
  "hex_digit n = (if n < 10 then 48 + int n else 87 + int n)"

fun hex_id :: "nat \<Rightarrow> nat \<Rightarrow> pystr" where
  "hex_id 0 n = []"
| "hex_id (Suc k) n = hex_digit (n mod 16) # hex_id k (n div 16)"

lemma hex_digit_eq: "m < 16 \<Longrightarrow> n < 16 \<Longrightarrow> hex_digit m = hex_digit n \<longleftrightarrow> m = n"
  by (auto simp: hex_digit_def split: if_splits)

lemma hex_id_inj: "m < 16 ^ k \<Longrightarrow> n < 16 ^ k \<Longrightarrow> hex_id k m = hex_id k n \<Longrightarrow> m = n"
proof (induction k arbitrary: m n)
  case (Suc k)
  have "m div 16 < 16 ^ k" "n div 16 < 16 ^ k"
    using Suc.prems(1,2) by (simp_all add: less_mult_imp_div_less mult.commute)
  moreover have "m mod 16 = n mod 16" "hex_id k (m div 16) = hex_id k (n div 16)"
    using Suc.prems(3) by (simp_all add: hex_digit_eq)
  ultimately have "m div 16 = n div 16" "m mod 16 = n mod 16" using Suc.IH by simp_all
  then show ?case by (metis div_mult_mod_eq)
qed simp

lemma hex_id_hex: "list_all is_hex (hex_id k n) \<and> length (hex_id k n) = k"
proof (induction k arbitrary: n)
  case (Suc k)
  have "n mod 16 < 16" by simp
  then have "is_hex (hex_digit (n mod 16))" by (auto simp: is_hex_def hex_digit_def)
  with Suc show ?case by simp
qed simp

text \<open>The assumption on the supply can be met for every identifier length.\<close>

lemma hex_supplies_ok: "supplies_ok cfg (hex_id (id_hex_chars cfg)) (\<lambda>_. [])"
  using hex_id_inj hex_id_hex
  by (auto simp: supplies_ok_def inj_on_def id_space_def id_ok_def utf8_encodable_def)

section \<open>Properties\<close>

definition demo_settings_store :: storage_settings where
  "demo_settings_store = \<lparr>schema_version = 1, id_hex_chars = 2,
     record_types = map ustr [''message'', ''turn_start'', ''turn_commit'', ''select'', ''state'']\<rparr>"

definition demo_opened :: "store \<times> unit result" where
  "demo_opened = load_store demo_settings_store (fresh_store demo_settings_store (hex_id 2 0) [] ([], False) 1 [])"

definition demo_journal :: store where
  "demo_journal = fst demo_opened"

lemma demo_opened_ok: "id_ok demo_settings_store (hex_id 2 0)" "snd demo_opened = Inr ()"
  by code_simp+

lemma demo_journal_facts:
  "store_ok demo_settings_store (hex_id 2) demo_journal" "stream_open demo_journal"
  "supply_ready demo_settings_store (hex_id 2) (\<lambda>_. []) demo_journal" "settings_ok demo_settings_store"
proof -
  have l: "load_store demo_settings_store (fresh_store demo_settings_store (hex_id 2 0) [] ([], False) 1 []) = (demo_journal, Inr ())"
    using demo_opened_ok(2) by (simp add: demo_opened_def demo_journal_def prod_eq_iff)
  note lf = load_fresh [OF demo_opened_ok(1) l, of "hex_id 2"]
  have k: "id_hex_chars demo_settings_store = 2" by (simp add: demo_settings_store_def)
  show "store_ok demo_settings_store (hex_id 2) demo_journal" "stream_open demo_journal"
    using lf by simp_all
  show "supply_ready demo_settings_store (hex_id 2) (\<lambda>_. []) demo_journal"
    using lf hex_supplies_ok [of demo_settings_store] k by (simp add: supply_ready_def id_space_def)
  show "settings_ok demo_settings_store" by (simp add: settings_ok_def demo_settings_store_def)
qed

text \<open>C5: Crash recovery: from whatever content the file may be left with since the last
  successful \<open>fsync\<close>, the journal reopens on the same history and plugin state.\<close>

theorem reopen_after_crash:
  assumes "store_ok cfg uuid s" "img \<in> set (images s)"
  shows "\<exists>s'. open_store cfg True (session_id s) (workspace s) (Some img) n [] = Inr s' \<and>
     snapshot None s' = snapshot None s"
  by (rule reopen_ok [OF assms])

theorem reopen_after_crash_witness:
  "\<exists>s'. open_store demo_settings_store True (session_id demo_journal) (workspace demo_journal)
      (Some (hd (images demo_journal))) 1 [] = Inr s' \<and> snapshot None s' = snapshot None demo_journal"
proof (rule reopen_after_crash [OF demo_journal_facts(1)])
  show "hd (images demo_journal) \<in> set (images demo_journal)" by code_simp
qed

text \<open>C4: \<open>commit\<close> is atomic and durable: when it returns, the selected snapshot is the branch under
  the head with the given state and the file holds nothing else; when it raises, the store has
  failed and every content a crash may leave reopens either on the old or on the new snapshot.\<close>

theorem commit_is_atomic:
  assumes "store_ok cfg uuid s" "stream_open s" "supply_ready cfg uuid clock s" "settings_ok cfg"
    and "json_text (dict_of st)"
  shows "durable_outcome cfg uuid s (Inr (Some (branch_history (entries s) (head s), dict_of st)))
    (commit uuid clock st s)"
  by (rule commit_outcome [OF assms])

theorem commit_is_atomic_witness:
  "durable_outcome demo_settings_store (hex_id 2) demo_journal
     (Inr (Some (branch_history (entries demo_journal) (head demo_journal), dict_of [])))
     (commit (hex_id 2) (\<lambda>_. []) [] demo_journal)"
  by (rule commit_is_atomic [OF demo_journal_facts]) (simp add: dict_of_def)

text \<open>C23: \<open>checkpoint\<close> replaces the durable plugin state and leaves the durable history as it was,
  whatever was appended to the open turn, with the same guarantees as a commit.\<close>

theorem checkpoint_keeps_history:
  assumes "store_ok cfg uuid s" "stream_open s" "supply_ready cfg uuid clock s" "settings_ok cfg"
    and "json_text (dict_of st)"
  shows "durable_outcome cfg uuid s (Inr (Some (branch_history (entries s) (committed s), dict_of st)))
    (checkpoint uuid clock st s)"
  by (rule checkpoint_outcome [OF assms])

theorem checkpoint_keeps_history_witness:
  "durable_outcome demo_settings_store (hex_id 2) demo_journal
     (Inr (Some (branch_history (entries demo_journal) (committed demo_journal), dict_of [])))
     (checkpoint (hex_id 2) (\<lambda>_. []) [] demo_journal)"
  by (rule checkpoint_keeps_history [OF demo_journal_facts]) (simp add: dict_of_def)

text \<open>A message appended to an open turn extends the branch under the head and is never
  selected by a crash: every content the file may be left with reopens on the old snapshot.\<close>

theorem pending_message_not_selected:
  assumes "store_ok cfg uuid s" "stream_open s" "supply_ready cfg uuid clock s" "settings_ok cfg"
    and "message_ok m"
  shows "pending_outcome cfg uuid s [message_fields m]
    (append_record uuid clock ''message'' (message_fields m) s)"
  by (rule append_outcome [OF assms(1-4)]) (use message_ok_facts [OF assms(5)] in auto)

theorem pending_message_not_selected_witness:
  "\<exists>m. role m = ustr ''user'' \<and> pending_outcome demo_settings_store (hex_id 2) demo_journal [message_fields m]
    (append_record (hex_id 2) (\<lambda>_. []) ''message'' (message_fields m) demo_journal)"
proof -
  let ?m = "\<lparr>role = ustr ''user'', mcontent = ustr ''hi'', mkind = ustr ''prompt'', prompt_id = 1\<rparr>"
  have "message_ok ?m" by code_simp
  from pending_message_not_selected [OF demo_journal_facts this] show ?thesis by (intro exI [of _ ?m]) simp
qed

text \<open>\<open>fork\<close> accepts only completed turns and then durably selects the snapshot of that turn.\<close>

theorem fork_selects_turn:
  assumes "store_ok cfg uuid s" "stream_open s" "supply_ready cfg uuid clock s" "settings_ok cfg"
  shows "case validate_fork s i of
      Inl e \<Rightarrow> fork uuid clock i s = (s, Inl e) \<and>
        (\<forall>r. map_of (entries s) i = Some r \<longrightarrow> rtype r \<noteq> ustr ''turn_commit'')
    | Inr _ \<Rightarrow> durable_outcome cfg uuid s (snapshot (Some i) s) (fork uuid clock i s)"
proof (cases "validate_fork s i")
  case (Inl e)
  then have "\<not> (\<exists>r. map_of (entries s) i = Some r \<and> rtype r = ustr ''turn_commit'')"
    by (metis validate_fork_Inr_iff sum.distinct(1))
  with Inl show ?thesis by (auto simp: fork_refused)
next
  case (Inr u)
  then show ?thesis using fork_outcome [OF assms, of i] by simp
qed

theorem fork_selects_turn_witness:
  "fork (hex_id 2) (\<lambda>_. []) [] demo_journal = (demo_journal, raise ValueError ''Fork requires a completed-turn entry ID.'')"
proof -
  have "validate_fork demo_journal [] = raise ValueError ''Fork requires a completed-turn entry ID.''"
    by code_simp
  with fork_selects_turn [OF demo_journal_facts, of "[]"] show ?thesis by (simp add: raise_def)
qed

text \<open>C24: Whatever sequence of appends, commits, checkpoints, aborts and forks runs, with any
  system calls failing, the store is consistent with its journal, or has failed, or has used up
  the identifiers; it never closes its stream.\<close>

theorem every_run_keeps_store:
  assumes "settings_ok cfg" "supplies_ok cfg uuid clock" "store_inv cfg uuid s" "list_all store_op_ok xs"
  shows "store_inv cfg uuid (run_ops (store_perform uuid clock) xs s)"
  using store_machine.run_inv [of cfg uuid clock s xs] assms by (simp add: store_machine_inv_def)

theorem every_run_keeps_store_witness:
  "store_inv demo_settings_store (hex_id 2)
     (run_ops (store_perform (hex_id 2) (\<lambda>_. [])) [SStart 1, SCommit [], SFork [], SAbort] demo_journal)"
proof (rule every_run_keeps_store [OF demo_journal_facts(4)])
  show "supplies_ok demo_settings_store (hex_id 2) (\<lambda>_. [])"
    using demo_journal_facts(3) by (simp add: supply_ready_def)
  show "store_inv demo_settings_store (hex_id 2) demo_journal"
    using demo_journal_facts by (simp add: store_inv_def)
qed (simp add: dict_of_def)

end
