(* ===== verification/Session_Kernel.thy ===== *)
theory Session_Kernel
  imports Action_Protocol Session_Store
begin

text \<open>
  \<open>AgentSession\<close> of \<open>raychat/session.py\<close>: turns that roll back unless they commit, the loop of
  model calls and host results, guards and approvals before a tool runs, checkpoints, snapshots
  and their durable copy in the journal of \<open>Session_Store\<close>. What the kernel calls but does not
  contain (the model, hooks and tools of the plugin host, callbacks, the log, JSON text) is a
  field of \<open>env\<close>; \<open>'w\<close> is whatever state those keep.
  \<open>cancelled\<close> is the local variable of \<open>_execute_action\<close> that its cancellation check sets. Values copied with \<open>deepcopy\<close> are values
  here, and the reentrant lock has no counterpart in this sequential model.
\<close>

section \<open>State and environment\<close>

type_synonym messages = "(pystr \<times> pystr) list"

record 'w session =
  hist :: "message list"
  next_prompt :: int
  sending :: bool
  turn_open :: bool
  core_review :: bool
  core_editing :: bool
  core_result :: pystr
  pstate :: fields
  rollback :: "fields option"
  checkpoint_owners :: "pystr set"
  sstore :: "store option"
  cancelled :: bool
  world :: 'w

record tool_def =
  description :: pystr
  parameters :: pyval
  tvalidate :: "fields \<Rightarrow> unit result"
  requires_approval :: bool
  finishes_turn :: bool

datatype event = SessionStart | SessionRestore | SessionReset | TurnStart pystr | ContextHook messages
  | BeforeTool fields | AfterTool fields fields | TurnEnd pystr | TurnAbort

datatype hook = NoHook | BlockHook pystr | NewContext messages

record 'w core_bridge =
  claim_result :: "pystr \<Rightarrow> ('w session, unit) eff"
  finish_result :: "pystr \<Rightarrow> ('w session, unit) eff"
  review_outcome :: "fields \<Rightarrow> ('w session, fields) eff"

record 'w context_builder =
  select_instruction :: "pystr \<Rightarrow> ('w session, pystr) eff"
  build_messages :: "int \<Rightarrow> ('w session, messages) eff"

record 'w env =
  protocol_text :: pystr
  instruction_role :: pystr
  context_chars :: int
  auto_approve :: bool
  allowed_names :: "pystr list option"
  max_reply :: nat
  result_prefix :: pystr
  message_roles :: "pystr list"
  storage_cfg :: storage_settings
  uuids :: "nat \<Rightarrow> pystr"
  clocks :: "nat \<Rightarrow> pystr"
  json_dumps :: "bool \<Rightarrow> bool \<Rightarrow> pyval \<Rightarrow> pystr result"
  json_parse :: "pystr \<Rightarrow> rawjson result"
  json_loads :: "pystr \<Rightarrow> pyval result"
  repr_text :: "pystr \<Rightarrow> pystr"
  tools :: "'w session \<Rightarrow> (pystr, tool_def) dict"
  emit :: "('w session, unit) eff option \<Rightarrow> (string \<Rightarrow> fields \<Rightarrow> ('w session, unit) eff) option
     \<Rightarrow> event \<Rightarrow> ('w session, hook) eff"
  execute_tool :: "('w session, unit) eff option \<Rightarrow> (string \<Rightarrow> fields \<Rightarrow> ('w session, unit) eff) option
     \<Rightarrow> fields \<Rightarrow> ('w session, fields) eff"
  chat :: "messages \<Rightarrow> ('w session, pyval) eff"
  policy :: "'w session \<Rightarrow> 'w context_builder option"
  contributions :: "('w session, pystr list) eff"
  bridge :: "'w session \<Rightarrow> 'w core_bridge option"
  write_log :: "((pystr \<times> pystr) \<Rightarrow> ('w session, unit) eff) option"
  begin_operation :: "('w session, unit) eff"
  finish_operation :: "bool \<Rightarrow> ('w session, unit) eff"

text \<open>The callbacks of one \<open>send\<close>.\<close>

record 'w callbacks =
  event_callback :: "(string \<Rightarrow> fields \<Rightarrow> ('w session, unit) eff) option"
  approval_callback :: "(fields \<Rightarrow> ('w session, pyval) eff) option"
  cancel_check :: "('w session, unit) eff option"

text \<open>\<open>_SendState\<close> without its callbacks.\<close>

record send_state =
  sprompt :: int
  max_steps :: "int option"
  step :: int

section \<open>Values\<close>

text \<open>\<open>json.loads(json.dumps(v))\<close>: tuples become lists, keys must be text.\<close>

fun detach :: "pyval \<Rightarrow> pyval result"
  and detach_elems :: "pyval list \<Rightarrow> pyval list result"
  and detach_items :: "(pyval \<times> pyval) list \<Rightarrow> (pyval \<times> pyval) list result" where
  "detach (VList xs) = bindR (detach_elems xs) (\<lambda>ys. Inr (VList ys))"
| "detach (VTuple xs) = bindR (detach_elems xs) (\<lambda>ys. Inr (VList ys))"
| "detach (VDict d) = bindR (detach_items d) (\<lambda>d'. Inr (VDict d'))"
| "detach (VProxy d) = raise TypeError ''Object of type mappingproxy is not JSON serializable''"
| "detach (VOther n) = raise TypeError ''Object is not JSON serializable''"
| "detach v = Inr v"
| "detach_elems [] = Inr []"
| "detach_elems (x # xs) = bindR (detach x) (\<lambda>y. bindR (detach_elems xs) (\<lambda>ys. Inr (y # ys)))"
| "detach_items [] = Inr []"
| "detach_items ((k, x) # d) =
     (if \<not> is_text k then raise TypeError ''keys must be str''
      else bindR (detach x) (\<lambda>y. bindR (detach_items d) (\<lambda>d'. Inr ((k, y) # d'))))"

definition detached_payload :: "fields \<Rightarrow> fields result" where
  "detached_payload fs = bindR (detach (dict_of fs)) (\<lambda>v. object_field v (ustr ''callback payload''))"

definition positive_finite :: "rat \<Rightarrow> pyval \<Rightarrow> bool" where
  "positive_finite limit v = (case v of
      VInt i \<Rightarrow> 0 < i \<and> of_int i \<le> limit \<and> float_of_int i \<noteq> None
    | VFloat (Fin q) \<Rightarrow> 0 < q \<and> q \<le> limit
    | _ \<Rightarrow> False)"

definition exn_report :: "exn \<Rightarrow> pystr" where
  "exn_report e = ustr (exn_class_name (exn_kind e)) @ ustr '': '' @ exn_text e"

definition error_result :: "exn \<Rightarrow> fields" where
  "error_result e = [(ustr ''ok'', VBool False), (ustr ''error'', VStr (exn_report e))]"

text \<open>The exceptions a tool or a reply may raise without ending the turn.\<close>

definition tool_errors :: "exn_class list" where
  "tool_errors = [ValueError, OSError, RuntimeError, TypeError, RecursionError]"

section \<open>History and snapshots\<close>

definition history_message :: "pyval \<Rightarrow> message result" where
  "history_message v =
     bindR (object_field v (ustr ''session history entry'')) (\<lambda>fs.
     if set (keys fs) \<noteq> set message_names then raise ValueError ''Invalid session history entry.''
     else bindR (s_text (get fs ''role'') ''Session message fields must contain text.'') (\<lambda>r.
       bindR (s_text (get fs ''content'') ''Session message fields must contain text.'') (\<lambda>c.
       bindR (s_text (get fs ''kind'') ''Session message fields must contain text.'') (\<lambda>k.
       bindR (integer_field (Some 1) (get fs ''prompt_id'') (ustr ''history prompt identifier'')) (\<lambda>n.
       session_message r c k n)))))"

text \<open>\<open>json.dumps(fields, allow_nan=False)\<close> escapes all text, so only values can make it fail.\<close>

fun dumpable :: "pyval \<Rightarrow> unit result"
  and dumpable_elems :: "pyval list \<Rightarrow> unit result"
  and dumpable_items :: "(pyval \<times> pyval) list \<Rightarrow> unit result" where
  "dumpable (VFloat f) = (if finite_float f then Inr ()
     else raise ValueError ''Out of range float values are not JSON compliant'')"
| "dumpable (VList xs) = dumpable_elems xs"
| "dumpable (VTuple xs) = dumpable_elems xs"
| "dumpable (VDict d) = dumpable_items d"
| "dumpable (VProxy d) = raise TypeError ''Object of type mappingproxy is not JSON serializable''"
| "dumpable (VOther n) = raise TypeError ''Object is not JSON serializable''"
| "dumpable v = Inr ()"
| "dumpable_elems [] = Inr ()"
| "dumpable_elems (x # xs) = bindR (dumpable x) (\<lambda>_. dumpable_elems xs)"
| "dumpable_items [] = Inr ()"
| "dumpable_items ((k, x) # d) =
     (case k of VTuple _ \<Rightarrow> raise TypeError ''keys must be str, int, float, bool or None''
      | VOther _ \<Rightarrow> raise TypeError ''keys must be str, int, float, bool or None''
      | _ \<Rightarrow> bindR (dumpable x) (\<lambda>_. dumpable_items d))"

definition owner_state :: "pystr \<times> pyval \<Rightarrow> (pystr \<times> pyval) result" where
  "owner_state p = bindR (object_field (snd p) (ustr ''state for '' @ fst p)) (\<lambda>fs. Inr (fst p, dict_of fs))"

definition read_snapshot :: "pyval \<Rightarrow> (message list \<times> fields) result" where
  "read_snapshot v =
     bindR (object_field v (ustr ''session snapshot'')) (\<lambda>fs.
     if set (keys fs) \<noteq> {ustr ''history'', ustr ''state''} then raise ValueError ''Invalid session snapshot.''
     else bindR (array_field (get fs ''history'') (ustr ''session history'')) (\<lambda>hs.
       bindR (object_field (get fs ''state'') (ustr ''session state'')) (\<lambda>st.
       bindR (dumpable (dict_of fs)) (\<lambda>_.
       bindR (mapR history_message hs) (\<lambda>ms.
       bindR (mapR owner_state st) (\<lambda>os. Inr (ms, os)))))))"

definition snapshot_parts :: "pyval \<Rightarrow> (message list \<times> fields) result" where
  "snapshot_parts v = rescue [ConfigurationError] (\<lambda>e. raise_text ValueError (exn_text e)) (read_snapshot v)"

definition export_snapshot :: "'w session \<Rightarrow> fields" where
  "export_snapshot s = [(ustr ''history'', VList (map (\<lambda>m. dict_of (message_fields m)) (hist s))),
     (ustr ''state'', dict_of (pstate s))]"

definition as_message :: "message \<Rightarrow> pystr \<times> pystr" where
  "as_message m = (role m, mcontent m)"

definition last_prompt :: "message list \<Rightarrow> pystr option" where
  "last_prompt ms = map_option mcontent (List.find (\<lambda>m. mkind m = ustr ''prompt'') (rev ms))"

section \<open>Small operations\<close>

definition on_store :: "(store, 'a) eff \<Rightarrow> ('w session, unit) eff" where
  "on_store f s = (case sstore s of
      None \<Rightarrow> (s, Inr ())
    | Some st \<Rightarrow> (case f st of
        (st', Inl e) \<Rightarrow> (s\<lparr>sstore := Some st'\<rparr>, Inl e)
      | (st', Inr _) \<Rightarrow> (s\<lparr>sstore := Some st'\<rparr>, Inr ())))"

definition check_cancel :: "'w callbacks \<Rightarrow> ('w session, unit) eff" where
  "check_cancel cb = (case cancel_check cb of None \<Rightarrow> retS () | Some c \<Rightarrow> c)"

definition emit_event :: "'w callbacks \<Rightarrow> string \<Rightarrow> fields \<Rightarrow> ('w session, unit) eff" where
  "emit_event cb name payload = (case event_callback cb of
      None \<Rightarrow> retS ()
    | Some f \<Rightarrow> bindS (liftR (detached_payload payload)) (f name))"

definition write_log_line :: "'w env \<Rightarrow> pystr \<times> pystr \<Rightarrow> ('w session, unit) eff" where
  "write_log_line env m = (case write_log env of None \<Rightarrow> retS () | Some f \<Rightarrow> f m)"

definition core_names :: "pystr list" where
  "core_names = map ustr [''core_source'', ''core_update'', ''core_recover'', ''core_status'',
     ''core_verify'', ''done'']"

definition action_allowed :: "'w env \<Rightarrow> 'w session \<Rightarrow> pystr \<Rightarrow> bool" where
  "action_allowed env s n \<longleftrightarrow>
     (has_key (tools env s) n \<or> n = ustr ''done'') \<and>
     (core_review s \<or> core_editing s \<longrightarrow> n \<in> set core_names) \<and>
     (case allowed_names env of None \<Rightarrow> True | Some ns \<Rightarrow> n \<in> set ns)"

text \<open>\<open>sorted(self.allowed_actions)\<close>.\<close>

definition allowed_actions :: "'w env \<Rightarrow> 'w session \<Rightarrow> pystr list" where
  "allowed_actions env s =
     sort (remdups (filter (action_allowed env s) (ustr ''done'' # keys (tools env s))))"

definition add_history ::
    "'w env \<Rightarrow> string \<Rightarrow> pystr \<Rightarrow> string \<Rightarrow> int \<Rightarrow> bool \<Rightarrow> ('w session, unit) eff" where
  "add_history env r c k n logged =
     bindS (liftR (session_message (ustr r) c (ustr k) n)) (\<lambda>m.
     bindS (modS (\<lambda>s. s\<lparr>hist := hist s @ [m]\<rparr>)) (\<lambda>_.
     bindS (on_store (append_record (uuids env) (clocks env) ''message'' (message_fields m))) (\<lambda>_.
     if logged then write_log_line env (as_message m) else retS ())))"

section \<open>Turns, checkpoints and snapshots\<close>

definition checkpoint_state :: "pystr \<Rightarrow> 'w session \<Rightarrow> fields" where
  "checkpoint_state owner s =
     (let base = (case rollback s of None \<Rightarrow> pstate s | Some r \<Rightarrow> r)
      in case map_of (pstate s) owner of
          Some v \<Rightarrow> AList.update owner v base
        | None \<Rightarrow> AList.delete owner base)"

definition checkpoint_owner :: "'w env \<Rightarrow> pystr \<Rightarrow> ('w session, unit) eff" where
  "checkpoint_owner env owner s =
     (let state = checkpoint_state owner s in
      bindS (on_store (checkpoint (uuids env) (clocks env) state)) (\<lambda>_. modS (\<lambda>s.
        if rollback s = None then s
        else s\<lparr>rollback := Some state, checkpoint_owners := insert owner (checkpoint_owners s)\<rparr>)) s)"

definition commit_turn :: "'w env \<Rightarrow> ('w session, unit) eff" where
  "commit_turn env =
     bindS (getS (\<lambda>s. on_store (commit (uuids env) (clocks env) (pstate s)))) (\<lambda>_.
     modS (\<lambda>s. s\<lparr>rollback := None, turn_open := False\<rparr>))"

definition begin_turn :: "('w session, message list) eff" where
  "begin_turn s =
     (if sending s then (s, raise RuntimeError ''AgentSession.send() is already active.'')
      else if turn_open s then (s, raise RuntimeError
        ''The previous prompt did not finish; reset the session before sending.'')
      else (s\<lparr>rollback := Some (pstate s), checkpoint_owners := {}, sending := True\<rparr>, Inr (hist s)))"

definition roll_back :: "message list \<Rightarrow> 'w session \<Rightarrow> 'w session" where
  "roll_back h0 s = (case rollback s of
      None \<Rightarrow> s\<lparr>checkpoint_owners := {}\<rparr>
    | Some rb \<Rightarrow> s\<lparr>hist := h0, sstore := map_option abort (sstore s), pstate := rb, rollback := None,
        turn_open := False, checkpoint_owners := {}\<rparr>)"

definition clear_flags :: "'w session \<Rightarrow> 'w session" where
  "clear_flags s = s\<lparr>sending := False, core_review := False, core_editing := False, core_result := []\<rparr>"

definition finish_turn :: "'w env \<Rightarrow> message list \<Rightarrow> ('w session, unit) eff" where
  "finish_turn env h0 =
     finallyS
       (getS (\<lambda>s. bindS (modS (roll_back h0)) (\<lambda>_.
          if rollback s = None then retS ()
          else bindS (emit env None None TurnAbort) (\<lambda>_. retS ()))))
       (modS clear_flags)"

text \<open>
  \<open>with self.runtime.operation(...)\<close> around the turn; the body is a program that may not return
  within its fuel, hence the option.
\<close>

definition turn ::
    "'w env \<Rightarrow> ('w session \<Rightarrow> ('w session \<times> 'a result) option) \<Rightarrow> 'w session \<Rightarrow> ('w session \<times> 'a result) option" where
  "turn env body s = (case begin_operation env s of
      (s1, Inl e) \<Rightarrow> Some (s1, Inl e)
    | (s1, Inr _) \<Rightarrow>
       (case (case begin_turn s1 of
            (s2, Inl e) \<Rightarrow> Some (s2, Inl e)
          | (s2, Inr h0) \<Rightarrow> map_option (\<lambda>(s3, r). finallyS (liftR r) (finish_turn env h0) s3) (body s2)) of
          None \<Rightarrow> None
        | Some (s4, r) \<Rightarrow> Some (finallyS (liftR r) (finish_operation env (\<not> isl r)) s4)))"

text \<open>The owners checkpointed in this turn keep their checkpointed value, or stay absent.\<close>

definition keep_checkpoints :: "fields \<Rightarrow> pystr set \<Rightarrow> fields \<Rightarrow> fields" where
  "keep_checkpoints rb owners st =
     filter (\<lambda>p. fst p \<notin> owners) st @ filter (\<lambda>p. fst p \<in> owners) rb"

text \<open>One more than the largest prompt identifier, or 1.\<close>

definition next_id :: "message list \<Rightarrow> int" where
  "next_id ms = fold max (map prompt_id ms) 0 + 1"

text \<open>\<open>_restore_snapshot\<close>: the snapshot replaces the state unless a restore hook objects.\<close>

definition apply_snapshot :: "'w env \<Rightarrow> bool \<Rightarrow> pyval \<Rightarrow> ('w session, unit) eff" where
  "apply_snapshot env checkpointed v s = (case snapshot_parts v of
      Inl e \<Rightarrow> (s, Inl e)
    | Inr (ms, st) \<Rightarrow>
        if checkpointed \<and> rollback s = None
        then (s, raise RuntimeError ''Snapshot completion requires an active turn.'')
        else if checkpointed \<and> take (length (hist s)) ms \<noteq> hist s
        then (s, raise ValueError ''Completed snapshot changed prior history.'')
        else
          let st' = (if checkpointed then keep_checkpoints (the (rollback s)) (checkpoint_owners s) st else st);
              s1 = s\<lparr>hist := ms, pstate := st', next_prompt := next_id ms\<rparr>
          in case emit env None None SessionRestore s1 of
              (s2, Inr _) \<Rightarrow> (s2, Inr ())
            | (s2, Inl e) \<Rightarrow> (s2\<lparr>hist := hist s, pstate := pstate s, next_prompt := next_prompt s\<rparr>, Inl e))"

definition restore_snapshot :: "'w env \<Rightarrow> pyval \<Rightarrow> ('w session, unit) eff" where
  "restore_snapshot env v s =
     (if sending s then (s, raise RuntimeError ''Cannot restore an active session.'')
      else apply_snapshot env False v s)"

definition complete_snapshot :: "'w env \<Rightarrow> pyval \<Rightarrow> ('w session, unit) eff" where
  "complete_snapshot env v =
     getS (\<lambda>s0. bindS (apply_snapshot env True v) (\<lambda>_. getS (\<lambda>s1.
       bindS (forS (drop (length (hist s0)) (hist s1)) (\<lambda>m.
          on_store (append_record (uuids env) (clocks env) ''message'' (message_fields m)))) (\<lambda>_.
       commit_turn env))))"

text \<open>The document \<open>store.snapshot()\<close> returns.\<close>

definition stored_document :: "store \<Rightarrow> pyval result" where
  "stored_document st = bindR (snapshot None st) (\<lambda>found. case found of
      None \<Rightarrow> raise RecursionError ''the parent chain does not end''
    | Some (h, v) \<Rightarrow> Inr (dict_of [(ustr ''history'', VList (map dict_of h)), (ustr ''state'', v)]))"

definition restore_stored :: "'w env \<Rightarrow> ('w session, unit) eff" where
  "restore_stored env s = (case sstore s of
      None \<Rightarrow> (s, raise ValueError ''Session persistence is disabled.'')
    | Some st \<Rightarrow> bindS (liftR (stored_document st)) (restore_snapshot env) s)"

definition reset_session :: "'w env \<Rightarrow> ('w session, unit) eff" where
  "reset_session env s =
     (if sending s then (s, raise RuntimeError ''Cannot reset an AgentSession during send().'')
      else bindS (modS (\<lambda>s. s\<lparr>hist := [], pstate := [], next_prompt := 1, turn_open := False\<rparr>)) (\<lambda>_.
        bindS (on_store (new_session (storage_cfg env) (uuids env))) (\<lambda>_.
        bindS (emit env None None SessionReset) (\<lambda>_. retS ()))) s)"

definition close_session :: "('w session, unit) eff \<Rightarrow> ('w session, unit) eff" where
  "close_session close_host =
     finallyS close_host (modS (\<lambda>s. s\<lparr>sstore := map_option close_store (sstore s)\<rparr>))"

section \<open>Requests\<close>

definition tool_docs :: "'w env \<Rightarrow> 'w session \<Rightarrow> pyval" where
  "tool_docs env s = VList (map (\<lambda>(n, t). dict_of
       [(ustr ''name'', VStr n), (ustr ''description'', VStr (description t)),
        (ustr ''parameters'', parameters t)])
     (filter (\<lambda>(n, t). action_allowed env s n) (tools env s)))"

definition messages_value :: "messages \<Rightarrow> pyval" where
  "messages_value ms = VList (map (\<lambda>(r, c). dict_of [(ustr ''role'', VStr r), (ustr ''content'', VStr c)]) ms)"

definition context_message :: "'w env \<Rightarrow> pystr \<times> pystr \<Rightarrow> (pystr \<times> pystr) result" where
  "context_message env = (\<lambda>(r, c).
     if r \<notin> set (message_roles env) \<or> \<not> utf8_encodable c
     then raise ValueError ''Context hook returned invalid messages.'' else Inr (r, c))"

text \<open>Without a context policy: the instructions, the tools, and the whole conversation.\<close>

definition default_messages :: "'w env \<Rightarrow> ('w session, messages) eff" where
  "default_messages env = getS (\<lambda>s0.
     bindS (contributions env) (\<lambda>texts.
     bindS (liftR (json_dumps env True False (tool_docs env s0))) (\<lambda>listing. getS (\<lambda>s.
     retS ((instruction_role env,
            protocol_text env @ join [10] texts @ 10 # ustr ''Enabled tools: '' @ listing)
           # map as_message (hist s))))))"

definition request_messages :: "'w env \<Rightarrow> int \<Rightarrow> ('w session, messages) eff" where
  "request_messages env n =
     bindS (getS (\<lambda>s. case policy env s of
         Some p \<Rightarrow> build_messages p n | None \<Rightarrow> default_messages env)) (\<lambda>messages.
     bindS (emit env None None (ContextHook messages)) (\<lambda>h.
     bindS (liftR (mapR (context_message env) (case h of NewContext ms \<Rightarrow> ms | _ \<Rightarrow> messages))) (\<lambda>candidate.
     bindS (liftR (json_dumps env False True (messages_value candidate))) (\<lambda>document.
     if context_chars env < int (length document)
     then liftR (raise ValueError ''Context budget exceeded.'')
     else retS candidate))))"

definition select_text :: "'w env \<Rightarrow> pystr \<Rightarrow> ('w session, pystr) eff" where
  "select_text env prompt = getS (\<lambda>s. case policy env s of
      Some p \<Rightarrow> select_instruction p prompt | None \<Rightarrow> retS (protocol_text env))"

definition validate_context :: "'w env \<Rightarrow> ('w session, unit) eff" where
  "validate_context env = getS (\<lambda>s.
     bindS (select_text env (case last_prompt (hist s) of None \<Rightarrow> [] | Some p \<Rightarrow> p)) (\<lambda>_. retS ()))"

section \<open>Core review\<close>

definition result_tag :: pystr where
  "result_tag = ustr ''CORE_UPDATE_RESULT: ''"

definition core_outcome :: "'w env \<Rightarrow> pystr \<Rightarrow> fields result" where
  "core_outcome env prompt = bindR (json_loads env (removeprefix prompt result_tag))
     (\<lambda>v. object_field v (ustr ''core update result''))"

definition claim_core_result :: "'w env \<Rightarrow> pystr \<Rightarrow> ('w session, unit) eff" where
  "claim_core_result env prompt = getS (\<lambda>s. case bridge env s of
      None \<Rightarrow> retS ()
    | Some b \<Rightarrow> if \<not> core_review s then retS ()
        else bindS (liftR (core_outcome env prompt)) (\<lambda>fs.
          bindS (liftR (required_text (get fs ''request_id'') (ustr ''update request id''))) (\<lambda>i.
          bindS (claim_result b i) (\<lambda>_. modS (\<lambda>s. s\<lparr>core_result := i\<rparr>)))))"

definition finish_core_result :: "'w env \<Rightarrow> ('w session, unit) eff" where
  "finish_core_result env = getS (\<lambda>s. case bridge env s of
      None \<Rightarrow> retS ()
    | Some b \<Rightarrow> if core_result s = [] then retS () else finish_result b (core_result s))"

text \<open>\<open>None\<close>: the completion stands as it is.\<close>

definition review_completion :: "'w env \<Rightarrow> fields \<Rightarrow> ('w session, fields option) eff" where
  "review_completion env action = getS (\<lambda>s. case bridge env s of
      None \<Rightarrow> retS None
    | Some b \<Rightarrow>
        if \<not> core_review s \<or> get action ''action'' \<noteq> VStr (ustr ''done'') then retS None
        else case last_prompt (hist s) of
            None \<Rightarrow> liftR (raise StopIteration [])
          | Some p \<Rightarrow> bindS (liftR (core_outcome env p)) (\<lambda>fs.
              bindS (review_outcome b fs) (\<lambda>r. retS (Some r))))"

section \<open>One turn\<close>

definition progress :: "send_state \<Rightarrow> fields" where
  "progress st = [(ustr ''step'', VInt (step st)),
     (ustr ''max_steps'', case max_steps st of None \<Rightarrow> VNone | Some n \<Rightarrow> VInt n)]"

definition start_prompt :: "'w env \<Rightarrow> 'w callbacks \<Rightarrow> pystr \<Rightarrow> ('w session, int \<times> messages) eff" where
  "start_prompt env cb prompt = getS (\<lambda>s0. let n = next_prompt s0; first = (hist s0 = []) in
     bindS (check_cancel cb) (\<lambda>_.
     bindS (on_store (append_record (uuids env) (clocks env) ''turn_start'' [(ustr ''prompt_id'', VInt n)])) (\<lambda>_.
     bindS (emit env (cancel_check cb) (event_callback cb) (TurnStart prompt)) (\<lambda>_.
     bindS (add_history env ''user'' prompt ''prompt'' n False) (\<lambda>_.
     bindS (request_messages env n) (\<lambda>messages.
     bindS (modS (\<lambda>s. s\<lparr>next_prompt := next_prompt s + 1, turn_open := True\<rparr>)) (\<lambda>_.
     bindS (if first then forS messages (write_log_line env)
            else write_log_line env (ustr ''user'', prompt)) (\<lambda>_.
     retS (n, messages)))))))))"

definition validate_action :: "'w env \<Rightarrow> fields \<Rightarrow> ('w session, unit) eff" where
  "validate_action env action = getS (\<lambda>s. bindS (liftR (action_name action)) (\<lambda>n.
     if n = ustr ''done'' then retS ()
     else case map_of (tools env s) n of
         None \<Rightarrow> liftR (raise_text ValueError (ustr ''Unknown action: '' @ n))
       | Some t \<Rightarrow> liftR (tvalidate t action)))"

definition publish_result ::
    "'w env \<Rightarrow> 'w callbacks \<Rightarrow> send_state \<Rightarrow> fields option \<Rightarrow> fields \<Rightarrow> ('w session, unit) eff" where
  "publish_result env cb st action result =
     bindS (emit_event cb ''result'' (progress st @
         [(ustr ''action'', case action of None \<Rightarrow> VNone | Some a \<Rightarrow> dict_of a),
          (ustr ''result'', dict_of result)])) (\<lambda>_.
     bindS (liftR (json_dumps env False False (dict_of result))) (\<lambda>document.
     add_history env ''user'' (result_prefix env @ document) ''host_result'' (sprompt st) True))"

definition reject_reply ::
    "'w env \<Rightarrow> 'w callbacks \<Rightarrow> send_state \<Rightarrow> pystr \<Rightarrow> fields option \<Rightarrow> exn \<Rightarrow> ('w session, unit) eff" where
  "reject_reply env cb st reply action e =
     bindS (add_history env ''assistant'' reply ''assistant'' (sprompt st) True) (\<lambda>_. getS (\<lambda>s.
       let denied = (case action of None \<Rightarrow> False
         | Some a \<Rightarrow> (case get a ''action'' of VStr n \<Rightarrow> \<not> action_allowed env s n | _ \<Rightarrow> True))
       in publish_result env cb st None
            (error_result e @ (if denied then [(ustr ''denied'', VBool True)] else []))))"

definition next_action ::
    "'w env \<Rightarrow> 'w callbacks \<Rightarrow> send_state \<Rightarrow> messages \<Rightarrow> ('w session, fields option) eff" where
  "next_action env cb st request =
     bindS (check_cancel cb) (\<lambda>_.
     bindS (bindS (chat env request) (\<lambda>v. liftR (assistant_text (max_reply env) v))) (\<lambda>reply.
     bindS (check_cancel cb) (\<lambda>_.
     bindS (case decode_action (max_reply env) (json_parse env) (VStr reply) of
         Inl e \<Rightarrow> if caught_by tool_errors e
           then bindS (reject_reply env cb st reply None e) (\<lambda>_. retS None) else liftR (Inl e)
       | Inr action \<Rightarrow>
           rescueS tool_errors
             (\<lambda>e. bindS (reject_reply env cb st reply (Some action) e) (\<lambda>_. retS None))
             (bindS (validate_action env action) (\<lambda>_.
              bindS (review_completion env action) (\<lambda>r. case r of
                  None \<Rightarrow> retS (Some (action, reply))
                | Some reviewed \<Rightarrow> bindS (liftR (json_dumps env True False (dict_of reviewed)))
                    (\<lambda>document. retS (Some (reviewed, document))))))) (\<lambda>outcome.
     case outcome of
         None \<Rightarrow> retS None
       | Some (action, reply') \<Rightarrow>
           bindS (add_history env ''assistant'' reply' ''assistant'' (sprompt st) True)
             (\<lambda>_. retS (Some action))))))"

definition complete_prompt ::
    "'w env \<Rightarrow> 'w callbacks \<Rightarrow> send_state \<Rightarrow> fields \<Rightarrow> ('w session, pystr) eff" where
  "complete_prompt env cb st action =
     bindS (liftR (bindR (item action ''message'') (\<lambda>v. required_text v (ustr ''completion message'')))) (\<lambda>message.
     bindS (emit env (cancel_check cb) (event_callback cb) (TurnEnd message)) (\<lambda>_.
     bindS (commit_turn env) (\<lambda>_.
     bindS (finish_core_result env) (\<lambda>_.
     bindS (emit_event cb ''done'' (progress st @ [(ustr ''message'', VStr message)] @
        (if get action ''pending'' = VBool True \<or> get action ''host_generated'' = VBool True
         then [(ustr ''host_generated'', VBool True)] else []))) (\<lambda>_.
     retS message)))))"

definition guard_action :: "'w env \<Rightarrow> 'w callbacks \<Rightarrow> fields \<Rightarrow> ('w session, fields option) eff" where
  "guard_action env cb action =
     rescueS [Exception] (\<lambda>e. bindS (check_cancel cb) (\<lambda>_. retS (Some (error_result e))))
       (bindS (emit env (cancel_check cb) (event_callback cb) (BeforeTool action)) (\<lambda>h. retS (case h of
           BlockHook reason \<Rightarrow> Some [(ustr ''ok'', VBool False), (ustr ''denied'', VBool True),
             (ustr ''error'', VStr reason)]
         | _ \<Rightarrow> None)))"

text \<open>\<open>self.runtime.tools[action_name(action)]\<close>.\<close>

definition tool_of :: "'w env \<Rightarrow> 'w session \<Rightarrow> fields \<Rightarrow> tool_def result" where
  "tool_of env s action = bindR (action_name action) (\<lambda>n. case map_of (tools env s) n of
      None \<Rightarrow> raise_text KeyError n | Some t \<Rightarrow> Inr t)"

definition approval_denied :: "'w env \<Rightarrow> 'w callbacks \<Rightarrow> fields \<Rightarrow> ('w session, bool) eff" where
  "approval_denied env cb action = getS (\<lambda>s.
     bindS (liftR (tool_of env s action)) (\<lambda>t.
     if \<not> requires_approval t \<or> auto_approve env then retS False
     else case approval_callback cb of
         None \<Rightarrow> retS True
       | Some f \<Rightarrow> bindS (liftR (detached_payload action)) (\<lambda>a.
           bindS (f a) (\<lambda>v. retS (v \<noteq> VBool True)))))"

text \<open>The cancellation check handed to a tool and to the hooks after it remembers that it raised.\<close>

definition watched_cancel :: "'w callbacks \<Rightarrow> ('w session, unit) eff option" where
  "watched_cancel cb = map_option (\<lambda>c s. case c s of
      (s', Inl e) \<Rightarrow> (s'\<lparr>cancelled := True\<rparr>, Inl e) | (s', Inr _) \<Rightarrow> (s', Inr ())) (cancel_check cb)"

definition tool_event :: "'w callbacks \<Rightarrow> send_state \<Rightarrow> (string \<Rightarrow> fields \<Rightarrow> ('w session, unit) eff) option" where
  "tool_event cb st = (case event_callback cb of None \<Rightarrow> None
     | Some _ \<Rightarrow> Some (\<lambda>k payload. emit_event cb k (fold (\<lambda>(k, v). AList.update k v) payload (progress st))))"

definition execute_action ::
    "'w env \<Rightarrow> 'w callbacks \<Rightarrow> send_state \<Rightarrow> fields \<Rightarrow> ('w session, fields) eff" where
  "execute_action env cb st action =
     bindS (modS (\<lambda>s. s\<lparr>cancelled := False\<rparr>)) (\<lambda>_.
     rescueS tool_errors (\<lambda>e. getS (\<lambda>s. if cancelled s then liftR (Inl e) else retS (error_result e)))
       (bindS (execute_tool env (watched_cancel cb) (tool_event cb st) action) (\<lambda>result.
        bindS (emit env (watched_cancel cb) (event_callback cb) (AfterTool action result)) (\<lambda>_. retS result))))"

definition disabled_result :: "'w env \<Rightarrow> 'w session \<Rightarrow> pystr \<Rightarrow> fields" where
  "disabled_result env s n =
     [(ustr ''ok'', VBool False), (ustr ''denied'', VBool True),
      (ustr ''error'', VStr (ustr ''Action '' @ repr_text env n @ ustr '' is disabled for this agent. '' @
         (if core_editing s then
            ustr ''This task is inspecting the running application's source. ''
            @ ustr ''Use core_source to read it and core_update to edit it; ''
            @ ustr ''workspace tools cannot inspect the active release.''
          else ustr ''Use an enabled action instead.''))),
      (ustr ''allowed_actions'', VList (map VStr (allowed_actions env s)))]"

definition denied_result :: fields where
  "denied_result = [(ustr ''ok'', VBool False), (ustr ''denied'', VBool True),
     (ustr ''error'', VStr (ustr ''Human denied this action. Do not repeat it.''))]"

text \<open>The result of an action that the guards, the human or the tool decides.\<close>

definition decide_action ::
    "'w env \<Rightarrow> 'w callbacks \<Rightarrow> send_state \<Rightarrow> fields \<Rightarrow> ('w session, fields) eff" where
  "decide_action env cb st action =
     bindS (guard_action env cb action) (\<lambda>g. case g of
         Some result \<Rightarrow> retS result
       | None \<Rightarrow> bindS (approval_denied env cb action) (\<lambda>denied.
           if denied then retS denied_result else execute_action env cb st action))"

definition perform_action ::
    "'w env \<Rightarrow> 'w callbacks \<Rightarrow> send_state \<Rightarrow> fields \<Rightarrow> ('w session, fields option) eff" where
  "perform_action env cb st action =
     bindS (check_cancel cb) (\<lambda>_.
     bindS (liftR (action_name action)) (\<lambda>n. getS (\<lambda>s0.
     if \<not> action_allowed env s0 n
     then bindS (publish_result env cb st (Some action) (disabled_result env s0 n)) (\<lambda>_. retS None)
     else
       bindS (decide_action env cb st action) (\<lambda>result0.
       bindS (check_cancel cb) (\<lambda>_. getS (\<lambda>s1.
       let editing = (n = ustr ''core_source'' \<and> \<not> Option.is_none (bridge env s1) \<and>
             get result0 ''ok'' \<noteq> VBool False);
           s2 = (if editing then s1\<lparr>core_editing := True\<rparr> else s1);
           result = (if editing then
             AList.update (ustr ''allowed_actions'') (VList (map VStr (allowed_actions env s2)))
               (AList.update (ustr ''source_scope'') (VStr (ustr ''active_application_release'')) result0)
             else result0)
       in bindS (modS (\<lambda>_. s2)) (\<lambda>_.
          bindS (publish_result env cb st (Some action) result) (\<lambda>_. getS (\<lambda>s3.
          bindS (liftR (case map_of (tools env s3) n of None \<Rightarrow> raise_text KeyError n | Some t \<Rightarrow> Inr t)) (\<lambda>t.
          if finishes_turn t \<and> (get result ''ok'' = VBool True \<or> get result ''finish_turn'' = VBool True)
          then bindS (liftR (required_text (get result ''message'') (ustr ''tool completion''))) (\<lambda>m.
            retS (Some [(ustr ''action'', VStr (ustr ''done'')),
              (ustr ''pending'', VBool (get result ''status'' = VStr (ustr ''submitted''))),
              (ustr ''host_generated'', VBool True), (ustr ''message'', VStr m)]))
          else retS None))))))))))"

section \<open>Sending a prompt\<close>

datatype step_outcome = Finished pystr | Again messages

definition more_steps :: "int option \<Rightarrow> int \<Rightarrow> bool" where
  "more_steps limit k = (case limit of None \<Rightarrow> True | Some m \<Rightarrow> k < m)"

text \<open>The rest of an iteration: the next request, unless this was the last step.\<close>

definition next_request :: "'w env \<Rightarrow> send_state \<Rightarrow> messages \<Rightarrow> ('w session, step_outcome) eff" where
  "next_request env st request =
     (if more_steps (max_steps st) (step st)
      then bindS (request_messages env (sprompt st)) (\<lambda>r. retS (Again r))
      else retS (Again request))"

definition send_step ::
    "'w env \<Rightarrow> 'w callbacks \<Rightarrow> send_state \<Rightarrow> messages \<Rightarrow> ('w session, step_outcome) eff" where
  "send_step env cb st request =
     bindS (next_action env cb st request) (\<lambda>a. case a of
         None \<Rightarrow> next_request env st request
       | Some action \<Rightarrow>
           bindS (emit_event cb ''request'' (progress st @ [(ustr ''action'', dict_of action)])) (\<lambda>_.
           bindS (liftR (action_name action)) (\<lambda>n.
           if n = ustr ''done''
           then bindS (complete_prompt env cb st action) (\<lambda>m. retS (Finished m))
           else bindS (perform_action env cb st action) (\<lambda>c. case c of
               None \<Rightarrow> next_request env st request
             | Some completion \<Rightarrow>
                 bindS (liftR (json_dumps env True False (dict_of completion))) (\<lambda>document.
                 bindS (add_history env ''assistant'' document ''assistant'' (sprompt st) True) (\<lambda>_.
                 bindS (complete_prompt env cb st completion) (\<lambda>m. retS (Finished m))))))))"

definition exhausted_text :: "send_state \<Rightarrow> pystr" where
  "exhausted_text st = ustr ''Stopped at '' @
     (case max_steps st of None \<Rightarrow> ustr ''None'' | Some m \<Rightarrow> str_int m) @
     ustr '' model turns without a done action.''"

definition complete_exhausted ::
    "'w env \<Rightarrow> 'w callbacks \<Rightarrow> send_state \<Rightarrow> ('w session, pystr) eff" where
  "complete_exhausted env cb st =
     bindS (review_completion env [(ustr ''action'', VStr (ustr ''done'')),
         (ustr ''message'', VStr (exhausted_text st))]) (\<lambda>r. case r of
       None \<Rightarrow> liftR (raise_text RuntimeError (exhausted_text st))
     | Some completion \<Rightarrow>
         bindS (check_cancel cb) (\<lambda>_.
         bindS (liftR (bindR (item completion ''message'')
             (\<lambda>v. required_text v (ustr ''review completion'')))) (\<lambda>m.
         let full = fold (\<lambda>(k, v). AList.update (ustr k) v)
               [(''review_exhausted'', VBool True), (''stop_reason'', VStr (ustr ''review_turn_limit'')),
                (''model_turns'', VInt (step st)),
                (''message'', VStr (m @ 10 # ustr ''Automatic review stopped after '' @ str_int (step st)
                    @ ustr '' model turns. Awaiting your next instruction.''))] completion
         in bindS (liftR (json_dumps env True False (dict_of full))) (\<lambda>document.
            bindS (add_history env ''assistant'' document ''assistant'' (sprompt st) True) (\<lambda>_.
            complete_prompt env cb st full)))))"

text \<open>
  The \<open>while\<close> loop. With a step limit \<open>m\<close> it makes at most \<open>m\<close> iterations; without one it ends
  only when the model does, so it takes fuel and \<open>None\<close> means the fuel ran out.
\<close>

fun send_loop ::
    "nat \<Rightarrow> 'w env \<Rightarrow> 'w callbacks \<Rightarrow> send_state \<Rightarrow> messages \<Rightarrow> 'w session \<Rightarrow>
     ('w session \<times> pystr result) option" where
  "send_loop fuel env cb st request s =
     (if \<not> more_steps (max_steps st) (step st) then Some (complete_exhausted env cb st s)
      else case fuel of
          0 \<Rightarrow> None
        | Suc n \<Rightarrow>
            (let st' = st\<lparr>step := step st + 1\<rparr> in
             case send_step env cb st' request s of
                 (s', Inl e) \<Rightarrow> Some (s', Inl e)
               | (s', Inr (Finished m)) \<Rightarrow> Some (s', Inr m)
               | (s', Inr (Again request')) \<Rightarrow> send_loop n env cb st' request' s'))"

declare send_loop.simps [simp del]

definition core_review_steps :: int where
  "core_review_steps = 20"

definition validate_send :: "pyval \<Rightarrow> pyval \<Rightarrow> (pystr \<times> int option) result" where
  "validate_send prompt limit = (case prompt of
      VStr p \<Rightarrow>
        if blank p then raise ValueError ''Prompt must be nonempty text.''
        else if \<not> utf8_encodable p then raise ValueError ''Prompt must be valid Unicode text.''
        else (case limit of
            VNone \<Rightarrow> Inr (p, None)
          | VInt n \<Rightarrow> if n < 1 then raise ValueError ''max_steps must be None or a positive integer.''
              else Inr (p, Some n)
          | _ \<Rightarrow> raise ValueError ''max_steps must be None or a positive integer.'')
    | _ \<Rightarrow> raise ValueError ''Prompt must be nonempty text.'')"

definition step_limit :: "pystr \<Rightarrow> int option \<Rightarrow> int option" where
  "step_limit prompt limit =
     (if startswith prompt result_tag
      then Some (min (case limit of None \<Rightarrow> core_review_steps | Some m \<Rightarrow> m) core_review_steps)
      else limit)"

definition send_body ::
    "nat \<Rightarrow> 'w env \<Rightarrow> 'w callbacks \<Rightarrow> pystr \<Rightarrow> int option \<Rightarrow> 'w session \<Rightarrow> ('w session \<times> pystr result) option" where
  "send_body fuel env cb prompt limit s =
     (case bindS (modS (\<lambda>s. s\<lparr>core_review := startswith prompt result_tag\<rparr>)) (\<lambda>_.
           bindS (start_prompt env cb prompt) (\<lambda>start.
           bindS (claim_core_result env prompt) (\<lambda>_. retS start))) s of
        (s', Inl e) \<Rightarrow> Some (s', Inl e)
      | (s', Inr (n, request)) \<Rightarrow>
          send_loop fuel env cb \<lparr>sprompt = n, max_steps = limit, step = 0\<rparr> request s')"

definition send ::
    "nat \<Rightarrow> 'w env \<Rightarrow> 'w callbacks \<Rightarrow> pyval \<Rightarrow> pyval \<Rightarrow> 'w session \<Rightarrow> ('w session \<times> pystr result) option" where
  "send fuel env cb prompt limit s = (case validate_send prompt limit of
      Inl e \<Rightarrow> Some (s, Inl e)
    | Inr (p, m) \<Rightarrow> turn env (send_body fuel env cb p (step_limit p m)) s)"

section \<open>Construction\<close>

text \<open>The options whose values the constructor checks; unset ones have their defaults already.\<close>

record session_options =
  opt_auto_approve :: pyval
  opt_timeout :: pyval
  opt_context_chars :: pyval
  opt_keep_recent :: pyval
  opt_instruction_role :: pyval
  opt_protocol :: pyval
  opt_allowed :: "pyval list option"

definition validate_session_options :: "rat \<Rightarrow> pystr list \<Rightarrow> session_options \<Rightarrow> unit result" where
  "validate_session_options timeout_limit roles opts =
     (if (case opt_auto_approve opts of VBool _ \<Rightarrow> False | _ \<Rightarrow> True)
      then raise ValueError ''auto_approve must be a bool.''
      else if \<not> positive_finite timeout_limit (opt_timeout opts)
      then raise ValueError ''Command timeout must be a positive finite number.''
      else if (case (opt_context_chars opts, opt_keep_recent opts) of
          (VInt c, VInt k) \<Rightarrow> c < 1 \<or> k < 0 | _ \<Rightarrow> True)
      then raise ValueError ''Invalid context compaction settings.''
      else if (case opt_instruction_role opts of VStr r \<Rightarrow> r \<notin> set roles | _ \<Rightarrow> True)
      then raise ValueError ''Instruction role must be system, developer, or user.''
      else Inr ())"

definition allowed_option :: "pystr list \<Rightarrow> pyval list option \<Rightarrow> pystr list option result" where
  "allowed_option available names =
     (let available = ustr ''done'' # available in case names of
        None \<Rightarrow> Inr None
      | Some vs \<Rightarrow>
          if vs = [] \<or> \<not> list_all is_text vs
          then raise ValueError ''allowed_actions must contain action names.''
          else let ns = map the_text vs in
            if ustr ''done'' \<notin> set ns then raise ValueError ''allowed_actions must include done.''
            else if \<not> set ns \<subseteq> set available then raise ValueError ''Unknown allowed actions.''
            else Inr (Some ns))"

definition protocol_option :: "pystr \<Rightarrow> pyval \<Rightarrow> pystr result" where
  "protocol_option bare v = (case (if v = VNone then VStr bare else v) of
      VStr p \<Rightarrow> if blank p then raise ValueError ''Protocol must be nonempty text.'' else Inr p
    | _ \<Rightarrow> raise ValueError ''Protocol must be nonempty text.'')"

text \<open>
  \<open>__init__\<close> after its options are known: a session with an empty history, its start hooks, then
  the stored conversation. \<open>taken\<close> says whether the plugin host already has a session.
\<close>

definition create_session ::
    "rat \<Rightarrow> pystr list \<Rightarrow> pystr \<Rightarrow> session_options \<Rightarrow> bool \<Rightarrow> pystr list \<Rightarrow> 'w env \<Rightarrow> fields \<Rightarrow> store option
     \<Rightarrow> 'w \<Rightarrow> ('w env \<times> 'w session) result" where
  "create_session timeout_limit roles bare opts taken names env state st w =
     bindR (validate_session_options timeout_limit roles opts) (\<lambda>_.
     bindR (if taken then raise ValueError ''A plugin runtime belongs to one session.'' else Inr ()) (\<lambda>_.
     bindR (protocol_option bare (opt_protocol opts)) (\<lambda>p.
     bindR (allowed_option names (opt_allowed opts)) (\<lambda>allowed.
     let env' = env\<lparr>protocol_text := p, allowed_names := allowed,
           auto_approve := (opt_auto_approve opts = VBool True),
           context_chars := (case opt_context_chars opts of VInt c \<Rightarrow> c | _ \<Rightarrow> 0),
           instruction_role := the_text (opt_instruction_role opts)\<rparr>;
         s0 = \<lparr>hist = [], next_prompt = 1, sending = False, turn_open = False, core_review = False,
               core_editing = False, core_result = [], pstate = state, rollback = None,
               checkpoint_owners = {}, sstore = st, cancelled = False, world = w\<rparr>
     in case bindS (emit env' None None SessionStart) (\<lambda>_.
            if st = None then retS () else restore_stored env') s0 of
          (s, Inl e) \<Rightarrow> Inl e
        | (s, Inr _) \<Rightarrow> Inr (env', s)))))"

end
