(* ===== verification/Session_Turn.thy ===== *)
theory Session_Turn
  imports Session_Kernel
begin

text \<open>
  Why a turn of \<open>raychat/session.py\<close> is a transaction. The plugin host, the model and the
  callbacks are arbitrary, but reach the session only through its interface: they change their
  own state and the namespaced plugin state, and they call \<open>checkpoint\<close> (\<open>host_step\<close>).
  \<open>open_turn\<close> is what holds while a turn may still roll back, \<open>rest\<close> what holds once it has
  committed or rolled back; the journal's branch follows the history in both.
\<close>

section \<open>What the host may do\<close>

inductive host_step :: "'w env \<Rightarrow> 'w session \<Rightarrow> 'w session \<Rightarrow> bool" for env where
  host_world: "host_step env s (s\<lparr>world := w\<rparr>)"
| host_state: "json_text (dict_of st) \<Longrightarrow> host_step env s (s\<lparr>pstate := st\<rparr>)"
| host_cancelled: "host_step env s (s\<lparr>cancelled := True\<rparr>)"
| host_checkpoint: "host_step env s (fst (checkpoint_owner env owner s))"

inductive_cases host_stepE: "host_step env s s'"

definition hosted :: "'w env \<Rightarrow> ('w session, 'a) eff \<Rightarrow> bool" where
  "hosted env m \<longleftrightarrow> (\<forall>s. (host_step env)\<^sup>*\<^sup>* s (fst (m s)))"

definition callbacks_ok :: "'w env \<Rightarrow> 'w callbacks \<Rightarrow> bool" where
  "callbacks_ok env cb \<longleftrightarrow>
     (\<forall>f k d. event_callback cb = Some f \<longrightarrow> hosted env (f k d)) \<and>
     (\<forall>f a. approval_callback cb = Some f \<longrightarrow> hosted env (f a)) \<and>
     (\<forall>c. cancel_check cb = Some c \<longrightarrow> hosted env c)"

definition env_ok :: "'w env \<Rightarrow> bool" where
  "env_ok env \<longleftrightarrow> settings_ok (storage_cfg env) \<and> supplies_ok (storage_cfg env) (uuids env) (clocks env)"

definition host_ok :: "'w env \<Rightarrow> bool" where
  "host_ok env \<longleftrightarrow> env_ok env \<and>
     (\<forall>c f ev. (\<forall>m. c = Some m \<longrightarrow> hosted env m) \<longrightarrow> (\<forall>g k d. f = Some g \<longrightarrow> hosted env (g k d)) \<longrightarrow>
        hosted env (emit env c f ev)) \<and>
     (\<forall>c f a. (\<forall>m. c = Some m \<longrightarrow> hosted env m) \<longrightarrow> (\<forall>g k d. f = Some g \<longrightarrow> hosted env (g k d)) \<longrightarrow>
        hosted env (execute_tool env c f a)) \<and>
     (\<forall>ms. hosted env (chat env ms)) \<and>
     (\<forall>s p. policy env s = Some p \<longrightarrow> (\<forall>n. hosted env (build_messages p n)) \<and>
        (\<forall>t. hosted env (select_instruction p t))) \<and>
     hosted env (contributions env) \<and>
     (\<forall>s b i. bridge env s = Some b \<longrightarrow> hosted env (claim_result b i) \<and> hosted env (finish_result b i)) \<and>
     (\<forall>s b fs. bridge env s = Some b \<longrightarrow> hosted env (review_outcome b fs)) \<and>
     (\<forall>f m. write_log env = Some f \<longrightarrow> hosted env (f m)) \<and>
     hosted env (begin_operation env) \<and> (\<forall>b. hosted env (finish_operation env b))"

lemma host_okD:
  "host_ok env \<Longrightarrow> (\<And>m. c = Some m \<Longrightarrow> hosted env m) \<Longrightarrow> (\<And>g k d. f = Some g \<Longrightarrow> hosted env (g k d)) \<Longrightarrow>
     hosted env (emit env c f ev)"
  "host_ok env \<Longrightarrow> (\<And>m. c = Some m \<Longrightarrow> hosted env m) \<Longrightarrow> (\<And>g k d. f = Some g \<Longrightarrow> hosted env (g k d)) \<Longrightarrow>
     hosted env (execute_tool env c f a)"
  "host_ok env \<Longrightarrow> hosted env (chat env ms)"
  "host_ok env \<Longrightarrow> policy env s = Some p \<Longrightarrow> hosted env (build_messages p n)"
  "host_ok env \<Longrightarrow> policy env s = Some p \<Longrightarrow> hosted env (select_instruction p t)"
  "host_ok env \<Longrightarrow> hosted env (contributions env)"
  "host_ok env \<Longrightarrow> bridge env s = Some b \<Longrightarrow> hosted env (claim_result b i)"
  "host_ok env \<Longrightarrow> bridge env s = Some b \<Longrightarrow> hosted env (finish_result b i)"
  "host_ok env \<Longrightarrow> bridge env s = Some b \<Longrightarrow> hosted env (review_outcome b fs)"
  "host_ok env \<Longrightarrow> write_log env = Some w \<Longrightarrow> hosted env (w m)"
  "host_ok env \<Longrightarrow> hosted env (begin_operation env)"
  "host_ok env \<Longrightarrow> hosted env (finish_operation env ok)"
  "host_ok env \<Longrightarrow> env_ok env"
  unfolding host_ok_def by (simp_all del: split_paired_All)

lemma hosted_emit:
  "host_ok env \<Longrightarrow> hosted env (emit env None None ev)"
  "host_ok env \<Longrightarrow> callbacks_ok env cb \<Longrightarrow> hosted env (emit env (cancel_check cb) (event_callback cb) ev)"
  by (rule host_okD(1); simp add: callbacks_ok_def)+

text \<open>The cancellation check that remembers its raise is hosted as well.\<close>

lemma hosted_watched:
  assumes cb: "callbacks_ok env cb" and w: "watched_cancel cb = Some m"
  shows "hosted env m"
proof -
  from w obtain c where c: "cancel_check cb = Some c" and m: "m = (\<lambda>s. case c s of
      (s', Inl e) \<Rightarrow> (s'\<lparr>cancelled := True\<rparr>, Inl e) | (s', Inr _) \<Rightarrow> (s', Inr ()))"
    by (auto simp: watched_cancel_def)
  have h: "(host_step env)\<^sup>*\<^sup>* s (fst (c s))" for s
    using cb c by (auto simp: callbacks_ok_def hosted_def)
  show ?thesis
    unfolding hosted_def
  proof
    fix s
    show "(host_step env)\<^sup>*\<^sup>* s (fst (m s))"
      using h [of s] rtranclp.rtrancl_into_rtrancl [OF h host_cancelled, of s]
      by (auto simp: m split: prod.splits sum.splits)
  qed
qed

definition host_closed :: "'w env \<Rightarrow> ('w session \<Rightarrow> bool) \<Rightarrow> bool" where
  "host_closed env I \<longleftrightarrow> (\<forall>s s'. host_step env s s' \<longrightarrow> I s \<longrightarrow> I s')"

lemma host_closed_star: "(host_step env)\<^sup>*\<^sup>* s s' \<Longrightarrow> host_closed env I \<Longrightarrow> I s \<Longrightarrow> I s'"
  by (induction rule: rtranclp_induct) (auto simp: host_closed_def)

lemma keeps_hosted: "host_closed env I \<Longrightarrow> hosted env m \<Longrightarrow> keeps I m"
  by (auto simp: keeps_def hosted_def intro: host_closed_star)

section \<open>The journal follows the history\<close>

text \<open>A store that promises nothing more: a write failed, or the identifiers ran out.\<close>

definition spent :: "'w env \<Rightarrow> store \<Rightarrow> bool" where
  "spent env st \<longleftrightarrow> failed st \<or> id_space (storage_cfg env) \<le> serial st"

lemma spent_stays:
  "spent env st \<Longrightarrow> stream_open st \<Longrightarrow> spent env (fst (append_record uuid clock k d st))"
  "spent env st \<Longrightarrow> stream_open st \<Longrightarrow> spent env (fst (commit uuid clock state st))"
  "spent env st \<Longrightarrow> stream_open st \<Longrightarrow> spent env (fst (checkpoint uuid clock state st))"
proof -
  show "spent env st \<Longrightarrow> stream_open st \<Longrightarrow> spent env (fst (append_record uuid clock k d st))"
    using append_failed [of st uuid clock k d] alive_serial [OF keeps_alive_append, of st uuid clock k d]
    by (auto simp: spent_def)
  show "spent env st \<Longrightarrow> stream_open st \<Longrightarrow> spent env (fst (commit uuid clock state st))"
    using ops_failed(1) [of st uuid clock state] alive_serial [OF keeps_alive_ops(1), of st uuid clock state]
    by (auto simp: spent_def)
  show "spent env st \<Longrightarrow> stream_open st \<Longrightarrow> spent env (fst (checkpoint uuid clock state st))"
    using ops_failed(2) [of st uuid clock state] alive_serial [OF keeps_alive_ops(2), of st uuid clock state]
    by (auto simp: spent_def)
qed

definition store_linked ::
    "'w env \<Rightarrow> bool \<Rightarrow> message list \<Rightarrow> message list \<Rightarrow> 'w session \<Rightarrow> bool" where
  "store_linked env settled h hc s \<longleftrightarrow> (case sstore s of None \<Rightarrow> True | Some st \<Rightarrow>
     stream_open st \<and> (spent env st \<or>
       store_ok (storage_cfg env) (uuids env) st \<and>
       (settled \<longrightarrow> head st = committed st) \<and>
       branch_history (entries st) (head st) = map message_fields h \<and>
       branch_history (entries st) (committed st) = map message_fields hc))"

lemma store_linked_cong: "sstore s = sstore s' \<Longrightarrow> store_linked env b h hc s = store_linked env b h hc s'"
  by (simp add: store_linked_def)

lemma checkpoint_linked:
  assumes env: "env_ok env" and js: "json_text (dict_of state)" and l: "store_linked env b h hc s"
  shows "store_linked env b h hc (fst (on_store (checkpoint (uuids env) (clocks env) state) s))"
proof (cases "sstore s")
  case None
  with l show ?thesis by (simp add: on_store_def)
next
  case (Some st)
  obtain st' r where c: "checkpoint (uuids env) (clocks env) state st = (st', r)"
    by (cases "checkpoint (uuids env) (clocks env) state st")
  have f: "sstore (fst (on_store (checkpoint (uuids env) (clocks env) state) s)) = Some st'"
    by (cases r) (simp_all add: on_store_def Some c)
  from l Some have op: "stream_open st" by (simp add: store_linked_def)
  show ?thesis
  proof (cases "spent env st")
    case True
    then have "spent env st'" "stream_open st'"
      using spent_stays(3) [OF True op, of "uuids env" "clocks env" state]
        keepsD [OF keeps_open_ops(2) op, of "uuids env" "clocks env" state] c by simp_all
    then show ?thesis using f by (simp add: store_linked_def)
  next
    case False
    with l Some have ok: "store_ok (storage_cfg env) (uuids env) st" by (simp add: store_linked_def)
    have e: "settings_ok (storage_cfg env)" "supply_ready (storage_cfg env) (uuids env) (clocks env) st"
      using env False by (simp_all add: env_ok_def spent_def supply_ready_def)
    show ?thesis
    proof (cases r)
      case (Inl x)
      then have "failed st'"
        using checkpoint_outcome [OF ok op e(2) e(1) js] c
        by (simp add: durable_outcome_def)
      moreover have "stream_open st'"
        using keepsD [OF keeps_open_ops(2) op, of "uuids env" "clocks env" state] c by simp
      ultimately show ?thesis using f by (simp add: store_linked_def spent_def)
    next
      case (Inr u)
      then have c': "checkpoint (uuids env) (clocks env) state st = (st', Inr ())" using c by simp
      note cb = checkpoint_branch [OF ok op e(2) e(1) js c']
      show ?thesis
        using cb snapshot_branch [OF cb [THEN conjunct2, THEN conjunct2, THEN conjunct2, THEN conjunct2]]
          l Some False f by (simp add: store_linked_def)
    qed
  qed
qed

section \<open>Open turns\<close>

definition state_json :: "fields \<Rightarrow> bool" where
  "state_json st \<longleftrightarrow> json_text (dict_of st)"

definition open_turn :: "'w env \<Rightarrow> message list \<Rightarrow> fields \<Rightarrow> 'w session \<Rightarrow> bool" where
  "open_turn env h0 st0 s \<longleftrightarrow> sending s \<and> (\<exists>ms. hist s = h0 @ ms) \<and> state_json (pstate s) \<and>
     (\<exists>rb. rollback s = Some rb \<and> state_json rb \<and>
        (\<forall>i. i \<notin> checkpoint_owners s \<longrightarrow> map_of rb i = map_of st0 i)) \<and>
     store_linked env False (hist s) h0 s"

definition rest :: "'w env \<Rightarrow> message list \<Rightarrow> 'w session \<Rightarrow> bool" where
  "rest env h s \<longleftrightarrow> rollback s = None \<and> \<not> turn_open s \<and> hist s = h \<and> state_json (pstate s) \<and>
     store_linked env True h h s"

definition idle :: "'w session \<Rightarrow> bool" where
  "idle s \<longleftrightarrow> \<not> sending s \<and> \<not> core_review s \<and> \<not> core_editing s \<and> core_result s = [] \<and>
     checkpoint_owners s = {}"

lemma state_json_iff: "state_json st \<longleftrightarrow> (\<forall>(k, v)\<in>set st. utf8_encodable k \<and> json_text v)"
  by (auto simp: state_json_def json_text_dict_of list_all_iff)

lemma state_json_update: "state_json st \<Longrightarrow> utf8_encodable k \<Longrightarrow> json_text v \<Longrightarrow> state_json (AList.update k v st)"
  by (induction st) (auto simp: state_json_iff)

lemma state_json_delete: "state_json st \<Longrightarrow> state_json (AList.delete k st)"
  by (auto simp: state_json_iff AList.delete_eq)

lemma checkpoint_state_json:
  assumes p: "state_json (pstate s)" and r: "\<And>rb. rollback s = Some rb \<Longrightarrow> state_json rb"
  shows "state_json (checkpoint_state owner s)"
proof -
  have "state_json (case rollback s of None \<Rightarrow> pstate s | Some r \<Rightarrow> r)"
    using p r by (cases "rollback s") simp_all
  moreover have "utf8_encodable owner \<and> json_text v" if "map_of (pstate s) owner = Some v" for v
    using p map_of_SomeD [OF that] by (auto simp: state_json_iff)
  ultimately show ?thesis
    by (cases "map_of (pstate s) owner") (auto simp: checkpoint_state_def Let_def state_json_delete state_json_update)
qed

lemma on_store_frame: "fst (on_store f s) = s\<lparr>sstore := sstore (fst (on_store f s))\<rparr>"
  by (cases "sstore s") (auto simp: on_store_def split: prod.splits sum.splits)

text \<open>What a checkpoint does, with the store's part left as \<open>t\<close>.\<close>

lemma checkpoint_owner_cases:
  obtains (refused) t e where "checkpoint_owner env owner s = (s\<lparr>sstore := t\<rparr>, Inl e)"
      "t = sstore (fst (on_store (checkpoint (uuids env) (clocks env) (checkpoint_state owner s)) s))"
  | (saved) t where "checkpoint_owner env owner s =
        (if rollback s = None then s\<lparr>sstore := t\<rparr>
         else s\<lparr>sstore := t, rollback := Some (checkpoint_state owner s),
           checkpoint_owners := insert owner (checkpoint_owners s)\<rparr>, Inr ())"
      "t = sstore (fst (on_store (checkpoint (uuids env) (clocks env) (checkpoint_state owner s)) s))"
proof -
  let ?f = "on_store (checkpoint (uuids env) (clocks env) (checkpoint_state owner s))"
  obtain s1 r where f: "?f s = (s1, r)" by (cases "?f s")
  have s1: "s1 = s\<lparr>sstore := sstore s1\<rparr>"
    using on_store_frame [of "checkpoint (uuids env) (clocks env) (checkpoint_state owner s)" s] f by simp
  show ?thesis
  proof (cases r)
    case (Inl e)
    with f s1 show ?thesis
      by (intro refused [of "sstore s1" e]) (simp_all add: checkpoint_owner_def bindS_def)
  next
    case (Inr u)
    have "rollback s1 = rollback s" "checkpoint_owners s1 = checkpoint_owners s"
      by (subst s1, simp)+
    with Inr f s1 show ?thesis
      by (intro saved [of "sstore s1"]) (simp_all add: checkpoint_owner_def bindS_def Let_def)
  qed
qed

lemma checkpoint_state_other:
  "i \<noteq> owner \<Longrightarrow> map_of (checkpoint_state owner s) i =
     map_of (case rollback s of None \<Rightarrow> pstate s | Some r \<Rightarrow> r) i"
  by (simp add: checkpoint_state_def Let_def split: option.splits)

lemma checkpoint_state_owner [simp]:
  "map_of (checkpoint_state owner s) owner = map_of (pstate s) owner"
  by (simp add: checkpoint_state_def Let_def split: option.splits)

lemma checkpoint_open:
  assumes env: "env_ok env" and o: "open_turn env h0 st0 s"
  shows "open_turn env h0 st0 (fst (checkpoint_owner env owner s))"
proof -
  from o obtain rb where rb: "rollback s = Some rb" "state_json rb"
      "\<And>i. i \<notin> checkpoint_owners s \<Longrightarrow> map_of rb i = map_of st0 i"
    by (auto simp: open_turn_def)
  have js: "state_json (checkpoint_state owner s)"
    using o rb by (intro checkpoint_state_json) (auto simp: open_turn_def)
  let ?t = "sstore (fst (on_store (checkpoint (uuids env) (clocks env) (checkpoint_state owner s)) s))"
  have l: "store_linked env False (hist s) h0 (s\<lparr>sstore := ?t\<rparr>)"
    using checkpoint_linked [OF env js [unfolded state_json_def], of False "hist s" h0 s] o
    by (simp add: open_turn_def store_linked_def)
  show ?thesis
  proof (cases rule: checkpoint_owner_cases [of env owner s])
    case (refused t e)
    with o l show ?thesis by (simp add: open_turn_def)
  next
    case (saved t)
    have "map_of (checkpoint_state owner s) i = map_of st0 i" if "i \<noteq> owner" "i \<notin> checkpoint_owners s" for i
      using that rb by (simp add: checkpoint_state_other)
    with saved o l js rb show ?thesis
      by (auto simp: open_turn_def store_linked_def)
  qed
qed

lemma checkpoint_rest:
  assumes env: "env_ok env" and r: "rest env h s"
  shows "rest env h (fst (checkpoint_owner env owner s))"
proof -
  have js: "state_json (checkpoint_state owner s)"
    using r by (intro checkpoint_state_json) (auto simp: rest_def)
  let ?t = "sstore (fst (on_store (checkpoint (uuids env) (clocks env) (checkpoint_state owner s)) s))"
  have "store_linked env True h h (s\<lparr>sstore := ?t\<rparr>)"
    using checkpoint_linked [OF env js [unfolded state_json_def], of True h h s] r
    by (simp add: rest_def store_linked_def)
  with r show ?thesis
    by (cases rule: checkpoint_owner_cases [of env owner s]) (simp_all add: rest_def)
qed

lemma checkpoint_frame:
  "idle s \<Longrightarrow> rollback s = None \<Longrightarrow> idle (fst (checkpoint_owner env owner s))"
  "rollback s = None \<Longrightarrow> checkpoint_owners (fst (checkpoint_owner env owner s)) = checkpoint_owners s"
  "sending (fst (checkpoint_owner env owner s)) = sending s"
  "next_prompt (fst (checkpoint_owner env owner s)) = next_prompt s"
  "hist (fst (checkpoint_owner env owner s)) = hist s"
  by (cases rule: checkpoint_owner_cases [of env owner s]; simp add: idle_def)+

lemma closed_open_turn: "env_ok env \<Longrightarrow> host_closed env (open_turn env h0 st0)"
  unfolding host_closed_def
  by (auto elim!: host_stepE intro: checkpoint_open) (auto simp: open_turn_def state_json_def store_linked_def)

lemma closed_rest: "env_ok env \<Longrightarrow> host_closed env (rest env h)"
  unfolding host_closed_def
  by (auto elim!: host_stepE intro: checkpoint_rest) (auto simp: rest_def state_json_def store_linked_def)

lemma rest_rollback: "rest env h s \<Longrightarrow> rollback s = None"
  by (simp add: rest_def)

lemma closed_rest_idle: "env_ok env \<Longrightarrow> host_closed env (\<lambda>s. rest env h s \<and> idle s)"
  unfolding host_closed_def
  by (auto elim!: host_stepE intro: checkpoint_rest checkpoint_frame dest: rest_rollback)
     (auto simp: rest_def idle_def state_json_def store_linked_def)

lemma closed_rest_sending: "env_ok env \<Longrightarrow> host_closed env (\<lambda>s. rest env h s \<and> sending s)"
  unfolding host_closed_def
  by (auto elim!: host_stepE intro: checkpoint_rest simp: checkpoint_frame)
     (auto simp: rest_def state_json_def store_linked_def)

section \<open>Appending to the journal\<close>

lemma message_ok_session: "session_message r c k n = Inr m \<Longrightarrow> message_ok m"
  by (auto simp: session_message_def message_ok_def raise_def split: if_splits)

lemma append_linked:
  assumes env: "env_ok env" and l: "store_linked env False h hc s"
    and k: "k = ''turn_start'' \<and> d = [(ustr ''prompt_id'', VInt n)] \<and> h' = h \<or>
      k = ''message'' \<and> d = message_fields m \<and> message_ok m \<and> h' = h @ [m]"
  shows "store_linked env False h' hc (fst (on_store (append_record (uuids env) (clocks env) k d) s))"
proof (cases "sstore s")
  case None
  with l show ?thesis by (simp add: on_store_def store_linked_def)
next
  case (Some st)
  let ?a = "append_record (uuids env) (clocks env) k d st"
  obtain st' r where a: "?a = (st', r)" by (cases ?a)
  have f: "sstore (fst (on_store (append_record (uuids env) (clocks env) k d) s)) = Some st'"
    by (cases r) (simp_all add: on_store_def Some a)
  from l Some have op: "stream_open st" by (simp add: store_linked_def)
  then have op': "stream_open st'"
    using keepsD [OF keeps_open_append op, of "uuids env" "clocks env" k d] a by simp
  show ?thesis
  proof (cases "spent env st")
    case True
    then have "spent env st'" using spent_stays(1) [OF True op, of "uuids env" "clocks env" k d] a by simp
    then show ?thesis using f op' by (simp add: store_linked_def)
  next
    case False
    with l Some have ok: "store_ok (storage_cfg env) (uuids env) st" by (simp add: store_linked_def)
    have e: "settings_ok (storage_cfg env)" "supply_ready (storage_cfg env) (uuids env) (clocks env) st"
      using env False by (simp_all add: env_ok_def spent_def supply_ready_def)
    let ?x = "map message_fields (drop (length h) h')"
    have "pending_outcome (storage_cfg env) (uuids env) st ?x ?a"
      using k env message_ok_facts [of m] json_text_prompt [of n]
      by (intro append_outcome [OF ok op e(2) e(1)]) auto
    note out = this [unfolded a pending_outcome_def]
    show ?thesis
    proof (cases r)
      case (Inl e)
      with out f op' show ?thesis by (simp add: store_linked_def spent_def)
    next
      case (Inr u)
      with out have o: "store_ok (storage_cfg env) (uuids env) st'" "snapshot None st' = snapshot None st"
        "branch_history (entries st') (head st') = branch_history (entries st) (head st) @ ?x" by simp_all
      have "branch_history (entries st') (committed st') = branch_history (entries st) (committed st)"
        using snapshot_total [OF ok] snapshot_total [OF o(1)] o(2) by auto
      moreover have "map message_fields h @ ?x = map message_fields h'" using k by auto
      ultimately show ?thesis
        using o op' f l Some False by (simp add: store_linked_def)
    qed
  qed
qed

lemma open_turn_append:
  assumes env: "env_ok env" and o: "open_turn env h0 st0 s"
    and k: "k = ''turn_start'' \<and> d = [(ustr ''prompt_id'', VInt n)] \<and> h' = hist s \<or>
      k = ''message'' \<and> d = message_fields m \<and> message_ok m \<and> h' = hist s @ [m]"
  shows "open_turn env h0 st0 (fst (on_store (append_record (uuids env) (clocks env) k d) (s\<lparr>hist := h'\<rparr>)))"
proof -
  let ?f = "on_store (append_record (uuids env) (clocks env) k d)"
  have ms: "\<exists>ms. h' = h0 @ ms" using o k by (auto simp: open_turn_def)
  have "store_linked env False (hist s) h0 (s\<lparr>hist := h'\<rparr>)" using o by (simp add: open_turn_def store_linked_def)
  from append_linked [OF env this k] have "store_linked env False h' h0 (fst (?f (s\<lparr>hist := h'\<rparr>)))" .
  moreover obtain t where t: "fst (?f (s\<lparr>hist := h'\<rparr>)) = s\<lparr>hist := h', sstore := t\<rparr>"
    using on_store_frame [of "append_record (uuids env) (clocks env) k d" "s\<lparr>hist := h'\<rparr>"] by simp
  ultimately have l: "store_linked env False h' h0 (s\<lparr>hist := h', sstore := t\<rparr>)" by simp
  show ?thesis
    unfolding t using o ms l by (simp add: open_turn_def)
qed

section \<open>What every operation of a turn keeps\<close>

definition entry_ok :: "string \<Rightarrow> fields \<Rightarrow> message list \<Rightarrow> message list \<Rightarrow> bool" where
  "entry_ok k d h h' \<longleftrightarrow>
     (\<exists>n. k = ''turn_start'' \<and> d = [(ustr ''prompt_id'', VInt n)] \<and> h' = h) \<or>
     (\<exists>m. k = ''message'' \<and> d = message_fields m \<and> message_ok m \<and> h' = h @ [m])"

text \<open>
  An invariant of the operations a turn runs before it completes: whatever the host does, each
  flag the kernel sets and each record it appends keeps it.
\<close>

locale turn_invariant =
  fixes env :: "'w env" and cb :: "'w callbacks" and I :: "'w session \<Rightarrow> bool"
  assumes hosts: "I s \<Longrightarrow> host_ok env \<and> callbacks_ok env cb"
    and host: "host_step env s s' \<Longrightarrow> I s \<Longrightarrow> I s'"
    and flags: "I s \<Longrightarrow> I (s\<lparr>core_review := b, core_editing := c, core_result := i, cancelled := d\<rparr>)"
    and started: "I s \<Longrightarrow> I (s\<lparr>next_prompt := n, turn_open := True\<rparr>)"
    and appended: "entry_ok k x (hist s) h' \<Longrightarrow> I s \<Longrightarrow>
      I (fst (on_store (append_record (uuids env) (clocks env) k x) (s\<lparr>hist := h'\<rparr>)))"
begin

lemma keeps_when: "(host_ok env \<Longrightarrow> callbacks_ok env cb \<Longrightarrow> keeps I m) \<Longrightarrow> keeps I m"
  unfolding keeps_def using hosts by blast

lemma keeps_host: "(host_ok env \<Longrightarrow> callbacks_ok env cb \<Longrightarrow> hosted env m) \<Longrightarrow> keeps I m"
  by (rule keeps_when) (rule keeps_hosted, auto simp: host_closed_def intro: host)

lemma keeps_flags:
  "keeps I (modS (\<lambda>s. s\<lparr>core_review := b\<rparr>))" "keeps I (modS (\<lambda>s. s\<lparr>core_result := i\<rparr>))"
  "keeps I (modS (\<lambda>s. s\<lparr>cancelled := d\<rparr>))" "I s \<Longrightarrow> I (s\<lparr>core_editing := c\<rparr>)"
proof -
  show "keeps I (modS (\<lambda>s. s\<lparr>core_review := b\<rparr>))"
  proof (rule keeps_mod)
    fix s assume "I s"
    from flags [OF this, where b = b and c = "core_editing s" and i = "core_result s" and d = "cancelled s"] show "I (s\<lparr>core_review := b\<rparr>)" by simp
  qed
  show "keeps I (modS (\<lambda>s. s\<lparr>core_result := i\<rparr>))"
  proof (rule keeps_mod)
    fix s assume "I s"
    from flags [OF this, where b = "core_review s" and c = "core_editing s" and i = i and d = "cancelled s"] show "I (s\<lparr>core_result := i\<rparr>)" by simp
  qed
  show "keeps I (modS (\<lambda>s. s\<lparr>cancelled := d\<rparr>))"
  proof (rule keeps_mod)
    fix s assume "I s"
    from flags [OF this, where b = "core_review s" and c = "core_editing s" and i = "core_result s" and d = d] show "I (s\<lparr>cancelled := d\<rparr>)" by simp
  qed
  assume "I s"
  from flags [OF this, where b = "core_review s" and c = c and i = "core_result s" and d = "cancelled s"] show "I (s\<lparr>core_editing := c\<rparr>)" by simp
qed

lemma keeps_emit:
  "keeps I (emit env None None ev)" "keeps I (emit env (cancel_check cb) (event_callback cb) ev)"
  "keeps I (emit env (watched_cancel cb) (event_callback cb) ev)"
  by (rule keeps_host; rule host_okD(1); auto simp: callbacks_ok_def intro: hosted_watched)+

lemma keeps_cancel: "keeps I (check_cancel cb)"
  unfolding check_cancel_def by (intro keeps_rules keeps_host) (simp add: callbacks_ok_def)

lemma keeps_event: "keeps I (emit_event cb k d)"
  unfolding emit_event_def by (intro keeps_rules keeps_host) (simp add: callbacks_ok_def)

lemma keeps_log: "keeps I (write_log_line env m)"
  unfolding write_log_line_def by (intro keeps_rules keeps_host) (auto dest: host_okD)

lemma keeps_turn_start:
  "keeps I (on_store (append_record (uuids env) (clocks env) ''turn_start'' [(ustr ''prompt_id'', VInt n)]))"
proof (rule keepsI)
  fix s assume "I s"
  from appended [OF _ this, of "''turn_start''" "[(ustr ''prompt_id'', VInt n)]" "hist s"]
  show "I (fst (on_store (append_record (uuids env) (clocks env) ''turn_start'' [(ustr ''prompt_id'', VInt n)]) s))"
    by (simp add: entry_ok_def)
qed

lemma keeps_history: "keeps I (add_history env r c k n logged)"
proof (rule keepsI)
  fix s assume i: "I s"
  show "I (fst (add_history env r c k n logged s))"
  proof (cases "session_message (ustr r) c (ustr k) n")
    case (Inl e)
    with i show ?thesis by (simp add: add_history_def)
  next
    case (Inr m)
    let ?f = "on_store (append_record (uuids env) (clocks env) ''message'' (message_fields m))"
    have a: "I (fst (?f (s\<lparr>hist := hist s @ [m]\<rparr>)))"
      by (rule appended [OF _ i]) (use message_ok_session [OF Inr] in \<open>simp add: entry_ok_def\<close>)
    have l: "keeps I (if logged then write_log_line env (as_message m) else retS ())"
      by (intro keeps_rules keeps_log)
    show ?thesis
      using a keepsD [OF l]
      by (cases "?f (s\<lparr>hist := hist s @ [m]\<rparr>)"; cases "snd (?f (s\<lparr>hist := hist s @ [m]\<rparr>))")
         (auto simp: add_history_def Inr bindS_def)
  qed
qed

lemma keeps_request: "keeps I (request_messages env n)"
proof -
  have "keeps I (contributions env)" by (rule keeps_host) (auto dest: host_okD)
  then have d: "keeps I (default_messages env)"
    unfolding default_messages_def by (intro keeps_rules)
  have b: "policy env s = Some p \<Longrightarrow> keeps I (build_messages p n)" for s p
    by (rule keeps_host) (auto dest: host_okD)
  show ?thesis
    unfolding request_messages_def by (intro keeps_rules keeps_emit d) (rule b)
qed

lemma keeps_claim: "keeps I (claim_core_result env p)"
  unfolding claim_core_result_def
  by (intro keeps_rules keeps_flags keeps_host) (auto dest: host_okD)

lemma keeps_review: "keeps I (review_completion env a)"
  unfolding review_completion_def
  by (intro keeps_rules keeps_host) (auto dest: host_okD)

lemma keeps_start: "keeps I (start_prompt env cb p)"
  unfolding start_prompt_def
  by (intro keeps_rules keeps_cancel keeps_turn_start keeps_emit keeps_history keeps_request keeps_log
      keeps_mod started)

lemma keeps_publish: "keeps I (publish_result env cb st a r)"
  unfolding publish_result_def by (intro keeps_rules keeps_event keeps_history)

lemma keeps_reject: "keeps I (reject_reply env cb st reply a e)"
  unfolding reject_reply_def by (intro keeps_rules keeps_history keeps_publish)

lemma keeps_validate: "keeps I (validate_action env a)"
  unfolding validate_action_def by (intro keeps_rules)

lemma keeps_next_action: "keeps I (next_action env cb st request)"
proof -
  have "keeps I (chat env request)" by (rule keeps_host) (auto dest: host_okD)
  then show ?thesis
    unfolding next_action_def
    by (intro keeps_rules keeps_cancel keeps_reject keeps_validate keeps_review keeps_history)
qed

lemma keeps_execute: "keeps I (execute_action env cb st a)"
proof -
  have w: "\<forall>m. watched_cancel cb = Some m \<longrightarrow> hosted env m" if cb: "callbacks_ok env cb"
    using hosted_watched [OF cb] by blast
  have e: "\<forall>g k d. tool_event cb st = Some g \<longrightarrow> hosted env (g k d)" if cb: "callbacks_ok env cb"
  proof (intro allI impI)
    fix g k d assume "tool_event cb st = Some g"
    then obtain f where f: "event_callback cb = Some f"
      and g: "g = (\<lambda>k payload. emit_event cb k (fold (\<lambda>(k, v). AList.update k v) payload (progress st)))"
      by (auto simp: tool_event_def split: option.splits)
    have "(host_step env)\<^sup>*\<^sup>* s (fst (f k x s))" for x s
      using cb f by (auto simp: callbacks_ok_def hosted_def)
    then show "hosted env (g k d)"
      by (auto simp: hosted_def g emit_event_def f bindS_def split: sum.splits)
  qed
  have "keeps I (execute_tool env (watched_cancel cb) (tool_event cb st) a)"
    by (rule keeps_host) (use w e in \<open>auto intro: host_okD(2)\<close>)
  then show ?thesis
    unfolding execute_action_def by (intro keeps_rules keeps_flags keeps_emit)
qed

lemma keeps_decide: "keeps I (decide_action env cb st a)"
proof -
  have "keeps I (guard_action env cb a)"
    unfolding guard_action_def by (intro keeps_rules keeps_cancel keeps_emit)
  moreover have "keeps I (approval_denied env cb a)"
    unfolding approval_denied_def by (intro keeps_rules keeps_host) (auto simp: callbacks_ok_def)
  ultimately show ?thesis
    unfolding decide_action_def by (intro keeps_rules keeps_execute)
qed

lemma keeps_perform: "keeps I (perform_action env cb st a)"
  unfolding perform_action_def Let_def
  by (intro keeps_rules keeps_cancel keeps_publish keeps_decide keeps_mod) (simp add: keeps_flags)

lemma keeps_next_request: "keeps I (next_request env st r)"
  unfolding next_request_def by (intro keeps_rules keeps_request)

end

text \<open>The invariant of an uncommitted turn, and that of well-formed history.\<close>

lemma open_turn_flags:
  "open_turn env h0 st0 s \<Longrightarrow>
     open_turn env h0 st0 (s\<lparr>core_review := b, core_editing := c, core_result := i, cancelled := d\<rparr>)"
  "open_turn env h0 st0 s \<Longrightarrow> open_turn env h0 st0 (s\<lparr>next_prompt := n, turn_open := True\<rparr>)"
  by (simp_all add: open_turn_def store_linked_def)

interpretation open_turns: turn_invariant env cb
    "\<lambda>s. host_ok env \<and> callbacks_ok env cb \<and> open_turn env h0 st0 s" for env cb h0 st0
proof
  fix s s' assume "host_step env s s'" "host_ok env \<and> callbacks_ok env cb \<and> open_turn env h0 st0 s"
  then show "host_ok env \<and> callbacks_ok env cb \<and> open_turn env h0 st0 s'"
    using closed_open_turn host_okD(13) unfolding host_closed_def by blast
next
  fix k x h' s
  assume e: "entry_ok k x (hist s) h'" and i: "host_ok env \<and> callbacks_ok env cb \<and> open_turn env h0 st0 s"
  from e i show "host_ok env \<and> callbacks_ok env cb \<and> open_turn env h0 st0
      (fst (on_store (append_record (uuids env) (clocks env) k x) (s\<lparr>hist := h'\<rparr>)))"
    by (auto simp: entry_ok_def intro!: open_turn_append host_okD(13))
qed (simp_all add: open_turn_flags)

section \<open>Committing\<close>

definition saved :: "'w env \<Rightarrow> 'w session \<Rightarrow> message list \<Rightarrow> fields \<Rightarrow> bool" where
  "saved env s h st \<longleftrightarrow> (case sstore s of None \<Rightarrow> True
     | Some t \<Rightarrow> spent env t \<or> snapshot None t = Inr (Some (map message_fields h, dict_of st)))"

lemma commit_turn_outcome:
  assumes env: "env_ok env" and o: "open_turn env h0 st0 s"
  shows "case commit_turn env s of
      (s', Inl e) \<Rightarrow> open_turn env h0 st0 s'
    | (s', Inr _) \<Rightarrow> rest env (hist s) s' \<and> sending s' \<and> pstate s' = pstate s \<and> saved env s' (hist s) (pstate s)"
proof (cases "sstore s")
  case None
  then have "commit_turn env s = (s\<lparr>rollback := None, turn_open := False\<rparr>, Inr ())"
    by (simp add: commit_turn_def on_store_def bindS_def)
  with o None show ?thesis
    by (simp add: rest_def open_turn_def store_linked_def saved_def)
next
  case (Some st)
  obtain st' r where c: "commit (uuids env) (clocks env) (pstate s) st = (st', r)"
    by (cases "commit (uuids env) (clocks env) (pstate s) st")
  from o Some have op: "stream_open st" and js: "json_text (dict_of (pstate s))"
    by (simp_all add: open_turn_def store_linked_def state_json_def)
  have op': "stream_open st'"
    using keepsD [OF keeps_open_ops(1) op, of "uuids env" "clocks env" "pstate s"] c by simp
  have bad: "case commit_turn env s of (s', Inl e) \<Rightarrow> open_turn env h0 st0 s' | (s', Inr _) \<Rightarrow> False"
    if r: "r = Inl x" and f: "spent env st'" for x
  proof -
    have "commit_turn env s = (s\<lparr>sstore := Some st'\<rparr>, Inl x)"
      by (simp add: commit_turn_def on_store_def bindS_def Some c r)
    with o op' f show ?thesis by (simp add: open_turn_def store_linked_def)
  qed
  show ?thesis
  proof (cases "spent env st")
    case True
    then have sp: "spent env st'"
      using spent_stays(2) [OF True op, of "uuids env" "clocks env" "pstate s"] c by simp
    show ?thesis
    proof (cases r)
      case (Inl x)
      with sp bad [of x] show ?thesis by (auto split: prod.splits sum.splits)
    next
      case (Inr u)
      then have "commit_turn env s = (s\<lparr>sstore := Some st', rollback := None, turn_open := False\<rparr>, Inr ())"
        using c by (simp add: commit_turn_def on_store_def bindS_def Some)
      with o sp op' show ?thesis
        by (simp add: rest_def open_turn_def store_linked_def saved_def)
    qed
  next
    case False
    with o Some have ok: "store_ok (storage_cfg env) (uuids env) st"
        "branch_history (entries st) (head st) = map message_fields (hist s)"
      by (simp_all add: open_turn_def store_linked_def)
    have e: "settings_ok (storage_cfg env)" "supply_ready (storage_cfg env) (uuids env) (clocks env) st"
      using env False by (simp_all add: env_ok_def spent_def supply_ready_def)
    show ?thesis
    proof (cases r)
      case (Inl x)
      then have "spent env st'"
        using commit_outcome [OF ok(1) op e(2) e(1) js] c
        by (simp add: durable_outcome_def spent_def)
      with bad Inl show ?thesis by (auto split: prod.splits sum.splits)
    next
      case (Inr u)
      then have c': "commit (uuids env) (clocks env) (pstate s) st = (st', Inr ())" using c by simp
      note cb = commit_branch [OF ok(1) op e(2) e(1) js c']
      have "commit_turn env s = (s\<lparr>sstore := Some st', rollback := None, turn_open := False\<rparr>, Inr ())"
        by (simp add: commit_turn_def on_store_def bindS_def Some c')
      moreover have "branch_history (entries st') (committed st') = map message_fields (hist s)"
        using cb ok(2) by metis
      ultimately show ?thesis
        using o cb ok by (simp add: rest_def open_turn_def store_linked_def saved_def)
    qed
  qed
qed

text \<open>
  An operation that completes the turn: it commits when it returns, and it raises in an open or
  a committed turn.
\<close>

definition committed_turn :: "'w env \<Rightarrow> message list \<Rightarrow> 'w session \<Rightarrow> bool" where
  "committed_turn env h0 s \<longleftrightarrow> rest env (hist s) s \<and> sending s \<and> (\<exists>ms. hist s = h0 @ ms)"

definition closes :: "'w env \<Rightarrow> message list \<Rightarrow> fields \<Rightarrow> ('w session, 'a) eff \<Rightarrow> bool" where
  "closes env h0 st0 m \<longleftrightarrow> (\<forall>s. open_turn env h0 st0 s \<longrightarrow> (case m s of
      (s', Inl e) \<Rightarrow> open_turn env h0 st0 s' \<or> committed_turn env h0 s'
    | (s', Inr _) \<Rightarrow> committed_turn env h0 s'))"

lemma closes_bind:
  assumes "keeps (open_turn env h0 st0) m" "\<And>x. closes env h0 st0 (f x)"
  shows "closes env h0 st0 (bindS m f)"
  unfolding closes_def
proof (intro allI impI)
  fix s assume o: "open_turn env h0 st0 s"
  obtain s1 r where m: "m s = (s1, r)" by (cases "m s")
  have "open_turn env h0 st0 s1" using keepsD [OF assms(1) o] m by simp
  with assms(2) show "case bindS m f s of
      (s', Inl e) \<Rightarrow> open_turn env h0 st0 s' \<or> committed_turn env h0 s'
    | (s', Inr _) \<Rightarrow> committed_turn env h0 s'"
    by (cases r) (auto simp: m bindS_def closes_def)
qed

lemma closes_then:
  assumes "closes env h0 st0 m" "\<And>x. keeps (committed_turn env h0) (f x)"
  shows "closes env h0 st0 (bindS m f)"
  unfolding closes_def
proof (intro allI impI)
  fix s assume o: "open_turn env h0 st0 s"
  obtain s1 r where m: "m s = (s1, r)" by (cases "m s")
  show "case bindS m f s of
      (s', Inl e) \<Rightarrow> open_turn env h0 st0 s' \<or> committed_turn env h0 s'
    | (s', Inr _) \<Rightarrow> committed_turn env h0 s'"
  proof (cases r)
    case (Inl e)
    with assms(1) o m show ?thesis by (auto simp: closes_def bindS_def)
  next
    case (Inr x)
    with assms(1) o m have "committed_turn env h0 s1" by (force simp: closes_def)
    then have "committed_turn env h0 (fst (f x s1))" using assms(2) by (rule keepsD [rotated])
    with Inr m show ?thesis by (auto simp: bindS_def split: prod.splits sum.splits)
  qed
qed

lemma closes_commit: "env_ok env \<Longrightarrow> closes env h0 st0 (commit_turn env)"
  unfolding closes_def
proof (intro allI impI)
  fix s assume env: "env_ok env" and o: "open_turn env h0 st0 s"
  have "\<exists>ms. hist s = h0 @ ms" using o by (simp add: open_turn_def)
  with commit_turn_outcome [OF env o]
  show "case commit_turn env s of
      (s', Inl e) \<Rightarrow> open_turn env h0 st0 s' \<or> committed_turn env h0 s'
    | (s', Inr _) \<Rightarrow> committed_turn env h0 s'"
    by (auto simp: committed_turn_def rest_def split: prod.splits sum.splits)
qed

lemma closed_committed: "env_ok env \<Longrightarrow> host_closed env (committed_turn env h0)"
proof -
  assume env: "env_ok env"
  show ?thesis
    unfolding host_closed_def
  proof (intro allI impI)
    fix s s' assume h: "host_step env s s'" and c: "committed_turn env h0 s"
    have "rest env (hist s) s' \<and> sending s'"
      using closed_rest_sending [OF env, of "hist s"] h c by (auto simp: host_closed_def committed_turn_def)
    then have "hist s' = hist s" "rest env (hist s') s'" "sending s'" by (auto simp: rest_def)
    with c show "committed_turn env h0 s'" by (simp add: committed_turn_def)
  qed
qed

lemma keeps_open_turn:
  assumes "host_ok env" "callbacks_ok env cb"
  shows "keeps (\<lambda>s. host_ok env \<and> callbacks_ok env cb \<and> open_turn env h0 st0 s) m \<Longrightarrow> keeps (open_turn env h0 st0) m"
  using assms by (simp add: keeps_def)

lemma closes_complete:
  assumes h: "host_ok env" and cb: "callbacks_ok env cb"
  shows "closes env h0 st0 (complete_prompt env cb st a)"
proof -
  note env = host_okD(13) [OF h]
  have fin: "keeps (committed_turn env h0) (finish_core_result env)"
    unfolding finish_core_result_def
    by (intro keeps_rules keeps_hosted [OF closed_committed [OF env]]) (auto intro: host_okD(8) [OF h])
  have ev: "keeps (committed_turn env h0) (emit_event cb k d)" for k d
    unfolding emit_event_def
    by (intro keeps_rules keeps_hosted [OF closed_committed [OF env]]) (use cb in \<open>auto simp: callbacks_ok_def\<close>)
  have em: "keeps (open_turn env h0 st0) (emit env (cancel_check cb) (event_callback cb) e)" for e
    by (rule keeps_open_turn [OF h cb open_turns.keeps_emit(2)])
  show ?thesis
    unfolding complete_prompt_def
    by (intro closes_bind keeps_lift em closes_then [OF closes_commit [OF env]] keeps_rules fin ev)
qed

section \<open>The loop\<close>

definition steps :: "'w env \<Rightarrow> message list \<Rightarrow> fields \<Rightarrow> ('w session, step_outcome) eff \<Rightarrow> bool" where
  "steps env h0 st0 m \<longleftrightarrow> (\<forall>s. open_turn env h0 st0 s \<longrightarrow> (case m s of
      (s', Inl e) \<Rightarrow> open_turn env h0 st0 s' \<or> committed_turn env h0 s'
    | (s', Inr (Finished _)) \<Rightarrow> committed_turn env h0 s'
    | (s', Inr (Again _)) \<Rightarrow> open_turn env h0 st0 s'))"

lemma steps_bind:
  assumes "keeps (open_turn env h0 st0) m" "\<And>x. steps env h0 st0 (f x)"
  shows "steps env h0 st0 (bindS m f)"
  unfolding steps_def
proof (intro allI impI)
  fix s assume o: "open_turn env h0 st0 s"
  obtain s1 r where m: "m s = (s1, r)" by (cases "m s")
  have "open_turn env h0 st0 s1" using keepsD [OF assms(1) o] m by simp
  with assms(2) show "case bindS m f s of
      (s', Inl e) \<Rightarrow> open_turn env h0 st0 s' \<or> committed_turn env h0 s'
    | (s', Inr (Finished _)) \<Rightarrow> committed_turn env h0 s' | (s', Inr (Again _)) \<Rightarrow> open_turn env h0 st0 s'"
    by (cases r) (auto simp: m bindS_def steps_def)
qed

lemma steps_closes: "closes env h0 st0 m \<Longrightarrow> steps env h0 st0 (bindS m (\<lambda>x. retS (Finished x)))"
  unfolding steps_def closes_def bindS_def by (force split: prod.splits sum.splits)

lemma steps_again:
  "keeps (open_turn env h0 st0) m \<Longrightarrow> (\<And>s s' t. m s \<noteq> (s', Inr (Finished t))) \<Longrightarrow> steps env h0 st0 m"
  unfolding steps_def
proof (intro allI impI)
  fix s assume k: "keeps (open_turn env h0 st0) m" and n: "\<And>s s' t. m s \<noteq> (s', Inr (Finished t))"
    and o: "open_turn env h0 st0 s"
  obtain s1 r where m: "m s = (s1, r)" by (cases "m s")
  have "open_turn env h0 st0 s1" using keepsD [OF k o] m by simp
  with n [of s] m show "case m s of
      (s', Inl e) \<Rightarrow> open_turn env h0 st0 s' \<or> committed_turn env h0 s'
    | (s', Inr (Finished _)) \<Rightarrow> committed_turn env h0 s' | (s', Inr (Again _)) \<Rightarrow> open_turn env h0 st0 s'"
    by (auto split: sum.splits step_outcome.splits)
qed

lemma steps_option:
  "(x = None \<Longrightarrow> steps env h0 st0 m) \<Longrightarrow> (\<And>y. x = Some y \<Longrightarrow> steps env h0 st0 (f y)) \<Longrightarrow>
     steps env h0 st0 (case x of None \<Rightarrow> m | Some y \<Rightarrow> f y)"
  by (cases x) simp_all

lemma steps_if: "(b \<Longrightarrow> steps env h0 st0 m) \<Longrightarrow> (\<not> b \<Longrightarrow> steps env h0 st0 n) \<Longrightarrow>
    steps env h0 st0 (if b then m else n)"
  by simp

lemma next_request_again: "next_request env st r s \<noteq> (s', Inr (Finished t))"
  by (auto simp: next_request_def bindS_def split: prod.splits sum.splits)

lemma steps_send:
  assumes h: "host_ok env" and cb: "callbacks_ok env cb"
  shows "steps env h0 st0 (send_step env cb st request)"
proof -
  note k = keeps_open_turn [OF h cb]
  have nr: "steps env h0 st0 (next_request env st request)"
    by (rule steps_again [OF k [OF open_turns.keeps_next_request] next_request_again])
  show ?thesis
    unfolding send_step_def
    by (intro steps_bind steps_option steps_if steps_closes closes_complete [OF h cb] nr keeps_lift
        k [OF open_turns.keeps_next_action] k [OF open_turns.keeps_event] k [OF open_turns.keeps_perform]
        k [OF open_turns.keeps_history])
qed

lemma closes_exhausted:
  assumes h: "host_ok env" and cb: "callbacks_ok env cb"
  shows "closes env h0 st0 (complete_exhausted env cb st)"
proof -
  note k = keeps_open_turn [OF h cb]
  have n: "closes env h0 st0 (liftR (raise_text RuntimeError t))" for t
    by (simp add: closes_def raise_text_def)
  have c: "closes env h0 st0 (case x of None \<Rightarrow> liftR (raise_text RuntimeError t) | Some y \<Rightarrow> f y)"
    if "\<And>y. closes env h0 st0 (f y)" for x :: "fields option" and t and f :: "fields \<Rightarrow> ('a session, pystr) eff"
    using n that by (cases x) simp_all
  show ?thesis
    unfolding complete_exhausted_def Let_def
    by (intro closes_bind c closes_complete [OF h cb] keeps_lift
        k [OF open_turns.keeps_review] k [OF open_turns.keeps_cancel] k [OF open_turns.keeps_history])
qed

definition turn_result :: "'w env \<Rightarrow> message list \<Rightarrow> fields \<Rightarrow> 'w session \<times> 'a result \<Rightarrow> bool" where
  "turn_result env h0 st0 out \<longleftrightarrow> (case out of
      (s', Inl e) \<Rightarrow> open_turn env h0 st0 s' \<or> committed_turn env h0 s'
    | (s', Inr _) \<Rightarrow> committed_turn env h0 s')"

lemma closes_result: "closes env h0 st0 m \<Longrightarrow> open_turn env h0 st0 s \<Longrightarrow> turn_result env h0 st0 (m s)"
  by (simp add: closes_def turn_result_def)

lemma loop_result:
  assumes h: "host_ok env" and cb: "callbacks_ok env cb"
  shows "open_turn env h0 st0 s \<Longrightarrow> send_loop fuel env cb st request s = Some out \<Longrightarrow>
    turn_result env h0 st0 out"
proof (induction fuel arbitrary: st request s)
  case (0 st request s)
  have "\<not> more_steps (max_steps st) (step st)" "out = complete_exhausted env cb st s"
    using 0(2) by (simp_all add: send_loop.simps split: if_splits)
  with closes_result [OF closes_exhausted [OF h cb] 0(1)] show ?case by (simp only:)
next
  case (Suc n st request s)
  show ?case
  proof (cases "more_steps (max_steps st) (step st)")
    case False
    then have "out = complete_exhausted env cb st s" using Suc(3) by (simp add: send_loop.simps)
    with closes_result [OF closes_exhausted [OF h cb] Suc(2)] show ?thesis by (simp only:)
  next
    case True
    let ?st = "st\<lparr>step := step st + 1\<rparr>"
    obtain s1 r where m: "send_step env cb ?st request s = (s1, r)" by (cases "send_step env cb ?st request s")
    have sm: "case (s1, r) of
      (s', Inl e) \<Rightarrow> open_turn env h0 st0 s' \<or> committed_turn env h0 s'
    | (s', Inr (Finished _)) \<Rightarrow> committed_turn env h0 s' | (s', Inr (Again _)) \<Rightarrow> open_turn env h0 st0 s'"
      using steps_send [OF h cb, of h0 st0 ?st request, unfolded steps_def, rule_format, OF Suc(2)]
      by (simp only: m)
    have out: "Some out = (case (s1, r) of (s', Inl e) \<Rightarrow> Some (s', Inl e)
       | (s', Inr (Finished m)) \<Rightarrow> Some (s', Inr m)
       | (s', Inr (Again request')) \<Rightarrow> send_loop n env cb ?st request' s')"
      using Suc(3) True m by (simp add: send_loop.simps Let_def)
    show ?thesis
    proof (cases r)
      case (Inl e)
      with sm out show ?thesis by (simp add: turn_result_def)
    next
      case (Inr oc)
      with sm out Suc.IH [of s1 ?st] show ?thesis by (cases oc) (simp_all add: turn_result_def)
    qed
  qed
qed

lemma body_result:
  assumes h: "host_ok env" and cb: "callbacks_ok env cb" and o: "open_turn env h0 st0 s"
    and b: "send_body fuel env cb p limit s = Some out"
  shows "turn_result env h0 st0 out"
proof -
  let ?m = "bindS (modS (\<lambda>s. s\<lparr>core_review := startswith p result_tag\<rparr>)) (\<lambda>_.
      bindS (start_prompt env cb p) (\<lambda>start. bindS (claim_core_result env p) (\<lambda>_. retS start)))"
  have "keeps (open_turn env h0 st0) ?m"
    by (rule keeps_open_turn [OF h cb])
       (intro keeps_rules open_turns.keeps_flags open_turns.keeps_start open_turns.keeps_claim)
  from keepsD [OF this o] obtain s1 r where m: "?m s = (s1, r)" and o1: "open_turn env h0 st0 s1"
    by (metis prod.collapse)
  show ?thesis
  proof (cases r)
    case (Inl e)
    with b m o1 show ?thesis by (auto simp: send_body_def turn_result_def)
  next
    case (Inr nr)
    with b m loop_result [OF h cb o1] show ?thesis by (cases nr) (auto simp: send_body_def)
  qed
qed

section \<open>Turns end at rest\<close>

definition session_ok :: "'w env \<Rightarrow> 'w session \<Rightarrow> bool" where
  "session_ok env s \<longleftrightarrow> rest env (hist s) s \<and> idle s"

lemma roll_back_rest:
  assumes "open_turn env h0 st0 s"
  shows "rest env h0 (roll_back h0 s) \<and> checkpoint_owners (roll_back h0 s) = {}"
proof -
  from assms obtain rb where rb: "rollback s = Some rb" "state_json rb" by (auto simp: open_turn_def)
  have "store_linked env True h0 h0 (s\<lparr>sstore := map_option abort (sstore s)\<rparr>)"
    using assms abort_ok [of "storage_cfg env" "uuids env"]
    by (auto simp: open_turn_def store_linked_def abort_def spent_def split: option.splits)
  with rb show ?thesis
    by (simp add: roll_back_def rest_def store_linked_def)
qed

lemma finish_result:
  assumes h: "host_ok env" and r: "turn_result env h0 st0 (s, r)"
  shows "\<exists>s' r'. finallyS (liftR r) (finish_turn env h0) s = (s', r') \<and> session_ok env s' \<and>
    (\<exists>ms. hist s' = h0 @ ms) \<and> (open_turn env h0 st0 s \<longrightarrow> hist s' = h0) \<and>
    (committed_turn env h0 s \<longrightarrow> hist s' = hist s) \<and> (isl r \<longrightarrow> isl r')"
proof -
  note env = host_okD(13) [OF h]
  from r consider (open') "open_turn env h0 st0 s" | (done') "committed_turn env h0 s"
    by (auto simp: turn_result_def split: sum.splits)
  then show ?thesis
  proof cases
    case open'
    then obtain b where ne: "rollback s = Some b" by (auto simp: open_turn_def)
    note rb = roll_back_rest [OF open']
    define s1 where "s1 = roll_back h0 s"
    obtain s2 r2 where e: "emit env None None TurnAbort s1 = (s2, r2)" by (cases "emit env None None TurnAbort s1")
    have cl: "host_closed env (\<lambda>s. rest env h0 s \<and> checkpoint_owners s = {})"
      unfolding host_closed_def
      by (auto elim!: host_stepE intro: checkpoint_rest [OF env] dest: rest_rollback simp: checkpoint_frame)
         (auto simp: rest_def state_json_def store_linked_def)
    have "rest env h0 s2 \<and> checkpoint_owners s2 = {}"
      using keepsD [OF keeps_hosted [OF cl hosted_emit(1) [OF h]], of s1 TurnAbort] rb e
      by (simp add: s1_def)
    then have s3: "session_ok env (clear_flags s2)" "hist (clear_flags s2) = h0"
      by (auto simp: session_ok_def clear_flags_def rest_def idle_def store_linked_def)
    have nc: "\<not> committed_turn env h0 s" using ne by (auto simp: committed_turn_def rest_def)
    have "finallyS (liftR r) (finish_turn env h0) s =
        (clear_flags s2, case r2 of Inl e \<Rightarrow> Inl e | Inr _ \<Rightarrow> r)"
      using ne by (cases r2) (simp_all add: finallyS_def finish_turn_def bindS_def s1_def [symmetric] e)
    with s3 nc show ?thesis by (auto split: sum.splits)
  next
    case done'
    then have rn: "rollback s = None" by (simp add: committed_turn_def rest_def)
    have no: "\<not> open_turn env h0 st0 s" using rn by (auto simp: open_turn_def)
    have "finallyS (liftR r) (finish_turn env h0) s = (clear_flags (s\<lparr>checkpoint_owners := {}\<rparr>), r)"
      using rn by (simp add: finallyS_def finish_turn_def bindS_def roll_back_def)
    moreover have "session_ok env (clear_flags (s\<lparr>checkpoint_owners := {}\<rparr>))"
      using done' by (auto simp: session_ok_def clear_flags_def committed_turn_def rest_def idle_def store_linked_def)
    ultimately show ?thesis using done' no by (auto simp: committed_turn_def clear_flags_def)
  qed
qed

lemma turn_ok:
  assumes h: "host_ok env" and s: "session_ok env s"
    and body: "\<And>s1 out. open_turn env (hist s) (pstate s1) s1 \<Longrightarrow> body s1 = Some out \<Longrightarrow>
      turn_result env (hist s) (pstate s1) out"
    and t: "turn env body s = Some (s', r)"
  shows "session_ok env s' \<and> (\<exists>ms. hist s' = hist s @ ms) \<and>
    (isl r \<or> (\<exists>s1 s2 x. open_turn env (hist s) (pstate s1) s1 \<and> hist s1 = hist s \<and>
       next_prompt s1 = next_prompt s \<and> body s1 = Some (s2, Inr x) \<and> r = Inr x \<and> hist s' = hist s2))"
proof -
  note env = host_okD(13) [OF h]
  let ?I = "\<lambda>x. (rest env (hist x) x \<and> idle x) \<and> hist x = hist s \<and> next_prompt x = next_prompt s"
  obtain s1 r1 where b: "begin_operation env s = (s1, r1)" by (cases "begin_operation env s")
  have cl: "host_closed env (\<lambda>x. (rest env h x \<and> idle x) \<and> next_prompt x = n)" for h n
    unfolding host_closed_def
    by (auto elim!: host_stepE intro: checkpoint_rest [OF env] checkpoint_frame(1) dest: rest_rollback
        simp: checkpoint_frame(3-))
       (auto simp: rest_def idle_def state_json_def store_linked_def)
  have i1: "rest env (hist s) s1 \<and> idle s1 \<and> next_prompt s1 = next_prompt s"
    using keepsD [OF keeps_hosted [OF cl [of "hist s" "next_prompt s"] host_okD(11) [OF h]], of s] s b
    by (simp add: session_ok_def)
  then have h1: "hist s1 = hist s" by (simp add: rest_def)
  show ?thesis
  proof (cases r1)
    case (Inl e)
    with t b have "s' = s1" "isl r" by (auto simp: turn_def)
    with i1 h1 show ?thesis by (auto simp: session_ok_def)
  next
    case (Inr u)
    let ?s2 = "s1\<lparr>rollback := Some (pstate s1), checkpoint_owners := {}, sending := True\<rparr>"
    have bt: "begin_turn s1 = (?s2, Inr (hist s))"
      using i1 h1 by (simp add: begin_turn_def idle_def rest_def)
    have o: "open_turn env (hist s) (pstate ?s2) ?s2"
      using i1 by (auto simp: open_turn_def rest_def store_linked_def split: option.splits)
    from t b Inr bt obtain s3 r3 where b3: "body ?s2 = Some (s3, r3)"
      by (auto simp: turn_def split: option.splits)
    note tr = body [OF o b3]
    obtain s4 r4 where f: "finallyS (liftR r3) (finish_turn env (hist s)) s3 = (s4, r4)" and ok4: "session_ok env s4"
      and p4: "\<exists>ms. hist s4 = hist s @ ms" "isl r3 \<longrightarrow> isl r4"
      and c4: "committed_turn env (hist s) s3 \<longrightarrow> hist s4 = hist s3"
      using finish_result [OF h tr] by blast
    have t': "finallyS (liftR r4) (finish_operation env (\<not> isl r4)) s4 = (s', r)"
      using t by (simp add: turn_def b Inr bt b3 f)
    have "rest env (hist s4) (fst (finish_operation env (\<not> isl r4) s4)) \<and>
        idle (fst (finish_operation env (\<not> isl r4) s4))"
      using keepsD [OF keeps_hosted [OF closed_rest_idle [OF env] host_okD(12) [OF h]], of "hist s4" s4 "\<not> isl r4"]
        ok4 by (simp add: session_ok_def)
    moreover have "s' = fst (finish_operation env (\<not> isl r4) s4)" and r: "isl r4 \<longrightarrow> isl r" "isl r \<or> r = r4"
      using t' by (auto simp: finallyS_def split: prod.splits sum.splits)
    ultimately have s': "session_ok env s'" "hist s' = hist s4" by (auto simp: session_ok_def rest_def)
    have fin: "isl r \<or> (\<exists>x. r3 = Inr x \<and> r = Inr x \<and> hist s' = hist s3)"
    proof (cases r3)
      case (Inl e)
      with p4 r show ?thesis by auto
    next
      case (Inr x)
      then have "committed_turn env (hist s) s3" using tr by (simp add: turn_result_def)
      with c4 s' have "hist s' = hist s3" by simp
      moreover have "isl r4 \<or> r4 = Inr x"
        using f Inr by (auto simp: finallyS_def split: prod.splits sum.splits)
      ultimately show ?thesis using r Inr by auto
    qed
    have o': "open_turn env (hist s) (pstate ?s2) ?s2" and f2: "hist ?s2 = hist s" "next_prompt ?s2 = next_prompt s"
      using o h1 i1 by simp_all
    have "isl r \<or> (\<exists>s1 s2 x. open_turn env (hist s) (pstate s1) s1 \<and> hist s1 = hist s \<and>
       next_prompt s1 = next_prompt s \<and> body s1 = Some (s2, Inr x) \<and> r = Inr x \<and> hist s' = hist s2)"
      using fin o' f2 b3 by blast
    then show ?thesis using s' p4 by simp
  qed
qed

lemma send_session:
  assumes h: "host_ok env" and cb: "callbacks_ok env cb" and s: "session_ok env s"
    and r: "send fuel env cb prompt limit s = Some (s', r)"
  shows "session_ok env s' \<and> (\<exists>ms. hist s' = hist s @ ms)"
proof (cases "validate_send prompt limit")
  case (Inl e)
  with r s show ?thesis by (auto simp: send_def)
next
  case (Inr pm)
  obtain p m where pm: "pm = (p, m)" by (cases pm)
  have t: "turn env (send_body fuel env cb p (step_limit p m)) s = Some (s', r)"
    using r Inr pm by (simp add: send_def)
  have bo: "turn_result env (hist s) (pstate s1) out"
    if "open_turn env (hist s) (pstate s1) s1" "send_body fuel env cb p (step_limit p m) s1 = Some out" for s1 out
    by (rule body_result [OF h cb that])
  show ?thesis
    using turn_ok [OF h s bo t] by blast
qed

section \<open>What a turn adds to the history\<close>

definition grown :: "message list \<Rightarrow> 'w session \<Rightarrow> bool" where
  "grown h s \<longleftrightarrow> (\<exists>ms. hist s = h @ ms \<and> list_all message_ok ms)"

lemma host_step_hist: "host_step env s s' \<Longrightarrow> hist s' = hist s"
  by (auto elim!: host_stepE simp: checkpoint_frame)

lemma on_store_hist [simp]: "hist (fst (on_store f s)) = hist s"
  by (subst on_store_frame) simp

interpretation growth: turn_invariant env cb "\<lambda>s. host_ok env \<and> callbacks_ok env cb \<and> grown h s" for env cb h
proof
  fix k x h' s assume "entry_ok k x (hist s) h'" "host_ok env \<and> callbacks_ok env cb \<and> grown h s"
  then show "host_ok env \<and> callbacks_ok env cb \<and>
      grown h (fst (on_store (append_record (uuids env) (clocks env) k x) (s\<lparr>hist := h'\<rparr>)))"
    by (auto simp: entry_ok_def grown_def)
qed (auto simp: grown_def dest: host_step_hist)

lemma host_closed_grown: "host_closed env (grown h)"
  by (auto simp: host_closed_def grown_def dest: host_step_hist)

lemma keeps_grown:
  assumes "host_ok env" "callbacks_ok env cb"
  shows "keeps (\<lambda>s. host_ok env \<and> callbacks_ok env cb \<and> grown h s) m \<Longrightarrow> keeps (grown h) m"
  using assms by (simp add: keeps_def)

lemma grown_complete:
  assumes h: "host_ok env" and cb: "callbacks_ok env cb"
  shows "keeps (grown p) (complete_prompt env cb st a)"
proof -
  have c: "keeps (grown p) (commit_turn env)"
    unfolding commit_turn_def
    by (intro keeps_rules keeps_mod) (auto simp: grown_def keeps_def)
  have f: "keeps (grown p) (finish_core_result env)"
    unfolding finish_core_result_def
    by (intro keeps_rules keeps_hosted [OF host_closed_grown]) (auto intro: host_okD(8) [OF h])
  note k = keeps_grown [OF h cb]
  show ?thesis
    unfolding complete_prompt_def
    by (intro keeps_rules k [OF growth.keeps_emit(2)] c f k [OF growth.keeps_event])
qed

lemma grown_step:
  assumes h: "host_ok env" and cb: "callbacks_ok env cb"
  shows "keeps (grown p) (send_step env cb st request)" "keeps (grown p) (complete_exhausted env cb st)"
proof -
  note k = keeps_grown [OF h cb]
  show "keeps (grown p) (send_step env cb st request)"
    unfolding send_step_def
    by (intro keeps_rules k [OF growth.keeps_next_action] k [OF growth.keeps_event] k [OF growth.keeps_perform]
        k [OF growth.keeps_history] k [OF growth.keeps_next_request] grown_complete [OF h cb])
  show "keeps (grown p) (complete_exhausted env cb st)"
    unfolding complete_exhausted_def
    by (intro keeps_rules k [OF growth.keeps_review] k [OF growth.keeps_cancel] k [OF growth.keeps_history]
        grown_complete [OF h cb])
qed

lemma grown_loop:
  assumes h: "host_ok env" and cb: "callbacks_ok env cb"
  shows "grown p s \<Longrightarrow> send_loop fuel env cb st request s = Some (s', r) \<Longrightarrow> grown p s'"
proof (induction fuel arbitrary: st request s)
  case (0 st request s)
  have "s' = fst (complete_exhausted env cb st s)"
    using 0(2) by (simp add: send_loop.simps split: if_splits)
  with keepsD [OF grown_step(2) [OF h cb] 0(1)] show ?case by simp
next
  case (Suc n st request s)
  let ?st = "st\<lparr>step := step st + 1\<rparr>"
  obtain s1 r1 where m: "send_step env cb ?st request s = (s1, r1)" by (cases "send_step env cb ?st request s")
  have g1: "grown p s1" using keepsD [OF grown_step(1) [OF h cb] Suc(2)] m by (metis fst_conv)
  show ?case
  proof (cases "more_steps (max_steps st) (step st)")
    case False
    then have "s' = fst (complete_exhausted env cb st s)"
      using Suc(3) by (simp add: send_loop.simps [of "Suc n"])
    with keepsD [OF grown_step(2) [OF h cb] Suc(2)] show ?thesis by simp
  next
    case True
    then have "Some (s', r) = (case r1 of Inl e \<Rightarrow> Some (s1, Inl e) | Inr (Finished m) \<Rightarrow> Some (s1, Inr m)
        | Inr (Again request') \<Rightarrow> send_loop n env cb ?st request' s1)"
      using Suc(3) m by (simp add: send_loop.simps [of "Suc n"] Let_def)
    with Suc.IH [OF g1, of ?st] g1 show ?thesis
      by (auto split: sum.splits step_outcome.splits)
  qed
qed

text \<open>A turn that got past its start has recorded the prompt.\<close>

definition prompt_message :: "int \<Rightarrow> pystr \<Rightarrow> message" where
  "prompt_message n p = \<lparr>role = ustr ''user'', mcontent = p, mkind = ustr ''prompt'', prompt_id = n\<rparr>"

lemma host_star_frame: "(host_step env)\<^sup>*\<^sup>* s s' \<Longrightarrow> hist s' = hist s \<and> next_prompt s' = next_prompt s"
  by (induction rule: rtranclp_induct) (auto elim!: host_stepE simp: checkpoint_frame)

lemma add_history_Inr:
  assumes "add_history env r c k n logged s = (s', Inr x)"
  shows "\<exists>m s1. session_message (ustr r) c (ustr k) n = Inr m \<and> hist s1 = hist s @ [m] \<and>
    (if logged then write_log_line env (as_message m) else retS ()) s1 = (s', Inr x)"
proof (cases "session_message (ustr r) c (ustr k) n")
  case (Inl e)
  with assms show ?thesis by (simp add: add_history_def)
next
  case (Inr m)
  let ?f = "on_store (append_record (uuids env) (clocks env) ''message'' (message_fields m))"
  let ?s = "s\<lparr>hist := hist s @ [m]\<rparr>"
  obtain s1 r1 where a: "?f ?s = (s1, r1)" by (cases "?f ?s")
  have "hist s1 = hist s @ [m]" using on_store_hist [of "append_record (uuids env) (clocks env) ''message'' (message_fields m)" ?s] a by simp
  with assms Inr a show ?thesis by (cases r1) (auto simp: add_history_def bindS_def)
qed

lemma start_prompt_grown:
  assumes h: "host_ok env" and cb: "callbacks_ok env cb"
    and r: "start_prompt env cb p s = (s', Inr (n, request))"
  shows "n = next_prompt s \<and> grown (hist s @ [prompt_message n p]) s'"
proof -
  let ?ts = "on_store (append_record (uuids env) (clocks env) ''turn_start'' [(ustr ''prompt_id'', VInt (next_prompt s))])"
  let ?tail = "bindS (request_messages env (next_prompt s)) (\<lambda>messages.
     bindS (modS (\<lambda>s. s\<lparr>next_prompt := next_prompt s + 1, turn_open := True\<rparr>)) (\<lambda>_.
     bindS (if hist s = [] then forS messages (write_log_line env)
            else write_log_line env (ustr ''user'', p)) (\<lambda>_.
     retS (next_prompt s, messages))))"
  obtain s1 u1 where c: "check_cancel cb s = (s1, Inr u1)"
    using r by (auto simp: start_prompt_def Let_def bindS_def split: prod.splits sum.splits)
  obtain s2 u2 where t: "?ts s1 = (s2, Inr u2)"
    using r c by (auto simp: start_prompt_def Let_def bindS_def split: prod.splits sum.splits)
  obtain s3 u3 where e: "emit env (cancel_check cb) (event_callback cb) (TurnStart p) s2 = (s3, Inr u3)"
    using r c t by (auto simp: start_prompt_def Let_def bindS_def split: prod.splits sum.splits)
  obtain s4 u4 where a: "add_history env ''user'' p ''prompt'' (next_prompt s) False s3 = (s4, Inr u4)"
    using r c t e by (auto simp: start_prompt_def Let_def bindS_def split: prod.splits sum.splits)
  have tl: "?tail s4 = (s', Inr (n, request))"
    using r c t e a by (simp add: start_prompt_def Let_def)
  have h1: "hist s1 = hist s"
    using host_star_frame [of env s s1] c cb
    by (auto simp: check_cancel_def callbacks_ok_def hosted_def split: option.splits) (metis fst_conv)
  have h2: "hist s2 = hist s1" using on_store_hist [of "append_record (uuids env) (clocks env) ''turn_start''
      [(ustr ''prompt_id'', VInt (next_prompt s))]" s1] t by simp
  have h3: "hist s3 = hist s2"
    using host_star_frame [of env s2 s3] hosted_emit(2) [OF h cb, of "TurnStart p"] e unfolding hosted_def by (metis fst_conv)
  from add_history_Inr [OF a] obtain m where m: "session_message (ustr ''user'') p (ustr ''prompt'') (next_prompt s) = Inr m"
    and h4: "hist s4 = hist s @ [m]" using h1 h2 h3 by auto
  from m have pm: "m = prompt_message (next_prompt s) p"
    by (auto simp: session_message_def prompt_message_def raise_def split: if_splits)
  have g: "grown (hist s @ [m]) s4" using h4 by (simp add: grown_def)
  note k = keeps_grown [OF h cb]
  have "keeps (grown (hist s @ [m])) ?tail"
    by (intro keeps_rules k [OF growth.keeps_request] keeps_mod k [OF growth.keeps_log]) (simp add: grown_def)
  from keepsD [OF this g] tl have "grown (hist s @ [m]) s'" by simp
  moreover have "n = next_prompt s" using tl by (auto simp: bindS_def split: prod.splits sum.splits if_splits)
  ultimately show ?thesis using pm by simp
qed

lemma body_grown:
  assumes h: "host_ok env" and cb: "callbacks_ok env cb"
    and r: "send_body fuel env cb p limit s = Some (s', Inr x)"
  shows "grown (hist s @ [prompt_message (next_prompt s) p]) s'"
proof -
  let ?s = "s\<lparr>core_review := startswith p result_tag\<rparr>"
  obtain s1 r1 where m: "start_prompt env cb p ?s = (s1, r1)" by (cases "start_prompt env cb p ?s")
  obtain n request where r1: "r1 = Inr (n, request)"
    using r m by (cases r1) (auto simp: send_body_def bindS_def)
  note st = start_prompt_grown [OF h cb m [unfolded r1]]
  obtain s2 r2 where c: "claim_core_result env p s1 = (s2, r2)" by (cases "claim_core_result env p s1")
  have g1: "grown (hist s @ [prompt_message (next_prompt s) p]) s1" using st by auto
  have g2: "grown (hist s @ [prompt_message (next_prompt s) p]) s2"
    using keepsD [OF keeps_grown [OF h cb growth.keeps_claim] g1, of p] c by simp
  show ?thesis
  proof (cases r2)
    case (Inl e)
    with r m r1 c show ?thesis by (simp add: send_body_def bindS_def)
  next
    case (Inr u)
    with r m r1 c have "send_loop fuel env cb \<lparr>sprompt = n, max_steps = limit, step = 0\<rparr> request s2 = Some (s', Inr x)"
      by (simp add: send_body_def bindS_def)
    from grown_loop [OF h cb g2 this] show ?thesis .
  qed
qed

text \<open>A successful send extends the history by the prompt and what followed, and has committed it.\<close>

lemma send_extends:
  assumes h: "host_ok env" and cb: "callbacks_ok env cb" and s: "session_ok env s"
    and r: "send fuel env cb prompt limit s = Some (s', Inr reply)"
  shows "\<exists>p ms. prompt = VStr p \<and> \<not> blank p \<and> list_all message_ok ms \<and>
    hist s' = hist s @ prompt_message (next_prompt s) p # ms"
proof -
  from r obtain p m where v: "validate_send prompt limit = Inr (p, m)"
    and t: "turn env (send_body fuel env cb p (step_limit p m)) s = Some (s', Inr reply)"
    by (auto simp: send_def split: sum.splits)
  have bo: "turn_result env (hist s) (pstate s1) out"
    if "open_turn env (hist s) (pstate s1) s1" "send_body fuel env cb p (step_limit p m) s1 = Some out" for s1 out
    by (rule body_result [OF h cb that])
  obtain s1 s2 x where b: "send_body fuel env cb p (step_limit p m) s1 = Some (s2, Inr x)"
    and f: "hist s1 = hist s" "next_prompt s1 = next_prompt s" "hist s' = hist s2"
    using turn_ok [OF h s bo t] by auto
  have "prompt = VStr p \<and> \<not> blank p"
    using v by (auto simp: validate_send_def raise_def split: pyval.splits if_splits)
  with body_grown [OF h cb b] f show ?thesis by (auto simp: grown_def)
qed

section \<open>Every bounded send returns\<close>

lemma loop_total:
  "max_steps st = Some m \<Longrightarrow> m - step st \<le> int fuel \<Longrightarrow> \<exists>out. send_loop fuel env cb st request s = Some out"
proof (induction fuel arbitrary: st request s)
  case 0
  then show ?case by (simp add: send_loop.simps more_steps_def)
next
  case (Suc n)
  let ?st = "st\<lparr>step := step st + 1\<rparr>"
  obtain s1 r1 where m: "send_step env cb ?st request s = (s1, r1)" by (cases "send_step env cb ?st request s")
  have "\<exists>out. send_loop n env cb ?st req s1 = Some out" for req
    using Suc.IH [of ?st] Suc(2,3) by simp
  with m show ?case
    by (auto simp: send_loop.simps [of "Suc n"] Let_def split: sum.splits step_outcome.splits)
qed

lemma body_total: "m \<le> int fuel \<Longrightarrow> \<exists>out. send_body fuel env cb p (Some m) s = Some out"
  unfolding send_body_def
  by (simp split: prod.split sum.split del: split_paired_Ex) (intro allI impI loop_total [where m = m], simp_all)

lemma turn_total: "(\<And>s1. \<exists>out. body s1 = Some out) \<Longrightarrow> \<exists>out. turn env body s = Some out"
  unfolding turn_def by (auto split: prod.splits sum.splits option.splits) (metis option.distinct(1))+

lemma send_total:
  assumes "limit = VInt m" "m \<le> int fuel"
  shows "\<exists>out. send fuel env cb prompt limit s = Some out"
proof (cases "validate_send prompt limit")
  case (Inl e)
  then show ?thesis by (simp add: send_def)
next
  case (Inr pm)
  then obtain p where pm: "pm = (p, Some m)"
    using assms by (auto simp: validate_send_def raise_def split: pyval.splits if_splits)
  have "\<exists>k. step_limit p (Some m) = Some k \<and> k \<le> m" by (auto simp: step_limit_def)
  then obtain k where "step_limit p (Some m) = Some k" "k \<le> int fuel" using assms by auto
  then show ?thesis
    using turn_total [of "send_body fuel env cb p (Some k)" env s] body_total [of k fuel env cb p]
    by (simp add: send_def Inr pm)
qed

text \<open>More fuel does not change the result.\<close>

lemma loop_fuel:
  "send_loop fuel env cb st request s = Some out \<Longrightarrow> fuel \<le> fuel2 \<Longrightarrow> send_loop fuel2 env cb st request s = Some out"
proof (induction fuel arbitrary: st request s fuel2)
  case 0
  then show ?case by (simp add: send_loop.simps split: if_splits)
next
  case (Suc n)
  then obtain k where k: "fuel2 = Suc k" "n \<le> k" by (cases fuel2) auto
  let ?st = "st\<lparr>step := step st + 1\<rparr>"
  obtain s1 r1 where m: "send_step env cb ?st request s = (s1, r1)" by (cases "send_step env cb ?st request s")
  have ih: "send_loop n env cb ?st req s1 = Some out \<Longrightarrow> send_loop k env cb ?st req s1 = Some out" for req
    using Suc.IH k(2) by simp
  show ?case
    using Suc(2) m ih unfolding k(1) send_loop.simps [of "Suc n"] send_loop.simps [of "Suc k"]
    by (auto simp: Let_def split: if_splits sum.splits step_outcome.splits)
qed

section \<open>Denied actions do not run\<close>

text \<open>The same environment with another implementation of every tool.\<close>

lemma decide_denied:
  assumes g: "guard_action env cb a s = (s1, Inr (Some result))"
  shows "decide_action env cb st a s = (s1, Inr result)"
  using g by (simp add: decide_action_def bindS_def)

lemma approval_without_callback:
  assumes "tool_of env s a = Inr t" "requires_approval t" "\<not> auto_approve env" "approval_callback cb = None"
  shows "approval_denied env cb a s = (s, Inr True)"
  using assms by (simp add: approval_denied_def)

lemma approval_needs_true:
  assumes "approval_denied env cb a s = (s', Inr False)" "tool_of env s a = Inr t" "requires_approval t"
    "\<not> auto_approve env"
  shows "\<exists>f d. approval_callback cb = Some f \<and> detached_payload a = Inr d \<and> f d s = (s', Inr (VBool True))"
  using assms by (auto simp: approval_denied_def bindS_def split: option.splits sum.splits prod.splits)

lemma execute_only_when_allowed:
  assumes "\<not> action_allowed env s n" "action_name a = Inr n" "check_cancel cb s0 = (s, Inr ())"
  shows "perform_action env cb st a s0 =
    bindS (publish_result env cb st (Some a) (disabled_result env s n)) (\<lambda>_. retS None) s"
  using assms by (simp add: perform_action_def)

end
