(* ===== verification/Session_Properties.thy ===== *)
theory Session_Properties
  imports Session_Turn
begin

text \<open>
  What the session kernel and its journal promise together, each property applied to a small
  concrete session: a model that answers \<open>done\<close> at once, on a host with one tool and a journal.
\<close>

section \<open>A concrete session\<close>

definition demo_cfg :: storage_settings where
  "demo_cfg = \<lparr>schema_version = 1, id_hex_chars = 2,
     record_types = map ustr [''message'', ''turn_start'', ''turn_commit'', ''select'', ''state'']\<rparr>"

definition demo_uuid :: "nat \<Rightarrow> pystr" where
  "demo_uuid = hex_id 2"

definition demo_tool :: tool_def where
  "demo_tool = \<lparr>description = ustr ''runs'', parameters = VDict [], tvalidate = (\<lambda>_. Inr ()),
     requires_approval = True, finishes_turn = False\<rparr>"

definition demo_reply :: rawjson where
  "demo_reply = RObj [(ustr ''action'', RStr (ustr ''done'')), (ustr ''message'', RStr (ustr ''ok''))]"

definition demo_env :: "unit env" where
  "demo_env = \<lparr>protocol_text = ustr ''p'', instruction_role = ustr ''system'', context_chars = 1000,
     auto_approve = False, allowed_names = None, max_reply = 100, result_prefix = ustr ''r'',
     message_roles = map ustr [''system'', ''user'', ''assistant''],
     storage_cfg = demo_cfg, uuids = demo_uuid, clocks = (\<lambda>_. []),
     json_dumps = (\<lambda>_ _ _. Inr []), json_parse = (\<lambda>_. Inr demo_reply),
     json_loads = (\<lambda>_. Inr VNone), repr_text = id, tools = (\<lambda>_. [(ustr ''run'', demo_tool)]),
     emit = (\<lambda>_ _ _. retS NoHook), execute_tool = (\<lambda>_ _ _. retS []),
     chat = (\<lambda>_. retS (VStr (ustr ''d''))),
     policy = (\<lambda>_. None), contributions = retS [], bridge = (\<lambda>_. None), write_log = None,
     begin_operation = retS (), finish_operation = (\<lambda>_. retS ())\<rparr>"

definition demo_callbacks :: "unit callbacks" where
  "demo_callbacks = \<lparr>event_callback = None, approval_callback = None, cancel_check = None\<rparr>"

definition demo_load :: "store \<times> unit result" where
  "demo_load = load_store demo_cfg (fresh_store demo_cfg (demo_uuid 0) [] ([], False) 1 [])"

definition demo_session :: "unit session" where
  "demo_session = \<lparr>hist = [], next_prompt = 1, sending = False, turn_open = False,
     core_review = False, core_editing = False, core_result = [], pstate = [], rollback = None,
     checkpoint_owners = {}, sstore = Some (fst demo_load), cancelled = False, world = ()\<rparr>"

definition demo_run :: "(unit session \<times> pystr result) option" where
  "demo_run = send 1 demo_env demo_callbacks (VStr (ustr ''hi'')) (VInt 1) demo_session"

lemma hosted_pure [simp]: "hosted env (retS x)"
  by (simp add: hosted_def)

lemma demo_settings: "settings_ok demo_cfg"
  by (simp add: settings_ok_def demo_cfg_def)

lemma demo_supplies: "supplies_ok demo_cfg demo_uuid (\<lambda>_. [])"
  using hex_supplies_ok [of demo_cfg] by (simp add: demo_cfg_def demo_uuid_def numeral_2_eq_2)

lemma demo_host: "host_ok demo_env" "callbacks_ok demo_env demo_callbacks"
  using demo_settings demo_supplies
  by (simp_all add: host_ok_def env_ok_def callbacks_ok_def demo_env_def demo_callbacks_def)

lemma demo_loaded: "snd demo_load = Inr ()"
  by code_simp

lemma demo_store:
  "store_ok demo_cfg demo_uuid (fst demo_load) \<and> stream_open (fst demo_load) \<and> entries (fst demo_load) = [] \<and>
   head (fst demo_load) = None \<and> committed (fst demo_load) = None \<and> serial (fst demo_load) = 1"
proof (rule load_fresh)
  show "id_ok demo_cfg (demo_uuid 0)" by code_simp
  show "load_store demo_cfg (fresh_store demo_cfg (demo_uuid 0) [] ([], False) 1 []) = (fst demo_load, Inr ())"
    using demo_loaded by (simp add: demo_load_def prod_eq_iff)
qed

lemma demo_session_ok: "session_ok demo_env demo_session"
  using demo_store
  by (simp add: session_ok_def rest_def idle_def demo_session_def state_json_def json_text_dict_of
      store_linked_def demo_env_def)

lemma demo_run_result: "map_option snd demo_run = Some (Inr (ustr ''ok''))"
  by code_simp

section \<open>Reading a stored conversation back\<close>

lemma object_field_dict_of [simp]: "object_field (dict_of fs) path = Inr fs"
  by (simp add: object_field_Inr_iff)

lemma array_field_VList [simp]: "array_field (VList xs) path = Inr xs"
  by (simp add: array_field_Inr_iff)

lemma get_record_fields:
  "get (message_fields m) ''role'' = VStr (role m)" "get (message_fields m) ''content'' = VStr (mcontent m)"
  "get (message_fields m) ''kind'' = VStr (mkind m)" "get (message_fields m) ''prompt_id'' = VInt (prompt_id m)"
  "set (keys (message_fields m)) = set message_names"
  by (simp_all add: message_fields_def get_def message_names_def keys_def)

lemma history_message_fields: "message_ok m \<Longrightarrow> history_message (dict_of (message_fields m)) = Inr m"
proof -
  assume ok: "message_ok m"
  then have "\<not> prompt_id m < 1"
    by (auto simp: message_ok_def session_message_def raise_def split: if_splits)
  with ok show ?thesis
    by (simp add: history_message_def get_record_fields s_text_def integer_field_def Let_def message_ok_def)
qed

lemma dumpable_dict_of: "dumpable (dict_of fs) = Inr () \<longleftrightarrow> list_all (\<lambda>p. dumpable (snd p) = Inr ()) fs"
proof -
  have "dumpable_items (map (\<lambda>p. (VStr (fst p), snd p)) fs) = Inr () \<longleftrightarrow> list_all (\<lambda>p. dumpable (snd p) = Inr ()) fs"
    by (induction fs) (auto simp: bindR_Inr_iff)
  then show ?thesis by (simp add: dict_of_def)
qed

lemma dumpable_elems_iff: "dumpable_elems xs = Inr () \<longleftrightarrow> list_all (\<lambda>x. dumpable x = Inr ()) xs"
  by (induction xs) (auto simp: bindR_Inr_iff)

definition conversation :: "message list \<Rightarrow> pyval \<Rightarrow> pyval" where
  "conversation ms v = dict_of [(ustr ''history'', VList (map (\<lambda>m. dict_of (message_fields m)) ms)), (ustr ''state'', v)]"

lemma read_conversation:
  assumes ms: "list_all message_ok ms" and os: "list_all (\<lambda>(i, v). \<exists>fs. v = dict_of fs) os"
    and js: "dumpable (dict_of os) = Inr ()"
  shows "read_snapshot (conversation ms (dict_of os)) = Inr (ms, os)"
proof -
  have h: "mapR history_message (map (\<lambda>m. dict_of (message_fields m)) ms) = Inr ms"
    using ms by (induction ms) (simp_all add: history_message_fields)
  have s: "mapR owner_state os = Inr os"
    using os by (induction os) (auto simp: owner_state_def)
  have d: "dumpable (dict_of (message_fields m)) = Inr ()" for m
    by (simp add: dumpable_dict_of message_fields_def)
  have "dumpable (conversation ms (dict_of os)) = Inr ()"
    using js by (simp add: conversation_def dumpable_dict_of dumpable_elems_iff list_all_iff d)
  then show ?thesis
    by (simp add: read_snapshot_def conversation_def keys_def get_def h s)
qed

lemma stored_conversation:
  assumes ok: "store_ok cfg uuid st" and h: "branch_history (entries st) (committed st) = map message_fields ms"
  shows "\<exists>v. stored_document st = Inr (conversation ms v)"
  using snapshot_total [OF ok] h by (auto simp: stored_document_def conversation_def comp_def)

text \<open>Beginning a turn opens it with the state it will roll back to.\<close>

lemma begin_open:
  assumes s: "session_ok env s" and b: "begin_turn s = (s1, Inr h0)"
  shows "open_turn env (hist s) (pstate s) s1 \<and> h0 = hist s"
proof -
  from b have s1: "s1 = s\<lparr>rollback := Some (pstate s), checkpoint_owners := {}, sending := True\<rparr>" "h0 = hist s"
    by (auto simp: begin_turn_def raise_def split: if_splits)
  from s show ?thesis
    unfolding s1 by (auto simp: open_turn_def session_ok_def rest_def store_linked_def split: option.splits)
qed

section \<open>Properties\<close>

text \<open>C1: Whatever the model, the hooks, the tools and the callbacks do within the session's
  interface, and however the prompt ends (a reply, an error, a cancellation, a storage failure,
  also before the turn opens), \<open>send\<close> leaves the session idle, with no open turn and no rollback
  pending, with a history that extends the one before, and with the journal's selected branch
  equal to that history unless a write failed.\<close>

theorem send_is_transactional:
  assumes "host_ok env" "callbacks_ok env cb" "session_ok env s"
    and "send fuel env cb prompt limit s = Some (s', r)"
  shows "session_ok env s' \<and> (\<exists>ms. hist s' = hist s @ ms)"
  by (rule send_session [OF assms])

theorem send_is_transactional_witness:
  "\<exists>s' r. demo_run = Some (s', r) \<and> session_ok demo_env s' \<and> (\<exists>ms. hist s' = hist demo_session @ ms)"
proof -
  obtain s' r where d: "demo_run = Some (s', r)" using demo_run_result by auto
  show ?thesis
    using send_is_transactional [OF demo_host demo_session_ok d [unfolded demo_run_def]] d by blast
qed

text \<open>C19: A prompt that returns a reply was nonempty text, and the history grew by the message of
  that prompt, under the next prompt identifier, followed by valid messages.\<close>

theorem reply_extends_history:
  assumes "host_ok env" "callbacks_ok env cb" "session_ok env s"
    and "send fuel env cb prompt limit s = Some (s', Inr reply)"
  shows "\<exists>p ms. prompt = VStr p \<and> \<not> blank p \<and> list_all message_ok ms \<and>
    hist s' = hist s @ prompt_message (next_prompt s) p # ms"
  by (rule send_extends [OF assms])

theorem reply_extends_history_witness:
  "\<exists>s' reply p ms. demo_run = Some (s', Inr reply) \<and> list_all message_ok ms \<and>
     hist s' = hist demo_session @ prompt_message 1 p # ms"
proof -
  obtain s' where d: "demo_run = Some (s', Inr (ustr ''ok''))" using demo_run_result by auto
  have n: "next_prompt demo_session = 1" by (simp add: demo_session_def)
  show ?thesis
    using reply_extends_history [OF demo_host demo_session_ok d [unfolded demo_run_def]] d n by auto
qed

text \<open>C20: With a step limit, fuel for that many iterations is enough: \<open>send\<close> always returns or
  raises, whatever the environment does.\<close>

theorem limited_send_ends:
  assumes "limit = VInt m" "m \<le> int fuel"
  shows "\<exists>out. send fuel env cb prompt limit s = Some out"
  by (rule send_total [OF assms])

theorem limited_send_ends_witness:
  "\<exists>out. send 3 demo_env demo_callbacks (VStr (ustr ''hi'')) (VInt 3) demo_session = Some out"
  by (rule limited_send_ends [of _ 3]) simp_all

text \<open>C2: A session is idle, a turn begins, and \<open>send\<close> runs its body until it raises before the commit,
  whatever the host did meanwhile. Rolling back then gives the history the session had before the
  turn began, gives every owner that was not checkpointed during the turn the plugin state it had
  then, closes the turn, and (unless a write failed or the identifiers ran out) leaves the journal
  on the branch it has durably selected, which reads as that history.\<close>

theorem rollback_restores:
  assumes "host_ok env" "callbacks_ok env cb" "session_ok env s"
    and "begin_turn s = (s1, Inr h0)" "send_body fuel env cb p limit s1 = Some (s2, r)"
    and "rollback s2 \<noteq> None"
  shows "hist (roll_back h0 s2) = hist s \<and>
    (\<forall>owner. owner \<notin> checkpoint_owners s2 \<longrightarrow> map_of (pstate (roll_back h0 s2)) owner = map_of (pstate s) owner) \<and>
    rollback (roll_back h0 s2) = None \<and> \<not> turn_open (roll_back h0 s2) \<and> checkpoint_owners (roll_back h0 s2) = {} \<and>
    (case sstore (roll_back h0 s2) of None \<Rightarrow> True | Some st \<Rightarrow> spent env st \<or>
       head st = committed st \<and> branch_history (entries st) (head st) = map message_fields (hist s))"
proof -
  have o1: "open_turn env (hist s) (pstate s) s1" and h0: "h0 = hist s"
    using begin_open [OF assms(3,4)] by simp_all
  from body_result [OF assms(1,2) o1 assms(5)] have o2: "open_turn env (hist s) (pstate s) s2"
    using assms(6) by (auto simp: turn_result_def committed_turn_def rest_def split: sum.splits)
  have "\<forall>owner. owner \<notin> checkpoint_owners s2 \<longrightarrow> map_of (pstate (roll_back h0 s2)) owner = map_of (pstate s) owner"
    using o2 by (auto simp: open_turn_def roll_back_def)
  with roll_back_rest [OF o2] show ?thesis
    unfolding h0 by (auto simp: rest_def store_linked_def split: option.splits)
qed

text \<open>A model that clears the plugin state and then fails.\<close>

definition failing_env :: "unit env" where
  "failing_env = demo_env\<lparr>chat := (\<lambda>_ s. (s\<lparr>pstate := []\<rparr>, raise RuntimeError ''offline''))\<rparr>"

definition stateful_session :: "unit session" where
  "stateful_session = demo_session\<lparr>pstate := [(ustr ''goals'', VNone)]\<rparr>"

definition failed_body :: "(unit session \<times> pystr result) option" where
  "failed_body = send_body 1 failing_env demo_callbacks (ustr ''hi'') (Some 1) (fst (begin_turn stateful_session))"

lemma failing_host: "host_ok failing_env" "callbacks_ok failing_env demo_callbacks"
proof -
  have "hosted failing_env (\<lambda>s. (s\<lparr>pstate := []\<rparr>, raise RuntimeError ''offline'' :: pyval result))"
    by (auto simp: hosted_def json_text_dict_of intro!: r_into_rtranclp host_state)
  then show "host_ok failing_env"
    using demo_settings demo_supplies
    by (simp add: host_ok_def env_ok_def failing_env_def demo_env_def)
  show "callbacks_ok failing_env demo_callbacks"
    by (simp add: callbacks_ok_def demo_callbacks_def)
qed

lemma stateful_session_ok: "session_ok failing_env stateful_session"
proof -
  have "state_json (pstate stateful_session)" unfolding state_json_def by code_simp
  with demo_store show ?thesis
    by (simp add: session_ok_def rest_def idle_def stateful_session_def demo_session_def
        store_linked_def failing_env_def demo_env_def)
qed

lemma failed_body_state:
  "map_option (\<lambda>(s, r). (isl r, rollback s = None, pstate s, length (hist s), ustr ''goals'' \<in> checkpoint_owners s))
     failed_body = Some (True, False, [], 1, False)"
  by code_simp

theorem rollback_restores_witness:
  "\<exists>s2 r. failed_body = Some (s2, Inl r) \<and> pstate s2 = [] \<and> hist s2 \<noteq> [] \<and> hist (roll_back [] s2) = [] \<and>
     map_of (pstate (roll_back [] s2)) (ustr ''goals'') = Some VNone"
proof -
  obtain s2 r0 where f0: "failed_body = Some (s2, r0)" using failed_body_state by (cases failed_body) auto
  note fs = failed_body_state [unfolded f0 option.map prod.case]
  then obtain r where r0: "r0 = Inl r" by (cases r0) simp_all
  from fs have f: "failed_body = Some (s2, Inl r)" "rollback s2 \<noteq> None" "pstate s2 = []"
    "length (hist s2) = 1" "ustr ''goals'' \<notin> checkpoint_owners s2"
    by (simp_all add: f0 r0)
  then have "hist s2 \<noteq> []" by auto
  have b: "begin_turn stateful_session = (fst (begin_turn stateful_session), Inr [])"
    by (simp add: begin_turn_def stateful_session_def demo_session_def)
  note r = rollback_restores [OF failing_host stateful_session_ok b f(1) [unfolded failed_body_def] f(2)]
  have "hist stateful_session = []" "map_of (pstate stateful_session) (ustr ''goals'') = Some VNone"
    by (simp_all add: stateful_session_def demo_session_def)
  with r f \<open>hist s2 \<noteq> []\<close> show ?thesis by auto
qed

definition demo_step :: send_state where
  "demo_step = \<lparr>sprompt = 1, max_steps = None, step = 1\<rparr>"

definition demo_open :: "unit session" where
  "demo_open = fst (begin_turn demo_session)"

lemma demo_open_turn: "open_turn demo_env [] [] demo_open"
  using demo_session_ok
  by (auto simp: demo_open_def begin_turn_def open_turn_def session_ok_def rest_def demo_session_def
      store_linked_def)

text \<open>C3: A checkpoint survives the rollback of the turn it was made in, with the value the owner
  had at the checkpoint, even if its state changed afterwards.\<close>

theorem checkpoint_survives_rollback:
  assumes "rollback s = Some rb" and "checkpoint_owner env owner s = (s', Inr ())"
  shows "map_of (pstate (roll_back h0 (s'\<lparr>pstate := later\<rparr>))) owner = map_of (pstate s) owner"
  using assms by (cases rule: checkpoint_owner_cases [of env owner s]) (auto simp: roll_back_def)

lemma demo_checkpoint: "snd (checkpoint_owner demo_env (ustr ''goals'') demo_open) = Inr ()"
  by code_simp

theorem checkpoint_survives_rollback_witness:
  "\<exists>s'. checkpoint_owner demo_env (ustr ''goals'') demo_open = (s', Inr ()) \<and>
     map_of (pstate (roll_back [] (s'\<lparr>pstate := [(ustr ''goals'', VNone)]\<rparr>))) (ustr ''goals'') =
       map_of (pstate demo_open) (ustr ''goals'')"
proof -
  obtain s' where c: "checkpoint_owner demo_env (ustr ''goals'') demo_open = (s', Inr ())"
    using demo_checkpoint by (cases "checkpoint_owner demo_env (ustr ''goals'') demo_open") auto
  have "rollback demo_open = Some []" by (simp add: demo_open_def begin_turn_def demo_session_def)
  from checkpoint_survives_rollback [OF this c] c show ?thesis by blast
qed

text \<open>C6: In a session that does not approve automatically (\<open>auto_approve\<close> is off; when it is on, tools
  run without asking), an action that passed the guards and whose tool requires approval does not
  run unless the approval callback returns \<open>True\<close>: without a callback, or with any other answer,
  the outcome is the denial; when the callback raises, its exception is the outcome. Either is the
  same for every implementation of the tools.\<close>

theorem unapproved_action_never_runs:
  assumes "guard_action env cb a s = (s1, Inr None)" "tool_of env s1 a = Inr t" "requires_approval t"
    and "\<not> auto_approve env"
    and "approval_callback cb = None \<or> (\<exists>f d s2 v. approval_callback cb = Some f \<and>
        detached_payload a = Inr d \<and> f d s1 = (s2, v) \<and> v \<noteq> Inr (VBool True))"
  shows "\<exists>s2 out. (\<forall>run. decide_action (env\<lparr>execute_tool := run\<rparr>) cb st a s = (s2, out)) \<and>
    out = (case approval_callback cb of None \<Rightarrow> Inr denied_result
      | Some f \<Rightarrow> bindR (detached_payload a) (\<lambda>d. case snd (f d s1) of Inl e \<Rightarrow> Inl e | Inr _ \<Rightarrow> Inr denied_result))"
proof -
  have g: "guard_action (env\<lparr>execute_tool := run\<rparr>) cb a s = (s1, Inr None)" for run
    using assms(1) by (simp add: guard_action_def)
  show ?thesis
  proof (cases "approval_callback cb")
    case None
    then have "approval_denied (env\<lparr>execute_tool := run\<rparr>) cb a s1 = (s1, Inr True)" for run
      using assms(2-4) by (simp add: approval_denied_def tool_of_def)
    with g None show ?thesis by (simp add: decide_action_def bindS_def)
  next
    case (Some f)
    with assms(5) obtain d s2 v where d: "detached_payload a = Inr d" "f d s1 = (s2, v)" "v \<noteq> Inr (VBool True)"
      by auto
    have "approval_denied (env\<lparr>execute_tool := run\<rparr>) cb a s1 =
        (s2, case v of Inl e \<Rightarrow> Inl e | Inr _ \<Rightarrow> Inr True)" for run
      using assms(2-4) Some d by (auto simp: approval_denied_def tool_of_def bindS_def split: sum.splits)
    with g Some d show ?thesis by (cases v) (simp_all add: decide_action_def bindS_def)
  qed
qed

theorem unapproved_action_never_runs_witness:
  "\<exists>s2. \<forall>run. decide_action (demo_env\<lparr>execute_tool := run\<rparr>) demo_callbacks demo_step
     [(ustr ''action'', VStr (ustr ''run''))] demo_open = (s2, Inr denied_result)"
proof -
  let ?a = "[(ustr ''action'', VStr (ustr ''run''))]"
  have g: "guard_action demo_env demo_callbacks ?a demo_open = (demo_open, Inr None)"
    by (simp add: guard_action_def demo_env_def rescueS_def bindS_def)
  have "action_name ?a = Inr (ustr ''run'')" by code_simp
  then have t: "tool_of demo_env demo_open ?a = Inr demo_tool"
    by (simp add: tool_of_def demo_env_def)
  have "requires_approval demo_tool" "\<not> auto_approve demo_env" "approval_callback demo_callbacks = None"
    by (simp_all add: demo_tool_def demo_env_def demo_callbacks_def)
  then show ?thesis
    using unapproved_action_never_runs [OF g t, of demo_step] by auto
qed

text \<open>An action outside the allowed names, outside the core tools during a core review, or
  without a registered tool is answered with a denial that lists the allowed actions, without
  guards, approval or execution.\<close>

theorem disabled_action_is_refused:
  assumes "check_cancel cb s0 = (s, Inr ())" "action_name a = Inr n"
    and "\<not> has_key (tools env s) n \<and> n \<noteq> ustr ''done'' \<or>
      (core_review s \<or> core_editing s) \<and> n \<notin> set core_names \<or>
      (\<exists>ns. allowed_names env = Some ns \<and> n \<notin> set ns)"
  shows "perform_action env cb st a s0 =
    bindS (publish_result env cb st (Some a) (disabled_result env s n)) (\<lambda>_. retS None) s"
proof -
  have "\<not> action_allowed env s n" using assms(3) by (auto simp: action_allowed_def)
  from execute_only_when_allowed [OF this assms(2,1)] show ?thesis .
qed

theorem disabled_action_is_refused_witness:
  "perform_action demo_env demo_callbacks demo_step [(ustr ''action'', VStr (ustr ''rm''))] demo_open =
   bindS (publish_result demo_env demo_callbacks demo_step (Some [(ustr ''action'', VStr (ustr ''rm''))])
     (disabled_result demo_env demo_open (ustr ''rm''))) (\<lambda>_. retS None) demo_open"
proof (rule disabled_action_is_refused)
  show "check_cancel demo_callbacks demo_open = (demo_open, Inr ())"
    by (simp add: check_cancel_def demo_callbacks_def)
  show "action_name [(ustr ''action'', VStr (ustr ''rm''))] = Inr (ustr ''rm'')" by code_simp
qed (simp add: demo_env_def has_key_def keys_def)

text \<open>C21: Let a prompt end in any way (a reply, an error, a cancellation). If no write to the journal
  failed and its identifiers have not run out, then after a crash at any moment since the last
  successful \<open>fsync\<close>, while the session is idle again, the journal reopens, and the document it
  holds is the history of before followed by the messages this prompt added, with some plugin state.\<close>

theorem crash_keeps_conversation:
  assumes "host_ok env" "callbacks_ok env cb" "session_ok env s"
    and "send fuel env cb prompt limit s = Some (s', r)"
    and "sstore s' = Some st" "\<not> spent env st" "img \<in> set (images st)"
  shows "\<exists>ms st' v. hist s' = hist s @ ms \<and>
    open_store (storage_cfg env) True (session_id st) (workspace st) (Some img) n [] = Inr st' \<and>
    stored_document st' = Inr (conversation (hist s @ ms) v)"
proof -
  obtain ms where ok': "session_ok env s'" and ms: "hist s' = hist s @ ms"
    using send_session [OF assms(1-4)] by blast
  have ok: "store_ok (storage_cfg env) (uuids env) st"
    and h: "branch_history (entries st) (committed st) = map message_fields (hist s @ ms)"
    using ok' assms(5,6) by (auto simp: ms [symmetric] session_ok_def rest_def store_linked_def)
  from reopen_ok [OF ok assms(7)] obtain st' where
    o: "open_store (storage_cfg env) True (session_id st) (workspace st) (Some img) n [] = Inr st'"
      "snapshot None st' = snapshot None st" by blast
  with stored_conversation [OF ok h] ms show ?thesis by (auto simp: stored_document_def)
qed

definition sent_store :: "(unit session \<times> pystr result) option \<Rightarrow> store" where
  "sent_store out = the (sstore (fst (the out)))"

lemma demo_sent_store:
  "map_option (\<lambda>(s, r). Option.is_none (sstore s)) demo_run = Some False"
  "images (sent_store demo_run) \<noteq> []" "serial (sent_store demo_run) < id_space demo_cfg" "\<not> failed (sent_store demo_run)"
  by code_simp+

theorem crash_keeps_conversation_witness:
  "\<exists>ms st' v. open_store demo_cfg True (session_id (sent_store demo_run)) (workspace (sent_store demo_run))
     (Some (hd (images (sent_store demo_run)))) 1 [] = Inr st' \<and> stored_document st' = Inr (conversation ms v)"
proof -
  obtain s' r where d: "demo_run = Some (s', r)" using demo_run_result by auto
  let ?st = "sent_store demo_run"
  have st: "sstore s' = Some ?st" using demo_sent_store(1) by (simp add: d sent_store_def Option.is_none_def)
  have sp: "\<not> spent demo_env ?st" using demo_sent_store(3,4) by (simp add: spent_def demo_env_def)
  have im: "hd (images ?st) \<in> set (images ?st)" using demo_sent_store(2) by simp
  have cfg: "storage_cfg demo_env = demo_cfg" by (simp add: demo_env_def)
  from crash_keeps_conversation [OF demo_host demo_session_ok d [unfolded demo_run_def] st sp im, of 1, unfolded cfg]
  show ?thesis by blast
qed

text \<open>C22: The document of a conversation reads back as the same messages and plugin state.\<close>

theorem conversation_reads_back:
  assumes "list_all message_ok ms" "list_all (\<lambda>(i, v). \<exists>fs. v = dict_of fs) os"
    and "dumpable (dict_of os) = Inr ()"
  shows "snapshot_parts (conversation ms (dict_of os)) = Inr (ms, os)"
  by (simp add: snapshot_parts_def read_conversation [OF assms])

theorem conversation_reads_back_witness:
  "snapshot_parts (conversation [prompt_message 1 (ustr ''hi'')] (dict_of [(ustr ''goals'', dict_of [])])) =
     Inr ([prompt_message 1 (ustr ''hi'')], [(ustr ''goals'', dict_of [])])"
proof (rule conversation_reads_back)
  show "list_all message_ok [prompt_message 1 (ustr ''hi'')]" by code_simp
  show "dumpable (dict_of [(ustr ''goals'', dict_of [])]) = Inr ()" by code_simp
qed auto

end
