(* ===== verification/Goal_Commands.thy ===== *)
theory Goal_Commands
  imports Validation
begin

text \<open>
  \<open>plugins/goals/commands.py\<close>: the \<open>/goal\<close> command line, from text to a \<open>GoalCommand\<close>. The
  splitting is \<open>shlex.split(text, posix=False)\<close> of the standard library, written out: blanks
  separate tokens, a token that begins with a quote runs to the closing quote and keeps both,
  a quote inside a word is an ordinary character. \<open>goal_limit\<close> is the setting
  \<open>max_goal_chars\<close>.
\<close>

record goal_command =
  mode :: pystr
  goal_objective :: "pystr option"
  goal_judge :: "pystr option"

section \<open>Tokens\<close>

definition shell_blank :: "int \<Rightarrow> bool" where
  "shell_blank c \<longleftrightarrow> c \<in> set [32, 9, 13, 10]"

definition shell_quote :: "int \<Rightarrow> bool" where
  "shell_quote c \<longleftrightarrow> c = 34 \<or> c = 39"

fun split_between :: "pystr \<Rightarrow> pystr list result"
  and split_quoted :: "int \<Rightarrow> pystr \<Rightarrow> pystr \<Rightarrow> pystr list result"
  and split_word :: "pystr \<Rightarrow> pystr \<Rightarrow> pystr list result" where
  "split_between [] = Inr []"
| "split_between (c # s) =
     (if shell_blank c then split_between s
      else if shell_quote c then split_quoted c [c] s
      else split_word [c] s)"
| "split_quoted q token [] = raise ValueError ''No closing quotation''"
| "split_quoted q token (c # s) =
     (if c = q then bindR (split_between s) (\<lambda>ts. Inr ((token @ [c]) # ts))
      else split_quoted q (token @ [c]) s)"
| "split_word token [] = Inr [token]"
| "split_word token (c # s) =
     (if shell_blank c then bindR (split_between s) (\<lambda>ts. Inr (token # ts))
      else split_word (token @ [c]) s)"

definition shlex_split :: "pystr \<Rightarrow> pystr list result" where
  "shlex_split s = split_between s"

definition unquote :: "pystr \<Rightarrow> pystr" where
  "unquote s = (if 2 \<le> length s \<and> hd s = last s \<and> shell_quote (hd s)
     then butlast (tl s) else s)"

text \<open>
  \<open>str.casefold\<close> as far as the comparison with \<open>off\<close> and \<open>clear\<close> can tell: the ASCII capitals
  and the ligature \<open>ff\<close> are the only other code points whose folding is a part of one of them.
\<close>

definition fold_case :: "pystr \<Rightarrow> pystr" where
  "fold_case s = concat (map (\<lambda>c. if 65 \<le> c \<and> c \<le> 90 then [c + 32]
     else if c = 64256 then [102, 102] else [c]) s)"

section \<open>Commands\<close>

fun set_arguments :: "pystr option \<Rightarrow> pystr list \<Rightarrow> pystr list \<Rightarrow> (pystr option \<times> pystr list) result" where
  "set_arguments profile parts [] = Inr (profile, parts)"
| "set_arguments profile parts (a # rest) =
     (if a = ustr ''--judge'' then
        (case rest of
           [] \<Rightarrow> raise ValueError ''Use --judge exactly once followed by a profile.''
         | p # rest' \<Rightarrow>
             if profile \<noteq> None then raise ValueError ''Use --judge exactly once followed by a profile.''
             else set_arguments (Some p) parts rest')
      else if startswith a (ustr ''--judge='') then
        (if profile \<noteq> None \<or> a = ustr ''--judge=''
         then raise ValueError ''Use --judge exactly once with a profile.''
         else let p = unquote (removeprefix a (ustr ''--judge=''))
              in if p = [] then raise ValueError ''Use --judge exactly once with a profile.''
                 else set_arguments (Some p) parts rest)
      else if startswith a (ustr ''--'') then raise_text ValueError (ustr ''Unknown /goal option: '' @ a)
      else set_arguments profile (parts @ [a]) rest)"

definition set_command :: "nat \<Rightarrow> pystr list \<Rightarrow> goal_command result" where
  "set_command goal_limit arguments =
     bindR (set_arguments None [] (tl arguments)) (\<lambda>(profile, parts).
     let objective = strip (join (ustr '' '') parts)
     in if objective = [] \<or> goal_limit < length objective
        then raise_text ValueError (ustr ''Goal must contain 1-'' @ str_int (int goal_limit) @ ustr '' characters.'')
        else Inr \<lparr>mode = ustr ''set'', goal_objective = Some objective, goal_judge = profile\<rparr>)"

definition command_text :: "pyval \<Rightarrow> pystr result" where
  "command_text v = (case v of VStr s \<Rightarrow> Inr s | _ \<Rightarrow> raise ValueError ''Goal command must be text.'')"

definition plain_command :: "string \<Rightarrow> goal_command" where
  "plain_command m = \<lparr>mode = ustr m, goal_objective = None, goal_judge = None\<rparr>"

definition parse_goal_command :: "nat \<Rightarrow> pyval \<Rightarrow> goal_command result" where
  "parse_goal_command goal_limit v =
     bindR (command_text v) (\<lambda>text.
     bindR (rescue [ValueError] (\<lambda>e. raise_text ValueError (ustr ''Invalid /goal command: '' @ exn_text e))
       (shlex_split text)) (\<lambda>raw.
     let arguments = map unquote raw
     in if arguments = [] \<or> hd arguments \<noteq> ustr ''/goal''
        then raise ValueError ''Expected a /goal command.''
        else if length arguments = 1 then Inr (plain_command ''show'')
        else if length arguments = 2 \<and> fold_case (arguments ! 1) \<in> set [ustr ''off'', ustr ''clear'']
        then Inr (plain_command ''clear'')
        else set_command goal_limit arguments))"

section \<open>Tokens of a plain command line\<close>

text \<open>A word the splitter leaves alone: no blank in it and no quote in front.\<close>

definition plain_word :: "pystr \<Rightarrow> bool" where
  "plain_word w \<longleftrightarrow> w \<noteq> [] \<and> \<not> shell_quote (hd w) \<and> list_all (\<lambda>c. \<not> is_space c) w"

lemma shell_blank_space: "shell_blank c \<Longrightarrow> is_space c"
  by (auto simp: shell_blank_def is_space_def py_spaces_def)

lemma split_word_append:
  "list_all (\<lambda>c. \<not> shell_blank c) w \<Longrightarrow> split_word token (w @ s) = split_word (token @ w) s"
  by (induction w arbitrary: token) auto

lemma plain_wordE:
  assumes "plain_word w"
  obtains c r where "w = c # r" "\<not> shell_quote c" "\<not> shell_blank c" "list_all (\<lambda>c. \<not> shell_blank c) r"
  using assms shell_blank_space by (cases w) (auto simp: plain_word_def list_all_iff)

lemma split_plain_last: "plain_word w \<Longrightarrow> split_between w = Inr [w]"
  by (elim plain_wordE) (use split_word_append [of _ _ "[]"] in simp)

lemma split_plain_more:
  "plain_word w \<Longrightarrow> split_between (w @ 32 # s) = bindR (split_between s) (\<lambda>ts. Inr (w # ts))"
  by (elim plain_wordE) (simp add: split_word_append shell_blank_def [of 32])

lemma shlex_split_join: "list_all plain_word ws \<Longrightarrow> shlex_split (join (ustr '' '') ws) = Inr ws"
  by (induction ws rule: induct_list012)
     (simp_all add: shlex_split_def split_plain_last split_plain_more ustr_def)

lemma unquote_plain: "plain_word w \<Longrightarrow> unquote w = w"
  by (auto simp: unquote_def plain_word_def)

lemma set_arguments_words:
  "list_all (\<lambda>w. \<not> startswith w (ustr ''--'')) ws \<Longrightarrow>
     set_arguments profile parts ws = Inr (profile, parts @ ws)"
proof (induction ws arbitrary: parts)
  case (Cons w ws)
  then have no: "\<not> startswith w (ustr ''--'')" by simp
  then have "w \<noteq> ustr ''--judge''" "\<not> startswith w (ustr ''--judge='')"
    using startswith_shorter [of w "ustr ''--''" "ustr ''judge=''"]
    by (auto simp: startswith_def ustr_def take_map)
  with no Cons show ?case by simp
qed simp

section \<open>What a parsed command looks like\<close>

lemma join_plain:
  assumes "list_all plain_word ws" "ws \<noteq> []"
  shows "join sep ws \<noteq> []" "\<not> is_space (hd (join sep ws))" "\<not> is_space (last (join sep ws))"
proof -
  have "join sep ws \<noteq> [] \<and> \<not> is_space (hd (join sep ws)) \<and> \<not> is_space (last (join sep ws))"
    using assms
  proof (induction ws rule: induct_list012)
    case (2 w)
    then show ?case by (auto simp: plain_word_def list_all_iff)
  next
    case (3 w w' ws)
    then have w: "w \<noteq> []" "\<not> is_space (hd w)" by (auto simp: plain_word_def list_all_iff)
    from 3 have "join sep (w' # ws) \<noteq> []" "\<not> is_space (last (join sep (w' # ws)))" by simp_all
    with w show ?case by simp
  qed simp
  then show "join sep ws \<noteq> []" "\<not> is_space (hd (join sep ws))" "\<not> is_space (last (join sep ws))"
    by simp_all
qed

definition command_ok :: "nat \<Rightarrow> goal_command \<Rightarrow> bool" where
  "command_ok goal_limit c \<longleftrightarrow>
     (mode c = ustr ''show'' \<or> mode c = ustr ''clear'') \<and> goal_objective c = None \<and> goal_judge c = None \<or>
     mode c = ustr ''set'' \<and> (\<exists>text. goal_objective c = Some text \<and> text \<noteq> [] \<and>
       strip text = text \<and> length text \<le> goal_limit)"

lemma set_command_ok: "set_command n args = Inr c \<Longrightarrow> command_ok n c"
  by (auto simp: set_command_def command_ok_def bindR_Inr_iff Let_def split: prod.splits if_splits)

lemma parse_goal_command_cases:
  assumes "parse_goal_command n v = Inr c"
  obtains (shown) "c = plain_command ''show''" | (cleared) "c = plain_command ''clear''"
    | (chosen) args where "set_command n args = Inr c"
  using assms by (auto simp: parse_goal_command_def bindR_Inr_iff Let_def split: if_splits)

lemma parse_goal_command_errors: "parse_goal_command n v = Inl e \<Longrightarrow> exn_kind e = ValueError"
proof -
  have args: "set_arguments p ps as = Inl e \<Longrightarrow> exn_kind e = ValueError" for p ps as
    by (induction p ps as rule: set_arguments.induct)
       (auto simp: raise_def raise_text_def Let_def split: if_splits list.splits)
  have split: "split_between s = Inl e \<Longrightarrow> exn_kind e = ValueError"
    "split_quoted q tok s = Inl e \<Longrightarrow> exn_kind e = ValueError"
    "split_word tok s = Inl e \<Longrightarrow> exn_kind e = ValueError" for s q tok
    by (induction s and q tok s and tok s rule: split_between_split_quoted_split_word.induct)
       (auto simp: raise_def bindR_Inl_iff split: if_splits)
  assume "parse_goal_command n v = Inl e"
  then show ?thesis
    using args split(1)
    by (auto simp: parse_goal_command_def command_text_def set_command_def bindR_Inl_iff rescue_def
        shlex_split_def raise_def raise_text_def Let_def
        split: pyval.splits if_splits sum.splits prod.splits)
qed

section \<open>Properties\<close>

text \<open>A goal command built from plain words is read back as written: the profile after
  \<open>--judge\<close>, then the objective with its words one blank apart.\<close>

theorem goal_command_roundtrip:
  assumes "list_all plain_word (p # words)" "list_all (\<lambda>w. \<not> startswith w (ustr ''--'')) words"
    and "words \<noteq> []" "length (join (ustr '' '') words) \<le> n"
  shows "parse_goal_command n (VStr (join (ustr '' '') (ustr ''/goal'' # ustr ''--judge'' # p # words))) =
    Inr \<lparr>mode = ustr ''set'', goal_objective = Some (join (ustr '' '') words), goal_judge = Some p\<rparr>"
proof -
  define ws where "ws = ustr ''/goal'' # ustr ''--judge'' # p # words"
  have all: "list_all plain_word ws"
    using assms(1) by (simp add: ws_def plain_word_def shell_quote_def is_space_def py_spaces_def ustr_def)
  have raw: "map unquote ws = ws"
    using all by (intro map_idI) (auto simp: list_all_iff unquote_plain)
  have "parse_goal_command n (VStr (join (ustr '' '') ws)) = set_command n ws"
    using assms(3) unfolding parse_goal_command_def command_text_def
    by (simp add: shlex_split_join [OF all] raw Let_def)
       (simp add: ws_def)
  moreover
  have join: "join (ustr '' '') words \<noteq> []" "\<not> is_space (hd (join (ustr '' '') words))"
    "\<not> is_space (last (join (ustr '' '') words))"
    using assms(1,3) by (simp_all add: join_plain)
  then have "strip (join (ustr '' '') words) = join (ustr '' '') words"
    by (rule strip_id)
  with assms join(1) have "set_command n ws =
      Inr \<lparr>mode = ustr ''set'', goal_objective = Some (join (ustr '' '') words), goal_judge = Some p\<rparr>"
    by (simp add: ws_def set_command_def set_arguments_words)
  ultimately show ?thesis
    by (simp only: ws_def)
qed

theorem goal_command_roundtrip_witness:
  "parse_goal_command 100 (VStr (ustr ''/goal --judge strict fix the tests'')) =
    Inr \<lparr>mode = ustr ''set'', goal_objective = Some (ustr ''fix the tests''), goal_judge = Some (ustr ''strict'')\<rparr>"
proof -
  let ?words = "[ustr ''fix'', ustr ''the'', ustr ''tests'']"
  have "parse_goal_command 100 (VStr (join (ustr '' '') (ustr ''/goal'' # ustr ''--judge'' # ustr ''strict'' # ?words))) =
    Inr \<lparr>mode = ustr ''set'', goal_objective = Some (join (ustr '' '') ?words), goal_judge = Some (ustr ''strict'')\<rparr>"
    by (rule goal_command_roundtrip) code_simp+
  then show ?thesis by (simp add: ustr_append [symmetric])
qed

end
