(* ===== verification/Goals.thy ===== *)
theory Goals
  imports Goal_Commands Machines
begin

text \<open>
  The goals plugin: \<open>controller.py\<close> (goal state under its lock, retries, the judge-and-continue
  loop), \<open>judge.py\<close> (one review by a fresh model), \<open>configuration.py\<close> and the hooks of
  \<open>registration.py\<close>. Other threads share the controller: \<open>others\<close> lists what they do to it
  before each acquisition of the lock, so a theorem for every \<open>others\<close> holds for every
  interleaving. The session, the judge's model, callbacks, clock and cancellation act on
  \<open>outer\<close>, which a lock section does not touch. Loops run on fuel. Clock readings are exact
  rationals.
\<close>

section \<open>Settings\<close>

record goal_settings =
  retry_initial :: rat
  retry_max :: rat
  retry_poll :: rat
  continue_prompt :: pystr
  judge_instructions :: pystr
  max_goal :: int
  max_feedback :: int
  max_judge_reply :: int
  max_evidence :: int

definition goal_fields :: "pystr list" where
  "goal_fields = map ustr [''retry_initial_seconds'', ''retry_max_seconds'', ''retry_poll_seconds'',
     ''continue_prompt'', ''judge_instructions'', ''max_goal_chars'', ''max_goal_feedback_chars'',
     ''max_goal_judge_reply_chars'', ''max_goal_evidence_bytes'']"

definition positive_number :: "pyval \<Rightarrow> pystr \<Rightarrow> rat result" where
  "positive_number = number_field 0 (ustr ''0.0'')"

definition validate_constraints :: "fields \<Rightarrow> unit result" where
  "validate_constraints goal =
     bindR (positive_number (get goal ''retry_initial_seconds'') (ustr ''goal.retry_initial_seconds'')) (\<lambda>initial.
     bindR (positive_number (get goal ''retry_max_seconds'') (ustr ''goal.retry_max_seconds'')) (\<lambda>maximum.
     bindR (positive_number (get goal ''retry_poll_seconds'') (ustr ''goal.retry_poll_seconds'')) (\<lambda>_.
     if maximum < initial then raise RuntimeError ''goal retry initial seconds cannot exceed its maximum.''
     else bindR (required_text (get goal ''continue_prompt'') (ustr ''goal.continue_prompt'')) (\<lambda>_.
       bindR (required_text (get goal ''judge_instructions'') (ustr ''goal.judge_instructions'')) (\<lambda>_.
       bindR (integer_field (Some 1) (get goal ''max_goal_chars'') (ustr ''goals.max_goal_chars'')) (\<lambda>_.
       bindR (integer_field (Some 1) (get goal ''max_goal_feedback_chars'') (ustr ''goals.max_goal_feedback_chars'')) (\<lambda>_.
       bindR (integer_field (Some 1) (get goal ''max_goal_judge_reply_chars'') (ustr ''goals.max_goal_judge_reply_chars'')) (\<lambda>_.
       bindR (integer_field (Some 1) (get goal ''max_goal_evidence_bytes'') (ustr ''goals.max_goal_evidence_bytes'')) (\<lambda>_.
       Inr ())))))))))"

definition parse_goal_settings :: "(pystr list \<Rightarrow> pystr list \<Rightarrow> pystr) \<Rightarrow> pyval \<Rightarrow> pystr \<Rightarrow> goal_settings result" where
  "parse_goal_settings shown raw path =
     (let place = (\<lambda>name. path @ ustr ''.'' @ ustr name)
      in bindR (settings_fields shown goal_fields [] raw path) (\<lambda>fs.
     bindR (validate_constraints fs) (\<lambda>_.
     bindR (positive_number (get fs ''retry_initial_seconds'') (place ''retry_initial_seconds'')) (\<lambda>initial.
     bindR (positive_number (get fs ''retry_max_seconds'') (place ''retry_max_seconds'')) (\<lambda>maximum.
     bindR (positive_number (get fs ''retry_poll_seconds'') (place ''retry_poll_seconds'')) (\<lambda>poll.
     bindR (required_text (get fs ''continue_prompt'') (place ''continue_prompt'')) (\<lambda>cont.
     bindR (required_text (get fs ''judge_instructions'') (place ''judge_instructions'')) (\<lambda>inst.
     bindR (integer_field (Some 1) (get fs ''max_goal_chars'') (place ''max_goal_chars'')) (\<lambda>goal.
     bindR (integer_field (Some 1) (get fs ''max_goal_feedback_chars'') (place ''max_goal_feedback_chars'')) (\<lambda>feedback.
     bindR (integer_field (Some 1) (get fs ''max_goal_judge_reply_chars'') (place ''max_goal_judge_reply_chars'')) (\<lambda>reply.
     bindR (integer_field (Some 1) (get fs ''max_goal_evidence_bytes'') (place ''max_goal_evidence_bytes'')) (\<lambda>evidence.
     Inr \<lparr>retry_initial = initial, retry_max = maximum, retry_poll = poll, continue_prompt = cont,
       judge_instructions = inst, max_goal = goal, max_feedback = feedback, max_judge_reply = reply,
       max_evidence = evidence\<rparr>))))))))))))"

definition goal_settings_ok :: "goal_settings \<Rightarrow> bool" where
  "goal_settings_ok cfg \<longleftrightarrow> 0 < retry_initial cfg \<and> retry_initial cfg \<le> retry_max cfg \<and>
     0 < retry_poll cfg \<and> continue_prompt cfg \<noteq> [] \<and> judge_instructions cfg \<noteq> [] \<and>
     1 \<le> max_goal cfg \<and> 1 \<le> max_feedback cfg \<and> 1 \<le> max_judge_reply cfg \<and> 1 \<le> max_evidence cfg"

lemma positive_number_same: "positive_number v p = Inr x \<Longrightarrow> positive_number v q = Inr y \<Longrightarrow> x = y"
  by (auto simp: positive_number_def number_field_def Let_def
      split: pyval.splits option.splits pyfloat.splits if_splits)

lemma positive_number_pos: "positive_number v p = Inr x \<Longrightarrow> 0 < x"
  by (auto simp: positive_number_def number_field_def Let_def
      split: pyval.splits option.splits pyfloat.splits if_splits)

lemma parsed_settings_ok:
  assumes "parse_goal_settings shown raw path = Inr cfg"
  shows "goal_settings_ok cfg"
proof -
  obtain fs where fs: "validate_constraints fs = Inr ()"
    "positive_number (get fs ''retry_initial_seconds'') (path @ ustr ''.'' @ ustr ''retry_initial_seconds'') = Inr (retry_initial cfg)"
    "positive_number (get fs ''retry_max_seconds'') (path @ ustr ''.'' @ ustr ''retry_max_seconds'') = Inr (retry_max cfg)"
    "positive_number (get fs ''retry_poll_seconds'') (path @ ustr ''.'' @ ustr ''retry_poll_seconds'') = Inr (retry_poll cfg)"
    and rest: "continue_prompt cfg \<noteq> []" "judge_instructions cfg \<noteq> []" "1 \<le> max_goal cfg"
    "1 \<le> max_feedback cfg" "1 \<le> max_judge_reply cfg" "1 \<le> max_evidence cfg"
    using assms by (auto simp: parse_goal_settings_def Let_def bindR_Inr_iff required_text_Inr_iff integer_field_Inr_iff)
  from fs(1) obtain x y where "y \<ge> x"
    "positive_number (get fs ''retry_initial_seconds'') (ustr ''goal.retry_initial_seconds'') = Inr x"
    "positive_number (get fs ''retry_max_seconds'') (ustr ''goal.retry_max_seconds'') = Inr y"
    by (auto simp: validate_constraints_def bindR_Inr_iff split: if_splits)
  with fs(2,3) have "retry_initial cfg \<le> retry_max cfg"
    using positive_number_same [OF fs(2)] positive_number_same [OF fs(3)] by blast
  with fs rest show ?thesis
    by (simp add: goal_settings_ok_def positive_number_pos [OF fs(2)] positive_number_pos [OF fs(4)])
qed

section \<open>Goal state\<close>

record goal_status =
  objective :: pystr
  judge_profile :: "pystr option"
  goal_revision :: int

record controller =
  active :: "goal_status option"
  revision :: int

definition new_controller :: controller where
  "new_controller = \<lparr>active = None, revision = 0\<rparr>"

text \<open>The sections the lock protects: each reads and writes the state in one step.\<close>

definition publish_goal :: "pystr \<Rightarrow> pystr option \<Rightarrow> controller \<Rightarrow> controller \<times> goal_status" where
  "publish_goal text profile c =
     (let n = revision c + 1;
          g = \<lparr>objective = strip text, judge_profile = profile, goal_revision = n\<rparr>
      in (\<lparr>active = Some g, revision = n\<rparr>, g))"

definition clear_goal :: "controller \<Rightarrow> controller \<times> bool" where
  "clear_goal c = (\<lparr>active = None, revision = revision c + 1\<rparr>, active c \<noteq> None)"

definition goal_now :: "controller \<Rightarrow> controller \<times> goal_status option" where
  "goal_now c = (c, active c)"

datatype review_outcome = Cleared | Changed | Complete | Continue_Goal

record goal_decision =
  complete :: bool
  feedback :: pystr
  profile_name :: pystr
  profile_model :: pystr

definition accept_decision :: "goal_status \<Rightarrow> goal_decision \<Rightarrow> controller \<Rightarrow> controller \<times> review_outcome" where
  "accept_decision reviewed d c = (case active c of
       None \<Rightarrow> (c, Cleared)
     | Some latest \<Rightarrow>
         if goal_revision latest \<noteq> goal_revision reviewed then (c, Changed)
         else if complete d then (c\<lparr>active := None\<rparr>, Complete)
         else (c, Continue_Goal))"

text \<open>What another thread can do to the controller in one lock section.\<close>

datatype goal_op = SetGoal pystr "pystr option" | ClearGoal | SettleGoal goal_status goal_decision

fun goal_step :: "goal_op \<Rightarrow> controller \<Rightarrow> controller" where
  "goal_step (SetGoal text profile) c = fst (publish_goal text profile c)"
| "goal_step ClearGoal c = fst (clear_goal c)"
| "goal_step (SettleGoal g d) c = fst (accept_decision g d c)"

section \<open>One run and its surroundings\<close>

record 'w outer =
  final_done :: "fields option"
  gworld :: 'w

record 'w goal_run =
  control :: controller
  others :: "goal_op list list"
  outer :: "'w outer"

record judge_model =
  jname :: pystr
  jmodel :: pystr
  jrole :: "pystr option"
  jprocess :: bool

datatype reply = Text pystr | Continuation pystr

type_synonym chat_messages = "(pystr \<times> pystr) list"

record 'w goal_env =
  settings :: goal_settings
  instruction_roles :: "pystr list"
  default_role :: pystr
  primary_profile :: pystr
  resolve :: "'w \<Rightarrow> pystr \<Rightarrow> judge_model result"
  run_process :: "judge_model \<Rightarrow> chat_messages \<Rightarrow> ('w, pyval) eff"
  call_chat :: "judge_model \<Rightarrow> chat_messages \<Rightarrow> ('w, pyval) eff"
  json_text_parse :: "pystr \<Rightarrow> rawjson result"
  exception_attr :: "exn \<Rightarrow> string \<Rightarrow> pyval"
  transcript :: "('w, (pystr \<times> pystr) list list) eff"
  session_send :: "(pystr \<Rightarrow> fields \<Rightarrow> ('w outer, unit) eff) \<Rightarrow> pystr \<Rightarrow> ('w outer, reply) eff"
  goal_callback :: "(pystr \<Rightarrow> fields \<Rightarrow> ('w, unit) eff) option"
  goal_cancel :: "('w, unit) eff option"
  monotonic :: "'w \<Rightarrow> 'w \<times> rat"
  sleep :: "rat \<Rightarrow> ('w, unit) eff"

definition on_world :: "('w, 'a) eff \<Rightarrow> ('w outer, 'a) eff" where
  "on_world m x = (case m (gworld x) of (w, r) \<Rightarrow> (x\<lparr>gworld := w\<rparr>, r))"

definition outside :: "('w outer, 'a) eff \<Rightarrow> ('w goal_run, 'a) eff" where
  "outside m s = (case m (outer s) of (x, r) \<Rightarrow> (s\<lparr>outer := x\<rparr>, r))"

definition in_world :: "('w, 'a) eff \<Rightarrow> ('w goal_run, 'a) eff" where
  "in_world m = outside (on_world m)"

definition run_others :: "goal_op list \<Rightarrow> controller \<Rightarrow> controller" where
  "run_others ops c = run_ops goal_step ops c"

text \<open>\<open>with self._lock: ...\<close>, after whatever the other threads did before it was free.\<close>

definition locked :: "(controller \<Rightarrow> controller \<times> 'a) \<Rightarrow> ('w goal_run, 'a) eff" where
  "locked section s =
     (let c = (case others s of [] \<Rightarrow> control s | ops # _ \<Rightarrow> run_others ops (control s))
      in case section c of (c', x) \<Rightarrow> (s\<lparr>control := c', others := tl (others s)\<rparr>, Inr x))"

definition callback :: "'w goal_env \<Rightarrow> pystr \<Rightarrow> fields \<Rightarrow> ('w, unit) eff" where
  "callback env kind payload = (case goal_callback env of None \<Rightarrow> retS () | Some f \<Rightarrow> f kind payload)"

definition cancel_now :: "'w goal_env \<Rightarrow> ('w, unit) eff" where
  "cancel_now env = (case goal_cancel env of None \<Rightarrow> retS () | Some check \<Rightarrow> check)"

section \<open>Operations of the controller\<close>

definition resolve_judge :: "'w goal_env \<Rightarrow> pystr option \<Rightarrow> ('w, judge_model) eff" where
  "resolve_judge env profile w =
     (w, resolve env w (case profile of Some p \<Rightarrow> p | None \<Rightarrow> primary_profile env))"

definition check_objective :: "goal_settings \<Rightarrow> pyval \<Rightarrow> pystr result" where
  "check_objective cfg v = (case v of
      VStr text \<Rightarrow>
        if blank text then raise ValueError ''Goal must be nonempty text.''
        else if \<not> utf8_encodable text then raise ValueError ''Goal must be valid Unicode text.''
        else if max_goal cfg < int (length text)
          then raise_text ValueError (ustr ''Goal exceeds '' @ str_int (max_goal cfg) @ ustr '' characters.'')
        else Inr text
    | _ \<Rightarrow> raise ValueError ''Goal must be nonempty text.'')"

definition configure :: "'w goal_env \<Rightarrow> pyval \<Rightarrow> pystr option \<Rightarrow> ('w goal_run, goal_status) eff" where
  "configure env v profile =
     bindS (in_world (resolve_judge env profile)) (\<lambda>_.
     bindS (liftR (check_objective (settings env) v)) (\<lambda>text.
     locked (publish_goal text profile)))"

definition text_or :: "pystr option \<Rightarrow> pystr \<Rightarrow> pystr" where
  "text_or t alternative = (case t of Some s \<Rightarrow> if s = [] then alternative else s | None \<Rightarrow> alternative)"

definition judge_shown :: "'w goal_env \<Rightarrow> string \<Rightarrow> goal_status \<Rightarrow> pystr" where
  "judge_shown env label g = ustr label @ ustr '' ('' @ text_or (judge_profile g) (primary_profile env) @
     ustr ''): '' @ objective g"

definition apply_command :: "'w goal_env \<Rightarrow> goal_command \<Rightarrow> ('w goal_run, pystr) eff" where
  "apply_command env command =
     (if mode command = ustr ''show'' then
        bindS (locked goal_now) (\<lambda>current. retS (case current of
            None \<Rightarrow> ustr ''No active goal. Use /goal [--judge PROFILE] OBJECTIVE.''
          | Some g \<Rightarrow> judge_shown env ''Active goal'' g))
      else if mode command = ustr ''clear'' then
        bindS (locked clear_goal) (\<lambda>_. retS (ustr ''Goal cleared.''))
      else if mode command = ustr ''set'' \<and> goal_objective command \<noteq> None then
        bindS (configure env (VStr (the (goal_objective command))) (goal_judge command))
          (\<lambda>g. retS (judge_shown env ''Goal set'' g))
      else liftR (raise ValueError ''Invalid goal command mode.''))"

section \<open>Retries\<close>

text \<open>\<open>getattr(error, name, None)\<close>; a malformed judge reply carries its two class attributes.\<close>

definition exception_field :: "'w goal_env \<Rightarrow> exn \<Rightarrow> string \<Rightarrow> pyval" where
  "exception_field env e name =
     (if exn_kind e = GoalJudgeResponseError \<and> name = ''retryable'' then VBool True
      else if exn_kind e = GoalJudgeResponseError \<and> name = ''retry_after'' then VNone
      else exception_attr env e name)"

definition is_retryable :: "'w goal_env \<Rightarrow> exn \<Rightarrow> bool" where
  "is_retryable env e \<longleftrightarrow>
     caught_by [TimeoutError, ConnectionError] e \<or> exception_field env e ''retryable'' = VBool True"

text \<open>\<open>math.ldexp\<close> of a positive float: exact, or \<open>OverflowError\<close>.\<close>

definition ldexp :: "rat \<Rightarrow> nat \<Rightarrow> rat result" where
  "ldexp x e = (if x * 2 ^ e < 2 ^ 1024 then Inr (x * 2 ^ e) else raise OverflowError ''math range error'')"

definition backoff :: "goal_settings \<Rightarrow> int \<Rightarrow> rat result" where
  "backoff cfg attempt =
     bindR (ldexp (retry_initial cfg) (nat (min (max 0 (attempt - 1)) 6))) (\<lambda>d. Inr (min (retry_max cfg) d))"

definition retry_delay :: "'w goal_env \<Rightarrow> exn \<Rightarrow> int \<Rightarrow> rat result" where
  "retry_delay env e attempt = (case exception_field env e ''retry_after'' of
      VInt i \<Rightarrow> (case float_of_int i of
          None \<Rightarrow> raise OverflowError ''int too large to convert to float''
        | Some x \<Rightarrow> if 0 \<le> i then Inr (min (retry_max (settings env)) x) else backoff (settings env) attempt)
    | VFloat (Fin x) \<Rightarrow> if 0 \<le> x then Inr (min (retry_max (settings env)) x) else backoff (settings env) attempt
    | _ \<Rightarrow> backoff (settings env) attempt)"

fun wait_loop :: "nat \<Rightarrow> 'w goal_env \<Rightarrow> rat \<Rightarrow> int option \<Rightarrow> ('w goal_run, bool) loop" where
  "wait_loop 0 env deadline expected = (\<lambda>_. None)"
| "wait_loop (Suc n) env deadline expected =
     bindL (onceL (in_world (cancel_now env))) (\<lambda>_.
     bindL (onceL (locked goal_now)) (\<lambda>current.
     if current = None \<or> (expected \<noteq> None \<and> Some (goal_revision (the current)) \<noteq> expected)
     then onceL (retS False)
     else bindL (onceL (in_world (\<lambda>w. case monotonic env w of (w', t) \<Rightarrow> (w', Inr t)))) (\<lambda>now.
       if deadline - now \<le> 0 then onceL (retS True)
       else bindL (onceL (in_world (sleep env (min (retry_poll (settings env)) (deadline - now)))))
         (\<lambda>_. wait_loop n env deadline expected))))"

definition wait_for_retry :: "nat \<Rightarrow> 'w goal_env \<Rightarrow> rat \<Rightarrow> int option \<Rightarrow> ('w goal_run, bool) loop" where
  "wait_for_retry n env delay expected =
     bindL (onceL (in_world (\<lambda>w. case monotonic env w of (w', t) \<Rightarrow> (w', Inr t))))
       (\<lambda>now. wait_loop n env (now + delay) expected)"

section \<open>The judge\<close>

text \<open>
  \<open>json.dumps(evidence, ensure_ascii=False, separators=(",", ":"))\<close> of text and of lists and
  dictionaries of text: the standard encoder escapes the quote, the backslash and the control
  characters below blank, five of them by letter.
\<close>

definition hex_digit :: "int \<Rightarrow> int" where
  "hex_digit d = (if d < 10 then 48 + d else 87 + d)"

definition json_char :: "int \<Rightarrow> pystr" where
  "json_char c =
     (if c = 34 then [92, 34] else if c = 92 then [92, 92]
      else if c = 10 then [92, 110] else if c = 13 then [92, 114] else if c = 9 then [92, 116]
      else if c = 8 then [92, 98] else if c = 12 then [92, 102]
      else if 0 \<le> c \<and> c < 32 then [92, 117, 48, 48] @ [hex_digit (c div 16), hex_digit (c mod 16)]
      else [c])"

definition json_string :: "pystr \<Rightarrow> pystr" where
  "json_string s = [34] @ concat (map json_char s) @ [34]"

definition json_dict :: "(pystr \<times> pystr) list \<Rightarrow> pystr" where
  "json_dict d = ustr ''{'' @ join (ustr '','') (map (\<lambda>(k, v). json_string k @ ustr '':'' @ v) d) @ ustr ''}''"

definition json_list :: "pystr list \<Rightarrow> pystr" where
  "json_list xs = ustr ''['' @ join (ustr '','') xs @ ustr '']''"

definition evidence :: "pystr \<Rightarrow> (pystr \<times> pystr) list list \<Rightarrow> pystr" where
  "evidence goal messages = json_dict
     [(ustr ''goal'', json_string goal),
      (ustr ''transcript'', json_list (map (\<lambda>m. json_dict (map (\<lambda>(k, v). (k, json_string v)) m)) messages))]"

definition utf8_size :: "pystr \<Rightarrow> nat result" where
  "utf8_size s = (if utf8_encodable s then Inr (sum_list (map utf8_len s))
     else raise UnicodeError ''surrogates not allowed'')"

definition judge_request :: "'w goal_env \<Rightarrow> judge_model \<Rightarrow> pystr \<Rightarrow> chat_messages" where
  "judge_request env profile payload =
     (let role = text_or (jrole profile) (default_role env); inst = judge_instructions (settings env)
      in if role = ustr ''user''
         then [(ustr ''user'', inst @ [10] @ ustr ''--- GOAL EVIDENCE ---'' @ [10] @ payload)]
         else [(role, inst), (ustr ''user'', payload)])"

definition judge_error :: "pystr \<Rightarrow> 'a result" where
  "judge_error m = raise_text GoalJudgeResponseError m"

definition parse_decision :: "'w goal_env \<Rightarrow> pyval \<Rightarrow> judge_model \<Rightarrow> goal_decision result" where
  "parse_decision env answer profile = (case answer of
      VStr text \<Rightarrow>
        if max_judge_reply (settings env) < int (length text)
        then judge_error (ustr ''Goal judge response must be text.'')
        else if \<not> utf8_encodable text
        then judge_error (ustr ''Goal judge response must be valid Unicode text.'')
        else bindR (rescue [ConfigurationError, RecursionError, TypeError, ValueError]
            (\<lambda>e. judge_error (ustr ''Invalid goal judge response: '' @ exn_text e))
            (bindR (json_text_parse env text) (\<lambda>tree. bindR (json_object tree)
              (\<lambda>v. object_field v (ustr ''goal judge response''))))) (\<lambda>value.
          if set (keys value) \<noteq> {ustr ''decision'', ustr ''feedback''}
          then judge_error (ustr ''Goal judge must return only decision and feedback.'')
          else let decision = get value ''decision''; words = get value ''feedback''
            in if decision \<noteq> VStr (ustr ''continue'') \<and> decision \<noteq> VStr (ustr ''complete'')
               then judge_error (ustr ''Goal judge decision must be continue or complete.'')
               else if \<not> is_text words \<or> blank (the_text words) \<or>
                   max_feedback (settings env) < int (length (the_text words))
               then judge_error (ustr ''Goal judge feedback must contain 1-'' @
                   str_int (max_feedback (settings env)) @ ustr '' characters.'')
               else Inr \<lparr>complete = (decision = VStr (ustr ''complete'')), feedback = the_text words,
                   profile_name = jname profile, profile_model = jmodel profile\<rparr>)
    | _ \<Rightarrow> judge_error (ustr ''Goal judge response must be text.''))"

definition decide :: "'w goal_env \<Rightarrow> pystr \<Rightarrow> (pystr \<times> pystr) list list \<Rightarrow> pystr option \<Rightarrow> ('w, goal_decision) eff" where
  "decide env goal messages chosen =
     bindS (cancel_now env) (\<lambda>_.
     bindS (resolve_judge env chosen) (\<lambda>profile.
     let payload = evidence goal messages in
     bindS (liftR (utf8_size payload)) (\<lambda>size.
     if max_evidence (settings env) < int size
     then liftR (raise ValueError (''The complete goal transcript exceeds the judge evidence limit; '' @
       ''clear the conversation before starting another goal.''))
     else let request = judge_request env profile payload in
       bindS (if jprocess profile then run_process env profile request else call_chat env profile request) (\<lambda>answer.
       bindS (cancel_now env) (\<lambda>_. liftR (parse_decision env answer profile))))))"

section \<open>Running a prompt toward the goal\<close>

definition filtered_event :: "'w goal_env \<Rightarrow> pystr \<Rightarrow> fields \<Rightarrow> ('w outer, unit) eff" where
  "filtered_event env kind payload =
     (if kind = ustr ''done'' then modS (\<lambda>x. x\<lparr>final_done := Some payload\<rparr>)
      else on_world (callback env kind payload))"

definition emit_retry :: "'w goal_env \<Rightarrow> string \<Rightarrow> int \<Rightarrow> rat \<Rightarrow> int \<Rightarrow> exn \<Rightarrow> ('w goal_run, unit) eff" where
  "emit_retry env stage attempt delay seen e = in_world (callback env (ustr ''goal_retry'')
     [(ustr ''stage'', VStr (ustr stage)), (ustr ''attempt'', VInt attempt),
      (ustr ''delay_seconds'', VFloat (Fin delay)), (ustr ''revision'', VInt seen),
      (ustr ''error_type'', VStr (ustr (exn_class_name (exn_kind e))))])"

datatype sent = Sent reply | Agent_Failure exn int
datatype judged = Judged goal_decision | Judge_Failure exn

definition send_once :: "'w goal_env \<Rightarrow> pystr \<Rightarrow> ('w goal_run, sent) eff" where
  "send_once env prompt =
     rescueS [Exception] (\<lambda>e. bindS (locked goal_now) (\<lambda>current.
         if current = None \<or> \<not> is_retryable env e then liftR (Inl e)
         else retS (Agent_Failure e (goal_revision (the current)))))
       (bindS (outside (session_send env (filtered_event env) prompt)) (\<lambda>r. retS (Sent r)))"

fun send_goal :: "nat \<Rightarrow> 'w goal_env \<Rightarrow> pystr \<Rightarrow> int \<Rightarrow> ('w goal_run, reply) loop" where
  "send_goal 0 env prompt attempt = (\<lambda>_. None)"
| "send_goal (Suc n) env prompt attempt =
     bindL (onceL (send_once env prompt)) (\<lambda>outcome. case outcome of
         Sent r \<Rightarrow> onceL (retS r)
       | Agent_Failure e seen \<Rightarrow>
           bindL (onceL (liftR (retry_delay env e (attempt + 1)))) (\<lambda>delay.
           bindL (onceL (emit_retry env ''agent'' (attempt + 1) delay seen e)) (\<lambda>_.
           bindL (wait_for_retry n env delay None) (\<lambda>again.
             if again then send_goal n env prompt (attempt + 1) else onceL (liftR (Inl e))))))"

definition review_once :: "'w goal_env \<Rightarrow> goal_status \<Rightarrow> ('w goal_run, judged) eff" where
  "review_once env current =
     rescueS [Exception] (\<lambda>e. bindS (locked goal_now) (\<lambda>latest.
         if latest \<noteq> None \<and> goal_revision (the latest) = goal_revision current \<and> \<not> is_retryable env e
         then liftR (Inl e) else retS (Judge_Failure e)))
       (bindS (in_world (bindS (transcript env)
          (\<lambda>messages. decide env (objective current) messages (judge_profile current))))
         (\<lambda>d. retS (Judged d)))"

datatype review = Review_Cleared | Review_Changed | Decision goal_decision

fun review_goal :: "nat \<Rightarrow> 'w goal_env \<Rightarrow> goal_status \<Rightarrow> int \<Rightarrow> ('w goal_run, review) loop" where
  "review_goal 0 env current attempt = (\<lambda>_. None)"
| "review_goal (Suc n) env current attempt =
     bindL (onceL (review_once env current)) (\<lambda>outcome. case outcome of
         Judged d \<Rightarrow> onceL (retS (Decision d))
       | Judge_Failure e \<Rightarrow> bindL (onceL (locked goal_now)) (\<lambda>latest.
           if latest = None then onceL (retS Review_Cleared)
           else if goal_revision (the latest) \<noteq> goal_revision current then onceL (retS Review_Changed)
           else if \<not> is_retryable env e then onceL (liftR (Inl e))
           else bindL (onceL (liftR (retry_delay env e (attempt + 1)))) (\<lambda>delay.
             bindL (onceL (emit_retry env ''judge'' (attempt + 1) delay (goal_revision current) e)) (\<lambda>_.
             bindL (wait_for_retry n env delay (Some (goal_revision current))) (\<lambda>again.
               if again then review_goal n env current (attempt + 1)
               else onceL (retS Review_Changed))))))"

definition accept_review :: "'w goal_env \<Rightarrow> goal_status \<Rightarrow> goal_decision \<Rightarrow> ('w goal_run, review_outcome) eff" where
  "accept_review env current d =
     bindS (locked goal_now) (\<lambda>latest.
     if latest = None then retS Cleared
     else if goal_revision (the latest) \<noteq> goal_revision current then retS Changed
     else bindS (in_world (callback env (ustr ''goal_judge_decision'')
         [(ustr ''revision'', VInt (goal_revision current)), (ustr ''complete'', VBool (complete d)),
          (ustr ''profile'', VStr (profile_name d)), (ustr ''model'', VStr (profile_model d))]))
       (\<lambda>_. locked (accept_decision current d)))"

definition finish_goal :: "'w goal_env \<Rightarrow> pystr \<Rightarrow> ('w goal_run, reply) eff" where
  "finish_goal env answer = bindS (\<lambda>s. case final_done (outer s) of
       None \<Rightarrow> (s, Inr ())
     | Some payload \<Rightarrow> in_world (callback env (ustr ''done'') payload) s) (\<lambda>_. retS (Text answer))"

fun judge_loop :: "nat \<Rightarrow> 'w goal_env \<Rightarrow> pystr \<Rightarrow> ('w goal_run, reply) loop" where
  "judge_loop 0 env answer = (\<lambda>_. None)"
| "judge_loop (Suc n) env answer =
     bindL (onceL (locked goal_now)) (\<lambda>current. case current of
         None \<Rightarrow> onceL (finish_goal env answer)
       | Some g \<Rightarrow>
           bindL (onceL (in_world (callback env (ustr ''goal_judge_started'')
             [(ustr ''revision'', VInt (goal_revision g)),
              (ustr ''judge_profile'', VStr (text_or (judge_profile g) (primary_profile env)))]))) (\<lambda>_.
           bindL (review_goal n env g 0) (\<lambda>decision. case decision of
               Review_Cleared \<Rightarrow> onceL (finish_goal env answer)
             | Review_Changed \<Rightarrow> judge_loop n env answer
             | Decision d \<Rightarrow> bindL (onceL (accept_review env g d)) (\<lambda>outcome. case outcome of
                   Changed \<Rightarrow> judge_loop n env answer
                 | Cleared \<Rightarrow> onceL (finish_goal env answer)
                 | Complete \<Rightarrow> onceL (finish_goal env answer)
                 | Continue_Goal \<Rightarrow>
                     onceL (retS (Continuation (continue_prompt (settings env) @ feedback d)))))))"

definition run_goal :: "nat \<Rightarrow> 'w goal_env \<Rightarrow> pystr \<Rightarrow> ('w goal_run, reply) loop" where
  "run_goal n env prompt =
     bindL (send_goal n env prompt 0) (\<lambda>r. case r of
         Continuation p \<Rightarrow> onceL (retS (Continuation p))
       | Text answer \<Rightarrow> judge_loop n env answer)"

section \<open>What every interleaving keeps\<close>

text \<open>
  Everything the plugin does to a controller is a sequence of lock sections, its own and those
  of other threads, so what each section keeps, a whole run keeps.
\<close>

locale controller_law =
  fixes law :: "controller \<Rightarrow> bool"
  assumes section_law: "law c \<Longrightarrow> law (goal_step x c)"
begin

lemma others_law: "law c \<Longrightarrow> law (run_others xs c)"
  by (induction xs arbitrary: c) (simp_all add: run_others_def section_law)

lemma locked_law:
  "(\<And>c. law c \<Longrightarrow> law (fst (section c))) \<Longrightarrow> keeps (\<lambda>s :: 'w goal_run. law (control s)) (locked section)"
proof (rule keepsI)
  fix s :: "'w goal_run"
  assume step: "\<And>c. law c \<Longrightarrow> law (fst (section c))" and "law (control s)"
  then have "law (fst (section (case others s of [] \<Rightarrow> control s | ops # _ \<Rightarrow> run_others ops (control s))))"
    by (auto split: list.splits intro: others_law step)
  then show "law (control (fst (locked section s)))"
    by (auto simp: locked_def Let_def case_prod_beta)
qed

lemma sections:
  "keeps (\<lambda>s. law (control s)) (locked goal_now)"
  "keeps (\<lambda>s. law (control s)) (locked clear_goal)"
  "keeps (\<lambda>s. law (control s)) (locked (publish_goal text profile))"
  "keeps (\<lambda>s. law (control s)) (locked (accept_decision g d))"
  using section_law [where x = ClearGoal] section_law [where x = "SetGoal text profile"]
    section_law [where x = "SettleGoal g d"]
  by (auto intro!: locked_law simp: goal_now_def)

lemma outside_law [intro]: "keeps (\<lambda>s. law (control s)) (outside m)"
  "keeps (\<lambda>s. law (control s)) (in_world n)"
  by (auto intro!: keepsI simp: outside_def in_world_def split: prod.splits)

lemma configure_law: "keeps (\<lambda>s. law (control s)) (configure env v profile)"
  unfolding configure_def by (intro keeps_rules sections outside_law)

lemma apply_command_law: "keeps (\<lambda>s. law (control s)) (apply_command env c)"
  unfolding apply_command_def by (intro keeps_rules sections outside_law configure_law)

lemma wait_law: "keepsL (\<lambda>s. law (control s)) (wait_loop n env deadline expected)"
  by (induction n) (auto simp: keepsL_def [of _ "\<lambda>_. None"]
      intro!: keepsL_bind keepsL_once keepsL_if keeps_ret sections outside_law)

lemma wait_for_retry_law: "keepsL (\<lambda>s. law (control s)) (wait_for_retry n env delay expected)"
  unfolding wait_for_retry_def by (intro keepsL_bind keepsL_once outside_law wait_law)

lemma once_laws:
  "keeps (\<lambda>s. law (control s)) (send_once env prompt)"
  "keeps (\<lambda>s. law (control s)) (review_once env g)"
  "keeps (\<lambda>s. law (control s)) (accept_review env g d)"
  "keeps (\<lambda>s. law (control s)) (emit_retry env stage attempt delay seen e)"
  unfolding send_once_def review_once_def accept_review_def emit_retry_def
  by (intro keeps_rules sections outside_law)+

lemma finish_law: "keeps (\<lambda>s. law (control s)) (finish_goal env answer)"
  unfolding finish_goal_def
proof (intro keeps_rules)
  show "keeps (\<lambda>s. law (control s)) (\<lambda>s. case final_done (outer s) of None \<Rightarrow> (s, Inr ())
      | Some payload \<Rightarrow> in_world (callback env (ustr ''done'') payload) s)"
    by (rule keepsI) (auto split: option.splits intro: keepsD [OF outside_law(2)])
qed

lemma send_goal_law: "keepsL (\<lambda>s. law (control s)) (send_goal n env prompt attempt)"
  by (induction n arbitrary: attempt)
     (auto simp: keepsL_def [of _ "\<lambda>_. None"] split: sent.splits
      intro!: keepsL_bind keepsL_once keepsL_if keeps_ret keeps_lift once_laws wait_for_retry_law)

lemma review_goal_law: "keepsL (\<lambda>s. law (control s)) (review_goal n env g attempt)"
  by (induction n arbitrary: attempt)
     (auto simp: keepsL_def [of _ "\<lambda>_. None"] split: judged.splits
      intro!: keepsL_bind keepsL_once keepsL_if keeps_ret keeps_lift sections once_laws wait_for_retry_law)

lemma judge_loop_law: "keepsL (\<lambda>s. law (control s)) (judge_loop n env answer)"
  by (induction n)
     (auto simp: keepsL_def [of _ "\<lambda>_. None"] split: option.splits review.splits review_outcome.splits
      intro!: keepsL_bind keepsL_once keeps_ret sections outside_law once_laws finish_law review_goal_law)

lemma run_goal_law: "keepsL (\<lambda>s. law (control s)) (run_goal n env prompt)"
  unfolding run_goal_def
  by (auto split: reply.splits intro!: keepsL_bind keepsL_once keeps_ret send_goal_law judge_loop_law)

end

section \<open>Revisions\<close>

text \<open>The active goal carries the newest revision and a stripped objective.\<close>

definition controller_ok :: "controller \<Rightarrow> bool" where
  "controller_ok c \<longleftrightarrow> (case active c of None \<Rightarrow> True
     | Some g \<Rightarrow> goal_revision g = revision c \<and> strip (objective g) = objective g)"

text \<open>\<open>later c c'\<close>: the revision has grown, or the goal is the one of \<open>c\<close> or gone.\<close>

definition later :: "controller \<Rightarrow> controller \<Rightarrow> bool" where
  "later c c' \<longleftrightarrow> revision c < revision c' \<or> (revision c = revision c' \<and> active c' \<in> {active c, None})"

lemma later_refl [simp]: "later c c"
  by (simp add: later_def)

lemma later_trans: "later a b \<Longrightarrow> later b c \<Longrightarrow> later a c"
  by (auto simp: later_def)

lemma goal_step_ok: "controller_ok c \<Longrightarrow> controller_ok (goal_step x c)"
  by (cases x) (auto simp: controller_ok_def publish_goal_def clear_goal_def accept_decision_def Let_def
      split: option.splits)

lemma goal_step_later: "later c (goal_step x c)"
  by (cases x) (auto simp: later_def publish_goal_def clear_goal_def accept_decision_def Let_def
      split: option.splits)

interpretation goal_ok: controller_law controller_ok
  by unfold_locales (rule goal_step_ok)

interpretation goal_later: controller_law "later c0" for c0
  by unfold_locales (rule later_trans [OF _ goal_step_later])

text \<open>Two goals of one revision are one goal.\<close>

lemma same_revision_same_goal:
  assumes "later c c'" "active c = Some g" "controller_ok c" "active c' = Some g'" "controller_ok c'"
    "goal_revision g' = goal_revision g"
  shows "g' = g"
  using assms by (auto simp: later_def controller_ok_def)

definition wins :: "nat \<Rightarrow> 'w goal_run \<Rightarrow> controller" where
  "wins k s = run_others (concat (take k (others s))) (control s)"

lemma run_others_append [simp]: "run_others (xs @ ys) c = run_others ys (run_others xs c)"
  by (simp add: run_others_def)

lemma run_others_Nil [simp]: "run_others [] c = c"
  by (simp add: run_others_def)

lemma locked_eq:
  "locked section s = (let c = wins 1 s in
     (s\<lparr>control := fst (section c), others := tl (others s)\<rparr>, Inr (snd (section c))))"
  by (auto simp: locked_def wins_def Let_def case_prod_beta split: list.splits)

lemma locked_now: "locked goal_now s = (s\<lparr>control := wins 1 s, others := tl (others s)\<rparr>, Inr (active (wins 1 s)))"
  by (simp add: locked_eq goal_now_def Let_def)

lemma wins_twice: "wins 1 (s\<lparr>control := wins 1 s, others := tl (others s)\<rparr>) = wins 2 s"
  by (cases "others s"; cases "tl (others s)") (auto simp: wins_def numeral_2_eq_2)

lemma in_world_fields [simp]:
  "control (fst (in_world m s)) = control s" "others (fst (in_world m s)) = others s"
  by (auto simp: in_world_def outside_def split: prod.splits)

text \<open>C28: A review settles only the goal it reviewed. Whatever other threads do while the decision is
  recorded, it completes the goal only when that very goal is still active and the judge found
  it complete; otherwise the decision leaves the goals as the other threads made them.\<close>

theorem review_settles_reviewed_goal:
  assumes "controller_ok c0" "active c0 = Some g" "later c0 (control s)" "controller_ok (control s)"
    and "accept_review env g d s = (s', Inr outcome)"
  shows "\<exists>k\<in>{1, 2}. let now = wins k s in
    if outcome = Complete
    then active now = Some g \<and> complete d \<and> control s' = now\<lparr>active := None\<rparr>
    else control s' = now \<and>
      (outcome = Continue_Goal \<longrightarrow> active now = Some g \<and> \<not> complete d) \<and>
      (outcome = Cleared \<longleftrightarrow> active now = None)"
proof -
  have ok: "controller_ok (wins k s)" "later c0 (wins k s)" for k
    using assms(3,4) by (auto simp: wins_def intro: goal_ok.others_law goal_later.others_law)
  have same: "g' = g" if "active (wins k s) = Some g'" "goal_revision g' = goal_revision g" for k g'
    using same_revision_same_goal [OF ok(2) assms(2,1) that(1) ok(1) that(2)] .
  show ?thesis
  proof (cases "active (wins 1 s)")
    case None
    with assms(5) show ?thesis
      by (intro bexI [of _ 1]) (auto simp: accept_review_def bindS_def locked_now)
  next
    case (Some latest)
    show ?thesis
    proof (cases "goal_revision latest = goal_revision g")
      case False
      with assms(5) Some show ?thesis
        by (intro bexI [of _ 1]) (auto simp: accept_review_def bindS_def locked_now)
    next
      case True
      let ?s1 = "s\<lparr>control := wins 1 s, others := tl (others s)\<rparr>"
      obtain m s2 where m: "in_world m ?s1 = (s2, Inr ())"
        and last: "locked (accept_decision g d) s2 = (s', Inr outcome)"
        using assms(5) Some True
        by (auto simp: accept_review_def bindS_def locked_now split: prod.splits sum.splits)
      have s2: "control s2 = wins 1 s" "others s2 = tl (others s)"
        using in_world_fields [of m ?s1] unfolding m by simp_all
      have "wins 1 s2 = wins 2 s"
        using wins_twice [of s] s2 by (simp add: wins_def)
      with last same [of 2] show ?thesis
        by (intro bexI [of _ 2])
           (auto simp: locked_eq accept_decision_def Let_def split: option.splits if_splits)
    qed
  qed
qed

lemma finish_control: "control (fst (finish_goal env a s)) = control s"
  by (auto simp: finish_goal_def bindS_def split: prod.splits sum.splits option.splits)
     (metis fst_conv in_world_fields(1))+

lemma finish_text: "finish_goal env a s = (s', Inr r) \<Longrightarrow> r = Text a \<and> control s' = control s"
  using finish_control [of env a s] by (auto simp: finish_goal_def bindS_def split: prod.splits sum.splits)

lemma review_cleared: "review_goal n env g k s = Some (s', Inr Review_Cleared) \<Longrightarrow> active (control s') = None"
proof (induction n arbitrary: k s)
  case (Suc n)
  from Suc.prems show ?case
    by (auto elim!: bindL_SomeE split: judged.splits if_splits simp: locked_now) (rule Suc.IH)
qed simp

lemma accept_outcome:
  assumes "accept_review env g d s = (s', Inr outcome)"
  shows "(outcome = Cleared \<or> outcome = Complete \<longrightarrow> active (control s') = None) \<and>
    (outcome = Continue_Goal \<longrightarrow> active (control s') \<noteq> None \<and> \<not> complete d)"
  using assms
  by (auto simp: accept_review_def bindS_def locked_eq goal_now_def accept_decision_def Let_def
      split: prod.splits sum.splits if_splits option.splits)

definition goal_result :: "'w goal_env \<Rightarrow> pystr \<Rightarrow> 'w goal_run \<Rightarrow> reply \<Rightarrow> bool" where
  "goal_result env answer s r \<longleftrightarrow> (case r of
      Text a \<Rightarrow> a = answer \<and> active (control s) = None
    | Continuation p \<Rightarrow> active (control s) \<noteq> None \<and>
        (\<exists>d :: goal_decision. \<not> complete d \<and> p = continue_prompt (settings env) @ feedback d))"

lemma judge_loop_result:
  "judge_loop n env answer s = Some (s', Inr r) \<Longrightarrow> goal_result env answer s' r"
proof (induction n arbitrary: s)
  case (Suc n)
  from Suc.prems obtain s1 current where now: "locked goal_now s = (s1, Inr current)"
    and rest: "(case current of None \<Rightarrow> onceL (finish_goal env answer)
       | Some g \<Rightarrow>
           bindL (onceL (in_world (callback env (ustr ''goal_judge_started'')
             [(ustr ''revision'', VInt (goal_revision g)),
              (ustr ''judge_profile'', VStr (text_or (judge_profile g) (primary_profile env)))]))) (\<lambda>_.
           bindL (review_goal n env g 0) (\<lambda>decision. case decision of
               Review_Cleared \<Rightarrow> onceL (finish_goal env answer)
             | Review_Changed \<Rightarrow> judge_loop n env answer
             | Decision d \<Rightarrow> bindL (onceL (accept_review env g d)) (\<lambda>outcome. case outcome of
                   Changed \<Rightarrow> judge_loop n env answer
                 | Cleared \<Rightarrow> onceL (finish_goal env answer)
                 | Complete \<Rightarrow> onceL (finish_goal env answer)
                 | Continue_Goal \<Rightarrow>
                     onceL (retS (Continuation (continue_prompt (settings env) @ feedback d))))))) s1
       = Some (s', Inr r)"
    by (auto elim!: bindL_SomeE)
  show ?case
  proof (cases current)
    case None
    with now have "active (control s1) = None" by (auto simp: locked_now)
    with rest None show ?thesis
      by (auto dest!: finish_text simp: goal_result_def)
  next
    case (Some g)
    with rest obtain s2 s3 decision where "review_goal n env g 0 s2 = Some (s3, Inr decision)"
      and after: "(case decision of
               Review_Cleared \<Rightarrow> onceL (finish_goal env answer)
             | Review_Changed \<Rightarrow> judge_loop n env answer
             | Decision d \<Rightarrow> bindL (onceL (accept_review env g d)) (\<lambda>outcome. case outcome of
                   Changed \<Rightarrow> judge_loop n env answer
                 | Cleared \<Rightarrow> onceL (finish_goal env answer)
                 | Complete \<Rightarrow> onceL (finish_goal env answer)
                 | Continue_Goal \<Rightarrow>
                     onceL (retS (Continuation (continue_prompt (settings env) @ feedback d))))) s3
          = Some (s', Inr r)"
      by (auto elim!: bindL_SomeE)
    show ?thesis
    proof (cases decision)
      case Review_Cleared
      with after \<open>review_goal n env g 0 s2 = Some (s3, Inr decision)\<close> show ?thesis
        by (auto dest!: finish_text review_cleared simp: goal_result_def)
    next
      case Review_Changed
      with after show ?thesis by (auto dest: Suc.IH)
    next
      case (Decision d)
      with after obtain s4 outcome where a: "accept_review env g d s3 = (s4, Inr outcome)"
        and last: "(case outcome of
                   Changed \<Rightarrow> judge_loop n env answer
                 | Cleared \<Rightarrow> onceL (finish_goal env answer)
                 | Complete \<Rightarrow> onceL (finish_goal env answer)
                 | Continue_Goal \<Rightarrow>
                     onceL (retS (Continuation (continue_prompt (settings env) @ feedback d)))) s4
           = Some (s', Inr r)"
        by (auto elim!: bindL_SomeE)
      from accept_outcome [OF a] last Suc.IH [of s4] show ?thesis
        by (cases outcome) (auto dest!: finish_text simp: goal_result_def)
    qed
  qed
qed simp

text \<open>The plugin returns plain text only when no goal is active any more, and then the text is
  what the agent answered. While the goal stays active it returns a continuation: either the
  agent's own, or the judge's feedback on unfinished work.\<close>

theorem run_returns_text_without_goal:
  assumes "run_goal n env prompt s = Some (s', Inr r)"
  shows "case r of
      Text a \<Rightarrow> active (control s') = None \<and> (\<exists>s1. send_goal n env prompt 0 s = Some (s1, Inr (Text a)))
    | Continuation p \<Rightarrow> send_goal n env prompt 0 s = Some (s', Inr (Continuation p)) \<or>
        active (control s') \<noteq> None \<and>
        (\<exists>d :: goal_decision. \<not> complete d \<and> p = continue_prompt (settings env) @ feedback d)"
  using assms unfolding run_goal_def
  by (cases rule: bindL_SomeE)
     (auto split: reply.splits dest!: judge_loop_result simp: goal_result_def)

section \<open>Retry delays\<close>

text \<open>Retry delays are bounded: whatever the provider asks for and however often the step has
  failed, the wait is between nothing and the configured maximum; without a usable hint it
  starts at the configured delay, doubles with every attempt and never shrinks.\<close>

theorem retry_delay_bounded:
  assumes "goal_settings_ok (settings env)" "retry_delay env e attempt = Inr d"
  shows "0 \<le> d \<and> d \<le> retry_max (settings env) \<and>
    (exception_field env e ''retry_after'' = VNone \<longrightarrow>
      d = min (retry_max (settings env)) (retry_initial (settings env) * 2 ^ nat (min (max 0 (attempt - 1)) 6)) \<and>
      retry_initial (settings env) \<le> d \<and>
      (\<forall>d'. retry_delay env e (attempt + 1) = Inr d' \<longrightarrow> d \<le> d'))"
proof -
  let ?cfg = "settings env"
  let ?delay = "\<lambda>k. min (retry_max ?cfg) (retry_initial ?cfg * 2 ^ nat (min (max 0 (k - 1)) 6))"
  have pos: "0 < retry_initial ?cfg" "retry_initial ?cfg \<le> retry_max ?cfg"
    using assms(1) by (simp_all add: goal_settings_ok_def)
  have backoff: "x = ?delay k"
    if "backoff ?cfg k = Inr x" for k x
  proof -
    from that obtain y where "ldexp (retry_initial ?cfg) (nat (min (max 0 (k - 1)) 6)) = Inr y"
      "x = min (retry_max ?cfg) y"
      unfolding backoff_def bindR_Inr_iff by blast
    moreover have "ldexp u m = Inr v \<Longrightarrow> v = u * 2 ^ m" for u v m
      by (simp add: ldexp_def split: if_split_asm)
    ultimately show ?thesis by blast
  qed
  have first: "retry_initial ?cfg \<le> retry_initial ?cfg * 2 ^ m" for m
    using pos(1) by simp
  have "(0 \<le> d \<and> d \<le> retry_max ?cfg) \<or> backoff ?cfg attempt = Inr d"
    using assms(2) pos float_of_int_sign(2)
    unfolding retry_delay_def by (auto split: pyval.splits option.splits pyfloat.splits if_splits)
  moreover have "0 \<le> ?delay attempt \<and> ?delay attempt \<le> retry_max ?cfg"
    using pos first [of "nat (min (max 0 (attempt - 1)) 6)"] by simp
  ultimately have "0 \<le> d \<and> d \<le> retry_max ?cfg"
    using backoff by blast
  moreover have "d = ?delay attempt \<and> retry_initial ?cfg \<le> d \<and>
      (\<forall>d'. retry_delay env e (attempt + 1) = Inr d' \<longrightarrow> d \<le> d')"
    if none: "exception_field env e ''retry_after'' = VNone"
  proof -
    have delay: "retry_delay env e k = Inr x \<Longrightarrow> x = ?delay k" for k x
      using none by (simp add: retry_delay_def backoff)
    have "retry_initial ?cfg * 2 ^ nat (min (max 0 (attempt - 1)) 6)
        \<le> retry_initial ?cfg * 2 ^ nat (min (max 0 (attempt + 1 - 1)) 6)"
      using pos(1) by (intro mult_left_mono power_increasing nat_mono) auto
    then have "?delay attempt \<le> ?delay (attempt + 1)"
      by (meson min.mono order_refl)
    moreover have "retry_initial ?cfg \<le> ?delay attempt"
      by (rule min.boundedI) (rule pos, rule first)
    ultimately show ?thesis
      using delay [OF assms(2)] by (metis delay)
  qed
  ultimately show ?thesis by blast
qed

section \<open>Waiting ends\<close>

text \<open>
  What the code relies on of the clock: it never runs backwards, and sleeping lets at least the
  requested time pass. \<open>T\<close> is the time of a world.
\<close>

definition clock_law :: "'w goal_env \<Rightarrow> ('w \<Rightarrow> rat) \<Rightarrow> bool" where
  "clock_law env T \<longleftrightarrow>
     (\<forall>w. T w \<le> snd (monotonic env w) \<and> snd (monotonic env w) \<le> T (fst (monotonic env w))) \<and>
     (\<forall>d w. T w + d \<le> T (fst (sleep env d w))) \<and>
     (\<forall>w. T w \<le> T (fst (cancel_now env w)))"

definition time_of :: "('w \<Rightarrow> rat) \<Rightarrow> 'w goal_run \<Rightarrow> rat" where
  "time_of T s = T (gworld (outer s))"

lemma in_world_time: "time_of T (fst (in_world m s)) = T (fst (m (gworld (outer s))))"
  by (auto simp: time_of_def in_world_def outside_def on_world_def split: prod.splits)

lemma locked_time [simp]: "time_of T (fst (locked section s)) = time_of T s"
  by (simp add: time_of_def locked_eq Let_def)

lemma wait_loop_ends:
  assumes law: "clock_law env T" and poll: "0 < retry_poll (settings env)"
  shows "1 \<le> n \<Longrightarrow> deadline - time_of T s \<le> (of_nat n - 1) * retry_poll (settings env) \<Longrightarrow>
    \<exists>out. wait_loop n env deadline expected s = Some out"
proof (induction n arbitrary: s)
  case (Suc n)
  let ?p = "retry_poll (settings env)"
  let ?clock = "\<lambda>w. case monotonic env w of (w', t) \<Rightarrow> (w', Inr t)"
  obtain s1 r1 where s1: "in_world (cancel_now env) s = (s1, r1)" by force
  obtain s2 current where s2: "locked goal_now s1 = (s2, Inr current)"
    by (simp add: locked_now)
  obtain s3 r3 where s3: "in_world ?clock s2 = (s3, r3)" by force
  have r3: "r3 = Inr (snd (monotonic env (gworld (outer s2))))"
    using s3 by (auto simp: in_world_def outside_def on_world_def split: prod.splits)
  define now where "now = snd (monotonic env (gworld (outer s2)))"
  have t1: "time_of T s \<le> time_of T s1"
    using law in_world_time [of T "cancel_now env" s] by (simp add: s1 clock_law_def time_of_def)
  have t2: "time_of T s2 = time_of T s1"
    using locked_time [of T goal_now s1] by (simp add: s2)
  have t3: "time_of T s2 \<le> now" "now \<le> time_of T s3"
    using law in_world_time [of T ?clock s2] unfolding s3
    by (auto simp: clock_law_def time_of_def now_def case_prod_beta)
  let ?d = "min ?p (deadline - now)"
  obtain s4 r4 where s4: "in_world (sleep env ?d) s3 = (s4, r4)" by force
  have t4: "time_of T s3 + ?d \<le> time_of T s4"
    using law in_world_time [of T "sleep env ?d" s3] by (simp add: s4 clock_law_def time_of_def)
  show ?case
  proof (cases "deadline - now \<le> 0")
    case True
    then show ?thesis
      using s1 s2 s3 r3 by (cases r1) (auto simp: bindL_def now_def)
  next
    case False
    have bound: "deadline - now \<le> of_nat n * ?p"
      using Suc.prems(2) t1 t2 t3 by simp
    with False have n: "1 \<le> n" by (cases n) auto
    have "deadline - time_of T s4 \<le> (of_nat n - 1) * ?p"
    proof (cases "?p \<le> deadline - now")
      case True
      then have "deadline - time_of T s4 \<le> deadline - now - ?p"
        using t3 t4 by simp
      also have "\<dots> \<le> (of_nat n - 1) * ?p"
        using bound by (simp add: left_diff_distrib)
      finally show ?thesis .
    next
      case False
      then have "deadline - time_of T s4 \<le> 0" using t3 t4 by simp
      also have "0 \<le> (of_nat n - 1) * ?p" using n poll by simp
      finally show ?thesis .
    qed
    from Suc.IH [OF n this] obtain out where "wait_loop n env deadline expected s4 = Some out"
      by blast
    then show ?thesis
      using s1 s2 s3 r3 s4 False by (cases r1; cases r4) (auto simp: bindL_def now_def)
  qed
qed simp

text \<open>Waiting before a retry always ends: with a clock that never runs backwards and a sleep that
  lasts at least as long as asked, one turn of the loop for each poll interval in the delay, and
  two more, are enough, whatever other threads and the cancellation check do.\<close>

theorem retry_wait_ends:
  assumes "clock_law env T" "0 < retry_poll (settings env)" "0 \<le> delay"
    and "\<And>w. snd (monotonic env w) = T w" "\<And>w. fst (monotonic env w) = w"
    and "n = nat \<lceil>delay / retry_poll (settings env)\<rceil> + 2"
  shows "\<exists>out. wait_for_retry n env delay expected s = Some out"
proof -
  let ?p = "retry_poll (settings env)"
  let ?clock = "\<lambda>w. case monotonic env w of (w', t) \<Rightarrow> (w', Inr t)"
  have clock: "in_world ?clock s = (s, Inr (time_of T s))"
    using assms(4,5) by (simp add: in_world_def outside_def on_world_def time_of_def case_prod_beta)
  have "delay / ?p \<le> of_nat (nat \<lceil>delay / ?p\<rceil>)" by (rule of_nat_ceiling)
  then have "delay \<le> of_nat (nat \<lceil>delay / ?p\<rceil>) * ?p"
    using assms(2) by (simp add: pos_divide_le_eq)
  also have "\<dots> \<le> (of_nat n - 1) * ?p"
    using assms(2,6) by (intro mult_right_mono) auto
  finally have "\<exists>out. wait_loop n env (time_of T s + delay) expected s = Some out"
    using assms(6) by (intro wait_loop_ends [OF assms(1,2)]) auto
  then show ?thesis
    by (simp add: wait_for_retry_def bindL_def clock)
qed

section \<open>Judge replies\<close>

text \<open>The decoder of the standard library reports bad text with these errors only.\<close>

definition decoder_law :: "'w goal_env \<Rightarrow> bool" where
  "decoder_law env \<longleftrightarrow> (\<forall>t e. json_text_parse env t = Inl e \<longrightarrow> caught_by [RecursionError, ValueError] e)"

lemma judge_error_kind [simp]: "judge_error m = Inl e \<Longrightarrow> exn_kind e = GoalJudgeResponseError"
  by (auto simp: judge_error_def raise_text_def)

lemma judge_error_not_Inr [simp]: "judge_error m \<noteq> Inr x"
  by (simp add: judge_error_def)

lemma isa_cases:
  "isa c ValueError \<longleftrightarrow> c \<in> {ValueError, UnicodeError}"
  "isa c RecursionError \<longleftrightarrow> c = RecursionError"
  "isa c ConfigurationError \<longleftrightarrow> c = ConfigurationError"
  "isa c TypeError \<longleftrightarrow> c = TypeError"
  by (cases c; simp add: isa_def numeral_eq_Suc)+

lemma json_object_errors:
  "json_object r = Inl e \<Longrightarrow> exn_kind e = ValueError"
  "json_elems rs = Inl e \<Longrightarrow> exn_kind e = ValueError"
  "json_pairs ps = Inl e \<Longrightarrow> exn_kind e = ValueError"
proof -
  have loop: "unique_loop res qs = Inl e \<Longrightarrow> exn_kind e = ValueError" for res qs
    by (induction res qs rule: unique_loop.induct) (auto simp: raise_text_def split: if_splits)
  show "json_object r = Inl e \<Longrightarrow> exn_kind e = ValueError"
    "json_elems rs = Inl e \<Longrightarrow> exn_kind e = ValueError"
    "json_pairs ps = Inl e \<Longrightarrow> exn_kind e = ValueError"
    by (induction r and rs and ps rule: json_object_json_elems_json_pairs.induct)
       (auto simp: raise_text_def bindR_Inl_iff unique_object_def dest: loop)
qed

text \<open>A judge's reply is either a usable decision or an error the loop retries: a decision comes
  from an object with exactly a verdict and feedback, its feedback is nonblank and within the
  limit, and every rejected reply raises the retryable judge error.\<close>

theorem judge_reply_decides_or_retries:
  assumes "decoder_law env"
  shows "case parse_decision env answer profile of
      Inr d \<Rightarrow> (\<exists>text tree fs. answer = VStr text \<and> json_text_parse env text = Inr tree \<and>
          json_object tree = Inr (dict_of fs) \<and> set (keys fs) = {ustr ''decision'', ustr ''feedback''} \<and>
          get fs ''decision'' = VStr (ustr (if complete d then ''complete'' else ''continue'')) \<and>
          get fs ''feedback'' = VStr (feedback d)) \<and>
        \<not> blank (feedback d) \<and> int (length (feedback d)) \<le> max_feedback (settings env) \<and>
        profile_name d = jname profile \<and> profile_model d = jmodel profile
    | Inl e \<Rightarrow> exn_kind e = GoalJudgeResponseError \<and> is_retryable env e"
proof (cases "parse_decision env answer profile")
  case (Inl e)
  have caught: "caught_by [ConfigurationError, RecursionError, TypeError, ValueError] x"
    if "bindR (json_text_parse env t) (\<lambda>tree. bindR (json_object tree)
          (\<lambda>v. object_field v (ustr ''goal judge response''))) = Inl x" for t x
  proof -
    have cfg: "object_field v (ustr ''goal judge response'') = Inl x \<Longrightarrow> exn_kind x = ConfigurationError" for v
      using field_failures(2) [of v "ustr ''goal judge response''"] by (simp add: config_failure_def)
    from that assms show ?thesis
      by (auto simp: bindR_Inl_iff decoder_law_def caught_by_def isa_cases dest: cfg json_object_errors(1))
  qed
  have "exn_kind e = GoalJudgeResponseError"
    using Inl caught unfolding parse_decision_def Let_def
    by (auto simp: bindR_Inl_iff rescue_def split: pyval.splits if_splits sum.splits)
  with Inl show ?thesis
    by (simp add: is_retryable_def exception_field_def)
next
  case (Inr d)
  then obtain t where answer: "answer = VStr t"
    by (auto simp: parse_decision_def judge_error_def split: pyval.splits)
  with Inr obtain tree fs where "json_text_parse env t = Inr tree" "json_object tree = Inr (dict_of fs)"
    and fs: "(if set (keys fs) \<noteq> {ustr ''decision'', ustr ''feedback''}
          then judge_error (ustr ''Goal judge must return only decision and feedback.'')
          else let decision = get fs ''decision''; words = get fs ''feedback''
            in if decision \<noteq> VStr (ustr ''continue'') \<and> decision \<noteq> VStr (ustr ''complete'')
               then judge_error (ustr ''Goal judge decision must be continue or complete.'')
               else if \<not> is_text words \<or> blank (the_text words) \<or>
                   max_feedback (settings env) < int (length (the_text words))
               then judge_error (ustr ''Goal judge feedback must contain 1-'' @
                   str_int (max_feedback (settings env)) @ ustr '' characters.'')
               else Inr \<lparr>complete = (decision = VStr (ustr ''complete'')), feedback = the_text words,
                   profile_name = jname profile, profile_model = jmodel profile\<rparr>) = Inr d"
    by (auto simp: parse_decision_def bindR_Inr_iff rescue_def object_field_Inr_iff
        split: if_splits sum.splits)
  with Inr answer show ?thesis
    by (auto simp: Let_def is_text_iff not_le split: if_splits)
qed

section \<open>The theorems at a concrete environment\<close>

text \<open>A world that is its own clock, an agent that always answers and a judge that is never content.\<close>

definition demo_goal_cfg :: goal_settings where
  "demo_goal_cfg = \<lparr>retry_initial = 1 / 2, retry_max = 30, retry_poll = 1 / 10,
     continue_prompt = ustr ''go on: '', judge_instructions = ustr ''judge'', max_goal = 100,
     max_feedback = 50, max_judge_reply = 200, max_evidence = 1000\<rparr>"

definition demo_goal_env :: "rat goal_env" where
  "demo_goal_env = \<lparr>settings = demo_goal_cfg, instruction_roles = [ustr ''system''],
     default_role = ustr ''system'', primary_profile = ustr ''main'',
     resolve = (\<lambda>w name. Inr \<lparr>jname = name, jmodel = ustr ''m'', jrole = None, jprocess = False\<rparr>),
     run_process = (\<lambda>m r. retS VNone), call_chat = (\<lambda>m r. retS (VStr (ustr ''reply''))),
     json_text_parse = (\<lambda>t. if t = ustr ''reply''
       then Inr (RObj [(ustr ''decision'', RStr (ustr ''continue'')), (ustr ''feedback'', RStr (ustr ''test it''))])
       else raise ValueError ''bad''),
     exception_attr = (\<lambda>e n. VNone), transcript = retS [],
     session_send = (\<lambda>notify prompt. retS (Text (ustr ''ok''))), goal_callback = None, goal_cancel = None,
     monotonic = (\<lambda>w. (w, w)), sleep = (\<lambda>d w. (w + d, Inr ()))\<rparr>"

definition demo_goal :: goal_status where
  "demo_goal = \<lparr>objective = ustr ''ship'', judge_profile = None, goal_revision = 1\<rparr>"

definition demo_goal_run :: "goal_op list list \<Rightarrow> rat goal_run" where
  "demo_goal_run ops = \<lparr>control = \<lparr>active = Some demo_goal, revision = 1\<rparr>, others = ops,
     outer = \<lparr>final_done = None, gworld = 0\<rparr>\<rparr>"

definition demo_decision :: "bool \<Rightarrow> goal_decision" where
  "demo_decision b = \<lparr>complete = b, feedback = ustr ''test it'', profile_name = ustr ''main'', profile_model = ustr ''m''\<rparr>"

lemmas demo_goal_defs = demo_goal_env_def demo_goal_run_def demo_goal_def demo_decision_def demo_goal_cfg_def

text \<open>While the decision is recorded another thread replaces the goal.\<close>

theorem review_settles_reviewed_goal_witness:
  "\<exists>k\<in>{1, 2}. let now = wins k (demo_goal_run [[], [SetGoal (ustr ''other'') None]]) in
    if Changed = Complete
    then active now = Some demo_goal \<and> complete (demo_decision True) \<and>
      \<lparr>active = Some \<lparr>objective = ustr ''other'', judge_profile = None, goal_revision = 2\<rparr>, revision = 2\<rparr> =
        now\<lparr>active := None\<rparr>
    else \<lparr>active = Some \<lparr>objective = ustr ''other'', judge_profile = None, goal_revision = 2\<rparr>, revision = 2\<rparr> = now \<and>
      (Changed = Continue_Goal \<longrightarrow> active now = Some demo_goal \<and> \<not> complete (demo_decision True)) \<and>
      (Changed = Cleared \<longleftrightarrow> active now = None)"
proof -
  let ?s = "demo_goal_run [[], [SetGoal (ustr ''other'') None]]"
  have strip: "strip (ustr ''other'') = ustr ''other''" "strip (ustr ''ship'') = ustr ''ship''" by code_simp+
  have "accept_review demo_goal_env demo_goal (demo_decision True) ?s =
     (?s\<lparr>control := \<lparr>active = Some \<lparr>objective = ustr ''other'', judge_profile = None, goal_revision = 2\<rparr>, revision = 2\<rparr>,
         others := []\<rparr>, Inr Changed)"
    by (simp add: demo_goal_defs accept_review_def bindS_def locked_def goal_now_def run_others_def in_world_def
        outside_def on_world_def callback_def publish_goal_def accept_decision_def strip Let_def)
  from review_settles_reviewed_goal [OF _ _ _ _ this, of "\<lparr>active = Some demo_goal, revision = 1\<rparr>"]
  show ?thesis
    by (simp add: demo_goal_defs controller_ok_def strip)
qed

text \<open>Another thread clears the goal while the agent works.\<close>

theorem run_returns_text_without_goal_witness:
  "active (control (demo_goal_run [] \<lparr>control := \<lparr>active = None, revision = 2\<rparr>\<rparr>)) = None \<and>
    (\<exists>s1. send_goal 1 demo_goal_env (ustr ''p'') 0 (demo_goal_run [[ClearGoal]]) = Some (s1, Inr (Text (ustr ''ok''))))"
proof -
  have "run_goal 1 demo_goal_env (ustr ''p'') (demo_goal_run [[ClearGoal]]) =
    Some (demo_goal_run [] \<lparr>control := \<lparr>active = None, revision = 2\<rparr>\<rparr>, Inr (Text (ustr ''ok'')))"
    by (simp add: demo_goal_defs run_goal_def send_once_def rescueS_def bindS_def bindL_def outside_def
        locked_def goal_now_def run_others_def clear_goal_def finish_goal_def Let_def)
  from run_returns_text_without_goal [OF this] show ?thesis
    by (simp add: demo_goal_run_def)
qed

theorem retry_delay_bounded_witness:
  "0 \<le> (2::rat) \<and> (2::rat) \<le> retry_max demo_goal_cfg \<and> retry_initial demo_goal_cfg \<le> 2"
proof -
  have "retry_delay demo_goal_env (Exn TimeoutError []) 3 = Inr 2"
    by (simp add: demo_goal_defs retry_delay_def exception_field_def backoff_def ldexp_def)
  from retry_delay_bounded [OF _ this] show ?thesis
    by (simp add: demo_goal_defs goal_settings_ok_def exception_field_def)
qed

theorem retry_wait_ends_witness:
  "\<exists>out. wait_for_retry 22 demo_goal_env 2 None (demo_goal_run []) = Some out"
proof (rule retry_wait_ends [where T = "\<lambda>w. w"])
  show "clock_law demo_goal_env (\<lambda>w. w)"
    by (simp add: demo_goal_env_def clock_law_def cancel_now_def)
qed (simp_all add: demo_goal_env_def demo_goal_cfg_def)

theorem judge_reply_decides_or_retries_witness:
  "case parse_decision demo_goal_env (VStr (ustr ''nonsense'')) \<lparr>jname = [], jmodel = [], jrole = None, jprocess = False\<rparr> of
      Inr d \<Rightarrow> False
    | Inl e \<Rightarrow> exn_kind e = GoalJudgeResponseError \<and> is_retryable demo_goal_env e"
proof -
  have law: "decoder_law demo_goal_env"
    by (auto simp: decoder_law_def demo_goal_env_def raise_def caught_by_def)
  from judge_reply_decides_or_retries [OF law, of "VStr (ustr ''nonsense'')"
      "\<lparr>jname = [], jmodel = [], jrole = None, jprocess = False\<rparr>"]
  show ?thesis
    by (auto simp: demo_goal_env_def raise_def split: sum.splits if_splits)
qed

end
