(* ===== verification/Goal_Plugin.thy ===== *)
theory Goal_Plugin
  imports Goals
begin

text \<open>
  The hooks of \<open>plugins/goals/registration.py\<close>: the \<open>/goal\<close> command, the state saved with the
  conversation and read back when it is restored, and the middleware around every prompt. The
  service may hold no controller (\<open>configured\<close>); the host's status line, checkpoint and event
  sink are parameters. The file also holds the properties of the goals plugin.
\<close>

record 'w goal_plugin =
  configured :: bool
  saved :: fields
  goal_state :: "'w goal_run"

record 'w hook_env =
  goal_env :: "'w goal_env"
  show_status :: "bool \<Rightarrow> ('w, unit) eff"
  host_checkpoint :: "('w, unit) eff"
  emit_task :: "pystr \<Rightarrow> ('w, unit) eff"

definition on_run :: "('w goal_run, 'a) eff \<Rightarrow> ('w goal_plugin, 'a) eff" where
  "on_run m p = (case m (goal_state p) of (s, r) \<Rightarrow> (p\<lparr>goal_state := s\<rparr>, r))"

definition on_run_loop :: "('w goal_run, 'a) loop \<Rightarrow> ('w goal_plugin, 'a) loop" where
  "on_run_loop m p = (case m (goal_state p) of None \<Rightarrow> None | Some (s, r) \<Rightarrow> Some (p\<lparr>goal_state := s\<rparr>, r))"

definition service_status :: "('w goal_plugin, goal_status option) eff" where
  "service_status p = (if configured p then on_run (locked goal_now) p else (p, Inr None))"

definition publish :: "'w hook_env \<Rightarrow> ('w goal_plugin, unit) eff" where
  "publish h = bindS service_status (\<lambda>status. on_run (in_world (show_status h (status \<noteq> None))))"

definition text_value :: "pystr option \<Rightarrow> pyval" where
  "text_value t = (case t of None \<Rightarrow> VNone | Some s \<Rightarrow> VStr s)"

definition save :: "'w hook_env \<Rightarrow> ('w goal_plugin, unit) eff" where
  "save h = bindS (publish h) (\<lambda>_. bindS service_status (\<lambda>status.
     modS (\<lambda>p. p\<lparr>saved := (case status of None \<Rightarrow> []
       | Some g \<Rightarrow> [(ustr ''objective'', VStr (objective g)),
           (ustr ''judge_profile'', text_value (judge_profile g))])\<rparr>)))"

definition restore_goal :: "'w goal_env \<Rightarrow> fields \<Rightarrow> ('w goal_run, unit) eff" where
  "restore_goal env state =
     bindS (locked clear_goal) (\<lambda>_.
     if \<not> truthy (get state ''objective'') then retS ()
     else bindS (liftR (required_text (get state ''objective'') (ustr ''goal objective''))) (\<lambda>text.
       bindS (liftR (text_field True False (get state ''judge_profile'') (ustr ''goal judge profile''))) (\<lambda>profile.
       bindS (configure env (VStr text) profile) (\<lambda>_. retS ()))))"

definition restore :: "'w hook_env \<Rightarrow> ('w goal_plugin, unit) eff" where
  "restore h p = bindS (if configured p then on_run (restore_goal (goal_env h) (saved p)) else retS ())
     (\<lambda>_. publish h) p"

definition reset :: "'w hook_env \<Rightarrow> ('w goal_plugin, unit) eff" where
  "reset h p = bindS (if configured p then bindS (on_run (locked clear_goal)) (\<lambda>_. retS ()) else retS ())
     (\<lambda>_. publish h) p"

definition command :: "'w hook_env \<Rightarrow> pystr \<Rightarrow> ('w goal_plugin, pystr) eff" where
  "command h arguments p =
     (if \<not> configured p then (p, raise ValueError ''Goal judging is not configured.'')
      else let line = ustr ''/goal'' @ (if arguments = [] then [] else ustr '' '' @ arguments) in
       bindS (liftR (parse_goal_command (nat (max_goal (settings (goal_env h)))) (VStr line))) (\<lambda>c.
       bindS (on_run (apply_command (goal_env h) c)) (\<lambda>result.
       bindS (save h) (\<lambda>_. bindS (on_run (in_world (host_checkpoint h))) (\<lambda>_.
       bindS (if mode c = ustr ''set'' \<and> goal_objective c \<noteq> None
         then on_run (in_world (emit_task h (the (goal_objective c)))) else retS ()) (\<lambda>_. retS result))))) p)"

definition middleware :: "nat \<Rightarrow> 'w hook_env \<Rightarrow> pystr \<Rightarrow> ('w goal_plugin, reply) loop" where
  "middleware n h prompt p =
     (if \<not> configured p
      then onceL (on_run (outside (session_send (goal_env h)
        (\<lambda>kind payload. on_world (callback (goal_env h) kind payload)) prompt))) p
      else bindL (on_run_loop (run_goal n (goal_env h) prompt)) (\<lambda>r.
        bindL (onceL (save h)) (\<lambda>_.
        bindL (onceL (on_run (in_world (host_checkpoint h)))) (\<lambda>_. onceL (retS r)))) p)"

section \<open>Saving and restoring\<close>

lemma wins_quiet: "others s = [] \<Longrightarrow> wins k s = control s"
  by (simp add: wins_def)

lemma on_run_locked:
  "others (goal_state p) = [] \<Longrightarrow> on_run (locked sec) p =
     (p\<lparr>goal_state := goal_state p\<lparr>control := fst (sec (control (goal_state p))), others := []\<rparr>\<rparr>,
      Inr (snd (sec (control (goal_state p)))))"
  by (simp add: on_run_def locked_eq wins_quiet Let_def)

lemma on_run_world:
  assumes "snd (m (gworld (outer (goal_state p)))) = Inr x"
  obtains s' where "on_run (in_world m) p = (p\<lparr>goal_state := s'\<rparr>, Inr x)"
    "control s' = control (goal_state p)" "others s' = others (goal_state p)"
proof (rule that)
  show "on_run (in_world m) p = (p\<lparr>goal_state := fst (in_world m (goal_state p))\<rparr>, Inr x)"
    using assms by (auto simp: on_run_def in_world_def outside_def on_world_def split: prod.splits)
qed simp_all

lemma publish_quiet:
  assumes "configured p" "others (goal_state p) = []" "\<And>b w. snd (show_status h b w) = Inr ()"
  obtains s' where "publish h p = (p\<lparr>goal_state := s'\<rparr>, Inr ())"
    "control s' = control (goal_state p)" "others s' = []"
proof -
  let ?s = "goal_state p\<lparr>control := control (goal_state p), others := []\<rparr>"
  let ?b = "active (control (goal_state p)) \<noteq> None"
  obtain s' where s': "on_run (in_world (show_status h ?b)) (p\<lparr>goal_state := ?s\<rparr>) = (p\<lparr>goal_state := s'\<rparr>, Inr ())"
    "control s' = control (goal_state p)" "others s' = []"
    using on_run_world [of "show_status h ?b" "p\<lparr>goal_state := ?s\<rparr>" "()"] assms(3) by auto
  have "publish h p = (p\<lparr>goal_state := s'\<rparr>, Inr ())"
    using s' assms(1,2) by (simp add: publish_def service_status_def bindS_def on_run_locked goal_now_def)
  with s' show ?thesis by (rule_tac that)
qed

text \<open>A saved goal comes back: reading the state that a save wrote, in this or a later process,
  makes the same objective and judge active again under a new revision, provided the judge's
  profile still resolves.\<close>

theorem saved_goal_is_restored:
  assumes "configured p" "others (goal_state p) = []" "active (control (goal_state p)) = Some g"
    and "save h p = (p1, Inr ())"
    and "configured q" "others (goal_state q) = []" "saved q = saved p1"
    and "objective g \<noteq> []" "judge_profile g \<noteq> Some []" "strip (objective g) = objective g"
    and "check_objective (settings (goal_env h)) (VStr (objective g)) = Inr (objective g)"
    and "\<And>w. \<exists>m. resolve (goal_env h) w (case judge_profile g of Some n \<Rightarrow> n | None \<Rightarrow> primary_profile (goal_env h)) = Inr m"
    and "\<And>b w. snd (show_status h b w) = Inr ()"
  shows "\<exists>q'. restore h q = (q', Inr ()) \<and>
    active (control (goal_state q')) = Some \<lparr>objective = objective g, judge_profile = judge_profile g,
      goal_revision = revision (control (goal_state q)) + 2\<rparr> \<and>
    saved q' = saved p1"
proof -
  let ?env = "goal_env h"
  obtain s1 where s1: "publish h p = (p\<lparr>goal_state := s1\<rparr>, Inr ())"
    "control s1 = control (goal_state p)" "others s1 = []"
    using publish_quiet [OF assms(1,2,13)] by blast
  have saved: "saved q = [(ustr ''objective'', VStr (objective g)),
      (ustr ''judge_profile'', text_value (judge_profile g))]"
    using assms(1,3,4,7) s1
    by (auto simp: save_def bindS_def service_status_def on_run_locked goal_now_def)
  define s2 where "s2 = goal_state q\<lparr>control := fst (clear_goal (control (goal_state q))), others := []\<rparr>"
  let ?new = "\<lparr>objective = objective g, judge_profile = judge_profile g,
      goal_revision = revision (control (goal_state q)) + 2\<rparr>"
  obtain s3 where s3: "restore_goal ?env (saved q) (goal_state q) = (s3, Inr ())"
    "active (control s3) = Some ?new" "others s3 = []"
  proof -
    have clear: "locked clear_goal (goal_state q) = (s2, Inr (snd (clear_goal (control (goal_state q)))))"
      using assms(6) by (simp add: locked_eq wins_quiet Let_def s2_def)
    have fields: "required_text (get (saved q) ''objective'') (ustr ''goal objective'') = Inr (objective g)"
      "text_field True False (get (saved q) ''judge_profile'') (ustr ''goal judge profile'') = Inr (judge_profile g)"
      "truthy (get (saved q) ''objective'')"
      using assms(8,9)
      by (auto simp: saved get_def required_text_Inr_iff text_field_def text_value_def split: option.splits)
    obtain m where m: "resolve ?env (gworld (outer s2))
        (case judge_profile g of Some n \<Rightarrow> n | None \<Rightarrow> primary_profile ?env) = Inr m"
      using assms(12) by blast
    obtain s' where r: "in_world (resolve_judge ?env (judge_profile g)) s2 = (s', Inr m)"
      using m by (cases "in_world (resolve_judge ?env (judge_profile g)) s2")
        (auto simp: in_world_def outside_def on_world_def resolve_judge_def)
    then have quiet: "others s' = []" "control s' = control s2"
      using in_world_fields [of "resolve_judge ?env (judge_profile g)" s2] by (simp_all add: s2_def)
    have "configure ?env (VStr (objective g)) (judge_profile g) s2 = (s'\<lparr>control :=
        fst (publish_goal (objective g) (judge_profile g) (control s2)), others := []\<rparr>, Inr ?new)"
    proof -
      have "configure ?env (VStr (objective g)) (judge_profile g) s2 =
          locked (publish_goal (objective g) (judge_profile g)) s'"
        unfolding configure_def bindS_def r by (simp add: assms(11))
      also have "\<dots> = (s'\<lparr>control := fst (publish_goal (objective g) (judge_profile g) (control s2)), others := []\<rparr>,
          Inr (snd (publish_goal (objective g) (judge_profile g) (control s2))))"
        using quiet by (simp add: locked_eq wins_quiet Let_def)
      finally show ?thesis
        using assms(10) by (simp add: s2_def publish_goal_def clear_goal_def Let_def)
    qed
    with clear fields assms(10) show ?thesis
      by (intro that [of "s'\<lparr>control := fst (publish_goal (objective g) (judge_profile g) (control s2)), others := []\<rparr>"])
         (simp_all add: restore_goal_def bindS_def publish_goal_def Let_def s2_def clear_goal_def)
  qed
  have "on_run (restore_goal ?env (saved q)) q = (q\<lparr>goal_state := s3\<rparr>, Inr ())"
    by (simp add: on_run_def s3)
  moreover obtain s4 where "publish h (q\<lparr>goal_state := s3\<rparr>) = (q\<lparr>goal_state := s4\<rparr>, Inr ())"
    "control s4 = control s3"
  proof -
    have p: "configured (q\<lparr>goal_state := s3\<rparr>)" "others (goal_state (q\<lparr>goal_state := s3\<rparr>)) = []"
      using assms(5) s3(3) by simp_all
    show ?thesis
      by (rule publish_quiet [OF p assms(13)]) (simp add: that)
  qed
  ultimately show ?thesis
    using assms(5,7) s3(2) by (auto simp: restore_def bindS_def)
qed

definition demo_hooks :: "rat hook_env" where
  "demo_hooks = \<lparr>goal_env = demo_goal_env, show_status = (\<lambda>b. retS ()), host_checkpoint = retS (),
     emit_task = (\<lambda>t. retS ())\<rparr>"

definition demo_plugin :: "fields \<Rightarrow> controller \<Rightarrow> rat goal_plugin" where
  "demo_plugin fs c = \<lparr>configured = True, saved = fs,
     goal_state = demo_goal_run [] \<lparr>control := c\<rparr>\<rparr>"

theorem saved_goal_is_restored_witness:
  "\<exists>q'. restore demo_hooks (demo_plugin [(ustr ''objective'', VStr (ustr ''ship'')), (ustr ''judge_profile'', VNone)]
      new_controller) = (q', Inr ()) \<and>
    active (control (goal_state q')) = Some \<lparr>objective = ustr ''ship'', judge_profile = None, goal_revision = 2\<rparr>"
proof -
  let ?c = "\<lparr>active = Some demo_goal, revision = 1\<rparr>"
  let ?fs = "[(ustr ''objective'', VStr (ustr ''ship'')), (ustr ''judge_profile'', VNone)]"
  have strip: "strip (ustr ''ship'') = ustr ''ship''" "\<not> blank (ustr ''ship'')" "utf8_encodable (ustr ''ship'')"
    by code_simp+
  have saved: "save demo_hooks (demo_plugin [] ?c) = (demo_plugin ?fs ?c, Inr ())"
    by (simp add: save_def publish_def service_status_def on_run_def locked_def goal_now_def in_world_def
        outside_def on_world_def bindS_def demo_hooks_def demo_plugin_def demo_goal_defs text_value_def Let_def)
  have "\<exists>q'. restore demo_hooks (demo_plugin ?fs new_controller) = (q', Inr ()) \<and>
      active (control (goal_state q')) = Some \<lparr>objective = objective demo_goal, judge_profile = judge_profile demo_goal,
        goal_revision = revision (control (goal_state (demo_plugin ?fs new_controller))) + 2\<rparr> \<and>
      saved q' = saved (demo_plugin ?fs ?c)"
    by (rule saved_goal_is_restored [OF _ _ _ saved])
       (simp_all add: demo_plugin_def demo_goal_defs demo_hooks_def strip check_objective_def)
  then show ?thesis
    by (auto simp: demo_plugin_def demo_goal_def new_controller_def)
qed

end
