(* ===== verification/Model_Router.thy ===== *)
theory Model_Router
  imports Validation "HOL-Library.List_Lexorder" "HOL-Library.Multiset"
begin

text \<open>
  \<open>plugins/subagents/models.py\<close>: named model profiles and the router that selects one for a
  purpose. \<open>limit\<close> is the setting \<open>max_profile_name_chars\<close>, \<open>roles\<close> the configured instruction
  roles. A chat factory is a number; \<open>provider\<close> says what calling it yields (\<open>None\<close> for a client
  that is no process provider). \<open>shown\<close> is \<open>repr\<close> of text, which the model needs only for
  names that failed no check.
\<close>

section \<open>Names\<close>

definition name_head :: "int \<Rightarrow> bool" where
  "name_head c \<longleftrightarrow> (65 \<le> c \<and> c \<le> 90) \<or> (97 \<le> c \<and> c \<le> 122) \<or> (48 \<le> c \<and> c \<le> 57)"

definition name_rest :: "int \<Rightarrow> bool" where
  "name_rest c \<longleftrightarrow> name_head c \<or> c = 95 \<or> c = 46 \<or> c = 45"

definition name_ok :: "nat \<Rightarrow> pystr \<Rightarrow> bool" where
  "name_ok limit s \<longleftrightarrow> s \<noteq> [] \<and> name_head (hd s) \<and> list_all name_rest (tl s) \<and> length s \<le> limit"

definition name_pattern :: "nat \<Rightarrow> pystr" where
  "name_pattern limit = ustr ''^[A-Za-z0-9][A-Za-z0-9_.-]{0,'' @ str_int (int limit - 1) @ ustr ''}$''"

definition check_name :: "nat \<Rightarrow> pyval \<Rightarrow> string \<Rightarrow> pystr result" where
  "check_name limit v label =
     (let failure = raise_text ValueError (ustr label @ ustr '' must match '' @ [39] @ name_pattern limit @ [39, 46])
      in case v of VStr s \<Rightarrow> if name_ok limit s then Inr s else failure | _ \<Rightarrow> failure)"

lemma check_name_Inr_iff: "check_name n v label = Inr s \<longleftrightarrow> v = VStr s \<and> name_ok n s"
  by (auto simp: check_name_def Let_def split: pyval.splits)

section \<open>Profiles\<close>

record worker_payload =
  wplugin :: pystr
  wworker :: pystr
  wsource :: fields
  woptions :: fields
  wsecrets :: "pystr list"

record process_spec =
  spec_model :: pystr
  spec_payload :: worker_payload

text \<open>The values a profile is constructed from, before \<open>__post_init__\<close> has seen them.\<close>

record raw_profile =
  raw_name :: pyval
  raw_model :: pyval
  raw_factory :: "nat option"
  raw_purposes :: pyval
  raw_priority :: pyval
  raw_spec :: "process_spec option"
  raw_role :: pyval
  raw_context :: pyval
  raw_recent :: pyval
  raw_inherits :: bool
  raw_timeout :: pyval
  raw_options :: pyval

record profile =
  pname :: pystr
  pmodel :: pystr
  pfactory :: nat
  purposes :: "pystr list"
  priority :: int
  pspec :: "process_spec option"
  prole :: "pystr option"
  pcontext :: "int option"
  precent :: "int option"
  inherits_primary :: bool
  ptimeout :: pyval
  request_options :: fields

definition star :: pystr where
  "star = ustr ''*''"

fun purpose_list :: "nat \<Rightarrow> pystr list \<Rightarrow> pyval list \<Rightarrow> pystr list result" where
  "purpose_list limit seen [] = Inr seen"
| "purpose_list limit seen (v # vs) =
     bindR (if v = VStr star then Inr star else check_name limit v ''Profile purpose'')
       (\<lambda>p. purpose_list limit (if p \<in> set seen then seen else seen @ [p]) vs)"

definition profile_purposes :: "nat \<Rightarrow> pyval \<Rightarrow> pystr list result" where
  "profile_purposes limit v =
     (let failure = raise ValueError ''Profile purposes must be a nonempty tuple.''
      in case v of
          VTuple xs \<Rightarrow> if xs = [] then failure
            else bindR (array_field (plain v) (ustr ''profile purposes'')) (purpose_list limit [])
        | _ \<Rightarrow> failure)"

definition model_text :: "pyval \<Rightarrow> pystr result" where
  "model_text v = (let failure = raise ValueError ''Profile model must be nonempty text.''
     in case v of VStr s \<Rightarrow> if blank s then failure else Inr s | _ \<Rightarrow> failure)"

definition callable_factory :: "nat option \<Rightarrow> nat result" where
  "callable_factory f = (case f of Some n \<Rightarrow> Inr n
     | None \<Rightarrow> raise ValueError ''Profile chat_factory must be callable.'')"

definition plain_integer :: "pyval \<Rightarrow> string \<Rightarrow> int result" where
  "plain_integer v m = (case v of VInt i \<Rightarrow> Inr i | _ \<Rightarrow> raise ValueError m)"

definition matching_spec :: "process_spec option \<Rightarrow> pystr \<Rightarrow> unit result" where
  "matching_spec spec model = (case spec of None \<Rightarrow> Inr ()
     | Some s \<Rightarrow> if spec_model s \<noteq> model
         then raise ValueError ''Profile model must match its process spec model.'' else Inr ())"

definition optional_integer :: "int \<Rightarrow> pyval \<Rightarrow> string \<Rightarrow> int option result" where
  "optional_integer low v m = (case v of VNone \<Rightarrow> Inr None
     | VInt i \<Rightarrow> if i < low then raise ValueError m else Inr (Some i)
     | _ \<Rightarrow> raise ValueError m)"

definition profile_role :: "pystr list \<Rightarrow> pyval \<Rightarrow> pystr option result" where
  "profile_role roles v = (case v of VNone \<Rightarrow> Inr None
     | VStr s \<Rightarrow> if s \<in> set roles then Inr (Some s) else raise ValueError ''Profile instruction_role is invalid.''
     | _ \<Rightarrow> raise ValueError ''Profile instruction_role is invalid.'')"

definition make_profile :: "nat \<Rightarrow> pystr list \<Rightarrow> raw_profile \<Rightarrow> profile result" where
  "make_profile limit roles raw =
     bindR (check_name limit (raw_name raw) ''Profile name'') (\<lambda>n.
     bindR (model_text (raw_model raw)) (\<lambda>m.
     bindR (callable_factory (raw_factory raw)) (\<lambda>f.
     bindR (plain_integer (raw_priority raw) ''Profile priority must be an integer.'') (\<lambda>k.
     bindR (matching_spec (raw_spec raw) m) (\<lambda>_.
     bindR (if raw_timeout raw = VNone then Inr 0
       else number_field 0 (ustr ''0.0'') (raw_timeout raw) (ustr ''profile API timeout'')) (\<lambda>_.
     bindR (frozen_fields (raw_options raw) (ustr ''profile request options'')) (\<lambda>opts.
     bindR (profile_role roles (raw_role raw)) (\<lambda>role.
     bindR (optional_integer 1 (raw_context raw) ''Profile context_chars must be a positive integer.'') (\<lambda>context.
     bindR (optional_integer 0 (raw_recent raw) ''Profile keep_recent_turns must be nonnegative.'') (\<lambda>recent.
     bindR (profile_purposes limit (raw_purposes raw)) (\<lambda>ps.
     Inr \<lparr>pname = n, pmodel = m, pfactory = f, purposes = ps, priority = k, pspec = raw_spec raw,
       prole = role, pcontext = context, precent = recent, inherits_primary = raw_inherits raw,
       ptimeout = raw_timeout raw, request_options = opts\<rparr>)))))))))))"

definition supports :: "profile \<Rightarrow> pystr \<Rightarrow> bool" where
  "supports p purpose \<longleftrightarrow> star \<in> set (purposes p) \<or> purpose \<in> set (purposes p)"

text \<open>\<open>dataclasses.replace\<close> hands every field to the constructor again.\<close>

definition raw_of :: "profile \<Rightarrow> raw_profile" where
  "raw_of p = \<lparr>raw_name = VStr (pname p), raw_model = VStr (pmodel p), raw_factory = Some (pfactory p),
     raw_purposes = VTuple (map VStr (purposes p)), raw_priority = VInt (priority p), raw_spec = pspec p,
     raw_role = (case prole p of None \<Rightarrow> VNone | Some r \<Rightarrow> VStr r),
     raw_context = (case pcontext p of None \<Rightarrow> VNone | Some i \<Rightarrow> VInt i),
     raw_recent = (case precent p of None \<Rightarrow> VNone | Some i \<Rightarrow> VInt i),
     raw_inherits = inherits_primary p, raw_timeout = ptimeout p,
     raw_options = VProxy (map (\<lambda>(k, v). (VStr k, v)) (request_options p))\<rparr>"

text \<open>\<open>{**a, **b}\<close>.\<close>

definition merged :: "fields \<Rightarrow> fields \<Rightarrow> fields" where
  "merged a b = fold (\<lambda>(k, v). AList.update k v) b a"

definition child_options :: "profile \<Rightarrow> fields \<Rightarrow> fields result" where
  "child_options p options =
     (let timed = (if ptimeout p = VNone then options else AList.update (ustr ''timeout'') (ptimeout p) options)
      in bindR (configuration_fields
          (if has_key timed (ustr ''request_options'') then get timed ''request_options'' else VDict [])
          (ustr ''request options'')) (\<lambda>base.
        Inr (AList.update (ustr ''request_options'')
          (dict_of (merged base (map (\<lambda>(k, v). (k, plain v)) (request_options p)))) timed)))"

definition current :: "nat \<Rightarrow> pystr list \<Rightarrow> (nat \<Rightarrow> process_spec option result) \<Rightarrow> profile \<Rightarrow> profile result" where
  "current limit roles provider p =
     (if \<not> inherits_primary p \<or> pspec p = None then Inr p
      else bindR (provider (pfactory p)) (\<lambda>made. case made of
          None \<Rightarrow> Inr p
        | Some spec \<Rightarrow> bindR (child_options p (woptions (spec_payload spec))) (\<lambda>options.
            make_profile limit roles ((raw_of p)
              \<lparr>raw_model := VStr (spec_model spec),
               raw_spec := Some \<lparr>spec_model = spec_model spec,
                 spec_payload = (spec_payload spec)\<lparr>woptions := options\<rparr>\<rparr>,
               raw_inherits := False\<rparr>))))"

record summary =
  sname :: pystr
  smodel :: pystr
  spurposes :: "pystr list"
  spriority :: int

definition public :: "profile \<Rightarrow> summary" where
  "public p = \<lparr>sname = pname p, smodel = pmodel p, spurposes = purposes p, spriority = priority p\<rparr>"

section \<open>The router\<close>

record router =
  rlimit :: nat
  rroles :: "pystr list"
  profiles :: "(pystr, profile) dict"
  routes :: "(pystr, pystr) dict"
  default_profile :: "pystr option"
  fallback :: bool

fun index_profiles :: "(pystr, profile) dict \<Rightarrow> profile option list \<Rightarrow> (pystr, profile) dict result" where
  "index_profiles indexed [] = Inr indexed"
| "index_profiles indexed (None # ps) = raise ValueError ''profiles must contain ModelProfile objects.''"
| "index_profiles indexed (Some p # ps) =
     (if has_key indexed (pname p) then raise_text ValueError (ustr ''Duplicate model profile: '' @ pname p)
      else index_profiles (AList.update (pname p) p indexed) ps)"

definition quoted :: "pystr \<Rightarrow> pystr" where
  "quoted s = [39] @ s @ [39]"

fun purpose_routes :: "nat \<Rightarrow> (pystr, profile) dict \<Rightarrow> (pystr, pystr) dict \<Rightarrow> (pyval \<times> pyval) list \<Rightarrow> (pystr, pystr) dict result" where
  "purpose_routes limit indexed found [] = Inr found"
| "purpose_routes limit indexed found ((pv, nv) # rest) =
     bindR (check_name limit pv ''Purpose route'') (\<lambda>purpose.
     bindR (check_name limit nv ''Purpose route profile'') (\<lambda>n.
     case map_of indexed n of
       None \<Rightarrow> raise_text ValueError (ustr ''Purpose '' @ quoted purpose @ ustr '' names unknown profile '' @ quoted n @ ustr ''.'')
     | Some p \<Rightarrow> if \<not> supports p purpose
         then raise_text ValueError (ustr ''Profile '' @ quoted n @ ustr '' does not support purpose '' @ quoted purpose @ ustr ''.'')
         else purpose_routes limit indexed (AList.update purpose n found) rest))"

definition fallback_flag :: "pyval \<Rightarrow> bool result" where
  "fallback_flag v = (case v of VBool b \<Rightarrow> Inr b | _ \<Rightarrow> raise ValueError ''allow_default_fallback must be a bool.'')"

definition default_name :: "nat \<Rightarrow> (pystr, profile) dict \<Rightarrow> pyval \<Rightarrow> pystr option result" where
  "default_name limit indexed v =
     (if v = VNone then Inr None
      else bindR (check_name limit v ''Default profile'') (\<lambda>n.
        if has_key indexed n then Inr (Some n)
        else raise_text ValueError (ustr ''Unknown default profile: '' @ n)))"

definition make_router ::
    "nat \<Rightarrow> pystr list \<Rightarrow> profile option list \<Rightarrow> pyval \<Rightarrow> (pyval \<times> pyval) list \<Rightarrow> pyval \<Rightarrow> router result" where
  "make_router limit roles ps default_v routes_v fallback_v =
     bindR (index_profiles [] ps) (\<lambda>indexed.
     if indexed = [] then raise ValueError ''At least one model profile is required.''
     else bindR (default_name limit indexed default_v) (\<lambda>d.
       bindR (purpose_routes limit indexed [] routes_v) (\<lambda>found.
       bindR (fallback_flag fallback_v) (\<lambda>allow.
       Inr \<lparr>rlimit = limit, rroles = roles, profiles = indexed, routes = found, default_profile = d, fallback = allow\<rparr>))))"

text \<open>\<open>self._profiles[name]\<close>, whose \<open>KeyError\<close> no invariant lets happen for a stored name.\<close>

definition stored :: "router \<Rightarrow> pystr \<Rightarrow> profile result" where
  "stored r n = (case map_of (profiles r) n of None \<Rightarrow> raise_text KeyError n | Some p \<Rightarrow> Inr p)"

definition get_profile :: "(nat \<Rightarrow> process_spec option result) \<Rightarrow> (pystr \<Rightarrow> pystr) \<Rightarrow> router \<Rightarrow> pystr \<Rightarrow> profile result" where
  "get_profile provider shown r n =
     rescue [KeyError] (\<lambda>_. raise_text ValueError (ustr ''Unknown model profile: '' @ shown n))
       (bindR (stored r n) (current (rlimit r) (rroles r) provider))"

definition candidates :: "router \<Rightarrow> pystr \<Rightarrow> profile list" where
  "candidates r purpose = filter (\<lambda>p. supports p purpose) (map snd (profiles r))"

definition winners :: "profile list \<Rightarrow> profile list" where
  "winners ps = filter (\<lambda>p. priority p = Max (set (map priority ps))) ps"

definition select_profile :: "router \<Rightarrow> pyval \<Rightarrow> pyval \<Rightarrow> profile result" where
  "select_profile r purpose_v preferred_v =
     bindR (check_name (rlimit r) purpose_v ''Subagent purpose'') (\<lambda>purpose.
     if preferred_v \<noteq> VNone then
       bindR (check_name (rlimit r) preferred_v ''Preferred profile'') (\<lambda>n.
       case map_of (profiles r) n of
         None \<Rightarrow> raise_text ValueError (ustr ''Unknown model profile: '' @ n)
       | Some p \<Rightarrow> if \<not> supports p purpose
           then raise_text ValueError (ustr ''Profile '' @ quoted n @ ustr '' does not support purpose '' @ quoted purpose @ ustr ''.'')
           else Inr p)
     else case map_of (routes r) purpose of
         Some n \<Rightarrow> stored r n
       | None \<Rightarrow>
         (let found = candidates r purpose in
          if found \<noteq> [] then
            (let best = winners found in
             if length best = 1 then Inr (hd best)
             else raise_text ValueError (ustr ''Ambiguous model profiles for purpose '' @ quoted purpose @ ustr '': '' @
               join (ustr '', '') (sort (map pname best)) @
               ustr ''. Configure a purpose route or an explicit profile.''))
          else case default_profile r of
              Some n \<Rightarrow> if fallback r then stored r n
                else raise_text ValueError (ustr ''No model profile supports purpose '' @ quoted purpose @ ustr ''.'')
            | None \<Rightarrow> raise_text ValueError (ustr ''No model profile supports purpose '' @ quoted purpose @ ustr ''.'')))"

definition resolve_profile :: "(nat \<Rightarrow> process_spec option result) \<Rightarrow> router \<Rightarrow> pyval \<Rightarrow> pyval \<Rightarrow> profile result" where
  "resolve_profile provider r purpose_v preferred_v =
     bindR (select_profile r purpose_v preferred_v) (current (rlimit r) (rroles r) provider)"

definition catalog :: "(nat \<Rightarrow> process_spec option result) \<Rightarrow> router \<Rightarrow> summary list result" where
  "catalog provider r = mapR (\<lambda>n. bindR (stored r n) (\<lambda>p.
     bindR (current (rlimit r) (rroles r) provider p) (\<lambda>q. Inr (public q)))) (sort (keys (profiles r)))"

section \<open>Well-formed profiles and routers\<close>

definition profile_ok :: "nat \<Rightarrow> profile \<Rightarrow> bool" where
  "profile_ok limit p \<longleftrightarrow> name_ok limit (pname p) \<and> purposes p \<noteq> [] \<and> distinct (purposes p) \<and>
     list_all (\<lambda>u. u = star \<or> name_ok limit u) (purposes p)"

lemma purpose_list_ok:
  "purpose_list limit seen vs = Inr us \<Longrightarrow> distinct seen \<Longrightarrow>
     list_all (\<lambda>u. u = star \<or> name_ok limit u) seen \<Longrightarrow>
     distinct us \<and> list_all (\<lambda>u. u = star \<or> name_ok limit u) us \<and> (seen \<noteq> [] \<or> vs \<noteq> [] \<longrightarrow> us \<noteq> [])"
proof (induction limit seen vs rule: purpose_list.induct)
  case (2 limit seen v vs)
  obtain u where u: "(if v = VStr star then Inr star else check_name limit v ''Profile purpose'') = Inr u"
    and rest: "purpose_list limit (if u \<in> set seen then seen else seen @ [u]) vs = Inr us"
    using "2.prems"(1) by (auto simp: bindR_Inr_iff)
  have "u = star \<or> name_ok limit u"
    using u by (auto simp: check_name_Inr_iff split: if_splits)
  with "2.prems" have "distinct (if u \<in> set seen then seen else seen @ [u])"
    "list_all (\<lambda>u. u = star \<or> name_ok limit u) (if u \<in> set seen then seen else seen @ [u])"
    by auto
  from "2.IH" [OF rest this] show ?case by (cases "u \<in> set seen") auto
qed simp

lemma purpose_list_again:
  "distinct (seen @ us) \<Longrightarrow> list_all (\<lambda>u. u = star \<or> name_ok limit u) us \<Longrightarrow>
     purpose_list limit seen (map VStr us) = Inr (seen @ us)"
proof (induction us arbitrary: seen)
  case (Cons u us)
  then have "(if VStr u = VStr star then Inr star else check_name limit (VStr u) ''Profile purpose'') = Inr u"
    by (auto simp: check_name_Inr_iff)
  with Cons show ?case by simp
qed simp

lemma make_profile_fields:
  assumes "make_profile limit roles raw = Inr p"
  shows "profile_ok limit p" "raw_name raw = VStr (pname p)" "raw_model raw = VStr (pmodel p)"
    "raw_priority raw = VInt (priority p)" "inherits_primary p = raw_inherits raw" "pspec p = raw_spec raw"
    "profile_purposes limit (raw_purposes raw) = Inr (purposes p)" "matching_spec (pspec p) (pmodel p) = Inr ()"
proof -
  have *: "profile_purposes limit (raw_purposes raw) = Inr (purposes p)"
    "check_name limit (raw_name raw) ''Profile name'' = Inr (pname p)"
    using assms by (auto simp: make_profile_def bindR_Inr_iff)
  then show "profile_purposes limit (raw_purposes raw) = Inr (purposes p)" "raw_name raw = VStr (pname p)"
    by (auto simp: check_name_Inr_iff)
  from * show "profile_ok limit p"
    unfolding profile_ok_def
    by (auto simp: check_name_Inr_iff profile_purposes_def Let_def bindR_Inr_iff array_field_Inr_iff
        split: pyval.splits if_splits dest!: purpose_list_ok)
qed (use assms in \<open>auto simp: make_profile_def bindR_Inr_iff model_text_def plain_integer_def Let_def
      split: pyval.splits if_splits\<close>)

lemma purposes_again:
  "profile_ok limit p \<Longrightarrow> profile_purposes limit (VTuple (map VStr (purposes p))) = Inr (purposes p)"
  using purpose_list_again [of "[]" "purposes p" limit]
  by (simp add: profile_purposes_def profile_ok_def array_field_def comp_def)

text \<open>A snapshot of a profile follows the primary provider and keeps everything routing looks at.\<close>

lemma current_keeps:
  assumes "profile_ok limit p" "current limit roles provider p = Inr q"
  shows "profile_ok limit q" "pname q = pname p" "purposes q = purposes p" "priority q = priority p"
proof -
  have "profile_ok limit q \<and> pname q = pname p \<and> purposes q = purposes p \<and> priority q = priority p"
  proof (cases "q = p")
    case False
    with assms(2) obtain raw where made: "make_profile limit roles raw = Inr q"
      and raw: "raw_name raw = VStr (pname p)" "raw_priority raw = VInt (priority p)"
        "raw_purposes raw = VTuple (map VStr (purposes p))"
      by (auto simp: current_def raw_of_def bindR_Inr_iff split: if_splits option.splits)
    show ?thesis
      using make_profile_fields [OF made] raw purposes_again [OF assms(1)] by simp
  qed (use assms in simp)
  then show "profile_ok limit q" "pname q = pname p" "purposes q = purposes p" "priority q = priority p"
    by simp_all
qed

definition router_ok :: "router \<Rightarrow> bool" where
  "router_ok r \<longleftrightarrow> dict_ok (profiles r) \<and> profiles r \<noteq> [] \<and>
     (\<forall>(n, p)\<in>set (profiles r). pname p = n \<and> profile_ok (rlimit r) p) \<and>
     (\<forall>(u, n)\<in>set (routes r). \<exists>p. map_of (profiles r) n = Some p \<and> supports p u) \<and>
     (\<forall>n. default_profile r = Some n \<longrightarrow> has_key (profiles r) n)"

lemma dict_ok_snoc: "\<not> has_key d k \<Longrightarrow> dict_ok d \<Longrightarrow> dict_ok (d @ [(k, v)])"
  by (simp add: dict_ok_def keys_def has_key_def)

lemma index_profiles_Inr:
  "dict_ok d \<Longrightarrow> index_profiles d ps = Inr d' \<Longrightarrow>
     None \<notin> set ps \<and> d' = d @ map (\<lambda>p. (pname p, p)) (map the ps) \<and> dict_ok d'"
proof (induction d ps rule: index_profiles.induct)
  case (3 d p ps)
  then have new: "\<not> has_key d (pname p)" by (auto split: if_splits)
  then have "dict_ok (d @ [(pname p, p)])" using 3 by (simp add: dict_ok_snoc)
  with 3 new show ?case by (auto simp: update_new_key)
qed auto

lemma index_profiles_mset:
  "dict_ok d \<Longrightarrow> None \<notin> set ps \<Longrightarrow> dict_ok (d @ map (\<lambda>p. (pname p, p)) (map the ps)) \<Longrightarrow>
     index_profiles d ps = Inr (d @ map (\<lambda>p. (pname p, p)) (map the ps))"
proof (induction d ps rule: index_profiles.induct)
  case (3 d p ps)
  then have new: "\<not> has_key d (pname p)"
    by (auto simp: dict_ok_def keys_def has_key_def)
  then have "dict_ok (d @ [(pname p, p)])" using 3 by (simp add: dict_ok_snoc)
  with 3 new show ?case by (simp add: update_new_key)
qed auto

lemma purpose_routes_ok:
  "purpose_routes limit indexed found rest = Inr rs \<Longrightarrow>
     \<forall>(u, n)\<in>set found. \<exists>p. map_of indexed n = Some p \<and> supports p u \<Longrightarrow>
     \<forall>(u, n)\<in>set rs. \<exists>p. map_of indexed n = Some p \<and> supports p u"
proof (induction limit indexed found rest rule: purpose_routes.induct)
  case (2 limit indexed found pv nv rest)
  from "2.prems"(1) obtain u n p where un: "check_name limit pv ''Purpose route'' = Inr u"
    "check_name limit nv ''Purpose route profile'' = Inr n" "map_of indexed n = Some p" "supports p u"
    and rest: "purpose_routes limit indexed (AList.update u n found) rest = Inr rs"
    by (auto simp: bindR_Inr_iff split: option.splits if_splits)
  have "set (AList.update u n found) \<subseteq> insert (u, n) (set found)"
    by (induction found) auto
  with "2.prems"(2) un have "\<forall>(u, n)\<in>set (AList.update u n found). \<exists>p. map_of indexed n = Some p \<and> supports p u"
    by auto
  with 2 un rest show ?case by blast
qed auto

lemma make_router_ok:
  assumes "make_router limit roles ps d rs f = Inr r" "\<And>p. Some p \<in> set ps \<Longrightarrow> profile_ok limit p"
  shows "router_ok r"
proof -
  from assms(1) have idx: "index_profiles [] ps = Inr (profiles r)" "profiles r \<noteq> []" "rlimit r = limit"
    and routes: "purpose_routes limit (profiles r) [] rs = Inr (routes r)"
    and default: "default_name limit (profiles r) d = Inr (default_profile r)"
    by (auto simp: make_router_def bindR_Inr_iff split: if_splits)
  from index_profiles_Inr [OF _ idx(1)] have "None \<notin> set ps" "dict_ok (profiles r)"
    "profiles r = map (\<lambda>p. (pname p, p)) (map the ps)" by auto
  moreover have "Some (the x) \<in> set ps" if "x \<in> set ps" for x
    using that \<open>None \<notin> set ps\<close> by (metis option.collapse)
  ultimately show ?thesis
    using idx default purpose_routes_ok [OF routes] assms(2)
    by (auto simp: router_ok_def default_name_def bindR_Inr_iff split: if_splits)
qed

section \<open>What the router selects\<close>

lemma stored_ok:
  assumes "router_ok r" "stored r n = Inr p"
  shows "map_of (profiles r) n = Some p" "pname p = n" "profile_ok (rlimit r) p"
proof -
  show "map_of (profiles r) n = Some p"
    using assms(2) by (auto simp: stored_def split: option.splits)
  then have "(n, p) \<in> set (profiles r)" by (rule map_of_SomeD)
  with assms(1) show "pname p = n" "profile_ok (rlimit r) p" by (auto simp: router_ok_def)
qed

lemma candidates_iff:
  "router_ok r \<Longrightarrow> p \<in> set (candidates r u) \<longleftrightarrow> map_of (profiles r) (pname p) = Some p \<and> supports p u"
proof -
  assume ok: "router_ok r"
  have "p \<in> snd ` set (profiles r) \<longleftrightarrow> map_of (profiles r) (pname p) = Some p"
  proof
    assume "p \<in> snd ` set (profiles r)"
    then obtain n where "(n, p) \<in> set (profiles r)" by auto
    with ok have "(pname p, p) \<in> set (profiles r)" by (auto simp: router_ok_def)
    with ok show "map_of (profiles r) (pname p) = Some p"
      by (simp add: router_ok_def dict_ok_def keys_def)
  next
    assume "map_of (profiles r) (pname p) = Some p"
    then show "p \<in> snd ` set (profiles r)" by (force dest: map_of_SomeD)
  qed
  then show ?thesis by (simp add: candidates_def conj_commute)
qed

lemma winners_single:
  assumes "length (winners ps) = 1"
  shows "hd (winners ps) \<in> set ps" "\<forall>p\<in>set ps. p \<noteq> hd (winners ps) \<longrightarrow> priority p < priority (hd (winners ps))"
proof -
  obtain b where b: "winners ps = [b]" using assms by (cases "winners ps") auto
  have "b \<in> set (winners ps)" by (simp add: b)
  then have in_ps: "b \<in> set ps" and best: "priority b = Max (set (map priority ps))"
    unfolding winners_def by simp_all
  show "hd (winners ps) \<in> set ps" using b in_ps by simp
  show "\<forall>p\<in>set ps. p \<noteq> hd (winners ps) \<longrightarrow> priority p < priority (hd (winners ps))"
  proof (intro ballI impI)
    fix p assume p: "p \<in> set ps" "p \<noteq> hd (winners ps)"
    then have "priority p \<le> priority b" using best by simp
    moreover have "priority p \<noteq> priority b"
    proof
      assume "priority p = priority b"
      with p(1) best have "p \<in> set (winners ps)" by (simp add: winners_def)
      with p(2) b show False by simp
    qed
    ultimately show "priority p < priority (hd (winners ps))" using b by simp
  qed
qed

lemma select_profile_cases:
  assumes "select_profile r (VStr u) pref = Inr p"
  obtains (preferred) n where "pref = VStr n" "map_of (profiles r) n = Some p" "supports p u"
      | (routed) n where "pref = VNone" "map_of (routes r) u = Some n" "stored r n = Inr p"
      | (best) "pref = VNone" "map_of (routes r) u = None" "length (winners (candidates r u)) = 1"
          "p = hd (winners (candidates r u))"
      | (default) n where "pref = VNone" "map_of (routes r) u = None" "candidates r u = []"
          "default_profile r = Some n" "fallback r" "stored r n = Inr p"
  using assms
  by (auto simp: select_profile_def bindR_Inr_iff check_name_Inr_iff Let_def split: if_splits option.splits)

text \<open>C29: Whatever the router resolves is a configured profile under its own name, and it supports the
  purpose unless nothing does and the default is the allowed fallback. A preferred profile is
  the one asked for, and an unrouted choice has strictly the highest priority of all supporting
  profiles.\<close>

theorem resolved_profile_is_best:
  assumes "router_ok r" "resolve_profile provider r (VStr u) pref = Inr q"
  shows "\<exists>p. map_of (profiles r) (pname q) = Some p \<and> purposes q = purposes p \<and> priority q = priority p \<and>
    (supports q u \<or> fallback r \<and> default_profile r = Some (pname q) \<and> candidates r u = []) \<and>
    (pref \<noteq> VNone \<longrightarrow> pref = VStr (pname q)) \<and>
    (pref = VNone \<and> map_of (routes r) u = None \<and> candidates r u \<noteq> [] \<longrightarrow>
      (\<forall>p'\<in>set (candidates r u). p' \<noteq> p \<longrightarrow> priority p' < priority q))"
proof -
  obtain p where p: "select_profile r (VStr u) pref = Inr p"
    and cur: "current (rlimit r) (rroles r) provider p = Inr q"
    using assms(2) by (auto simp: resolve_profile_def bindR_Inr_iff)
  have found: "map_of (profiles r) (pname p) = Some p \<and> profile_ok (rlimit r) p \<and>
    (supports p u \<or> fallback r \<and> default_profile r = Some (pname p) \<and> candidates r u = []) \<and>
    (pref \<noteq> VNone \<longrightarrow> pref = VStr (pname p)) \<and>
    (pref = VNone \<and> map_of (routes r) u = None \<and> candidates r u \<noteq> [] \<longrightarrow>
      (\<forall>p'\<in>set (candidates r u). p' \<noteq> p \<longrightarrow> priority p' < priority p))"
    using p
  proof (cases rule: select_profile_cases)
    case (preferred n)
    then have "stored r n = Inr p" by (simp add: stored_def)
    from stored_ok [OF assms(1) this] preferred show ?thesis by auto
  next
    case (routed n)
    have "(u, n) \<in> set (routes r)" using routed(2) by (rule map_of_SomeD)
    with assms(1) stored_ok [OF assms(1) routed(3)] have "supports p u"
      by (auto simp: router_ok_def)
    with stored_ok [OF assms(1) routed(3)] routed show ?thesis by auto
  next
    case best
    have "p \<in> set (candidates r u)" using winners_single(1) best by blast
    then have "map_of (profiles r) (pname p) = Some p" "supports p u"
      using candidates_iff [OF assms(1)] by blast+
    moreover from this(1) have "profile_ok (rlimit r) p"
      using stored_ok(3) [OF assms(1), of "pname p" p] by (simp add: stored_def)
    ultimately show ?thesis
      using winners_single(2) [OF best(3)] best by auto
  next
    case (default n)
    with stored_ok [OF assms(1) default(6)] show ?thesis by auto
  qed
  then have "profile_ok (rlimit r) p" by blast
  from current_keeps [OF this cur] found show ?thesis
    by (intro exI [of _ p]) (auto simp: supports_def)
qed

text \<open>The router refuses a request with a \<open>ValueError\<close> and with nothing else: no lookup of a
  stored name can miss.\<close>

theorem router_refuses_with_value_error:
  assumes "router_ok r" "select_profile r purpose pref = Inl e"
  shows "exn_kind e = ValueError"
proof -
  have route: "\<exists>p. stored r n = Inr p" if "map_of (routes r) u = Some n" for u n
    using that assms(1) by (fastforce simp: router_ok_def stored_def dest: map_of_SomeD)
  have default: "\<exists>p. stored r n = Inr p" if "default_profile r = Some n" for n
    using that assms(1) by (auto simp: router_ok_def stored_def has_key_iff)
  show ?thesis
    using assms(2) route default
    by (fastforce simp: select_profile_def bindR_Inl_iff check_name_def Let_def raise_text_def
        split: pyval.splits if_splits option.splits)
qed

section \<open>Order of registration\<close>

lemma sort_perm: "mset xs = mset ys \<Longrightarrow> sort xs = sort ys"
  by (rule properties_for_sort) simp_all

lemma map_of_perm: "dict_ok d \<Longrightarrow> mset d = mset d' \<Longrightarrow> map_of d' = map_of d"
proof -
  assume d: "dict_ok d" and m: "mset d = mset d'"
  have "mset (map fst d) = mset (map fst d')" using m by (metis mset_map)
  then have "distinct (map fst d')"
    using d mset_eq_imp_distinct_iff unfolding dict_ok_def keys_def by blast
  moreover have "set d = set d'" using m by (rule mset_eq_setD)
  ultimately show "map_of d' = map_of d"
    using d by (metis map_of_inject_set dict_ok_def keys_def)
qed

lemma purpose_routes_cong:
  "map_of d = map_of d' \<Longrightarrow> purpose_routes limit d found rs = purpose_routes limit d' found rs"
  by (induction limit d found rs rule: purpose_routes.induct)
     (auto simp: bindR_def split: sum.splits option.splits)

text \<open>Two routers that differ in the order of their profiles only.\<close>

definition same_profiles :: "router \<Rightarrow> router \<Rightarrow> bool" where
  "same_profiles r r' \<longleftrightarrow> rlimit r' = rlimit r \<and> rroles r' = rroles r \<and> routes r' = routes r \<and>
     default_profile r' = default_profile r \<and> fallback r' = fallback r \<and>
     dict_ok (profiles r) \<and> mset (profiles r) = mset (profiles r')"

lemma winners_perm: "mset ps = mset ps' \<Longrightarrow> mset (winners ps) = mset (winners ps')"
proof -
  assume m: "mset ps = mset ps'"
  then have "set ps = set ps'" by (rule mset_eq_setD)
  with m show ?thesis by (simp add: winners_def mset_filter)
qed

lemma select_same:
  assumes "same_profiles r r'"
  shows "select_profile r' u pref = select_profile r u pref"
proof -
  have maps: "map_of (profiles r') = map_of (profiles r)"
    using assms map_of_perm by (auto simp: same_profiles_def)
  then have stored: "stored r' n = stored r n" for n by (simp add: stored_def)
  have cand: "mset (candidates r' p) = mset (candidates r p)" for p
    using assms by (simp add: same_profiles_def candidates_def mset_filter)
  then have none: "candidates r' p = [] \<longleftrightarrow> candidates r p = []" for p
    by (metis mset_zero_iff)
  have win: "mset (winners (candidates r' p)) = mset (winners (candidates r p))" for p
    by (rule winners_perm) (rule cand)
  then have len: "length (winners (candidates r' p)) = length (winners (candidates r p))" for p
    by (rule mset_eq_length)
  have hd: "hd (winners (candidates r' p)) = hd (winners (candidates r p))"
    if one: "length (winners (candidates r p)) = 1" for p
  proof -
    obtain b c where "winners (candidates r' p) = [b]" "winners (candidates r p) = [c]"
      using one len [of p]
      by (cases "winners (candidates r' p)"; cases "winners (candidates r p)") auto
    with win [of p] show ?thesis by simp
  qed
  have names: "sort (map pname (winners (candidates r' p))) = sort (map pname (winners (candidates r p)))" for p
    using win [of p] by (intro sort_perm) simp
  have pick: "(if length (winners (candidates r' p)) = 1 then Inr (hd (winners (candidates r' p))) else failure) =
      (if length (winners (candidates r p)) = 1 then Inr (hd (winners (candidates r p))) else failure)" for p failure
    using len [of p] hd [of p] by simp
  have rest: "rlimit r' = rlimit r" "routes r' = routes r" "default_profile r' = default_profile r"
    "fallback r' = fallback r"
    using assms by (simp_all add: same_profiles_def)
  show ?thesis
    by (simp only: select_profile_def Let_def pick names none maps stored rest)
qed

text \<open>C30: The order in which profiles are configured does not matter: a router built from the same
  profiles in another order resolves every request to the same result, refusals included, and
  shows the same catalog.\<close>

theorem routing_ignores_profile_order:
  assumes "make_router limit roles ps d rs f = Inr r" "mset ps = mset ps'"
  shows "\<exists>r'. make_router limit roles ps' d rs f = Inr r' \<and>
    resolve_profile provider r' u pref = resolve_profile provider r u pref \<and>
    catalog provider r' = catalog provider r"
proof -
  from assms(1) have idx: "index_profiles [] ps = Inr (profiles r)" "profiles r \<noteq> []"
    and routes: "purpose_routes limit (profiles r) [] rs = Inr (routes r)"
    and default: "default_name limit (profiles r) d = Inr (default_profile r)"
    and flag: "fallback_flag f = Inr (fallback r)" and rest: "rlimit r = limit" "rroles r = roles"
    by (auto simp: make_router_def bindR_Inr_iff split: if_splits)
  let ?d' = "map (\<lambda>p. (pname p, p)) (map the ps')"
  from index_profiles_Inr [OF _ idx(1)] have some: "None \<notin> set ps" and ok: "dict_ok (profiles r)"
    and eq: "profiles r = map (\<lambda>p. (pname p, p)) (map the ps)" by auto
  have m: "mset (profiles r) = mset ?d'"
    unfolding eq using assms(2) by (simp flip: map_map)
  have "mset (map fst (profiles r)) = mset (map fst ?d')" using m by (metis mset_map)
  then have ok': "dict_ok ?d'"
    using ok mset_eq_imp_distinct_iff unfolding dict_ok_def keys_def by blast
  have "None \<notin> set ps'" using some assms(2) by (metis mset_eq_setD)
  then have idx': "index_profiles [] ps' = Inr ?d'"
    using index_profiles_mset [of "[]" ps'] ok' by simp
  have maps: "map_of ?d' = map_of (profiles r)" using map_of_perm [OF ok m] .
  let ?r' = "r\<lparr>profiles := ?d'\<rparr>"
  have same: "same_profiles r ?r'" using ok m by (simp add: same_profiles_def)
  have nonempty: "?d' \<noteq> []" using m idx(2) by (metis mset_zero_iff)
  have "has_key ?d' n = has_key (profiles r) n" for n by (simp only: has_key_iff maps)
  then have "default_name limit ?d' d = Inr (default_profile r)"
    using default by (simp only: default_name_def)
  then have made: "make_router limit roles ps' d rs f = Inr ?r'"
    using idx' nonempty routes purpose_routes_cong [OF maps] flag rest
    by (simp add: make_router_def)
  have stored: "stored ?r' n = stored r n" for n
    using maps by (simp add: stored_def del: map_map)
  have "sort (keys ?d') = sort (keys (profiles r))"
    using m unfolding keys_def by (intro sort_perm) (simp only: mset_map)
  then have "catalog provider ?r' = catalog provider r"
    by (simp add: catalog_def stored del: map_map)
  with made select_same [OF same] show ?thesis
    by (intro exI [of _ ?r']) (simp add: resolve_profile_def)
qed

section \<open>A concrete router\<close>

definition demo_profile :: "string \<Rightarrow> int \<Rightarrow> profile" where
  "demo_profile n k = \<lparr>pname = ustr n, pmodel = ustr ''m'', pfactory = 0, purposes = [star, ustr ''judge''],
     priority = k, pspec = None, prole = None, pcontext = None, precent = None, inherits_primary = False,
     ptimeout = VNone, request_options = []\<rparr>"

definition demo_router :: "profile list \<Rightarrow> router result" where
  "demo_router ps = make_router 64 [ustr ''system''] (map Some ps) (VStr (ustr ''a''))
     [(VStr (ustr ''judge''), VStr (ustr ''b''))] (VBool True)"

definition built :: router where
  "built = \<lparr>rlimit = 64, rroles = [ustr ''system''],
     profiles = [(ustr ''a'', demo_profile ''a'' 2), (ustr ''b'', demo_profile ''b'' 1)],
     routes = [(ustr ''judge'', ustr ''b'')], default_profile = Some (ustr ''a''), fallback = True\<rparr>"

lemma names_ok: "name_ok 64 (ustr ''a'')" "name_ok 64 (ustr ''b'')" "name_ok 64 (ustr ''judge'')"
  "name_ok 64 (ustr ''review'')"
  by code_simp+

lemma built_router: "demo_router [demo_profile ''a'' 2, demo_profile ''b'' 1] = Inr built"
  by (simp add: demo_router_def make_router_def built_def demo_profile_def has_key_def keys_def default_name_def
      check_name_def names_ok supports_def fallback_flag_def)

lemma built_ok: "router_ok built"
  using built_router unfolding demo_router_def
  by (rule make_router_ok) (auto simp: demo_profile_def profile_ok_def names_ok star_def)

theorem resolved_profile_is_best_witness:
  "map_of (profiles built) (ustr ''a'') = Some (demo_profile ''a'' 2) \<and>
    list_all (\<lambda>p. p = demo_profile ''a'' 2 \<or> priority p < 2) (candidates built (ustr ''review''))"
proof -
  have "resolve_profile (\<lambda>n. Inr None) built (VStr (ustr ''review'')) VNone = Inr (demo_profile ''a'' 2)"
    by (simp add: resolve_profile_def select_profile_def check_name_def names_ok built_def candidates_def
        supports_def demo_profile_def winners_def current_def)
  from resolved_profile_is_best [OF built_ok this] show ?thesis
    by (auto simp: built_def demo_profile_def candidates_def supports_def)
qed

theorem router_refuses_with_value_error_witness:
  "case select_profile built (VStr (ustr ''review'')) (VInt 3) of Inl e \<Rightarrow> exn_kind e = ValueError | Inr p \<Rightarrow> False"
proof -
  obtain e where e: "select_profile built (VStr (ustr ''review'')) (VInt 3) = Inl e"
    by (simp add: select_profile_def check_name_def names_ok built_def raise_text_def)
  from router_refuses_with_value_error [OF built_ok this] show ?thesis by (simp add: e)
qed

theorem routing_ignores_profile_order_witness:
  "\<exists>r'. demo_router [demo_profile ''b'' 1, demo_profile ''a'' 2] = Inr r' \<and>
    resolve_profile (\<lambda>n. Inr None) r' (VStr (ustr ''review'')) VNone =
      resolve_profile (\<lambda>n. Inr None) built (VStr (ustr ''review'')) VNone \<and>
    catalog (\<lambda>n. Inr None) r' = catalog (\<lambda>n. Inr None) built"
  using routing_ignores_profile_order [OF built_router [unfolded demo_router_def],
      of "map Some [demo_profile ''b'' 1, demo_profile ''a'' 2]"]
  by (simp add: demo_router_def)

end
