(* ===== verification/Workers.thy ===== *)
theory Workers
  imports Validation
begin

text \<open>
  \<open>raychat/workers.py\<close>: one background thread per conversation, its job queue, cancellation and
  the approval handshake. The state is what the threads share plus the worker thread's program
  point \<open>pc\<close>; consumers act in the sections their lock protects, the worker thread in
  \<open>thread_step\<close>. What the conversation, the factory, observers and control callbacks do is a
  \<open>choice\<close>, so the theorems hold for every conversation and every interleaving. The stop flag
  is read outside the lock, hence the two program points of a check.

  \<open>published\<close> tells the worker's own notifications from those it forwards; \<open>worker_event\<close> is the
  kind and payload a consumer sees. \<open>history\<close>, \<open>answered\<close> and \<open>granted\<close> are history variables:
  what was ever published, which answers were accepted, which approvals returned true.

  Two simplifications: the last check before an approval is requested and the section that
  registers it are one step, and a conversation or task runner returns text, as its annotation
  says (a \<open>None\<close>, which \<open>_complete_job\<close> answers with a RuntimeError, does not occur).
\<close>

section \<open>State\<close>

record job =
  jid :: nat
  jtask :: pystr
  has_future :: bool

datatype command = Job job | Reset | Reconfigure | Stop

datatype published = Own string fields | Forwarded nat pystr fields | Session_Event pystr fields

definition worker_event :: "published \<Rightarrow> pystr \<times> fields" where
  "worker_event p = (case p of
      Own kind fs \<Rightarrow> (ustr kind, fs)
    | Forwarded j kind fs \<Rightarrow> (kind, AList.update (ustr ''job_id'') (VInt (int j)) fs)
    | Session_Event kind fs \<Rightarrow> (kind, fs))"

datatype future = Pending | Future_Cancelled | Resolved "pystr result"

text \<open>The conversation runs a slash command first, then a prompt. \<open>Forward\<close> is the event callback
  between its two checks, for an event of the conversation or one of the worker itself.\<close>

datatype talk = Command_Talk | Prompt_Talk
datatype onward = Talk talk | Finish pystr
datatype origin = Callback talk | Own_Event onward

datatype after = First | Within talk | Forward pystr fields origin | Second origin
  | Ask fields talk | Poll nat talk | Decide nat bool talk | Final pystr

datatype pc =
    Fresh | Begin | Fetch
  | Took command
  | Reconfiguring
  | Resetting | Reset_Done
  | Job_Begin job | Job_Entered job
  | Activity job
  | Checking job bool after
  | Make_Session job
  | Conversing job talk
  | Asking job nat fields talk
  | Polling job nat talk
  | Clearing job nat "bool result" talk
  | Resolve job "pystr result" | Report job "pystr result"
  | Job_Final job bool "exn option"
  | Activity_Off job "exn option"
  | Job_Idle job
  | Command_Done command "exn option"
  | Closing "exn option" | Dead "exn option"

record worker =
  jobs :: "command list"
  answers :: "(nat \<times> bool) list"
  in_flight :: "(nat \<times> bool) list"
  inbox :: "published list"
  stop_flag :: bool
  cancelled_jobs :: "nat set"
  ended_cancelled :: "nat set"
  active_job :: "nat option"
  accepted_jobs :: "nat set"
  started :: bool
  processing :: bool
  pending_controls :: int
  pending_approval :: "nat option"
  approval_answered :: bool
  next_job :: nat
  next_approval :: nat
  futures :: "nat \<Rightarrow> future"
  has_session :: bool
  cleanup_error :: "exn option"
  pc :: pc
  history :: "published list"
  answered :: "(nat \<times> bool) list"
  granted :: "nat list"

record worker_cfg =
  standalone :: bool
  observed :: bool
  max_error_chars :: nat

definition new_worker :: worker where
  "new_worker = \<lparr>jobs = [], answers = [], in_flight = [], inbox = [], stop_flag = False,
     cancelled_jobs = {}, ended_cancelled = {}, active_job = None, accepted_jobs = {}, started = False,
     processing = False, pending_controls = 0, pending_approval = None, approval_answered = False,
     next_job = 1, next_approval = 1, futures = (\<lambda>_. Pending), has_session = False, cleanup_error = None,
     pc = Fresh, history = [], answered = [], granted = []\<rparr>"

definition publish_event :: "published \<Rightarrow> worker \<Rightarrow> worker" where
  "publish_event p w = w\<lparr>inbox := inbox w @ [p], history := history w @ [p]\<rparr>"

section \<open>Construction\<close>

text \<open>\<open>None\<close> is a value that is not callable.\<close>

datatype callable = Absent | Callable | Not_Callable

record execution =
  exec_chat :: callable
  exec_factory :: callable
  exec_task :: callable
  exec_activity :: callable

definition check_execution :: "execution \<Rightarrow> unit result" where
  "check_execution x =
     (if Not_Callable \<in> set [exec_chat x, exec_factory x, exec_task x, exec_activity x]
      then raise TypeError ''Provide a callable chat or session factory.''
      else if exec_chat x = Absent \<and> exec_factory x = Absent \<and> exec_task x = Absent
      then raise TypeError ''Provide a callable chat or session factory.''
      else if exec_task x \<noteq> Absent \<and> (exec_chat x \<noteq> Absent \<or> exec_factory x \<noteq> Absent)
      then raise TypeError ''Standalone tasks cannot also own a chat or session factory.''
      else Inr ())"

definition managed_fields :: "pystr list" where
  "managed_fields = map ustr [''approval_callback'', ''cancel_check'', ''chat'', ''event_callback'', ''task'', ''workspace'']"

text \<open>The conflicting names are reported sorted, as they are listed here.\<close>

definition make_worker :: "nat \<Rightarrow> execution \<Rightarrow> pyval \<Rightarrow> fields \<Rightarrow> (worker_cfg \<times> worker) result" where
  "make_worker limit x poll options =
     bindR (check_execution x) (\<lambda>_.
     if \<not> finite_timeout False poll then raise ValueError ''approval_poll_seconds must be positive and finite.''
     else let conflicts = filter (has_key options) managed_fields in
       if conflicts \<noteq> [] then raise_text ValueError
         (ustr ''run_options cannot override worker-managed fields: '' @ join (ustr '', '') conflicts)
       else Inr (\<lparr>standalone = (exec_task x \<noteq> Absent), observed = (exec_activity x \<noteq> Absent),
         max_error_chars = limit\<rparr>, new_worker))"

definition task_text :: "pyval \<Rightarrow> pystr result" where
  "task_text v = (let failure = raise ValueError ''Worker tasks must be nonempty text.''
     in case v of VStr s \<Rightarrow> if blank s then failure else Inr s | _ \<Rightarrow> failure)"

definition worker_step_limit :: "pyval \<Rightarrow> int option result" where
  "worker_step_limit v = (if v = VNone then Inr None
     else bindR (integer_field (Some 0) v (ustr ''maximum steps'')) (\<lambda>n. Inr (if n = 0 then None else Some n)))"

section \<open>What consumers do\<close>

text \<open>\<open>ok\<close> says whether the operating system could create the thread.\<close>

definition start :: "bool \<Rightarrow> (worker, unit) eff" where
  "start ok w =
     (if stop_flag w then (w, raise RuntimeError ''A stopping or stopped AgentWorker cannot be restarted.'')
      else if started w then (w, Inr ())
      else if ok then (w\<lparr>started := True, pc := Begin\<rparr>, Inr ())
      else (w, raise RuntimeError ''can't start new thread''))"

definition not_stopping :: "string \<Rightarrow> (worker, unit) eff" where
  "not_stopping m w = (w, if stop_flag w then raise RuntimeError m else Inr ())"

definition enqueue_job :: "pystr \<Rightarrow> bool \<Rightarrow> (worker, nat) eff" where
  "enqueue_job t fut w =
     (if stop_flag w then (w, raise RuntimeError ''AgentWorker is stopping.'')
      else let n = next_job w in
        (w\<lparr>next_job := n + 1, accepted_jobs := insert n (accepted_jobs w),
          jobs := jobs w @ [Job \<lparr>jid = n, jtask = t, has_future = fut\<rparr>]\<rparr>, Inr n))"

definition submit :: "bool \<Rightarrow> pyval \<Rightarrow> bool \<Rightarrow> (worker, nat) eff" where
  "submit ok v fut =
     bindS (liftR (task_text v)) (\<lambda>t.
     bindS (not_stopping ''AgentWorker is stopping.'') (\<lambda>_.
     bindS (start ok) (\<lambda>_. enqueue_job t fut)))"

definition enqueue_control :: "string \<Rightarrow> command \<Rightarrow> (worker, unit) eff" where
  "enqueue_control m c w =
     (if stop_flag w then (w, raise RuntimeError m)
      else (w\<lparr>pending_controls := pending_controls w + 1, jobs := jobs w @ [c]\<rparr>, Inr ()))"

definition reconfigure :: "(worker, unit) eff" where
  "reconfigure = enqueue_control ''A stopping worker cannot accept session reconfiguration.'' Reconfigure"

definition enqueue_reset :: "(worker, unit) eff" where
  "enqueue_reset = enqueue_control ''AgentWorker is stopping.'' Reset"

definition reset_worker :: "bool \<Rightarrow> (worker, unit) eff" where
  "reset_worker ok =
     bindS (not_stopping ''AgentWorker is stopping.'') (\<lambda>_. bindS (start ok) (\<lambda>_. enqueue_reset))"

definition stop :: "worker \<Rightarrow> worker" where
  "stop w = (if stop_flag w then w else w\<lparr>stop_flag := True, jobs := jobs w @ [Stop]\<rparr>)"

definition cancel_current :: "nat option \<Rightarrow> worker \<Rightarrow> worker \<times> bool" where
  "cancel_current requested w =
     (case (case requested of None \<Rightarrow> active_job w | Some j \<Rightarrow> Some j) of
        None \<Rightarrow> (w, False)
      | Some j \<Rightarrow>
          if j \<notin> accepted_jobs w then (w, False)
          else let w' = w\<lparr>cancelled_jobs := insert j (cancelled_jobs w)\<rparr>
            in (if active_job w = Some j then w'\<lparr>pending_approval := None, approval_answered := False\<rparr> else w',
                True))"

text \<open>An accepted answer is marked under the lock and reaches the queue after it (\<open>deliver\<close>).\<close>

definition accept_answer :: "nat \<Rightarrow> bool \<Rightarrow> worker \<Rightarrow> worker \<times> bool" where
  "accept_answer a approved w =
     (if pending_approval w \<noteq> Some a \<or> approval_answered w then (w, False)
      else (w\<lparr>approval_answered := True, in_flight := in_flight w @ [(a, approved)],
        answered := answered w @ [(a, approved)]\<rparr>, True))"

definition deliver :: "nat \<Rightarrow> worker \<Rightarrow> worker" where
  "deliver k w = (if k < length (in_flight w)
     then w\<lparr>answers := answers w @ [in_flight w ! k],
       in_flight := take k (in_flight w) @ drop (Suc k) (in_flight w)\<rparr> else w)"

definition respond_approval :: "pyval \<Rightarrow> pyval \<Rightarrow> (worker, bool) eff" where
  "respond_approval a approved w =
     (case (a, approved) of
        (VInt i, VBool b) \<Rightarrow>
          if i < 0 then (w, Inr False)
          else (case accept_answer (nat i) b w of
              (w', False) \<Rightarrow> (w', Inr False)
            | (w', True) \<Rightarrow> (deliver (length (in_flight w)) w', Inr True))
      | _ \<Rightarrow> (w, raise TypeError ''Approval responses require an integer ID and bool decision.''))"

definition take_event :: "worker \<Rightarrow> worker \<times> published option" where
  "take_event w = (case inbox w of [] \<Rightarrow> (w, None) | p # ps \<Rightarrow> (w\<lparr>inbox := ps\<rparr>, Some p))"

definition get_event :: "pyval \<Rightarrow> (worker, published option) eff" where
  "get_event timeout w =
     (if timeout \<noteq> VNone \<and> \<not> finite_timeout True timeout
      then (w, raise ValueError ''Event timeout must be nonnegative and finite.'')
      else case take_event w of (w', p) \<Rightarrow> (w', Inr p))"

fun drain_loop :: "nat \<Rightarrow> worker \<Rightarrow> worker \<times> published list" where
  "drain_loop 0 w = (w, [])"
| "drain_loop (Suc n) w = (case take_event w of
      (w', None) \<Rightarrow> (w', [])
    | (w', Some p) \<Rightarrow> (case drain_loop n w' of (w'', ps) \<Rightarrow> (w'', p # ps)))"

definition drain_events :: "worker \<Rightarrow> worker \<times> published list" where
  "drain_events w = drain_loop (Suc (length (inbox w))) w"

definition quiescent :: "worker \<Rightarrow> bool" where
  "quiescent w \<longleftrightarrow> \<not> (accepted_jobs w \<noteq> {} \<or> processing w \<or> pending_controls w \<noteq> 0 \<or> jobs w \<noteq> [])"

definition is_alive :: "worker \<Rightarrow> bool" where
  "is_alive w \<longleftrightarrow> (case pc w of Fresh \<Rightarrow> False | Dead _ \<Rightarrow> False | _ \<Rightarrow> True)"

text \<open>Restoring hands over a control that keeps its own failures, then waits for it.\<close>

definition restore_conversation :: "bool \<Rightarrow> bool \<Rightarrow> (worker, unit) eff" where
  "restore_conversation factory ok w =
     (if \<not> quiescent w \<or> \<not> factory then (w, raise RuntimeError ''Restoration requires an idle conversation worker.'')
      else bindS (start ok) (\<lambda>_. reconfigure) w)"

text \<open>What a join that has waited long enough, or run out of time, returns.\<close>

definition join_result :: "worker \<Rightarrow> bool result" where
  "join_result w = (case cleanup_error w of
      Some e \<Rightarrow> if \<not> is_alive w
        then raise_text RuntimeError (ustr ''Chat worker cleanup failed: '' @ exn_text e) else Inr False
    | None \<Rightarrow> Inr (\<not> is_alive w))"

text \<open>A consumer may cancel the future it handed in.\<close>

definition cancel_future :: "nat \<Rightarrow> worker \<Rightarrow> worker" where
  "cancel_future j w = (if futures w j = Pending then w\<lparr>futures := (futures w)(j := Future_Cancelled)\<rparr> else w)"

text \<open>A session event of a job, from its own thread or, deferred, from another.\<close>

definition session_scoped :: "pystr \<Rightarrow> fields \<Rightarrow> bool" where
  "session_scoped kind fs \<longleftrightarrow> kind \<in> set [ustr ''notification'', ustr ''ui''] \<and> get fs ''scope'' = VStr (ustr ''session'')"

definition session_event :: "nat \<Rightarrow> pystr \<Rightarrow> fields \<Rightarrow> worker \<Rightarrow> worker" where
  "session_event j kind fs w =
     (if stop_flag w \<or> (kind = ustr ''ui'' \<and> (j \<in> ended_cancelled w \<or> j \<in> cancelled_jobs w)) then w
      else publish_event (Session_Event kind fs) w)"

section \<open>What the worker thread does\<close>

text \<open>
  \<open>Proceed\<close> is a call that returns; \<open>Fail e\<close> one that raises; the others are what a conversation
  can do with its callbacks, or how it ends.
\<close>

datatype choice = Proceed bool | Fail exn
  | Check_Cancel | Emit pystr fields | Request fields bool | Answer pystr pystr

definition job_message :: "job \<Rightarrow> (string \<times> pyval) list \<Rightarrow> fields" where
  "job_message j fs = (ustr ''job_id'', VInt (int (jid j))) # map (\<lambda>(k, v). (ustr k, v)) fs"

definition notice :: "string \<Rightarrow> exn \<Rightarrow> published" where
  "notice m e = Own ''notification'' [(ustr ''scope'', VStr (ustr ''session'')), (ustr ''message'', VStr (ustr m @ exn_text e))]"

definition is_exception :: "exn \<Rightarrow> bool" where
  "is_exception e \<longleftrightarrow> isa (exn_kind e) Exception"

definition stopped_exn :: exn where
  "stopped_exn = Exn WorkerStopped []"

definition cancelled_exn :: exn where
  "cancelled_exn = Exn TaskCancelled []"

definition was_cancelled :: "exn \<Rightarrow> bool" where
  "was_cancelled e \<longleftrightarrow> exn_kind e = WorkerStopped \<or> exn_kind e = TaskCancelled"

text \<open>Where a check leads when it passes and when it raises.\<close>

definition proceed :: "job \<Rightarrow> onward \<Rightarrow> pc" where
  "proceed j n = (case n of Talk t \<Rightarrow> Conversing j t | Finish r \<Rightarrow> Checking j False (Final r))"

definition passed :: "job \<Rightarrow> after \<Rightarrow> worker \<Rightarrow> worker" where
  "passed j k w = (case k of
      First \<Rightarrow> w\<lparr>pc := Make_Session j\<rparr>
    | Within t \<Rightarrow> w\<lparr>pc := Conversing j t\<rparr>
    | Forward kind fs src \<Rightarrow> (publish_event (Forwarded (jid j) kind fs) w)\<lparr>pc := Checking j False (Second src)\<rparr>
    | Second src \<Rightarrow> w\<lparr>pc := (case src of Callback t \<Rightarrow> Conversing j t | Own_Event n \<Rightarrow> proceed j n)\<rparr>
    | Ask action t \<Rightarrow> w\<lparr>next_approval := next_approval w + 1, pending_approval := Some (next_approval w),
        approval_answered := False, pc := Asking j (next_approval w) action t\<rparr>
    | Poll a t \<Rightarrow> w\<lparr>pc := Polling j a t\<rparr>
    | Decide a b t \<Rightarrow> w\<lparr>pc := Clearing j a (Inr b) t\<rparr>
    | Final r \<Rightarrow> w\<lparr>pc := Resolve j (Inr r)\<rparr>)"

definition refused :: "job \<Rightarrow> after \<Rightarrow> exn \<Rightarrow> pc" where
  "refused j k e = (case k of
      First \<Rightarrow> Resolve j (Inl e)
    | Within t \<Rightarrow> Conversing j t
    | Forward kind fs src \<Rightarrow> (case src of Callback t \<Rightarrow> Conversing j t | Own_Event n \<Rightarrow> Resolve j (Inl e))
    | Second src \<Rightarrow> (case src of Callback t \<Rightarrow> Conversing j t | Own_Event n \<Rightarrow> Resolve j (Inl e))
    | Ask action t \<Rightarrow> Conversing j t
    | Poll a t \<Rightarrow> Clearing j a (Inl e) t
    | Decide a b t \<Rightarrow> Clearing j a (Inl e) t
    | Final r \<Rightarrow> Resolve j (Inl e))"

definition converse :: "worker_cfg \<Rightarrow> job \<Rightarrow> talk \<Rightarrow> choice \<Rightarrow> worker \<Rightarrow> worker option" where
  "converse cfg j t c w = (case c of
      Check_Cancel \<Rightarrow> Some (w\<lparr>pc := Checking j False (Within t)\<rparr>)
    | Emit kind fs \<Rightarrow>
        if t = Command_Talk \<and> kind = ustr ''command_task'' then Some w
        else if session_scoped kind fs then Some (session_event (jid j) kind fs w)
        else Some (w\<lparr>pc := Checking j False (Forward kind fs (Callback t))\<rparr>)
    | Request action registered \<Rightarrow>
        if standalone cfg \<or> t = Command_Talk then None
        else Some (w\<lparr>pc := Checking j False (Ask ((ustr ''registered_tool'', VBool registered) # action) t)\<rparr>)
    | Fail e \<Rightarrow> Some (w\<lparr>pc := Resolve j (Inl e)\<rparr>)
    | Answer r requested \<Rightarrow> Some (w\<lparr>pc :=
        (if standalone cfg \<or> (t = Command_Talk \<and> requested = [])
         then Checking j False (Forward (ustr ''done'') [(ustr ''message'', VStr r)] (Own_Event (Finish r)))
         else if t = Command_Talk
         then Checking j False (Forward (ustr ''notification'') [(ustr ''message'', VStr r)] (Own_Event (Talk Prompt_Talk)))
         else Checking j False (Final r))\<rparr>)
    | Proceed b \<Rightarrow> None)"

definition report_event :: "worker_cfg \<Rightarrow> job \<Rightarrow> pystr result \<Rightarrow> published" where
  "report_event cfg j r = (case r of
      Inr t \<Rightarrow> Own ''completed'' (job_message j [(''result'', VStr t)])
    | Inl e \<Rightarrow> if was_cancelled e then Own ''cancelled'' (job_message j [])
        else Own ''error'' (job_message j [(''error_type'', VStr (ustr (exn_class_name (exn_kind e)))),
          (''message'', VStr (take (max_error_chars cfg) (exn_text e)))]))"

text \<open>\<open>Future.cancel\<close> of a pending future; \<open>set_result\<close> and \<open>set_exception\<close> refuse any other.\<close>

definition resolve_future :: "job \<Rightarrow> pystr result \<Rightarrow> worker \<Rightarrow> worker \<times> unit result" where
  "resolve_future j r w =
     (if \<not> has_future j then (w, Inr ())
      else case r of
          Inl e \<Rightarrow> if was_cancelled e then (cancel_future (jid j) w, Inr ())
            else if futures w (jid j) = Pending then (w\<lparr>futures := (futures w)(jid j := Resolved r)\<rparr>, Inr ())
            else (w, raise InvalidStateError ''future is not pending'')
        | Inr t \<Rightarrow> if futures w (jid j) = Pending then (w\<lparr>futures := (futures w)(jid j := Resolved r)\<rparr>, Inr ())
            else (w, raise InvalidStateError ''future is not pending''))"

definition error_of :: "'a result \<Rightarrow> exn option" where
  "error_of r = (case r of Inl e \<Rightarrow> Some e | Inr _ \<Rightarrow> None)"

definition leave_job :: "job \<Rightarrow> worker \<Rightarrow> worker" where
  "leave_job j w = w\<lparr>ended_cancelled := (if jid j \<in> cancelled_jobs w then insert (jid j) (ended_cancelled w) else ended_cancelled w),
     accepted_jobs := accepted_jobs w - {jid j}, cancelled_jobs := cancelled_jobs w - {jid j}, active_job := None\<rparr>"

definition finish_command :: "command \<Rightarrow> exn option \<Rightarrow> worker \<Rightarrow> worker" where
  "finish_command c failure w = w\<lparr>processing := False,
     pending_controls := (if c = Reconfigure \<or> c = Reset then pending_controls w - 1 else pending_controls w),
     pc := (case failure of None \<Rightarrow> Fetch | Some e \<Rightarrow> Closing (Some e))\<rparr>"

fun begin_command :: "command \<Rightarrow> pc" where
  "begin_command (Job j) = Job_Begin j"
| "begin_command Reset = Resetting"
| "begin_command Reconfigure = Reconfiguring"
| "begin_command Stop = Closing None"

definition clear_approval :: "nat \<Rightarrow> worker \<Rightarrow> worker" where
  "clear_approval a w = (if pending_approval w = Some a
     then w\<lparr>pending_approval := None, approval_answered := False\<rparr> else w)"

definition poll_answer :: "job \<Rightarrow> nat \<Rightarrow> talk \<Rightarrow> worker \<Rightarrow> worker" where
  "poll_answer j a t w = (case answers w of
      [] \<Rightarrow> w\<lparr>pc := Checking j False (Poll a t)\<rparr>
    | (b, d) # rest \<Rightarrow> w\<lparr>answers := rest,
        pc := Checking j False (if b = a then Decide a d t else Poll a t)\<rparr>)"

definition thread_step :: "worker_cfg \<Rightarrow> choice \<Rightarrow> worker \<Rightarrow> worker option" where
  "thread_step cfg c w = (case pc w of
      Fresh \<Rightarrow> None
    | Begin \<Rightarrow> Some ((publish_event (Own ''idle'' []) w)\<lparr>pc := Fetch\<rparr>)
    | Fetch \<Rightarrow> (case jobs w of
          [] \<Rightarrow> None
        | Stop # rest \<Rightarrow> Some (w\<lparr>jobs := rest, pc := Closing None\<rparr>)
        | k # rest \<Rightarrow> Some (w\<lparr>jobs := rest, pc := Took k\<rparr>))
    | Took k \<Rightarrow> Some (w\<lparr>processing := True, pc := begin_command k\<rparr>)
    | Reconfiguring \<Rightarrow> (case c of
          Proceed b \<Rightarrow> Some (w\<lparr>has_session := b, pc := Command_Done Reconfigure None\<rparr>)
        | Fail e \<Rightarrow> if is_exception e
            then Some ((publish_event (notice ''Child plugin update failed: '' e) w)\<lparr>pc := Command_Done Reconfigure None\<rparr>)
            else Some (w\<lparr>pc := Command_Done Reconfigure (Some e)\<rparr>)
        | _ \<Rightarrow> None)
    | Resetting \<Rightarrow>
        if stop_flag w \<or> \<not> has_session w then Some (w\<lparr>pc := Reset_Done\<rparr>)
        else (case c of
            Proceed b \<Rightarrow> Some (w\<lparr>pc := Reset_Done\<rparr>)
          | Fail e \<Rightarrow> Some (w\<lparr>pc := Command_Done Reset (Some e)\<rparr>)
          | _ \<Rightarrow> None)
    | Reset_Done \<Rightarrow>
        Some ((if stop_flag w then w else publish_event (Own ''reset'' []) w)\<lparr>pc := Command_Done Reset None\<rparr>)
    | Job_Begin j \<Rightarrow> Some (w\<lparr>active_job := Some (jid j), pc := Job_Entered j\<rparr>)
    | Job_Entered j \<Rightarrow>
        if stop_flag w
        then Some ((publish_event (Own ''cancelled'' (job_message j [])) (if has_future j then cancel_future (jid j) w else w))
          \<lparr>pc := Job_Final j False None\<rparr>)
        else Some ((publish_event (Own ''started'' (job_message j [(''task'', VStr (jtask j))])) w)\<lparr>pc := Activity j\<rparr>)
    | Activity j \<Rightarrow> (case c of
          Proceed b \<Rightarrow> Some (w\<lparr>pc := Checking j False First\<rparr>)
        | Fail e \<Rightarrow> if observed cfg then Some (w\<lparr>pc := Resolve j (Inl e)\<rparr>) else None
        | _ \<Rightarrow> None)
    | Checking j False k \<Rightarrow>
        Some (if stop_flag w then w\<lparr>pc := refused j k stopped_exn\<rparr> else w\<lparr>pc := Checking j True k\<rparr>)
    | Checking j True k \<Rightarrow>
        Some (if jid j \<in> cancelled_jobs w \<or> jid j \<notin> accepted_jobs w
          then w\<lparr>pc := refused j k cancelled_exn\<rparr> else passed j k w)
    | Make_Session j \<Rightarrow> (case c of
          Proceed b \<Rightarrow> Some (w\<lparr>has_session := (has_session w \<or> \<not> standalone cfg),
            pc := Conversing j (if \<not> standalone cfg \<and> startswith (jtask j) (ustr ''/'') then Command_Talk else Prompt_Talk)\<rparr>)
        | Fail e \<Rightarrow> Some (w\<lparr>pc := Resolve j (Inl e)\<rparr>)
        | _ \<Rightarrow> None)
    | Conversing j t \<Rightarrow> converse cfg j t c w
    | Asking j a action t \<Rightarrow>
        Some ((publish_event (Own ''approval_required'' (job_message j
          [(''approval_id'', VInt (int a)), (''action'', dict_of (tl action)),
           (''registered_tool'', snd (hd action))])) w)\<lparr>pc := Checking j False (Poll a t)\<rparr>)
    | Polling j a t \<Rightarrow> Some (poll_answer j a t w)
    | Clearing j a r t \<Rightarrow> Some ((clear_approval a w)\<lparr>pc := Conversing j t,
        granted := (if r = Inr True then granted w @ [a] else granted w)\<rparr>)
    | Resolve j r \<Rightarrow> (case resolve_future j r
          (if error_of r \<noteq> None \<and> was_cancelled (the (error_of r))
           then w\<lparr>ended_cancelled := insert (jid j) (ended_cancelled w)\<rparr> else w) of
          (w', Inl e) \<Rightarrow> Some (w'\<lparr>pc := Job_Final j True (Some e)\<rparr>)
        | (w', Inr _) \<Rightarrow> Some (w'\<lparr>pc := Report j r\<rparr>))
    | Report j r \<Rightarrow> Some ((publish_event (report_event cfg j r) w)\<lparr>pc := Job_Final j True None\<rparr>)
    | Job_Final j began failure \<Rightarrow> Some ((leave_job j w)
        \<lparr>pc := (if began then Activity_Off j failure else Command_Done (Job j) failure)\<rparr>)
    | Activity_Off j failure \<Rightarrow> (case c of
          Proceed b \<Rightarrow> Some (w\<lparr>pc := (if failure = None then Job_Idle j else Command_Done (Job j) failure)\<rparr>)
        | Fail e \<Rightarrow> if \<not> observed cfg then None
            else if is_exception e then Some ((publish_event (notice ''Activity observer failed: '' e) w)
              \<lparr>pc := (if failure = None then Job_Idle j else Command_Done (Job j) failure)\<rparr>)
            else Some (w\<lparr>pc := Command_Done (Job j) (Some e)\<rparr>)
        | _ \<Rightarrow> None)
    | Job_Idle j \<Rightarrow>
        Some ((if stop_flag w then w else publish_event (Own ''idle'' []) w)\<lparr>pc := Command_Done (Job j) None\<rparr>)
    | Command_Done k failure \<Rightarrow> Some (finish_command k failure w)
    | Closing failure \<Rightarrow>
        if \<not> has_session w then Some ((publish_event (Own ''stopped'' []) w)\<lparr>cleanup_error := None, pc := Dead failure\<rparr>)
        else (case c of
          Proceed b \<Rightarrow> Some ((publish_event (Own ''stopped'' []) w)\<lparr>cleanup_error := None, pc := Dead failure\<rparr>)
        | Fail e \<Rightarrow> Some ((publish_event (Own ''stopped'' []) w)\<lparr>cleanup_error := Some e, pc := Dead failure\<rparr>)
        | _ \<Rightarrow> None)
    | Dead failure \<Rightarrow> None)"

datatype consumer = Start bool | Enqueue pystr bool | Control command | Stop_Worker
  | Cancel "nat option" | Answer_Approval nat bool | Deliver nat | Take_Event
  | Cancel_Future nat | Late_Event nat pystr fields

fun consume :: "consumer \<Rightarrow> worker \<Rightarrow> worker" where
  "consume (Start ok) w = fst (start ok w)"
| "consume (Enqueue t fut) w = fst (enqueue_job t fut w)"
| "consume (Control c) w = (if c = Reset then fst (enqueue_reset w) else if c = Reconfigure then fst (reconfigure w) else w)"
| "consume Stop_Worker w = stop w"
| "consume (Cancel j) w = fst (cancel_current j w)"
| "consume (Answer_Approval a b) w = fst (accept_answer a b w)"
| "consume (Deliver k) w = deliver k w"
| "consume Take_Event w = fst (take_event w)"
| "consume (Cancel_Future j) w = cancel_future j w"
| "consume (Late_Event j kind fs) w = (if session_scoped kind fs then session_event j kind fs w else w)"

inductive wstep :: "worker_cfg \<Rightarrow> worker \<Rightarrow> worker \<Rightarrow> bool" for cfg where
  consumer: "wstep cfg w (consume x w)"
| thread: "thread_step cfg c w = Some w' \<Longrightarrow> wstep cfg w w'"

inductive reachable :: "worker_cfg \<Rightarrow> worker \<Rightarrow> bool" for cfg where
  initial: "reachable cfg new_worker"
| move: "reachable cfg w \<Longrightarrow> wstep cfg w w' \<Longrightarrow> reachable cfg w'"

section \<open>The shape of a thread step\<close>

text \<open>The job the thread has taken off the queue and not yet left, and whether it is active.\<close>

fun holding :: "pc \<Rightarrow> job option" where
  "holding (Took (Job j)) = Some j"
| "holding (Job_Begin j) = Some j"
| "holding (Job_Entered j) = Some j"
| "holding (Activity j) = Some j"
| "holding (Checking j b k) = Some j"
| "holding (Make_Session j) = Some j"
| "holding (Conversing j t) = Some j"
| "holding (Asking j a fs t) = Some j"
| "holding (Polling j a t) = Some j"
| "holding (Clearing j a r t) = Some j"
| "holding (Resolve j r) = Some j"
| "holding (Report j r) = Some j"
| "holding (Job_Final j b e) = Some j"
| "holding _ = None"

definition inner :: "pc \<Rightarrow> job option" where
  "inner p = (case p of Took c \<Rightarrow> None | Job_Begin j \<Rightarrow> None | _ \<Rightarrow> holding p)"

fun hands :: "pc \<Rightarrow> command option" where
  "hands (Took c) = Some c"
| "hands Reconfiguring = Some Reconfigure"
| "hands Resetting = Some Reset"
| "hands Reset_Done = Some Reset"
| "hands (Activity_Off j e) = Some (Job j)"
| "hands (Job_Idle j) = Some (Job j)"
| "hands (Command_Done c e) = Some c"
| "hands p = map_option Job (holding p)"

record shared =
  core_jobs :: "command list"
  core_accepted :: "nat set"
  core_cancelled :: "nat set"
  core_active :: "nat option"
  core_processing :: bool
  core_controls :: int
  core_next :: nat
  core_stop :: bool
  core_started :: bool

definition core :: "worker \<Rightarrow> shared" where
  "core w = \<lparr>core_jobs = jobs w, core_accepted = accepted_jobs w, core_cancelled = cancelled_jobs w,
     core_active = active_job w, core_processing = processing w, core_controls = pending_controls w,
     core_next = next_job w, core_stop = stop_flag w, core_started = started w\<rparr>"

lemma core_eqD:
  "core w' = core w \<Longrightarrow> jobs w' = jobs w \<and> accepted_jobs w' = accepted_jobs w \<and> cancelled_jobs w' = cancelled_jobs w \<and>
     active_job w' = active_job w \<and> processing w' = processing w \<and> pending_controls w' = pending_controls w \<and>
     next_job w' = next_job w \<and> stop_flag w' = stop_flag w \<and> started w' = started w"
  by (simp add: core_def)

lemma core_frames [simp]:
  "core (publish_event p w) = core w"
  "core (session_event i kind fs w) = core w"
  "core (clear_approval a w) = core w"
  "core (poll_answer j a t w) = core w"
  "core (cancel_future i w) = core w"
  "core (fst (resolve_future j r w)) = core w"
  "core (passed j k w) = core w"
  "core (w\<lparr>pc := q\<rparr>) = core w"
  "core (w\<lparr>ended_cancelled := s\<rparr>) = core w"
  "core (w\<lparr>has_session := b\<rparr>) = core w"
  "core (w\<lparr>granted := g\<rparr>) = core w"
  "core (w\<lparr>cleanup_error := x\<rparr>) = core w"
  by (auto simp: core_def publish_event_def session_event_def clear_approval_def cancel_future_def
      resolve_future_def passed_def poll_answer_def split: list.splits sum.splits after.splits prod.splits)

lemma inner_frames [simp]:
  "inner (refused j k e) = Some j" "holding (refused j k e) = Some j"
  "inner (proceed j n) = Some j"
  by (auto simp: inner_def refused_def proceed_def split: after.splits origin.splits onward.splits)

lemma inner_passed [simp]: "inner (pc (passed j k w)) = Some j"
  by (auto simp: inner_def passed_def proceed_def publish_event_def split: after.splits origin.splits onward.splits)

lemma pc_frames [simp]:
  "pc (publish_event p w) = pc w" "pc (session_event i kind fs w) = pc w"
  "pc (cancel_future i w) = pc w" "inner (pc (poll_answer j a t w)) = Some j"
  "pc (fst (resolve_future j r w)) = pc w"
  by (auto simp: publish_event_def session_event_def cancel_future_def inner_def resolve_future_def poll_answer_def
      split: list.splits sum.splits prod.splits)

lemma converse_shape:
  "converse cfg j t c w = Some w' \<Longrightarrow> pc w = Conversing j t \<Longrightarrow> inner (pc w') = Some j \<and> core w' = core w"
  by (auto simp: converse_def inner_def split: choice.splits if_splits)

lemma inner_simps [simp]:
  "inner Fresh = None" "inner Begin = None" "inner Fetch = None" "inner (Took k) = None"
  "inner Reconfiguring = None" "inner Resetting = None" "inner Reset_Done = None"
  "inner (Job_Begin j) = None" "inner (Job_Entered j) = Some j" "inner (Activity j) = Some j"
  "inner (Checking j b x) = Some j" "inner (Make_Session j) = Some j" "inner (Conversing j t) = Some j"
  "inner (Asking j a fs t) = Some j" "inner (Polling j a t) = Some j" "inner (Clearing j a r2 t) = Some j"
  "inner (Resolve j r) = Some j" "inner (Report j r) = Some j" "inner (Job_Final j b e) = Some j"
  "inner (Activity_Off j e) = None" "inner (Job_Idle j) = None" "inner (Command_Done k e) = None"
  "inner (Closing e) = None" "inner (Dead e) = None"
  by (simp_all add: inner_def)

definition quiet_control :: "pc \<Rightarrow> bool" where
  "quiet_control p \<longleftrightarrow> (case p of Reconfiguring \<Rightarrow> True | Resetting \<Rightarrow> True | Reset_Done \<Rightarrow> True
     | Activity_Off j e \<Rightarrow> True | Job_Idle j \<Rightarrow> True | Command_Done k e \<Rightarrow> True | _ \<Rightarrow> False)"

lemma core_updates:
  "core w' = core w \<Longrightarrow> core (w'\<lparr>pc := q\<rparr>) = core w"
  by simp

lemma thread_step_cases:
  assumes "thread_step cfg c w = Some w'"
  obtains (inner) j where "inner (pc w) = Some j" "inner (pc w') = Some j" "core w' = core w"
  | (leave) j b e where "pc w = Job_Final j b e" "core w' = core (leave_job j w)"
      "pc w' = (if b then Activity_Off j e else Command_Done (Job j) e)"
  | (enter) j where "pc w = Job_Begin j" "pc w' = Job_Entered j" "core w' = core (w\<lparr>active_job := Some (jid j)\<rparr>)"
  | (startup) "pc w = Begin" "pc w' = Fetch" "core w' = core w"
  | (fetch) k rest where "pc w = Fetch" "jobs w = k # rest" "pc w' = (if k = Stop then Closing None else Took k)"
      "core w' = core (w\<lparr>jobs := rest\<rparr>)"
  | (took) k where "pc w = Took k" "pc w' = begin_command k" "core w' = core (w\<lparr>processing := True\<rparr>)"
  | (control) k where "hands (pc w) = Some k" "hands (pc w') = Some k" "quiet_control (pc w)" "quiet_control (pc w')"
      "core w' = core w"
  | (finish) k e where "pc w = Command_Done k e" "core w' = core (finish_command k e w)"
      "pc w' = (case e of None \<Rightarrow> Fetch | Some x \<Rightarrow> Closing (Some x))"
  | (closing) e where "pc w = Closing e" "pc w' = Dead e" "core w' = core w"
proof (cases "pc w")
  case (Checking j b k)
  show ?thesis
  proof (cases b)
    case True
    with assms Checking show ?thesis
      by (intro inner [of j]) (auto simp: thread_step_def split: if_splits)
  next
    case False
    with assms Checking show ?thesis
      by (intro inner [of j]) (auto simp: thread_step_def split: if_splits)
  qed
next
  case (Conversing j t)
  with assms show ?thesis
    by (intro inner [of j]) (auto simp: thread_step_def dest: converse_shape)
next
  case (Resolve j r)
  let ?w = "if error_of r \<noteq> None \<and> was_cancelled (the (error_of r))
    then w\<lparr>ended_cancelled := insert (jid j) (ended_cancelled w)\<rparr> else w"
  obtain w1 x where x: "resolve_future j r ?w = (w1, x)" by fastforce
  then have "core w1 = core w"
    using core_frames(6) [of j r ?w] by (auto simp: x)
  with assms Resolve x show ?thesis
    by (intro inner [of j]) (auto simp: thread_step_def simp del: not_None_eq split: sum.splits)
next
  case (Polling j a t)
  with assms show ?thesis
    by (intro inner [of j]) (auto simp: thread_step_def)
next
  case Fetch
  with assms show ?thesis
    by (auto simp: thread_step_def split: list.splits command.splits intro!: fetch)
next
  case (Command_Done k e)
  with assms show ?thesis
    by (intro finish [of k e]) (auto simp: thread_step_def finish_command_def split: option.splits)
qed (use assms in \<open>auto simp: thread_step_def quiet_control_def split: choice.splits if_splits
    intro: inner enter leave startup took control closing\<close>)

section \<open>Invariants\<close>

fun queued :: "command list \<Rightarrow> nat list" where
  "queued [] = []"
| "queued (Job j # ks) = jid j # queued ks"
| "queued (k # ks) = queued ks"

definition pending_ids :: "worker \<Rightarrow> nat list" where
  "pending_ids w = (case holding (pc w) of None \<Rightarrow> [] | Some j \<Rightarrow> [jid j]) @ queued (jobs w)"

definition is_control :: "command \<Rightarrow> bool" where
  "is_control k \<longleftrightarrow> k = Reset \<or> k = Reconfigure"

definition in_command :: "pc \<Rightarrow> bool" where
  "in_command p \<longleftrightarrow> hands p \<noteq> None \<and> (\<forall>k. p \<noteq> Took k)"

definition over :: "pc \<Rightarrow> bool" where
  "over p \<longleftrightarrow> (\<exists>e. p = Closing e \<or> p = Dead e)"

definition ended_well :: "pc \<Rightarrow> bool" where
  "ended_well p \<longleftrightarrow> p = Closing None \<or> p = Dead None"

definition queue_inv :: "worker \<Rightarrow> bool" where
  "queue_inv w \<longleftrightarrow> Stop \<notin> set (butlast (jobs w)) \<and> (Stop \<in> set (jobs w) \<longrightarrow> stop_flag w) \<and>
     (stop_flag w \<longrightarrow> (jobs w \<noteq> [] \<and> last (jobs w) = Stop) \<or> over (pc w)) \<and>
     hands (pc w) \<noteq> Some Stop \<and> (ended_well (pc w) \<longrightarrow> jobs w = [] \<and> stop_flag w)"

definition jobs_inv :: "worker \<Rightarrow> bool" where
  "jobs_inv w \<longleftrightarrow> accepted_jobs w = set (pending_ids w) \<and> sorted_wrt (<) (pending_ids w) \<and>
     (\<forall>i\<in>set (pending_ids w). i < next_job w) \<and> cancelled_jobs w \<subseteq> set (pending_ids w)"

definition control_inv :: "worker \<Rightarrow> bool" where
  "control_inv w \<longleftrightarrow> pending_controls w = int (length (filter is_control (jobs w))) +
       (case hands (pc w) of Some k \<Rightarrow> if is_control k then 1 else 0 | None \<Rightarrow> 0) \<and>
     processing w = in_command (pc w) \<and> active_job w = map_option jid (inner (pc w)) \<and>
     started w = (pc w \<noteq> Fresh)"

lemma queued_append [simp]: "queued (xs @ ys) = queued xs @ queued ys"
  by (induction xs rule: queued.induct) auto

lemma inner_hands:
  "inner p = Some j \<Longrightarrow> hands p = Some (Job j) \<and> holding p = Some j \<and> in_command p \<and> \<not> over p \<and>
     \<not> ended_well p \<and> p \<noteq> Fresh"
  by (cases p) (auto simp: inner_def in_command_def over_def ended_well_def)

lemma quiet_holding:
  "quiet_control p \<Longrightarrow> holding p = None \<and> inner p = None \<and> in_command p \<and> \<not> over p \<and>
     \<not> ended_well p \<and> p \<noteq> Fresh"
  by (cases p) (auto simp: quiet_control_def in_command_def over_def ended_well_def)

lemma over_simps [simp]:
  "over (Closing e)" "over (Dead e)" "\<not> over Fresh" "\<not> over Begin" "\<not> over Fetch" "\<not> over (Took k)"
  "\<not> over (Job_Begin j)" "\<not> over (Job_Entered j)" "\<not> over (Activity_Off j e)" "\<not> over (Command_Done k e)"
  "\<not> over (Job_Final j b e)" "\<not> over Reconfiguring" "\<not> over Resetting"
  "ended_well (Closing e) = (e = None)" "ended_well (Dead e) = (e = None)" "\<not> ended_well Fresh"
  "\<not> ended_well Begin" "\<not> ended_well Fetch" "\<not> ended_well (Took k)" "\<not> ended_well (Job_Begin j)"
  "\<not> ended_well (Job_Entered j)" "\<not> ended_well (Activity_Off j e)" "\<not> ended_well (Command_Done k e)"
  "\<not> ended_well (Job_Final j b e)" "\<not> ended_well Reconfiguring" "\<not> ended_well Resetting"
  by (auto simp: over_def ended_well_def)

lemma in_command_simps [simp]:
  "\<not> in_command Fresh" "\<not> in_command Begin" "\<not> in_command Fetch" "\<not> in_command (Took k)"
  "in_command (Job_Begin j)" "in_command (Job_Entered j)" "in_command (Activity_Off j e)"
  "in_command (Command_Done k e)" "in_command (Job_Final j b e)" "in_command Reconfiguring"
  "in_command Resetting" "\<not> in_command (Closing e)" "\<not> in_command (Dead e)"
  by (auto simp: in_command_def)

lemma begin_command_simps [simp]:
  "k \<noteq> Stop \<Longrightarrow> hands (begin_command k) = Some k \<and> in_command (begin_command k) \<and> \<not> over (begin_command k) \<and>
     \<not> ended_well (begin_command k) \<and> inner (begin_command k) = None \<and> holding (begin_command k) = holding (Took k) \<and>
     begin_command k \<noteq> Fresh"
  by (cases k) simp_all

lemma job_not_control [simp]: "\<not> is_control (Job j)" "\<not> is_control Stop" "is_control Reset" "is_control Reconfigure"
  by (simp_all add: is_control_def)

lemma butlast_Stop: "Stop \<notin> set (butlast (k # ks)) \<Longrightarrow> Stop \<notin> set (butlast ks) \<and> (k = Stop \<longrightarrow> ks = [])"
  by (cases ks) auto

lemma thread_queue_inv:
  assumes "thread_step cfg c w = Some w'" "queue_inv w"
  shows "queue_inv w'"
  using assms(1)
proof (cases rule: thread_step_cases)
  case (inner j)
  note eqs = core_eqD [OF inner(3)] inner_hands [OF inner(1)] inner_hands [OF inner(2)]
  show ?thesis using assms(2) by (simp add: queue_inv_def eqs)
next
  case (leave j b e)
  note eqs = core_eqD [OF leave(2)]
  show ?thesis using assms(2) by (simp add: queue_inv_def eqs leave leave_job_def)
next
  case (enter j)
  note eqs = core_eqD [OF enter(3)]
  show ?thesis using assms(2) by (simp add: queue_inv_def eqs enter)
next
  case startup
  note eqs = core_eqD [OF startup(3)]
  show ?thesis using assms(2) by (simp add: queue_inv_def eqs startup)
next
  case (fetch k rest)
  note eqs = core_eqD [OF fetch(4)]
  have q: "Stop \<notin> set (butlast (k # rest))" "Stop \<in> set (k # rest) \<longrightarrow> stop_flag w"
    "stop_flag w \<longrightarrow> last (k # rest) = Stop \<or> over Fetch"
    using assms(2) unfolding queue_inv_def fetch(1,2) by blast+
  note rest = butlast_Stop [OF q(1)] q(2) q(3) [simplified]
  show ?thesis
  proof (cases "k = Stop")
    case True
    then show ?thesis using rest by (simp add: queue_inv_def eqs fetch(3))
  next
    case False
    then show ?thesis using rest by (cases rest) (simp_all add: queue_inv_def eqs fetch(3))
  qed
next
  case (took k)
  note eqs = core_eqD [OF took(3)]
  have "k \<noteq> Stop" using assms(2) by (auto simp: queue_inv_def took)
  with assms(2) show ?thesis by (simp add: queue_inv_def eqs took)
next
  case (control k)
  note eqs = core_eqD [OF control(5)] quiet_holding [OF control(3)] quiet_holding [OF control(4)]
  show ?thesis using assms(2) by (simp add: queue_inv_def eqs control)
next
  case (finish k e)
  note eqs = core_eqD [OF finish(2)]
  show ?thesis using assms(2) by (cases e) (simp_all add: queue_inv_def eqs finish finish_command_def)
next
  case (closing e)
  note eqs = core_eqD [OF closing(3)]
  show ?thesis using assms(2) by (simp add: queue_inv_def eqs closing)
qed

lemma thread_jobs_inv:
  assumes "thread_step cfg c w = Some w'" "jobs_inv w"
  shows "jobs_inv w'"
  using assms(1)
proof (cases rule: thread_step_cases)
  case (inner j)
  note eqs = core_eqD [OF inner(3)] inner_hands [OF inner(1)] inner_hands [OF inner(2)]
  have "pending_ids w' = pending_ids w" by (simp add: pending_ids_def eqs)
  with assms(2) show ?thesis by (simp add: jobs_inv_def eqs)
next
  case (leave j b e)
  note eqs = core_eqD [OF leave(2)]
  have ids: "pending_ids w = jid j # pending_ids w'" by (simp add: pending_ids_def eqs leave leave_job_def)
  with assms(2) have "jid j \<notin> set (pending_ids w')" by (auto simp: jobs_inv_def)
  with assms(2) show ?thesis unfolding jobs_inv_def ids by (auto simp: eqs leave_job_def)
next
  case (enter j)
  note eqs = core_eqD [OF enter(3)]
  have "pending_ids w' = pending_ids w" by (simp add: pending_ids_def eqs enter)
  with assms(2) show ?thesis by (simp add: jobs_inv_def eqs)
next
  case startup
  note eqs = core_eqD [OF startup(3)]
  have "pending_ids w' = pending_ids w" by (simp add: pending_ids_def eqs startup)
  with assms(2) show ?thesis by (simp add: jobs_inv_def eqs)
next
  case (fetch k rest)
  note eqs = core_eqD [OF fetch(4)]
  have "pending_ids w' = pending_ids w" by (cases k) (simp_all add: pending_ids_def eqs fetch)
  with assms(2) show ?thesis by (simp add: jobs_inv_def eqs)
next
  case (took k)
  note eqs = core_eqD [OF took(3)]
  have "pending_ids w' = pending_ids w" by (cases k) (simp_all add: pending_ids_def eqs took)
  with assms(2) show ?thesis by (simp add: jobs_inv_def eqs)
next
  case (control k)
  note eqs = core_eqD [OF control(5)] quiet_holding [OF control(3)] quiet_holding [OF control(4)]
  have "pending_ids w' = pending_ids w" by (simp add: pending_ids_def eqs)
  with assms(2) show ?thesis by (simp add: jobs_inv_def eqs)
next
  case (finish k e)
  note eqs = core_eqD [OF finish(2)]
  have "pending_ids w' = pending_ids w"
    by (cases e) (simp_all add: pending_ids_def eqs finish finish_command_def)
  with assms(2) show ?thesis by (simp add: jobs_inv_def eqs finish_command_def)
next
  case (closing e)
  note eqs = core_eqD [OF closing(3)]
  have "pending_ids w' = pending_ids w" by (simp add: pending_ids_def eqs closing)
  with assms(2) show ?thesis by (simp add: jobs_inv_def eqs)
qed

lemma thread_control_inv:
  assumes "thread_step cfg c w = Some w'" "control_inv w" "queue_inv w"
  shows "control_inv w'"
  using assms(1)
proof (cases rule: thread_step_cases)
  case (inner j)
  note eqs = core_eqD [OF inner(3)] inner_hands [OF inner(1)] inner_hands [OF inner(2)] inner
  show ?thesis using assms(2) by (simp add: control_inv_def eqs)
next
  case (leave j b e)
  note eqs = core_eqD [OF leave(2)]
  show ?thesis using assms(2) by (simp add: control_inv_def eqs leave leave_job_def)
next
  case (enter j)
  note eqs = core_eqD [OF enter(3)]
  show ?thesis using assms(2) by (simp add: control_inv_def eqs enter)
next
  case startup
  note eqs = core_eqD [OF startup(3)]
  show ?thesis using assms(2) by (simp add: control_inv_def eqs startup)
next
  case (fetch k rest)
  note eqs = core_eqD [OF fetch(4)]
  show ?thesis using assms(2) by (simp add: control_inv_def eqs fetch)
next
  case (took k)
  note eqs = core_eqD [OF took(3)]
  have "k \<noteq> Stop" using assms(3) by (auto simp: queue_inv_def took)
  with assms(2) show ?thesis by (simp add: control_inv_def eqs took)
next
  case (control k)
  note eqs = core_eqD [OF control(5)] quiet_holding [OF control(3)] quiet_holding [OF control(4)]
  show ?thesis using assms(2) by (simp add: control_inv_def eqs control)
next
  case (finish k e)
  note eqs = core_eqD [OF finish(2)]
  show ?thesis using assms(2)
    by (cases e) (simp_all add: control_inv_def eqs finish finish_command_def is_control_def)
next
  case (closing e)
  note eqs = core_eqD [OF closing(3)]
  show ?thesis using assms(2) by (simp add: control_inv_def eqs closing)
qed

definition worker_inv :: "worker \<Rightarrow> bool" where
  "worker_inv w \<longleftrightarrow> queue_inv w \<and> jobs_inv w \<and> control_inv w"

lemma core_consumer [simp]:
  "core (fst (accept_answer a b w)) = core w" "core (deliver n w) = core w" "core (fst (take_event w)) = core w"
  "pc (fst (accept_answer a b w)) = pc w" "pc (deliver n w) = pc w" "pc (fst (take_event w)) = pc w"
  "pc (fst (cancel_current r w)) = pc w"
  by (auto simp: core_def accept_answer_def deliver_def take_event_def cancel_current_def Let_def
      split: list.splits option.splits)

lemma worker_inv_core:
  assumes "core w' = core w" "pc w' = pc w" "worker_inv w"
  shows "worker_inv w'"
proof -
  note same = core_eqD [OF assms(1)] assms(2)
  then have ids: "pending_ids w' = pending_ids w" by (simp add: pending_ids_def)
  have "worker_inv w' = worker_inv w"
    by (simp only: worker_inv_def queue_inv_def jobs_inv_def control_inv_def same ids)
  with assms(3) show ?thesis by simp
qed

lemma cancel_current_shared:
  "jobs (fst (cancel_current r w)) = jobs w" "accepted_jobs (fst (cancel_current r w)) = accepted_jobs w"
  "stop_flag (fst (cancel_current r w)) = stop_flag w" "processing (fst (cancel_current r w)) = processing w"
  "pending_controls (fst (cancel_current r w)) = pending_controls w" "active_job (fst (cancel_current r w)) = active_job w"
  "started (fst (cancel_current r w)) = started w" "next_job (fst (cancel_current r w)) = next_job w"
  "cancelled_jobs (fst (cancel_current r w)) \<subseteq> cancelled_jobs w \<union> accepted_jobs w"
  by (auto simp: cancel_current_def Let_def split: option.splits)

lemma consumer_inv: "worker_inv w \<Longrightarrow> worker_inv (consume x w)"
proof (cases x)
  case (Start ok)
  assume "worker_inv w"
  then show ?thesis
    unfolding Start by (auto simp: start_def worker_inv_def queue_inv_def jobs_inv_def pending_ids_def
        control_inv_def in_command_def over_def)
next
  case (Enqueue t fut)
  assume inv: "worker_inv w"
  show ?thesis
  proof (cases "stop_flag w")
    case False
    then have "Stop \<notin> set (jobs w)" using inv by (auto simp: worker_inv_def queue_inv_def)
    then show ?thesis
      using inv False unfolding Enqueue
      by (auto simp: enqueue_job_def worker_inv_def queue_inv_def jobs_inv_def pending_ids_def control_inv_def
          is_control_def sorted_wrt_append Let_def split: option.splits dest: less_imp_neq)
  qed (use inv Enqueue in \<open>simp add: enqueue_job_def\<close>)
next
  case (Control k)
  assume inv: "worker_inv w"
  show ?thesis
  proof (cases "stop_flag w \<or> k \<notin> {Reset, Reconfigure}")
    case False
    then have "Stop \<notin> set (jobs w)" using inv by (auto simp: worker_inv_def queue_inv_def)
    then show ?thesis
      using inv False unfolding Control
      by (auto simp: enqueue_reset_def reconfigure_def enqueue_control_def worker_inv_def queue_inv_def
          jobs_inv_def pending_ids_def control_inv_def is_control_def)
  qed (use inv Control in \<open>auto simp: enqueue_reset_def reconfigure_def enqueue_control_def\<close>)
next
  case Stop_Worker
  assume inv: "worker_inv w"
  show ?thesis
  proof (cases "stop_flag w")
    case False
    then have "Stop \<notin> set (jobs w)" using inv by (auto simp: worker_inv_def queue_inv_def)
    then show ?thesis
      using inv False unfolding Stop_Worker
      by (auto simp: stop_def worker_inv_def queue_inv_def jobs_inv_def pending_ids_def control_inv_def is_control_def)
  qed (use inv Stop_Worker in \<open>simp add: stop_def\<close>)
next
  case (Cancel r)
  assume inv: "worker_inv w"
  then have "cancelled_jobs (fst (cancel_current r w)) \<subseteq> accepted_jobs w"
    using cancel_current_shared(9) [of r w] by (auto simp: worker_inv_def jobs_inv_def)
  moreover have "pending_ids (fst (cancel_current r w)) = pending_ids w"
    by (simp add: pending_ids_def cancel_current_shared)
  ultimately show ?thesis
    using inv unfolding Cancel worker_inv_def queue_inv_def jobs_inv_def control_inv_def
    by (simp add: cancel_current_shared)
qed (auto intro: worker_inv_core [of _ w])

lemma worker_inv_init: "worker_inv new_worker"
  by (simp add: worker_inv_def new_worker_def queue_inv_def jobs_inv_def pending_ids_def control_inv_def
      in_command_def over_def)

lemma reachable_inv: "reachable cfg w \<Longrightarrow> worker_inv w"
proof (induction rule: reachable.induct)
  case (move w w')
  from move.hyps(2) show ?case
  proof cases
    case (consumer x)
    with move.IH show ?thesis by (simp add: consumer_inv)
  next
    case (thread c)
    with move.IH show ?thesis
      using thread_queue_inv thread_jobs_inv thread_control_inv by (auto simp: worker_inv_def)
  qed
qed (rule worker_inv_init)

end
