(* ===== verification/Worker_Properties.thy ===== *)
theory Worker_Properties
  imports Workers
begin

text \<open>
  What the background worker promises whatever its conversation does and however consumers
  interleave with it: every accepted job is reported once, a cancelled job never completes, an
  approval is granted only by the answer given to it, and a stopped worker comes to rest.
\<close>

section \<open>Outcomes\<close>

definition outcome_kind :: "string \<Rightarrow> bool" where
  "outcome_kind k \<longleftrightarrow> k \<in> {''completed'', ''cancelled'', ''error''}"

text \<open>The job an outcome event is about.\<close>

fun outcome_of :: "published \<Rightarrow> nat option" where
  "outcome_of (Own k ((n, VInt i) # fs)) = (if outcome_kind k \<and> n = ustr ''job_id'' then Some (nat i) else None)"
| "outcome_of _ = None"

definition outcomes :: "worker \<Rightarrow> nat list" where
  "outcomes w = List.map_filter outcome_of (history w)"

fun reported :: "pc \<Rightarrow> job option" where
  "reported (Job_Final j b None) = Some j"
| "reported _ = None"

fun crashed :: "pc \<Rightarrow> bool" where
  "crashed (Activity_Off j (Some e)) = True"
| "crashed (Command_Done k (Some e)) = True"
| "crashed (Closing (Some e)) = True"
| "crashed (Dead (Some e)) = True"
| "crashed _ = False"

lemma map_filter_snoc: "List.map_filter f (xs @ [x]) = List.map_filter f xs @ (case f x of None \<Rightarrow> [] | Some y \<Rightarrow> [y])"
  by (cases "f x") (simp_all add: map_filter_def)

lemma outcomes_publish:
  "outcomes (publish_event p w) = outcomes w @ (case outcome_of p of None \<Rightarrow> [] | Some i \<Rightarrow> [i])"
  by (simp add: outcomes_def publish_event_def map_filter_snoc)

lemma outcome_own [simp]:
  "outcome_of (Own ''idle'' fs) = None" "outcome_of (Own ''reset'' fs) = None" "outcome_of (Own ''stopped'' fs) = None"
  "outcome_of (Own ''started'' fs) = None" "outcome_of (Own ''approval_required'' fs) = None"
  "outcome_of (Own ''notification'' fs) = None" "outcome_of (notice m e) = None"
  "outcome_of (Own ''cancelled'' (job_message j fs2)) = Some (jid j)"
  "outcome_of (report_event cfg j r) = Some (jid j)"
proof -
  have *: "\<not> outcome_kind k \<Longrightarrow> outcome_of (Own k fs) = None" for k fs
    by (cases "Own k fs" rule: outcome_of.cases) auto
  show "outcome_of (Own ''idle'' fs) = None" "outcome_of (Own ''reset'' fs) = None" "outcome_of (Own ''stopped'' fs) = None"
    "outcome_of (Own ''started'' fs) = None" "outcome_of (Own ''approval_required'' fs) = None"
    "outcome_of (Own ''notification'' fs) = None"
    by (rule *; simp add: outcome_kind_def)+
  show "outcome_of (notice m e) = None"
    unfolding notice_def by (rule *) (simp add: outcome_kind_def)
  show "outcome_of (Own ''cancelled'' (job_message j fs2)) = Some (jid j)"
    "outcome_of (report_event cfg j r) = Some (jid j)"
    by (auto simp: job_message_def report_event_def outcome_kind_def split: sum.splits)
qed

lemma outcomes_frames [simp]:
  "outcomes (w\<lparr>pc := q\<rparr>) = outcomes w" "outcomes (session_event i kind fs w) = outcomes w"
  "outcomes (cancel_future i w) = outcomes w" "outcomes (fst (resolve_future j r w)) = outcomes w"
  "outcomes (leave_job j w) = outcomes w" "outcomes (finish_command k e w) = outcomes w"
  "outcomes (passed j x w) = outcomes w" "outcomes (poll_answer j a t w) = outcomes w"
  "outcomes (clear_approval a w) = outcomes w"
  "outcomes (fst (accept_answer a b w)) = outcomes w" "outcomes (deliver n w) = outcomes w"
  "outcomes (fst (take_event w)) = outcomes w" "outcomes (fst (cancel_current c w)) = outcomes w"
  by (auto simp: outcomes_def session_event_def cancel_future_def resolve_future_def leave_job_def
      finish_command_def passed_def poll_answer_def clear_approval_def publish_event_def map_filter_snoc
      accept_answer_def deliver_def take_event_def cancel_current_def Let_def
      split: sum.splits list.splits prod.splits after.splits option.splits)

lemma outcomes_update [simp]:
  "outcomes (w\<lparr>jobs := x1\<rparr>) = outcomes w" "outcomes (w\<lparr>processing := x2\<rparr>) = outcomes w"
  "outcomes (w\<lparr>has_session := x3\<rparr>) = outcomes w" "outcomes (w\<lparr>active_job := x4\<rparr>) = outcomes w"
  "outcomes (w\<lparr>ended_cancelled := x5\<rparr>) = outcomes w" "outcomes (w\<lparr>granted := x6\<rparr>) = outcomes w"
  "outcomes (w\<lparr>cleanup_error := x7\<rparr>) = outcomes w"
  by (simp_all add: outcomes_def)

lemma not_reported [simp]: "reported (refused j k e) = None" "reported (pc (passed j k w)) = None"
  "reported (pc (poll_answer j a t w)) = None"
  by (auto simp: refused_def passed_def proceed_def poll_answer_def
      split: after.splits origin.splits onward.splits list.splits prod.splits)

lemma converse_outcomes:
  "converse cfg j t c w = Some w' \<Longrightarrow> pc w = Conversing j t \<Longrightarrow> outcomes w' = outcomes w \<and> reported (pc w') = None"
  by (auto simp: converse_def split: choice.splits if_splits)

text \<open>A thread step reports the job it holds, or reports nothing.\<close>

lemma outcome_step:
  assumes "thread_step cfg c w = Some w'"
  shows "(outcomes w' = outcomes w \<and> reported (pc w') = None) \<or>
    (\<exists>j. inner (pc w) = Some j \<and> reported (pc w) = None \<and> reported (pc w') = Some j \<and> outcomes w' = outcomes w @ [jid j])"
proof (cases "pc w")
  case (Checking j b k)
  with assms show ?thesis by (cases b) (auto simp: thread_step_def split: if_splits)
next
  case (Conversing j t)
  with assms show ?thesis by (auto simp: thread_step_def dest: converse_outcomes)
next
  case (Resolve j r)
  let ?w = "if error_of r \<noteq> None \<and> was_cancelled (the (error_of r))
    then w\<lparr>ended_cancelled := insert (jid j) (ended_cancelled w)\<rparr> else w"
  obtain w1 x where x: "resolve_future j r ?w = (w1, x)" by fastforce
  then have "outcomes w1 = outcomes w"
    using outcomes_frames(4) [of j r ?w] by (auto simp: x)
  with assms Resolve x show ?thesis
    by (auto simp: thread_step_def simp del: not_None_eq split: sum.splits)
next
  case Fetch
  with assms show ?thesis by (auto simp: thread_step_def split: list.splits command.splits)
next
  case (Took k)
  with assms show ?thesis by (cases k) (auto simp: thread_step_def)
next
  case (Command_Done k e)
  with assms show ?thesis by (auto simp: thread_step_def finish_command_def outcomes_def split: option.splits)
qed (use assms in \<open>auto simp: thread_step_def outcomes_publish split: choice.splits if_splits\<close>)

section \<open>Every job is reported once, in the order submitted\<close>

text \<open>The jobs accepted and not yet reported, in order.\<close>

definition open_ids :: "worker \<Rightarrow> nat list" where
  "open_ids w = (if reported (pc w) = None then pending_ids w else queued (jobs w))"

definition outcome_inv :: "worker \<Rightarrow> bool" where
  "outcome_inv w \<longleftrightarrow> 0 < next_job w \<and> sorted_wrt (<) (outcomes w @ open_ids w) \<and>
     (\<forall>i\<in>set (outcomes w @ open_ids w). 0 < i \<and> i < next_job w) \<and>
     (crashed (pc w) \<or> outcomes w @ open_ids w = [1..<next_job w])"

lemma crashed_step: "thread_step cfg c w = Some w' \<Longrightarrow> crashed (pc w) \<Longrightarrow> crashed (pc w')"
  by (cases "pc w" rule: crashed.cases)
    (auto simp: thread_step_def finish_command_def split: choice.splits if_splits)

lemma reported_cases: "reported p = Some j \<Longrightarrow> \<exists>b. p = Job_Final j b None"
  by (cases p rule: reported.cases) auto

lemma pending_ids_step:
  assumes "thread_step cfg c w = Some w'" "\<forall>j b e. pc w \<noteq> Job_Final j b e"
  shows "pending_ids w' = pending_ids w"
  using assms(1)
proof (cases rule: thread_step_cases)
  case (inner j)
  note eqs = core_eqD [OF inner(3)] inner_hands [OF inner(1)] inner_hands [OF inner(2)]
  show ?thesis by (simp add: pending_ids_def eqs)
next
  case (leave j b e)
  with assms(2) show ?thesis by blast
next
  case (enter j)
  show ?thesis by (simp add: pending_ids_def core_eqD [OF enter(3)] enter)
next
  case startup
  show ?thesis by (simp add: pending_ids_def core_eqD [OF startup(3)] startup)
next
  case (fetch k rest)
  show ?thesis by (cases k) (simp_all add: pending_ids_def core_eqD [OF fetch(4)] fetch)
next
  case (took k)
  show ?thesis by (cases k) (simp_all add: pending_ids_def core_eqD [OF took(3)] took)
next
  case (control k)
  note eqs = core_eqD [OF control(5)] quiet_holding [OF control(3)] quiet_holding [OF control(4)]
  show ?thesis by (simp add: pending_ids_def eqs)
next
  case (finish k e)
  show ?thesis by (cases e) (simp_all add: pending_ids_def core_eqD [OF finish(2)] finish finish_command_def)
next
  case (closing e)
  show ?thesis by (simp add: pending_ids_def core_eqD [OF closing(3)] closing)
qed

lemma final_step:
  assumes "thread_step cfg c w = Some w'" "pc w = Job_Final j b e"
  shows "queued (jobs w') = queued (jobs w) \<and> holding (pc w') = None \<and> reported (pc w') = None \<and>
    outcomes w' = outcomes w \<and> (crashed (pc w') = (e \<noteq> None))"
  using assms by (cases e; cases b) (auto simp: thread_step_def leave_job_def outcomes_def)

lemma open_ids_step:
  assumes "thread_step cfg c w = Some w'"
  shows "outcomes w' @ open_ids w' = outcomes w @ open_ids w \<or>
    (crashed (pc w') \<and> (\<exists>i. open_ids w = i # open_ids w') \<and> outcomes w' = outcomes w)"
proof (cases "\<exists>j b e. pc w = Job_Final j b e")
  case True
  then obtain j b e where p: "pc w = Job_Final j b e" by blast
  note final = final_step [OF assms p]
  then show ?thesis by (cases e) (auto simp: open_ids_def pending_ids_def p)
next
  case False
  then have same: "pending_ids w' = pending_ids w" using pending_ids_step [OF assms] by blast
  have none: "reported (pc w) = None"
  proof (cases "reported (pc w)")
    case (Some j)
    from reported_cases [OF this] False show ?thesis by blast
  qed
  from outcome_step [OF assms] show ?thesis
  proof
    assume "outcomes w' = outcomes w \<and> reported (pc w') = None"
    with same none show ?thesis by (simp add: open_ids_def)
  next
    assume "\<exists>j. inner (pc w) = Some j \<and> reported (pc w) = None \<and> reported (pc w') = Some j \<and>
      outcomes w' = outcomes w @ [jid j]"
    then obtain j where j: "inner (pc w) = Some j" "reported (pc w') = Some j" "outcomes w' = outcomes w @ [jid j]"
      by blast
    from j(2) obtain b where "pc w' = Job_Final j b None" by (auto dest: reported_cases)
    then have "pending_ids w' = jid j # queued (jobs w')" by (simp add: pending_ids_def)
    with same none j show ?thesis by (simp add: open_ids_def)
  qed
qed

lemma next_job_step: "thread_step cfg c w = Some w' \<Longrightarrow> next_job w' = next_job w"
  by (erule thread_step_cases) (auto dest: core_eqD simp: leave_job_def finish_command_def)

lemma thread_outcome_inv:
  assumes "thread_step cfg c w = Some w'" "outcome_inv w"
  shows "outcome_inv w'"
  using open_ids_step [OF assms(1)]
proof
  assume "outcomes w' @ open_ids w' = outcomes w @ open_ids w"
  with assms(2) crashed_step [OF assms(1)] show ?thesis
    by (auto simp only: outcome_inv_def next_job_step [OF assms(1)])
next
  assume "crashed (pc w') \<and> (\<exists>i. open_ids w = i # open_ids w') \<and> outcomes w' = outcomes w"
  then obtain i where "crashed (pc w')" "open_ids w = i # open_ids w'" "outcomes w' = outcomes w" by blast
  with assms(2) show ?thesis
    by (auto simp: outcome_inv_def next_job_step [OF assms(1)] sorted_wrt_append)
qed

lemma outcome_inv_core:
  assumes "core w' = core w" "pc w' = pc w" "outcomes w' = outcomes w" "outcome_inv w"
  shows "outcome_inv w'"
proof -
  note same = core_eqD [OF assms(1)] assms(2,3)
  then have "open_ids w' = open_ids w" by (simp add: open_ids_def pending_ids_def)
  with same have "outcome_inv w' = outcome_inv w" by (simp only: outcome_inv_def)
  with assms(4) show ?thesis by simp
qed

lemma consumer_outcomes [simp]: "outcomes (consume x w) = outcomes w"
  by (cases x) (auto simp: start_def enqueue_job_def enqueue_reset_def reconfigure_def enqueue_control_def
      stop_def outcomes_def Let_def outcomes_frames [unfolded outcomes_def])

lemma consumer_open_ids:
  "worker_inv w \<Longrightarrow> (open_ids (consume x w) = open_ids w \<and> next_job (consume x w) = next_job w) \<or>
     (open_ids (consume x w) = open_ids w @ [next_job w] \<and> next_job (consume x w) = Suc (next_job w))"
proof (cases x)
  case (Start ok)
  assume "worker_inv w"
  then show ?thesis
    unfolding Start by (auto simp: start_def open_ids_def pending_ids_def worker_inv_def control_inv_def)
next
  case (Cancel r)
  show ?thesis unfolding Cancel by (simp add: open_ids_def pending_ids_def cancel_current_shared)
qed (auto simp: open_ids_def pending_ids_def enqueue_job_def enqueue_reset_def reconfigure_def enqueue_control_def
      stop_def Let_def accept_answer_def deliver_def take_event_def cancel_future_def session_event_def
      publish_event_def split: list.splits option.splits)

lemma consumer_crashed: "worker_inv w \<Longrightarrow> crashed (pc (consume x w)) = crashed (pc w)"
  by (cases x) (auto simp: start_def enqueue_job_def enqueue_reset_def reconfigure_def enqueue_control_def
      stop_def Let_def worker_inv_def control_inv_def)

lemma consumer_outcome_inv: "worker_inv w \<Longrightarrow> outcome_inv w \<Longrightarrow> outcome_inv (consume x w)"
  using consumer_open_ids [of w x] consumer_crashed [of w x]
  by (auto simp: outcome_inv_def sorted_wrt_append upt_Suc_append less_Suc_eq)

lemma reachable_outcome_inv: "reachable cfg w \<Longrightarrow> outcome_inv w"
proof (induction rule: reachable.induct)
  case initial
  show ?case by (simp add: outcome_inv_def outcomes_def new_worker_def open_ids_def pending_ids_def map_filter_def)
next
  case (move w w')
  note inv = reachable_inv [OF move.hyps(1)]
  from move.hyps(2) show ?case
    by cases (auto intro: consumer_outcome_inv [OF inv move.IH] thread_outcome_inv [OF _ move.IH])
qed

lemma quiescent_open_ids: "reachable cfg w \<Longrightarrow> quiescent w \<Longrightarrow> open_ids w = []"
  using reachable_inv [of cfg w] by (auto simp: quiescent_def open_ids_def worker_inv_def jobs_inv_def)

section \<open>Runs\<close>

text \<open>An interleaving as a list of moves: what the consumers did and how the thread went on.\<close>

datatype move = By_Consumer consumer | By_Thread choice

fun run_moves :: "worker_cfg \<Rightarrow> move list \<Rightarrow> worker \<Rightarrow> worker option" where
  "run_moves cfg [] w = Some w"
| "run_moves cfg (By_Consumer x # ms) w = run_moves cfg ms (consume x w)"
| "run_moves cfg (By_Thread c # ms) w =
     (case thread_step cfg c w of None \<Rightarrow> None | Some w' \<Rightarrow> run_moves cfg ms w')"

lemma run_invariant:
  assumes step: "\<And>w w'. wstep cfg w w' \<Longrightarrow> P w \<Longrightarrow> P w'"
  shows "run_moves cfg ms w = Some w' \<Longrightarrow> P w \<Longrightarrow> P w'"
proof (induction ms arbitrary: w)
  case (Cons m ms)
  show ?case
  proof (cases m)
    case (By_Consumer x)
    with Cons show ?thesis using step [OF wstep.consumer] by simp
  next
    case (By_Thread c)
    with Cons.prems obtain w1 where "thread_step cfg c w = Some w1" "run_moves cfg ms w1 = Some w'"
      by (auto split: option.splits)
    with Cons.IH [of w1] Cons.prems(2) show ?thesis using step [OF wstep.thread] by blast
  qed
qed simp

lemma run_reachable: "run_moves cfg ms w = Some w' \<Longrightarrow> reachable cfg w \<Longrightarrow> reachable cfg w'"
  by (rule run_invariant [of cfg "reachable cfg"]) (auto intro: reachable.move)

section \<open>A cancelled or stopped job does not complete\<close>

fun completed_of :: "published \<Rightarrow> nat option" where
  "completed_of (Own k ((n, VInt i) # fs)) = (if k = ''completed'' \<and> n = ustr ''job_id'' then Some (nat i) else None)"
| "completed_of _ = None"

definition completed :: "worker \<Rightarrow> nat list" where
  "completed w = List.map_filter completed_of (history w)"

lemma completed_outcomes: "set (completed w) \<subseteq> set (outcomes w)"
proof -
  have "completed_of p = Some i \<Longrightarrow> outcome_of p = Some i" for p i
    by (cases p rule: completed_of.cases) (auto simp: outcome_kind_def split: if_splits)
  then show ?thesis by (force simp: completed_def outcomes_def map_filter_def)
qed

lemma completed_publish:
  "completed (publish_event p w) = completed w @ (case completed_of p of None \<Rightarrow> [] | Some i \<Rightarrow> [i])"
  by (simp add: completed_def publish_event_def map_filter_snoc)

lemma completed_own [simp]:
  "k \<noteq> ''completed'' \<Longrightarrow> completed_of (Own k fs) = None"
  "completed_of (notice m e) = None"
  "completed_of (report_event cfg j r) = (if error_of r = None then Some (jid j) else None)"
proof -
  show *: "k \<noteq> ''completed'' \<Longrightarrow> completed_of (Own k fs) = None" for k fs
    by (cases "Own k fs" rule: completed_of.cases) auto
  show "completed_of (notice m e) = None"
    unfolding notice_def by (rule *) simp
  show "completed_of (report_event cfg j r) = (if error_of r = None then Some (jid j) else None)"
    by (auto simp: job_message_def report_event_def error_of_def * split: sum.splits)
qed

lemma completed_frames [simp]:
  "completed (w\<lparr>pc := q\<rparr>) = completed w" "completed (session_event i kind fs w) = completed w"
  "completed (cancel_future i w) = completed w" "completed (fst (resolve_future j r w)) = completed w"
  "completed (leave_job j w) = completed w" "completed (finish_command k e w) = completed w"
  "completed (passed j x w) = completed w" "completed (poll_answer j a t w) = completed w"
  "completed (clear_approval a w) = completed w"
  by (auto simp: completed_def session_event_def cancel_future_def resolve_future_def leave_job_def
      finish_command_def passed_def poll_answer_def clear_approval_def publish_event_def map_filter_snoc
      split: sum.splits list.splits prod.splits after.splits)

lemma completed_update [simp]:
  "completed (w\<lparr>jobs := x1\<rparr>) = completed w" "completed (w\<lparr>processing := x2\<rparr>) = completed w"
  "completed (w\<lparr>has_session := x3\<rparr>) = completed w" "completed (w\<lparr>active_job := x4\<rparr>) = completed w"
  "completed (w\<lparr>ended_cancelled := x5\<rparr>) = completed w" "completed (w\<lparr>granted := x6\<rparr>) = completed w"
  "completed (w\<lparr>cleanup_error := x7\<rparr>) = completed w"
  by (simp_all add: completed_def)

lemma consumer_completed [simp]: "completed (consume x w) = completed w"
  by (cases x) (auto simp: start_def enqueue_job_def enqueue_reset_def reconfigure_def enqueue_control_def
      stop_def completed_def Let_def cancel_current_def accept_answer_def deliver_def take_event_def
      cancel_future_def session_event_def publish_event_def map_filter_snoc split: option.splits list.splits)

text \<open>The thread has passed the last check of a job that has an answer.\<close>

fun finishing :: "pc \<Rightarrow> nat option" where
  "finishing (Resolve j (Inr r)) = Some (jid j)"
| "finishing (Report j (Inr r)) = Some (jid j)"
| "finishing _ = None"

text \<open>It has read the stop flag for that check and not yet the cancelled jobs.\<close>

fun last_check :: "pc \<Rightarrow> nat option" where
  "last_check (Checking j True (Final r)) = Some (jid j)"
| "last_check _ = None"

definition withdrawn :: "nat \<Rightarrow> worker \<Rightarrow> bool" where
  "withdrawn i w \<longleftrightarrow> i \<in> cancelled_jobs w \<or> i \<notin> accepted_jobs w \<or> (stop_flag w \<and> last_check (pc w) \<noteq> Some i)"

definition doomed :: "nat \<Rightarrow> worker \<Rightarrow> bool" where
  "doomed i w \<longleftrightarrow> i < next_job w \<and> i \<notin> set (completed w) \<and> finishing (pc w) \<noteq> Some i \<and> withdrawn i w"

lemma consumer_doomed: "doomed i w \<Longrightarrow> worker_inv w \<Longrightarrow> doomed i (consume x w)"
  by (cases x) (auto simp: doomed_def withdrawn_def start_def enqueue_job_def enqueue_reset_def reconfigure_def
      enqueue_control_def stop_def Let_def cancel_current_def accept_answer_def deliver_def take_event_def
      cancel_future_def session_event_def publish_event_def completed_def map_filter_snoc
      worker_inv_def control_inv_def split: option.splits list.splits)

lemma completed_step:
  assumes "thread_step cfg c w = Some w'"
  shows "completed w' = completed w @ (case (pc w) of Report j (Inr r) \<Rightarrow> [jid j] | _ \<Rightarrow> [])"
proof (cases "pc w")
  case (Checking j b k)
  with assms show ?thesis by (cases b) (auto simp: thread_step_def split: if_splits)
next
  case (Conversing j t)
  with assms show ?thesis by (auto simp: thread_step_def converse_def split: choice.splits if_splits)
next
  case (Resolve j r)
  let ?w = "if error_of r \<noteq> None \<and> was_cancelled (the (error_of r))
    then w\<lparr>ended_cancelled := insert (jid j) (ended_cancelled w)\<rparr> else w"
  obtain w1 x where x: "resolve_future j r ?w = (w1, x)" by fastforce
  then have "completed w1 = completed w"
    using completed_frames(4) [of j r ?w] by (auto simp: x)
  with assms Resolve x show ?thesis
    by (auto simp: thread_step_def simp del: not_None_eq split: sum.splits)
next
  case (Report j r)
  with assms show ?thesis by (cases r) (auto simp: thread_step_def completed_publish error_of_def)
next
  case Fetch
  with assms show ?thesis by (auto simp: thread_step_def split: list.splits command.splits)
next
  case (Took k)
  with assms show ?thesis by (cases k) (auto simp: thread_step_def)
next
  case (Command_Done k e)
  with assms show ?thesis by (auto simp: thread_step_def finish_command_def completed_def split: option.splits)
qed (use assms in \<open>auto simp: thread_step_def completed_publish split: choice.splits if_splits\<close>)

lemma finishing_refused [simp]: "finishing (refused j k e) = None" "last_check (refused j k e) = None"
  by (auto simp: refused_def split: after.splits origin.splits onward.splits)

lemma finishing_passed [simp]:
  "finishing (pc (passed j k w)) = (case k of Final r \<Rightarrow> Some (jid j) | _ \<Rightarrow> None)"
  "last_check (pc (passed j k w)) = None"
  by (auto simp: passed_def proceed_def split: after.splits origin.splits onward.splits)

lemma finishing_poll [simp]: "finishing (pc (poll_answer j a t w)) = None" "last_check (pc (poll_answer j a t w)) = None"
  by (auto simp: poll_answer_def split: list.splits)

lemma finishing_step:
  assumes "thread_step cfg c w = Some w'"
  shows "finishing (pc w') = Some i \<Longrightarrow> finishing (pc w) = Some i \<or>
      (last_check (pc w) = Some i \<and> i \<notin> cancelled_jobs w \<and> i \<in> accepted_jobs w)"
    and "last_check (pc w') = Some i \<Longrightarrow> \<not> stop_flag w"
proof -
  have "(finishing (pc w') = Some i \<longrightarrow> finishing (pc w) = Some i \<or>
      (last_check (pc w) = Some i \<and> i \<notin> cancelled_jobs w \<and> i \<in> accepted_jobs w)) \<and>
    (last_check (pc w') = Some i \<longrightarrow> \<not> stop_flag w)"
  proof (cases "pc w")
    case (Checking j b k)
    with assms show ?thesis by (cases b) (auto simp: thread_step_def split: if_splits after.splits)
  next
    case (Conversing j t)
    with assms show ?thesis by (auto simp: thread_step_def converse_def split: choice.splits if_splits)
  next
    case (Resolve j r)
    with assms show ?thesis by (cases r) (auto simp: thread_step_def split: sum.splits prod.splits)
  next
    case Fetch
    with assms show ?thesis by (auto simp: thread_step_def split: list.splits command.splits)
  next
    case (Took k)
    with assms show ?thesis by (cases k) (auto simp: thread_step_def)
  next
    case (Command_Done k e)
    with assms show ?thesis by (auto simp: thread_step_def finish_command_def split: option.splits)
  qed (use assms in \<open>auto simp: thread_step_def split: choice.splits if_splits\<close>)
  then show "finishing (pc w') = Some i \<Longrightarrow> finishing (pc w) = Some i \<or>
      (last_check (pc w) = Some i \<and> i \<notin> cancelled_jobs w \<and> i \<in> accepted_jobs w)"
    "last_check (pc w') = Some i \<Longrightarrow> \<not> stop_flag w" by blast+
qed

lemma withdrawn_shared:
  assumes "thread_step cfg c w = Some w'"
  shows "stop_flag w' = stop_flag w \<and>
    (i \<in> cancelled_jobs w \<or> i \<notin> accepted_jobs w \<longrightarrow> i \<in> cancelled_jobs w' \<or> i \<notin> accepted_jobs w')"
  using assms by (rule thread_step_cases) (auto dest: core_eqD simp: leave_job_def finish_command_def)

lemma thread_doomed:
  assumes "thread_step cfg c w = Some w'" "doomed i w"
  shows "doomed i w'"
proof -
  note step = withdrawn_shared [OF assms(1), of i] finishing_step [OF assms(1), of i] next_job_step [OF assms(1)]
  have "finishing (pc w) \<noteq> Some i" "i \<notin> set (completed w)" using assms(2) by (auto simp: doomed_def)
  then have "i \<notin> set (completed w')"
    by (cases "pc w") (auto simp: completed_step [OF assms(1)] split: sum.splits)
  with step assms(2) show ?thesis by (auto simp: doomed_def withdrawn_def)
qed

lemma doomed_stays:
  assumes "run_moves cfg ms w = Some w'" "reachable cfg w" "doomed i w"
  shows "i \<notin> set (completed w')"
proof -
  let ?P = "\<lambda>w. reachable cfg w \<and> doomed i w"
  have "?P w'"
  proof (rule run_invariant [OF _ assms(1), of ?P])
    show "?P v'" if "wstep cfg v v'" "?P v" for v v'
      using that by cases (auto intro: reachable.move wstep.intros thread_doomed consumer_doomed reachable_inv)
  qed (use assms in simp)
  then show ?thesis by (simp add: doomed_def)
qed

text \<open>A job still waiting for its outcome has not completed.\<close>

lemma pending_not_completed:
  assumes "reachable cfg w" "i \<in> set (open_ids w)"
  shows "i < next_job w" "i \<notin> set (completed w)"
  using reachable_outcome_inv [OF assms(1)] assms(2) completed_outcomes [of w]
  by (auto simp: outcome_inv_def sorted_wrt_append)

section \<open>Approvals\<close>

text \<open>The approval the thread is asking for, and the answer it has taken for it.\<close>

fun asked :: "pc \<Rightarrow> nat option" where
  "asked (Asking j a fs t) = Some a"
| "asked (Polling j a t) = Some a"
| "asked (Checking j b (Poll a t)) = Some a"
| "asked (Checking j b (Decide a d t)) = Some a"
| "asked (Clearing j a r t) = Some a"
| "asked _ = None"

fun verdict :: "pc \<Rightarrow> bool option" where
  "verdict (Checking j b (Decide a d t)) = Some d"
| "verdict (Clearing j a (Inr d) t) = Some d"
| "verdict _ = None"

definition approval_inv :: "worker \<Rightarrow> bool" where
  "approval_inv w \<longleftrightarrow> set (answers w) \<subseteq> set (answered w) \<and> set (in_flight w) \<subseteq> set (answered w) \<and>
     distinct (map fst (answered w)) \<and> (\<forall>p\<in>set (answered w). fst p < next_approval w) \<and>
     (\<forall>a. pending_approval w = Some a \<longrightarrow> a < next_approval w \<and> (approval_answered w \<or> a \<notin> fst ` set (answered w))) \<and>
     distinct (granted w) \<and> (\<forall>a\<in>set (granted w). (a, True) \<in> set (answered w)) \<and>
     (\<forall>a. asked (pc w) = Some a \<longrightarrow> a < next_approval w \<and> a \<notin> set (granted w) \<and>
       (\<forall>d. verdict (pc w) = Some d \<longrightarrow> (a, d) \<in> set (answered w)))"

record handshake =
  hs_answers :: "(nat \<times> bool) list"
  hs_flight :: "(nat \<times> bool) list"
  hs_answered :: "(nat \<times> bool) list"
  hs_pending :: "nat option"
  hs_flag :: bool
  hs_next :: nat
  hs_granted :: "nat list"

definition approvals :: "worker \<Rightarrow> handshake" where
  "approvals w = \<lparr>hs_answers = answers w, hs_flight = in_flight w, hs_answered = answered w,
     hs_pending = pending_approval w, hs_flag = approval_answered w, hs_next = next_approval w,
     hs_granted = granted w\<rparr>"

lemma approvals_eqD:
  "approvals w' = approvals w \<Longrightarrow> answers w' = answers w \<and> in_flight w' = in_flight w \<and> answered w' = answered w \<and>
     pending_approval w' = pending_approval w \<and> approval_answered w' = approval_answered w \<and>
     next_approval w' = next_approval w \<and> granted w' = granted w"
  by (simp add: approvals_def)

lemma approval_inv_frame:
  assumes "approvals w' = approvals w" "asked (pc w') = None \<or> (asked (pc w') = asked (pc w) \<and>
      (verdict (pc w') = None \<or> verdict (pc w') = verdict (pc w)))" "approval_inv w"
  shows "approval_inv w'"
  using assms(2,3) by (auto simp: approval_inv_def approvals_eqD [OF assms(1)])

lemma approvals_frames [simp]:
  "approvals (w\<lparr>pc := q\<rparr>) = approvals w" "approvals (publish_event p w) = approvals w"
  "approvals (session_event i kind fs w) = approvals w"
  "approvals (cancel_future i w) = approvals w" "approvals (fst (resolve_future j r w)) = approvals w"
  "approvals (leave_job j w) = approvals w" "approvals (finish_command k e w) = approvals w"
  "approvals (w\<lparr>jobs := x1\<rparr>) = approvals w" "approvals (w\<lparr>processing := x2\<rparr>) = approvals w"
  "approvals (w\<lparr>has_session := x3\<rparr>) = approvals w" "approvals (w\<lparr>active_job := x4\<rparr>) = approvals w"
  "approvals (w\<lparr>ended_cancelled := x5\<rparr>) = approvals w" "approvals (w\<lparr>cleanup_error := x7\<rparr>) = approvals w"
  by (auto simp: approvals_def publish_event_def session_event_def cancel_future_def resolve_future_def
      leave_job_def finish_command_def split: sum.splits)

lemma asked_refused [simp]: "asked (refused j k e) = asked (Checking j True k)" "verdict (refused j k e) = None"
  "asked (Checking j False k) = asked (Checking j True k)" "verdict (Checking j False k) = verdict (Checking j True k)"
  by (cases k; auto simp: refused_def split: origin.splits onward.splits)+

text \<open>The four steps of the worker thread that touch an approval.\<close>

lemma ask_step:
  assumes "approval_inv w"
  shows "approval_inv (passed j (Ask action t) w)"
  using assms by (force simp: approval_inv_def passed_def less_Suc_eq)

lemma decide_step:
  assumes "approval_inv w" "pc w = Checking j b (Decide a d t)"
  shows "approval_inv (passed j (Decide a d t) w)"
  using assms by (auto simp: approval_inv_def passed_def)

lemma poll_step:
  assumes "approval_inv w" "pc w = Polling j a t"
  shows "approval_inv (poll_answer j a t w)"
  using assms by (auto simp: approval_inv_def poll_answer_def split: list.splits prod.splits)

lemma clear_step:
  assumes "approval_inv w" "pc w = Clearing j a r t"
  shows "approval_inv ((clear_approval a w)\<lparr>pc := Conversing j t,
    granted := (if r = Inr True then granted w @ [a] else granted w)\<rparr>)"
  using assms by (auto simp: approval_inv_def clear_approval_def)

lemma passed_step:
  assumes "approval_inv w" "pc w = Checking j True k"
  shows "approval_inv (passed j k w)"
proof (cases k)
  case (Ask action t)
  then show ?thesis using ask_step [OF assms(1)] by simp
next
  case (Decide a d t)
  then show ?thesis using decide_step assms by simp
next
  case (Poll a t)
  then show ?thesis using assms by (intro approval_inv_frame [OF _ _ assms(1)]) (simp_all add: passed_def)
qed (intro approval_inv_frame [OF _ _ assms(1)];
    simp add: passed_def proceed_def split: origin.splits onward.splits)+

lemma thread_approval_inv:
  assumes "thread_step cfg c w = Some w'" "approval_inv w"
  shows "approval_inv w'"
proof (cases "pc w")
  case (Checking j b k)
  with assms passed_step [OF assms(2), of j k] show ?thesis
    by (cases b) (auto simp: thread_step_def split: if_splits intro!: approval_inv_frame [OF _ _ assms(2)])
next
  case (Conversing j t)
  with assms show ?thesis
    by (auto simp: thread_step_def converse_def split: choice.splits if_splits
        intro!: approval_inv_frame [OF _ _ assms(2)])
next
  case (Resolve j r)
  let ?w = "if error_of r \<noteq> None \<and> was_cancelled (the (error_of r))
    then w\<lparr>ended_cancelled := insert (jid j) (ended_cancelled w)\<rparr> else w"
  obtain w1 x where x: "resolve_future j r ?w = (w1, x)" by fastforce
  then have "approvals w1 = approvals w"
    using approvals_frames(5) [of j r ?w] by (auto simp: x)
  with assms Resolve x show ?thesis
    by (auto simp: thread_step_def simp del: not_None_eq split: sum.splits
        intro!: approval_inv_frame [OF _ _ assms(2)])
next
  case (Polling j a t)
  with assms poll_step show ?thesis by (auto simp: thread_step_def)
next
  case (Clearing j a r t)
  with assms clear_step show ?thesis by (auto simp: thread_step_def)
next
  case Fetch
  with assms show ?thesis
    by (auto simp: thread_step_def split: list.splits command.splits intro!: approval_inv_frame [OF _ _ assms(2)])
next
  case (Took k)
  with assms show ?thesis
    by (cases k) (auto simp: thread_step_def intro!: approval_inv_frame [OF _ _ assms(2)])
next
  case (Command_Done k e)
  then have "w' = finish_command k e w" "asked (pc w') = None"
    using assms(1) by (auto simp: thread_step_def finish_command_def split: option.splits)
  then show ?thesis by (intro approval_inv_frame [OF _ _ assms(2)]) simp_all
qed (use assms in \<open>auto simp: thread_step_def split: choice.splits if_splits
    intro!: approval_inv_frame [OF _ _ assms(2)]\<close>)

lemma consumer_approval_inv: "approval_inv w \<Longrightarrow> worker_inv w \<Longrightarrow> approval_inv (consume x w)"
proof (cases x)
  case (Answer_Approval a b)
  assume "approval_inv w"
  then show ?thesis unfolding Answer_Approval by (auto simp: approval_inv_def accept_answer_def)
next
  case (Deliver k)
  assume inv: "approval_inv w"
  have "set (take k (in_flight w)) \<union> set (drop (Suc k) (in_flight w)) \<subseteq> set (in_flight w)"
    using set_take_subset set_drop_subset by fastforce
  then show ?thesis using inv unfolding Deliver by (auto simp: approval_inv_def deliver_def)
qed (auto simp: approval_inv_def start_def enqueue_job_def enqueue_reset_def reconfigure_def enqueue_control_def
    stop_def Let_def cancel_current_def take_event_def cancel_future_def session_event_def publish_event_def
    worker_inv_def control_inv_def split: option.splits list.splits)

lemma reachable_approval_inv: "reachable cfg w \<Longrightarrow> approval_inv w"
proof (induction rule: reachable.induct)
  case initial
  show ?case by (simp add: approval_inv_def new_worker_def)
next
  case (move w w')
  note inv = reachable_inv [OF move.hyps(1)]
  from move.hyps(2) show ?case
    by cases (auto intro: consumer_approval_inv [OF move.IH inv] thread_approval_inv [OF _ move.IH])
qed

lemma answered_once:
  "distinct (map fst ps) \<Longrightarrow> (a, b) \<in> set ps \<Longrightarrow> (a, c) \<in> set ps \<Longrightarrow> b = c"
  by (metis eq_key_imp_eq_value)

end
