(* ===== verification/Worker_Shutdown.thy ===== *)
theory Worker_Shutdown
  imports Worker_Properties
begin

text \<open>
  A stopped worker comes to rest. \<open>rank\<close> bounds the steps the worker thread can still take once
  the stop flag is set, each callback of a conversation that does not return adding at most two.
\<close>

fun calls_back :: "choice \<Rightarrow> bool" where
  "calls_back (Proceed b) = False"
| "calls_back (Fail e) = False"
| "calls_back (Answer r q) = False"
| "calls_back c = True"

fun check_rank :: "bool \<Rightarrow> after \<Rightarrow> nat" where
  "check_rank b (Within t) = 21"
| "check_rank b (Final r) = 9"
| "check_rank False First = 9"
| "check_rank False (Forward k fs (Own_Event n)) = 9"
| "check_rank False (Second (Own_Event n)) = 9"
| "check_rank False (Forward k fs (Callback t)) = 21"
| "check_rank False (Second (Callback t)) = 21"
| "check_rank False (Ask fs t) = 21"
| "check_rank b (Decide a d t) = 22"
| "check_rank False (Poll a t) = 22"
| "check_rank True (Poll a t) = 24"
| "check_rank True (Ask fs t) = 24"
| "check_rank True First = 22"
| "check_rank True (Second src) = 21"
| "check_rank True (Forward k fs src) = 22"

fun pc_rank :: "pc \<Rightarrow> nat" where
  "pc_rank Fresh = 0"
| "pc_rank (Dead e) = 0"
| "pc_rank (Closing e) = 1"
| "pc_rank Fetch = 2"
| "pc_rank Begin = 3"
| "pc_rank (Command_Done k e) = 3"
| "pc_rank (Job_Idle j) = 4"
| "pc_rank Reset_Done = 4"
| "pc_rank Reconfiguring = 4"
| "pc_rank (Activity_Off j e) = 5"
| "pc_rank Resetting = 5"
| "pc_rank (Job_Final j b e) = 6"
| "pc_rank (Report j r) = 7"
| "pc_rank (Resolve j r) = 8"
| "pc_rank (Checking j b k) = check_rank b k"
| "pc_rank (Conversing j t) = 20"
| "pc_rank (Make_Session j) = 21"
| "pc_rank (Clearing j a r t) = 21"
| "pc_rank (Polling j a t) = 23"
| "pc_rank (Asking j a fs t) = 23"
| "pc_rank (Activity j) = 24"
| "pc_rank (Job_Entered j) = 25"
| "pc_rank (Job_Begin j) = 26"
| "pc_rank (Took k) = 27"

definition rank :: "worker \<Rightarrow> nat" where
  "rank w = 40 * length (jobs w) + pc_rank (pc w)"

lemma rank_pc [simp]: "rank (w\<lparr>pc := q\<rparr>) = 40 * length (jobs w) + pc_rank q"
  by (simp add: rank_def)

lemma rank_refused: "stop_flag w \<Longrightarrow> pc_rank (refused j k e) < check_rank b k"
  by (cases k; cases b) (auto simp: refused_def split: origin.splits onward.splits)

lemma jobs_passed [simp]: "jobs (passed j k w) = jobs w" "jobs (publish_event p w) = jobs w"
    "jobs (poll_answer j a t w) = jobs w" "jobs (clear_approval a w) = jobs w"
    "jobs (session_event i kind fs w) = jobs w" "jobs (cancel_future i w) = jobs w"
  by (simp_all add: core_eqD [OF core_frames(1)] core_eqD [OF core_frames(2)] core_eqD [OF core_frames(3)]
      core_eqD [OF core_frames(4)] core_eqD [OF core_frames(5)] core_eqD [OF core_frames(7)])

lemma rank_second [simp]: "check_rank False (Second src) < 22"
  by (cases src) simp_all

lemma rank_passed: "pc_rank (pc (passed j k w)) < check_rank True k"
  by (cases k) (auto simp: passed_def proceed_def split: origin.splits onward.splits)

lemma rank_poll: "pc_rank (pc (poll_answer j a t w)) < 23"
  by (auto simp: poll_answer_def split: list.splits prod.splits)

lemma converse_rank:
  assumes "converse cfg j t c w = Some w'" "pc w = Conversing j t"
  shows "Suc (rank w') \<le> rank w + (if calls_back c then 2 else 0)"
proof -
  have "jobs w' = jobs w" using converse_shape [OF assms] by (auto dest: core_eqD)
  moreover have "Suc (pc_rank (pc w')) \<le> pc_rank (pc w) + (if calls_back c then 2 else 0)"
    using assms by (auto simp: converse_def split: choice.splits if_splits)
  ultimately show ?thesis by (simp add: rank_def)
qed

lemma thread_rank:
  assumes "thread_step cfg c w = Some w'" "stop_flag w"
  shows "Suc (rank w') \<le> rank w + (if calls_back c then 2 else 0)"
proof (cases "pc w")
  case (Checking j b k)
  have "Suc (rank w') \<le> rank w"
    using assms Checking rank_refused [OF assms(2)] rank_passed [of j k w]
    by (cases b) (auto simp: thread_step_def rank_def Suc_le_eq split: if_splits)
  then show ?thesis by simp
next
  case (Conversing j t)
  with assms converse_rank show ?thesis by (simp add: thread_step_def)
next
  case (Resolve j r)
  let ?w = "if error_of r \<noteq> None \<and> was_cancelled (the (error_of r))
    then w\<lparr>ended_cancelled := insert (jid j) (ended_cancelled w)\<rparr> else w"
  obtain w1 x where x: "resolve_future j r ?w = (w1, x)" by fastforce
  then have "core w1 = core w"
    using core_frames(6) [of j r ?w] by (auto simp: x)
  then have "jobs w1 = jobs w" by (auto dest: core_eqD)
  with assms Resolve x show ?thesis
    by (auto simp: thread_step_def rank_def simp del: not_None_eq split: sum.splits)
next
  case (Polling j a t)
  have "Suc (rank w') \<le> rank w"
    using assms Polling rank_poll [of j a t w] by (auto simp: thread_step_def rank_def Suc_le_eq)
  then show ?thesis by simp
next
  case Fetch
  with assms show ?thesis by (auto simp: thread_step_def rank_def split: list.splits command.splits)
next
  case (Took k)
  with assms show ?thesis by (cases k) (auto simp: thread_step_def rank_def)
next
  case (Command_Done k e)
  with assms show ?thesis by (auto simp: thread_step_def finish_command_def rank_def split: option.splits)
qed (use assms in \<open>auto simp: thread_step_def rank_def leave_job_def split: choice.splits if_splits\<close>)

lemma consumer_rank: "stop_flag w \<Longrightarrow> stop_flag (consume x w) \<and> rank (consume x w) = rank w"
  by (cases x) (auto simp: rank_def start_def enqueue_job_def enqueue_reset_def reconfigure_def
      enqueue_control_def stop_def Let_def cancel_current_shared accept_answer_def deliver_def take_event_def
      cancel_future_def session_event_def publish_event_def split: list.splits)

lemma started_consumer: "started w \<Longrightarrow> started (consume x w)"
  by (cases x) (auto simp: start_def enqueue_job_def enqueue_reset_def reconfigure_def enqueue_control_def
      stop_def Let_def cancel_current_shared accept_answer_def deliver_def take_event_def
      cancel_future_def session_event_def publish_event_def split: list.splits)

lemma started_thread: "thread_step cfg c w = Some w' \<Longrightarrow> started w' = started w"
  by (erule thread_step_cases) (auto dest: core_eqD simp: leave_job_def finish_command_def)

fun by_thread :: "(choice \<Rightarrow> bool) \<Rightarrow> move \<Rightarrow> bool" where
  "by_thread f (By_Thread c) = f c"
| "by_thread f (By_Consumer x) = False"

definition thread_moves :: "move list \<Rightarrow> nat" where
  "thread_moves ms = length (filter (by_thread (\<lambda>c. True)) ms)"

definition callbacks :: "move list \<Rightarrow> nat" where
  "callbacks ms = length (filter (by_thread calls_back) ms)"

lemma run_rank:
  "run_moves cfg ms w = Some w' \<Longrightarrow> stop_flag w \<Longrightarrow>
     stop_flag w' \<and> thread_moves ms + rank w' \<le> rank w + 2 * callbacks ms"
proof (induction ms arbitrary: w)
  case Nil
  then show ?case by (simp add: thread_moves_def callbacks_def)
next
  case (Cons m ms)
  show ?case
  proof (cases m)
    case (By_Consumer x)
    with Cons.IH [of "consume x w"] Cons.prems consumer_rank [of w x] show ?thesis
      by (simp add: thread_moves_def callbacks_def)
  next
    case (By_Thread c)
    with Cons.prems obtain v where v: "thread_step cfg c w = Some v" "run_moves cfg ms v = Some w'"
      by (auto split: option.splits)
    have "stop_flag v" using withdrawn_shared [OF v(1)] Cons.prems(2) by simp
    with Cons.IH [OF v(2)] thread_rank [OF v(1) Cons.prems(2)] By_Thread show ?thesis
      by (auto simp: thread_moves_def callbacks_def split: if_splits)
  qed
qed

section \<open>Progress\<close>

text \<open>A thread that is neither ended nor at an empty queue can go on without a callback.\<close>

lemma thread_can_step:
  assumes "pc w \<noteq> Fresh" "\<forall>e. pc w \<noteq> Dead e" "pc w = Fetch \<longrightarrow> jobs w \<noteq> []"
  shows "\<exists>c. \<not> calls_back c \<and> thread_step cfg c w \<noteq> None"
proof (cases "pc w")
  case (Checking j b k)
  then show ?thesis by (cases b) (auto simp: thread_step_def intro: exI [of _ "Proceed True"])
next
  case (Conversing j t)
  then show ?thesis by (intro exI [of _ "Fail stopped_exn"]) (simp add: thread_step_def converse_def)
next
  case Fetch
  with assms show ?thesis
    by (intro exI [of _ "Proceed True"]) (auto simp: thread_step_def neq_Nil_conv split: command.splits)
qed (use assms in \<open>auto simp: thread_step_def split: sum.splits prod.splits intro!: exI [of _ "Proceed True"]\<close>)

lemma stopped_can_step:
  assumes "reachable cfg w" "stop_flag w" "is_alive w"
  shows "\<exists>c. \<not> calls_back c \<and> thread_step cfg c w \<noteq> None"
proof (rule thread_can_step)
  show "pc w \<noteq> Fresh" "\<forall>e. pc w \<noteq> Dead e" using assms(3) by (auto simp: is_alive_def)
  show "pc w = Fetch \<longrightarrow> jobs w \<noteq> []"
    using reachable_inv [OF assms(1)] assms(2) by (auto simp: worker_inv_def queue_inv_def)
qed

lemma ended_well_reported:
  assumes "reachable cfg w" "pc w = Dead None"
  shows "outcomes w = [1..<next_job w]"
proof -
  have "jobs w = []" using reachable_inv [OF assms(1)] assms(2) by (simp add: worker_inv_def queue_inv_def)
  then have "open_ids w = []" by (simp add: open_ids_def pending_ids_def assms(2))
  then show ?thesis using reachable_outcome_inv [OF assms(1)] by (simp add: outcome_inv_def assms(2))
qed

section \<open>What the worker promises\<close>

text \<open>C7: Whatever the conversation does and however consumers interleave with it, when a worker whose
  thread has not been brought down by an exception is quiescent, its outcome events (completed,
  cancelled or error) name every job it accepted exactly once, in the order of submission.\<close>

theorem every_job_reported_once:
  assumes "reachable cfg w" "quiescent w" "\<not> crashed (pc w)"
  shows "outcomes w = [1..<next_job w]"
  using reachable_outcome_inv [OF assms(1)] quiescent_open_ids [OF assms(1,2)] assms(3)
  by (simp add: outcome_inv_def)

definition demo_cfg :: worker_cfg where
  "demo_cfg = \<lparr>standalone = False, observed = False, max_error_chars = 100\<rparr>"

definition demo_start :: "move list" where
  "demo_start = [By_Consumer (Start True), By_Consumer (Enqueue (ustr ''one'') False),
     By_Consumer (Enqueue (ustr ''two'') True)]"

definition demo_ask :: "move list" where
  "demo_ask = replicate 9 (By_Thread (Proceed False)) @ [By_Thread (Request [] True)] @
     replicate 5 (By_Thread (Proceed False)) @ [By_Consumer (Answer_Approval 1 True), By_Consumer (Deliver 0)] @
     replicate 4 (By_Thread (Proceed False))"

definition demo_next :: "move list" where
  "demo_next = [By_Thread (Answer (ustr ''fine'') [])] @ replicate 16 (By_Thread (Proceed False))"

definition demo_cancel :: "move list" where
  "demo_cancel = [By_Consumer (Cancel (Some 2)), By_Thread (Answer (ustr ''well'') [])] @
     replicate 8 (By_Thread (Proceed False))"

definition demo_stop :: "move list" where
  "demo_stop = By_Consumer Stop_Worker # replicate 2 (By_Thread (Proceed False))"

definition demo_state :: "move list \<Rightarrow> worker" where
  "demo_state ms = (case run_moves demo_cfg ms new_worker of Some w \<Rightarrow> w | None \<Rightarrow> new_worker)"

lemma run_append:
  "run_moves cfg (ms @ ns) w = (case run_moves cfg ms w of None \<Rightarrow> None | Some v \<Rightarrow> run_moves cfg ns v)"
  by (induction cfg ms w rule: run_moves.induct) (auto split: option.splits)

lemma demo_reachable: "reachable demo_cfg (demo_state ms)"
  by (auto simp: demo_state_def reachable.initial intro: run_reachable split: option.splits)

theorem every_job_reported_once_witness:
  "outcomes (demo_state (demo_start @ demo_ask @ demo_next @ demo_cancel @ demo_stop)) = [1..<3]"
proof -
  let ?w = "demo_state (demo_start @ demo_ask @ demo_next @ demo_cancel @ demo_stop)"
  have "quiescent ?w" by code_simp
  moreover have "\<not> crashed (pc ?w)" by code_simp
  moreover have "next_job ?w = 3" by code_simp
  ultimately show ?thesis using every_job_reported_once [OF demo_reachable, of "demo_start @ demo_ask @ demo_next @ demo_cancel @ demo_stop"] by simp
qed

text \<open>C8: A job that is cancelled, or whose worker is stopped, while it has not been reported and its
  last check has not passed is never reported as completed, whatever happens afterwards.\<close>

theorem withdrawn_job_never_completes:
  assumes "reachable cfg w" "i \<in> set (open_ids w)" "finishing (pc w) \<noteq> Some i"
    and "x = Cancel (Some i) \<or> (x = Stop_Worker \<and> last_check (pc w) \<noteq> Some i)"
    and "run_moves cfg (By_Consumer x # ms) w = Some w'"
  shows "i \<notin> set (completed w')"
proof (rule doomed_stays)
  show "run_moves cfg ms (consume x w) = Some w'" using assms(5) by simp
  show "reachable cfg (consume x w)" using assms(1) by (rule reachable.move) (rule wstep.consumer)
  note open_job = pending_not_completed [OF assms(1,2)]
  from assms(4) show "doomed i (consume x w)"
  proof
    assume x: "x = Cancel (Some i)"
    show ?thesis
      using open_job assms(3) by (auto simp: x doomed_def withdrawn_def cancel_current_shared cancel_current_def
          completed_def Let_def)
  next
    assume x: "x = Stop_Worker \<and> last_check (pc w) \<noteq> Some i"
    then show ?thesis
      using open_job assms(3) by (auto simp: doomed_def withdrawn_def stop_def completed_def)
  qed
qed

theorem withdrawn_job_never_completes_witness:
  "2 \<notin> set (completed (the (run_moves demo_cfg demo_cancel (demo_state (demo_start @ demo_ask @ demo_next)))))"
proof (rule withdrawn_job_never_completes [of demo_cfg "demo_state (demo_start @ demo_ask @ demo_next)" 2
      "Cancel (Some 2)" "tl demo_cancel"])
  show "2 \<in> set (open_ids (demo_state (demo_start @ demo_ask @ demo_next)))" by code_simp
  show "finishing (pc (demo_state (demo_start @ demo_ask @ demo_next))) \<noteq> Some 2" by code_simp
  have "run_moves demo_cfg demo_cancel (demo_state (demo_start @ demo_ask @ demo_next)) \<noteq> None" by code_simp
  then show "run_moves demo_cfg (By_Consumer (Cancel (Some 2)) # tl demo_cancel) (demo_state (demo_start @ demo_ask @ demo_next)) =
    Some (the (run_moves demo_cfg demo_cancel (demo_state (demo_start @ demo_ask @ demo_next))))"
    by (simp add: demo_cancel_def)
qed (simp_all add: demo_reachable)

text \<open>C9: In every reachable state the approvals granted to the conversation are distinct, and a
  consumer answered each of them, by its identifier, with yes and not with no.\<close>

theorem approvals_need_an_answer:
  assumes "reachable cfg w"
  shows "distinct (granted w) \<and> (\<forall>a\<in>set (granted w). (a, True) \<in> set (answered w) \<and> (a, False) \<notin> set (answered w))"
  using reachable_approval_inv [OF assms] by (auto simp: approval_inv_def dest: answered_once)

theorem approvals_need_an_answer_witness:
  "(1, True) \<in> set (answered (demo_state (demo_start @ demo_ask)))"
proof -
  have "1 \<in> set (granted (demo_state (demo_start @ demo_ask)))" by code_simp
  then show ?thesis using approvals_need_an_answer [OF demo_reachable, of "demo_start @ demo_ask"] by blast
qed

text \<open>C10: Once the stop flag of a started worker is set, the worker thread takes at most \<open>rank\<close> more
  steps and two for each callback of its conversation, whatever consumers do; until it has ended it
  can always go on without such a callback; and if no exception ended it, every accepted job has
  been reported.\<close>

theorem stopped_worker_ends:
  assumes "reachable cfg w" "stop_flag w" "started w" "run_moves cfg ms w = Some w'"
  shows "thread_moves ms \<le> rank w + 2 * callbacks ms \<and>
    (if is_alive w' then \<exists>c. \<not> calls_back c \<and> thread_step cfg c w' \<noteq> None
     else \<exists>e. pc w' = Dead e \<and> (e \<noteq> None \<or> outcomes w' = [1..<next_job w']))"
proof -
  have reach: "reachable cfg w'" using assms(4,1) by (rule run_reachable)
  note run = run_rank [OF assms(4,2)]
  have "started w'"
  proof (rule run_invariant [OF _ assms(4), of started])
    show "started v'" if "wstep cfg v v'" "started v" for v v'
      using that by cases (auto simp: started_consumer dest: started_thread)
  qed (rule assms(3))
  then have "pc w' \<noteq> Fresh" using reachable_inv [OF reach] by (simp add: worker_inv_def control_inv_def)
  moreover have "is_alive w' \<Longrightarrow> \<exists>c. \<not> calls_back c \<and> thread_step cfg c w' \<noteq> None"
    using stopped_can_step [OF reach] run by blast
  moreover have "\<forall>e. pc w' = Dead e \<longrightarrow> e \<noteq> None \<or> outcomes w' = [1..<next_job w']"
    using ended_well_reported [OF reach] by metis
  ultimately show ?thesis
    using run by (auto simp: is_alive_def split: pc.splits simp del: not_None_eq)
qed

definition demo_drain :: "move list" where
  "demo_drain = replicate 15 (By_Thread (Proceed False))"

definition demo_stopping :: "move list" where
  "demo_stopping = demo_start @ [By_Consumer Stop_Worker]"

theorem stopped_worker_ends_witness:
  "pc (demo_state (demo_stopping @ demo_drain)) = Dead None \<and> outcomes (demo_state (demo_stopping @ demo_drain)) = [1..<3]"
proof -
  let ?w = "demo_state (demo_stopping @ demo_drain)"
  have "run_moves demo_cfg demo_stopping new_worker \<noteq> None" by code_simp
  then obtain v where v: "run_moves demo_cfg demo_stopping new_worker = Some v" by blast
  have "run_moves demo_cfg demo_drain (demo_state demo_stopping) \<noteq> None" by code_simp
  then have run: "run_moves demo_cfg demo_drain (demo_state demo_stopping) = Some ?w"
    by (auto simp: demo_state_def run_append v)
  have "stop_flag (demo_state demo_stopping)" by code_simp
  moreover have "started (demo_state demo_stopping)" by code_simp
  moreover have "\<not> is_alive ?w" by code_simp
  moreover have "pc ?w = Dead None" by code_simp
  moreover have "next_job ?w = 3" by code_simp
  ultimately show ?thesis using stopped_worker_ends [OF demo_reachable _ _ run] by simp
qed

section \<open>A completion future the consumer has cancelled\<close>

text \<open>A consumer that cancels the future it submitted with makes the worker thread raise when the job
  completes: the job is never reported, and later submissions are accepted by a dead thread.\<close>

definition demo_lost :: "move list" where
  "demo_lost = [By_Consumer (Start True), By_Consumer (Enqueue (ustr ''one'') True), By_Consumer (Cancel_Future 1)] @
     replicate 9 (By_Thread (Proceed False)) @ [By_Thread (Answer (ustr ''fine'') [])] @
     replicate 7 (By_Thread (Proceed False)) @ [By_Consumer (Enqueue (ustr ''two'') False)]"

lemma cancelled_future_ends_worker:
  "crashed (pc (demo_state demo_lost))" "\<not> is_alive (demo_state demo_lost)" "outcomes (demo_state demo_lost) = []"
  "2 \<in> accepted_jobs (demo_state demo_lost)"
  by code_simp+

end
