(* ===== verification/Context_Summary.thy ===== *)
theory Context_Summary
  imports Action_Protocol
begin

text \<open>
  \<open>plugins/context/summaries.py\<close> and \<open>configuration.py\<close>: one line of facts for each message that
  leaves the conversation, and the size a request has on the wire. \<open>json.loads\<close>, \<open>json.dumps\<close>,
  \<open>repr\<close>, \<open>str\<close> of what is not text and \<open>str.title\<close> are the interpreter's (\<open>summary_env\<close>);
  the size of a request only needs the JSON of text, which is written out.
\<close>

section \<open>Settings\<close>

record context_settings =
  base_protocol :: pystr
  clip_chars :: int
  compaction_prefix :: pystr
  compaction_separator :: pystr
  summary_limits :: "(pystr, int) dict"

definition context_fields :: "pystr list" where
  "context_fields = map ustr [''protocol'', ''summary_clip_chars'', ''compaction_prefix'', ''compaction_separator'',
     ''summary_limits'']"

definition limit_field :: "pystr \<Rightarrow> pystr \<times> pyval \<Rightarrow> (pystr \<times> int) result" where
  "limit_field path p = bindR (integer_field (Some 1) (snd p) (path @ ustr ''.summary_limits.'' @ fst p)) (\<lambda>n. Inr (fst p, n))"

definition parse_context_settings :: "(pystr list \<Rightarrow> pystr list \<Rightarrow> pystr) \<Rightarrow> pyval \<Rightarrow> pystr \<Rightarrow> context_settings result" where
  "parse_context_settings shown raw path =
     (let place = (\<lambda>name. path @ ustr ''.'' @ ustr name) in
      bindR (settings_fields shown context_fields [] raw path) (\<lambda>fs.
      bindR (required_text (get fs ''protocol'') (place ''protocol'')) (\<lambda>protocol.
      bindR (integer_field (Some 1) (get fs ''summary_clip_chars'') (place ''summary_clip_chars'')) (\<lambda>clip_at.
      bindR (required_text (get fs ''compaction_prefix'') (place ''compaction_prefix'')) (\<lambda>pre.
      bindR (required_text (get fs ''compaction_separator'') (place ''compaction_separator'')) (\<lambda>sep.
      bindR (configuration_fields (get fs ''summary_limits'') (place ''summary_limits'')) (\<lambda>raw_limits.
      bindR (mapR (limit_field path) raw_limits) (\<lambda>limits.
      Inr \<lparr>base_protocol = protocol, clip_chars = clip_at, compaction_prefix = pre, compaction_separator = sep,
        summary_limits = limits\<rparr>))))))))"

section \<open>Text\<close>

fun words_from :: "pystr \<Rightarrow> pystr \<Rightarrow> pystr list" where
  "words_from word [] = (if word = [] then [] else [word])"
| "words_from word (c # s) = (if is_space c
     then (if word = [] then words_from [] s else word # words_from [] s)
     else words_from (word @ [c]) s)"

text \<open>\<open>s.split()\<close>.\<close>

definition words :: "pystr \<Rightarrow> pystr list" where
  "words s = words_from [] s"

text \<open>\<open>s[:k]\<close>, where a negative bound counts from the end.\<close>

definition upto :: "int \<Rightarrow> pystr \<Rightarrow> pystr" where
  "upto k s = take (nat (if k < 0 then int (length s) + k else k)) s"

record summary_env =
  csettings :: context_settings
  reply_prefix :: pystr
  reply_limit :: nat
  loads :: "pystr \<Rightarrow> rawjson result"
  dumps_text :: "pyval \<Rightarrow> pystr result"
  repr_of :: "pyval \<Rightarrow> pystr"
  str_of :: "pyval \<Rightarrow> pystr"
  title_of :: "pystr \<Rightarrow> pystr"

definition shown_text :: "summary_env \<Rightarrow> pyval \<Rightarrow> pystr" where
  "shown_text env v = (case v of VStr s \<Rightarrow> s | _ \<Rightarrow> str_of env v)"

definition clip_text :: "int \<Rightarrow> pystr \<Rightarrow> pystr" where
  "clip_text limit s = (let text = join [32] (words s) in
     if int (length text) \<le> limit then text else upto (limit - 3) text @ ustr ''...'')"

definition clip :: "summary_env \<Rightarrow> pyval \<Rightarrow> pystr" where
  "clip env v = clip_text (clip_chars (csettings env)) (shown_text env v)"

definition limit_of :: "summary_env \<Rightarrow> string \<Rightarrow> int result" where
  "limit_of env k = (case map_of (summary_limits (csettings env)) (ustr k) of
     Some n \<Rightarrow> Inr n | None \<Rightarrow> raise KeyError k)"

definition clip_within :: "summary_env \<Rightarrow> string \<Rightarrow> pystr \<Rightarrow> pystr result" where
  "clip_within env k s = bindR (limit_of env k) (\<lambda>n. Inr (clip_text n s))"

text \<open>\<open>json.dumps(messages, ensure_ascii=False, separators=(",", ":"))\<close> of messages, which hold only text.\<close>

fun hex_digit :: "int \<Rightarrow> int" where
  "hex_digit n = (if n < 10 then 48 + n else 87 + n)"

definition escape_char :: "int \<Rightarrow> pystr" where
  "escape_char c = (if c = 34 then [92, 34] else if c = 92 then [92, 92] else if c = 10 then [92, 110]
     else if c = 13 then [92, 114] else if c = 9 then [92, 116] else if c = 12 then [92, 102]
     else if c = 8 then [92, 98] else if c < 32 then [92, 117, 48, 48, hex_digit (c div 16), hex_digit (c mod 16)]
     else [c])"
definition json_string :: "pystr \<Rightarrow> pystr" where
  "json_string s = 34 # concat (map escape_char s) @ [34]"

definition message_json :: "pystr \<times> pystr \<Rightarrow> pystr" where
  "message_json m = ustr ''{\"role\":'' @ json_string (fst m) @ ustr '',\"content\":'' @ json_string (snd m) @ ustr ''}''"

definition messages_json :: "(pystr \<times> pystr) list \<Rightarrow> pystr" where
  "messages_json ms = ustr ''['' @ join (ustr '','') (map message_json ms) @ ustr '']''"

definition messages_size :: "(pystr \<times> pystr) list \<Rightarrow> nat" where
  "messages_size ms = length (messages_json ms)"

section \<open>What an action asked for\<close>

definition content_text :: "pyval \<Rightarrow> pystr result" where
  "content_text v = (case v of VStr s \<Rightarrow> Inr s | _ \<Rightarrow> raise TypeError ''Action content must be text.'')"

definition encoded_length :: "pystr \<Rightarrow> nat result" where
  "encoded_length s = (if utf8_encodable s then Inr (sum_list (map utf8_len s))
     else raise UnicodeError ''surrogates not allowed'')"

definition content_bytes :: "fields \<Rightarrow> pystr result" where
  "content_bytes a = bindR (item a ''content'') (\<lambda>v. bindR (content_text v) (\<lambda>s.
     bindR (encoded_length s) (\<lambda>n. Inr (str_int (int n)))))"

definition agent_objects :: "pyval \<Rightarrow> fields list result" where
  "agent_objects v = bindR (array_field v (ustr ''agents'')) (\<lambda>xs.
     mapR (\<lambda>x. object_field x (ustr ''agent'')) (filter (\<lambda>x. case x of VDict d \<Rightarrow> True | _ \<Rightarrow> False) xs))"

text \<open>\<open>{a[k]!r}\<close>, \<open>{a[k]}\<close> and \<open>{a.get(k, default)}\<close>.\<close>

definition quoted_item :: "summary_env \<Rightarrow> fields \<Rightarrow> string \<Rightarrow> pystr result" where
  "quoted_item env a k = bindR (item a k) (\<lambda>v. Inr (repr_of env v))"

definition shown_item :: "summary_env \<Rightarrow> fields \<Rightarrow> string \<Rightarrow> pystr result" where
  "shown_item env a k = bindR (item a k) (\<lambda>v. Inr (shown_text env v))"

definition shown_get :: "summary_env \<Rightarrow> fields \<Rightarrow> string \<Rightarrow> string \<Rightarrow> pystr" where
  "shown_get env a k default_text =
     (case map_of a (ustr k) of Some v \<Rightarrow> shown_text env v | None \<Rightarrow> ustr default_text)"

definition cursor_note :: "summary_env \<Rightarrow> fields \<Rightarrow> pystr result" where
  "cursor_note env a = (if has_key a (ustr ''cursor'')
     then bindR (quoted_item env a ''cursor'') (\<lambda>c. Inr (ustr '' after cursor '' @ c)) else Inr [])"

definition summarize_write :: "summary_env \<Rightarrow> fields \<Rightarrow> pystr result" where
  "summarize_write env a = bindR (quoted_item env a ''path'') (\<lambda>p. bindR (content_bytes a) (\<lambda>n.
     Inr (ustr ''Assistant requested write '' @ p @ ustr '' ('' @ n @ ustr '' bytes).'')))"

definition summarize_edit :: "summary_env \<Rightarrow> fields \<Rightarrow> pystr result" where
  "summarize_edit env a = bindR (quoted_item env a ''path'') (\<lambda>p.
     bindR (shown_item env a ''start'') (\<lambda>i. bindR (shown_item env a ''end'') (\<lambda>j.
     bindR (content_bytes a) (\<lambda>n. bindR (shown_item env a ''expected_sha256'') (\<lambda>sha.
     Inr (ustr ''Assistant requested edit '' @ p @ ustr '' byte range ['' @ i @ ustr '','' @ j @ ustr '') with '' @ n @
       ustr '' replacement bytes against SHA-256 '' @ sha @ ustr ''.''))))))"

definition summarize_run :: "summary_env \<Rightarrow> fields \<Rightarrow> pystr result" where
  "summarize_run env a = bindR (item a ''argv'') (\<lambda>v. bindR (dumps_text env v) (\<lambda>d.
     Inr (ustr ''Assistant requested run: '' @ clip env (VStr d))))"

definition summarize_list :: "summary_env \<Rightarrow> fields \<Rightarrow> pystr result" where
  "summarize_list env a = bindR (cursor_note env a) (\<lambda>c. bindR (quoted_item env a ''path'') (\<lambda>p.
     Inr (ustr ''Assistant requested list '' @ p @ c @ ustr '' (limit '' @ shown_get env a ''limit'' ''default'' @ ustr '').'')))"

definition summarize_read :: "summary_env \<Rightarrow> fields \<Rightarrow> pystr result" where
  "summarize_read env a = bindR (quoted_item env a ''path'') (\<lambda>p.
     Inr (ustr ''Assistant requested read '' @ p @ ustr '' from byte '' @ shown_get env a ''offset'' ''0'' @
       ustr '' (limit '' @ shown_get env a ''limit'' ''default'' @ ustr '').''))"

definition summarize_skill :: "summary_env \<Rightarrow> fields \<Rightarrow> pystr result" where
  "summarize_skill env a = bindR (quoted_item env a ''name'') (\<lambda>n. Inr (ustr ''Assistant loaded skill '' @ n @ ustr ''.''))"

definition summarize_remember :: "summary_env \<Rightarrow> fields \<Rightarrow> pystr result" where
  "summarize_remember env a = bindR (item a ''content'') (\<lambda>v.
     Inr (ustr ''Assistant requested a persistent memory: '' @ clip env v))"

definition summarize_forget :: "summary_env \<Rightarrow> fields \<Rightarrow> pystr result" where
  "summarize_forget env a = bindR (shown_item env a ''id'') (\<lambda>i.
     Inr (ustr ''Assistant requested forgetting memory '' @ i @ ustr ''.''))"

definition summarize_memories :: "summary_env \<Rightarrow> fields \<Rightarrow> pystr result" where
  "summarize_memories env a = bindR (cursor_note env a) (\<lambda>c.
     Inr (ustr ''Assistant requested a persistent memory page'' @ c @ ustr ''.''))"

definition summarize_delegate :: "summary_env \<Rightarrow> fields \<Rightarrow> pystr result" where
  "summarize_delegate env a = bindR (quoted_item env a ''agent'') (\<lambda>g. bindR (quoted_item env a ''purpose'') (\<lambda>p.
     bindR (shown_item env a ''task'') (\<lambda>t. bindR (clip_within env ''delegate_task'' t) (\<lambda>c.
     Inr (ustr ''Assistant delegated to '' @ g @ ustr '' for '' @ p @ ustr '': '' @ c)))))"

definition summarize_delegate_many :: "summary_env \<Rightarrow> fields \<Rightarrow> pystr result" where
  "summarize_delegate_many env a = bindR (item a ''agents'') (\<lambda>v. bindR (agent_objects v) (\<lambda>xs.
     bindR (mapR (\<lambda>x. bindR (shown_item env x ''agent'') (\<lambda>g. bindR (shown_item env x ''purpose'') (\<lambda>p.
       Inr (g @ ustr '':'' @ p)))) xs) (\<lambda>agents. bindR (clip_within env ''delegate_agents'' (join (ustr '', '') agents)) (\<lambda>c.
     Inr (ustr ''Assistant delegated a parallel batch: '' @ c)))))"

definition summarize_done :: "summary_env \<Rightarrow> fields \<Rightarrow> pystr result" where
  "summarize_done env a = bindR (item a ''message'') (\<lambda>v. Inr (ustr ''Assistant finished: '' @ clip env v))"

definition action_summary :: "summary_env \<Rightarrow> pystr \<Rightarrow> (fields \<Rightarrow> pystr result) option" where
  "action_summary env = map_of [(ustr ''write'', summarize_write env), (ustr ''edit'', summarize_edit env),
     (ustr ''run'', summarize_run env), (ustr ''list'', summarize_list env), (ustr ''read'', summarize_read env),
     (ustr ''skill'', summarize_skill env), (ustr ''remember'', summarize_remember env),
     (ustr ''forget'', summarize_forget env), (ustr ''memories'', summarize_memories env),
     (ustr ''delegate'', summarize_delegate env), (ustr ''delegate_many'', summarize_delegate_many env),
     (ustr ''done'', summarize_done env)]"

definition summary_errors :: "exn_class list" where
  "summary_errors = [KeyError, UnicodeError, ConfigurationError, ValueError, TypeError]"

text \<open>The line of a known action, or the action itself, whose JSON is shown outside the handler.\<close>

definition known_summary :: "summary_env \<Rightarrow> pystr \<Rightarrow> (pystr + fields) result" where
  "known_summary env content =
     bindR (decode_action (reply_limit env) (loads env) (VStr content)) (\<lambda>a.
     bindR (item a ''action'') (\<lambda>v. bindR (required_text v (ustr ''action'')) (\<lambda>n.
     case action_summary env n of
       Some f \<Rightarrow> bindR (f a) (\<lambda>line. Inr (Inl line))
     | None \<Rightarrow> Inr (Inr a))))"

definition assistant_summary :: "summary_env \<Rightarrow> pystr \<Rightarrow> pystr result" where
  "assistant_summary env content =
     bindR (rescue summary_errors (\<lambda>_. Inr (Inl (ustr ''Assistant reply: '' @ clip env (VStr content))))
       (known_summary env content)) (\<lambda>r. case r of
         Inl line \<Rightarrow> Inr line
       | Inr a \<Rightarrow> bindR (dumps_text env (dict_of a)) (\<lambda>d. Inr (ustr ''Assistant requested '' @ clip env (VStr d))))"

section \<open>What the host answered\<close>

definition plain_facts :: "string list" where
  "plain_facts = [''returncode'', ''timed_out'', ''truncated'', ''stdout_truncated'', ''stderr_truncated'',
     ''stdout_omitted_bytes'', ''stderr_omitted_bytes'', ''stdout_encoding_errors'', ''stderr_encoding_errors'',
     ''denied'', ''bytes_written'', ''bytes_read'', ''bytes_removed'', ''bytes_inserted'', ''offset'', ''next_offset'',
     ''size'', ''encoding_errors'', ''total'']"

definition plain_fact :: "summary_env \<Rightarrow> fields \<Rightarrow> string \<Rightarrow> pystr list" where
  "plain_fact env d k = (case map_of d (ustr k) of None \<Rightarrow> [] | Some v \<Rightarrow> [ustr k @ ustr ''='' @ repr_of env v])"

definition clipped_fact :: "summary_env \<Rightarrow> string \<Rightarrow> string \<Rightarrow> pystr \<Rightarrow> pystr list result" where
  "clipped_fact env k limit t = bindR (clip_within env limit t) (\<lambda>c. Inr [ustr k @ ustr ''='' @ c])"

definition text_fact :: "summary_env \<Rightarrow> fields \<Rightarrow> string \<times> string \<Rightarrow> pystr list result" where
  "text_fact env d p = (let v = get d (fst p) in
     if truthy v then clipped_fact env (snd p) (fst p) (shown_text env v) else Inr [])"

definition listed_fact :: "summary_env \<Rightarrow> fields \<Rightarrow> string \<Rightarrow> pystr list result" where
  "listed_fact env d k = (case get d k of
      VList xs \<Rightarrow> bindR (dumps_text env (VList xs)) (\<lambda>t. clipped_fact env k k t)
    | _ \<Rightarrow> Inr [])"

definition agent_keys :: "pystr list" where
  "agent_keys = map ustr [''agent'', ''purpose'', ''profile'', ''model'', ''status'', ''message'', ''error'']"

definition agent_facts :: "fields \<Rightarrow> pyval" where
  "agent_facts x = dict_of (List.map_filter (\<lambda>k. map_option (\<lambda>v. (k, v)) (map_of x k)) agent_keys)"

definition agents_fact :: "summary_env \<Rightarrow> fields \<Rightarrow> pystr list result" where
  "agents_fact env d = (case get d ''agents'' of
      VList xs \<Rightarrow> bindR (agent_objects (VList xs)) (\<lambda>os.
        bindR (dumps_text env (VList (map agent_facts os))) (\<lambda>t. clipped_fact env ''agents'' ''agents'' t))
    | _ \<Rightarrow> Inr [])"

definition cursor_fact :: "summary_env \<Rightarrow> fields \<Rightarrow> pystr list result" where
  "cursor_fact env d = (let v = get d ''next_cursor'' in
     if v = VNone then Inr [] else clipped_fact env ''next_cursor'' ''cursor'' (repr_of env v))"

definition host_summary :: "summary_env \<Rightarrow> fields \<Rightarrow> pystr result" where
  "host_summary env d =
     bindR (cursor_fact env d) (\<lambda>cursors.
     bindR (mapR (text_fact env d) [(''sha256'', ''sha256''), (''error'', ''error''), (''stdout'', ''stdout''),
       (''stderr'', ''stderr''), (''content'', ''content_excerpt'')]) (\<lambda>texts.
     bindR (listed_fact env d ''entries'') (\<lambda>es.
     bindR (listed_fact env d ''memories'') (\<lambda>ms.
     bindR (agents_fact env d) (\<lambda>as.
     Inr (ustr ''Host result: '' @ join (ustr ''; '')
       ((ustr ''ok='' @ repr_of env (get d ''ok'')) # concat (map (plain_fact env d) plain_facts) @ cursors @
        concat texts @ es @ ms @ as)))))))"

definition summary_line :: "summary_env \<Rightarrow> pystr \<times> pystr \<Rightarrow> pystr result" where
  "summary_line env m = (case m of (r, content) \<Rightarrow>
     if r = ustr ''assistant'' then assistant_summary env content
     else if r = ustr ''user'' \<and> startswith content (reply_prefix env) then
       (let body = drop (length (reply_prefix env)) content in
        case bindR (bindR (loads env body) json_object) (\<lambda>v. object_field v (ustr ''host result'')) of
          Inl e \<Rightarrow> if caught_by [ConfigurationError, ValueError, TypeError] e
            then Inr (ustr ''Host result: '' @ clip env (VStr body)) else Inl e
        | Inr d \<Rightarrow> host_summary env d)
     else Inr (title_of env r @ ustr '': '' @ clip env (VStr content)))"

section \<open>Clipped text\<close>

definition one_line :: "pystr \<Rightarrow> bool" where
  "one_line s \<longleftrightarrow> (\<forall>c\<in>set s. is_space c \<longrightarrow> c = 32)"

lemma words_no_space:
  "list_all (\<lambda>c. \<not> is_space c) w \<Longrightarrow> list_all (list_all (\<lambda>c. \<not> is_space c)) (words_from w s)"
  by (induction w s rule: words_from.induct) simp_all

lemma join_one_line: "one_line sep \<Longrightarrow> (\<forall>x\<in>set xs. one_line x) \<Longrightarrow> one_line (join sep xs)"
  by (induction sep xs rule: join.induct) (auto simp: one_line_def)

lemma one_line_space [simp]: "one_line [32]" "one_line (ustr ''...'')"
  by (auto simp: one_line_def ustr_def is_space_def py_spaces_def)

lemma words_one_line: "one_line (join [32] (words s))"
proof (rule join_one_line)
  have "\<forall>x\<in>set (words s). \<forall>c\<in>set x. \<not> is_space c"
    using words_no_space [of "[]"] by (simp add: words_def list_all_iff)
  then show "\<forall>x\<in>set (words s). one_line x" by (simp add: one_line_def)
qed simp

lemma upto_set: "set (upto k s) \<subseteq> set s"
  by (simp add: upto_def set_take_subset)

lemma clip_text_one_line: "one_line (clip_text n s)"
  using words_one_line [of s] upto_set [of "n - 3" "join [32] (words s)"]
  by (auto simp: clip_text_def Let_def one_line_def ustr_def is_space_def py_spaces_def)

lemma clip_text_length: "3 \<le> n \<Longrightarrow> int (length (clip_text n s)) \<le> n"
  by (auto simp: clip_text_def Let_def upto_def)

section \<open>Summaries exist\<close>

definition limit_names :: "string list" where
  "limit_names = [''delegate_task'', ''delegate_agents'', ''cursor'', ''sha256'', ''error'', ''stdout'', ''stderr'',
     ''content'', ''entries'', ''memories'', ''agents'']"

text \<open>Every limit is configured, JSON can be written, and reading it raises \<open>ValueError\<close> at most.\<close>

definition summary_env_ok :: "summary_env \<Rightarrow> bool" where
  "summary_env_ok env \<longleftrightarrow>
     list_all (\<lambda>k. map_of (summary_limits (csettings env)) (ustr k) \<noteq> None) limit_names \<and>
     (\<forall>t e. loads env t = Inl e \<longrightarrow> exn_kind e = ValueError) \<and> (\<forall>v. \<exists>t. dumps_text env v = Inr t)"

lemma summary_errors_raise [simp]:
  "list_ex (isa KeyError) summary_errors" "list_ex (isa TypeError) summary_errors"
  "list_ex (isa UnicodeError) summary_errors" "list_ex (isa ValueError) summary_errors"
  "list_ex (isa ConfigurationError) summary_errors"
  by (simp_all add: summary_errors_def)

lemma raises_item [simp]: "only_raises summary_errors (item a k)"
  by (auto simp: item_def split: option.splits)

lemma raises_fields [simp]:
  "only_raises summary_errors (object_field v p)" "only_raises summary_errors (array_field v p)"
  "only_raises summary_errors (required_text v p)" "only_raises summary_errors (content_bytes a)"
  "only_raises summary_errors (limit_of env k)" "only_raises summary_errors (string_field v p)"
  by (auto simp: object_field_def array_field_def required_text_def text_field_def content_bytes_def
      content_text_def encoded_length_def limit_of_def string_field_def split: pyval.splits option.splits intro!: only_raises_bindR)

lemma raises_clip [simp]: "only_raises summary_errors (clip_within env k s)"
  by (auto simp: clip_within_def intro!: only_raises_bindR)

lemma raises_agents [simp]: "only_raises summary_errors (agent_objects v)"
  by (auto simp: agent_objects_def intro!: only_raises_bindR only_raises_mapR)

lemma raises_shown [simp]: "only_raises summary_errors (quoted_item env a k)" "only_raises summary_errors (shown_item env a k)"
    "only_raises summary_errors (cursor_note env a)"
  by (auto simp: quoted_item_def shown_item_def cursor_note_def intro!: only_raises_bindR)

lemma action_summary_raises:
  assumes "summary_env_ok env" "action_summary env n = Some f"
  shows "only_raises summary_errors (f a)"
proof -
  have dumps [simp]: "only_raises summary_errors (dumps_text env v)" for v
    using assms(1) by (auto simp: summary_env_ok_def only_raises_def) (metis Inl_Inr_False)
  from assms(2) show ?thesis
    by (auto simp: action_summary_def summarize_write_def summarize_edit_def summarize_run_def summarize_list_def
        summarize_read_def summarize_skill_def summarize_remember_def summarize_forget_def summarize_memories_def
        summarize_delegate_def summarize_delegate_many_def summarize_done_def
        split: if_splits intro!: only_raises_bindR only_raises_mapR)
qed

lemma json_raises:
  "only_raises [ValueError] (json_object r)" "only_raises [ValueError] (json_elems rs)"
  "only_raises [ValueError] (json_pairs ps)"
proof (induction r and rs and ps rule: json_object_json_elems_json_pairs.induct)
  case (8 ps)
  have "only_raises [ValueError] (unique_loop res qs)" for res qs
    by (induction res qs rule: unique_loop.induct) auto
  with 8 show ?case by (auto simp: unique_object_def intro!: only_raises_bindR)
qed (auto intro!: only_raises_bindR)

lemma decode_action_raises:
  assumes "\<And>t. only_raises [ValueError] (parse t)"
  shows "only_raises summary_errors (decode_action limit parse v)"
proof -
  have "only_raises ([ConfigurationError, TypeError] @ summary_errors)
      (bindR (bindR (parse t) json_object) action_object)" for t
    by (intro only_raises_bindR only_raises_mono [OF assms] only_raises_mono [OF json_raises(1)])
      (auto simp: action_object_def summary_errors_def intro!: only_raises_bindR
        intro: only_raises_mono [OF raises_fields(1)] only_raises_mono [OF raises_fields(6)])
  then have inner: "only_raises summary_errors (rescue [ConfigurationError, TypeError]
      (\<lambda>_. raise ValueError ''Expected a single JSON object with a string action.'')
      (bindR (bindR (parse t) json_object) action_object))" for t
    by (intro only_raises_rescue) simp_all
  show ?thesis
    unfolding decode_action_def reply_text_def
    by (auto split: pyval.splits intro!: only_raises_bindR inner)
qed

lemma known_summary_raises:
  assumes "summary_env_ok env"
  shows "only_raises summary_errors (known_summary env content)"
proof -
  have loads: "only_raises [ValueError] (loads env t)" for t
    using assms by (auto simp: summary_env_ok_def only_raises_def caught_by_def)
  show ?thesis
    unfolding known_summary_def
    by (intro only_raises_bindR decode_action_raises loads raises_item raises_fields)
      (auto split: option.splits intro!: only_raises_bindR action_summary_raises [OF assms])
qed

lemma assistant_summary_total:
  assumes "summary_env_ok env"
  shows "\<exists>line. assistant_summary env content = Inr line"
proof -
  have dumps: "only_raises [] (dumps_text env v)" for v
    using assms by (auto simp: summary_env_ok_def only_raises_def) (metis Inl_Inr_False)
  have "only_raises [] (assistant_summary env content)"
    unfolding assistant_summary_def
    by (intro only_raises_bindR only_raises_rescue)
      (auto simp: known_summary_raises [OF assms] dumps intro!: only_raises_bindR split: sum.splits)
  then show ?thesis by (simp add: total_iff)
qed

lemma clip_within_total:
  "summary_env_ok env \<Longrightarrow> k \<in> set limit_names \<Longrightarrow> \<exists>t. clip_within env k s = Inr t"
  by (auto simp: summary_env_ok_def list_all_iff clip_within_def limit_of_def)

lemma agent_objects_total:
  assumes "list_all unambiguous xs"
  shows "\<exists>os. agent_objects (VList xs) = Inr os"
proof -
  have "\<exists>fs. object_field (VDict d) p = Inr fs" if "unambiguous (VDict d)" for d p
    using that by (auto simp: object_field_def text_keys_def list_all_iff split: prod.splits)
  then have "only_raises [] (object_field x p)" if "x \<in> set xs" "(case x of VDict d \<Rightarrow> True | _ \<Rightarrow> False)" for x p
    using that assms by (auto simp: list_all_iff total_iff split: pyval.splits)
  then have "only_raises [] (agent_objects (VList xs))"
    by (auto simp: agent_objects_def array_field_def intro!: only_raises_mapR)
  then show ?thesis by (simp add: total_iff)
qed

lemma host_summary_total:
  assumes env: "summary_env_ok env" and d: "\<forall>p\<in>set d. unambiguous (snd p)"
  shows "\<exists>line. host_summary env d = Inr line"
proof -
  have fact: "only_raises [] (clipped_fact env k l t)" if "l \<in> set limit_names" for k l t
    using clip_within_total [OF env that, of t] by (auto simp: clipped_fact_def)
  have dumps: "only_raises [] (dumps_text env v)" for v
    using env by (auto simp: summary_env_ok_def only_raises_def) (metis Inl_Inr_False)
  have listed: "only_raises [] (listed_fact env d k)" if "k \<in> set limit_names" for k
    using that by (auto simp: listed_fact_def intro!: only_raises_bindR dumps fact split: pyval.splits)
  have shown: "only_raises [] (text_fact env d p)" if "fst p \<in> set limit_names" for p
    using that by (auto simp: text_fact_def Let_def fact)
  have agents: "only_raises [] (agents_fact env d)"
  proof (cases "get d ''agents''")
    case (VList xs)
    then have "(ustr ''agents'', VList xs) \<in> set d" by (auto simp: get_def map_of_SomeD split: option.splits)
    with d have "list_all unambiguous xs" by fastforce
    with agent_objects_total [of xs] show ?thesis
      by (auto simp: agents_fact_def VList limit_names_def intro!: only_raises_bindR dumps fact)
  qed (simp_all add: agents_fact_def)
  have "only_raises [] (host_summary env d)"
    unfolding host_summary_def
    by (intro only_raises_bindR only_raises_mapR)
      (auto simp: cursor_fact_def Let_def limit_names_def intro!: fact listed agents shown)
  then show ?thesis by (simp add: total_iff)
qed

lemma summary_total:
  assumes "summary_env_ok env"
  shows "\<exists>line. summary_line env m = Inr line"
proof (cases m)
  case (Pair r content)
  let ?body = "drop (length (reply_prefix env)) content"
  let ?parsed = "bindR (bindR (loads env ?body) json_object) (\<lambda>v. object_field v (ustr ''host result''))"
  have "only_raises [ConfigurationError, ValueError, TypeError] ?parsed"
    using assms by (intro only_raises_bindR only_raises_mono [OF json_raises(1)])
      (auto simp: summary_env_ok_def only_raises_def caught_by_def object_field_def raise_text_def
        split: pyval.splits option.splits)
  moreover have "\<exists>line. host_summary env d = Inr line" if parsed: "?parsed = Inr d" for d
  proof -
    from parsed obtain t v where "json_object t = Inr v" "object_field v (ustr ''host result'') = Inr d"
      by (auto simp: bindR_Inr_iff)
    then have "\<forall>p\<in>set d. unambiguous (snd p)"
      using json_object_unambiguous(1) [of t v]
      by (auto simp: object_field_def text_keys_Some_iff list_all_iff split: pyval.splits option.splits)
    then show ?thesis by (rule host_summary_total [OF assms])
  qed
  ultimately show ?thesis
    using assistant_summary_total [OF assms]
    by (auto simp: Pair summary_line_def Let_def only_raises_def split: sum.splits)
qed

section \<open>The size of a request\<close>

lemma digits_length_mono: "m \<le> n \<Longrightarrow> length (digits m) \<le> length (digits n)"
proof (induction m arbitrary: n rule: digits.induct)
  case (1 m)
  show ?case
  proof (cases "n < 10")
    case True
    with 1 show ?thesis by (simp add: digits.simps [of n] digits.simps [of m])
  next
    case False
    show ?thesis
    proof (cases "m < 10")
      case True
      then show ?thesis by (simp add: digits.simps [of n] digits.simps [of m])
    next
      case m: False
      have "length (digits (m div 10)) \<le> length (digits (n div 10))"
        using 1 m by (intro "1.IH") (auto simp: div_le_mono)
      with False m show ?thesis by (simp add: digits.simps [of n] digits.simps [of m])
    qed
  qed
qed

lemma length_join: "length (join [c] xs) = sum_list (map length xs) + (length xs - 1)"
  by (induction "[c]" xs rule: join.induct) auto

lemma json_string_append: "length (json_string (s @ t)) + 2 = length (json_string s) + length (json_string t)"
  by (simp add: json_string_def)

lemma json_string_mono: "length (json_string s) \<le> length (json_string (p @ s @ q))"
  by (simp add: json_string_def)

lemma messages_size_eq:
  "messages_size ms = 2 + sum_list (map (length \<circ> message_json) ms) + (length ms - 1)"
  by (simp add: messages_size_def messages_json_def length_join comp_def ustr_def)

end
