(* ===== verification/Context_Policy.thy ===== *)
theory Context_Policy
  imports Context_Summary Session_Kernel
begin

text \<open>
  \<open>plugins/context/policy.py\<close>: which messages of a conversation a request carries. Either all of
  it fits, or the oldest messages give way to digests of one line per message, and what stays are
  the instructions, the active prompt and complete pairs of an action and its result. The rendered
  instructions and the memory plugin's limit come from services of other plugins (\<open>render\<close>,
  \<open>memory_limit\<close>: no value when there is no memory store); \<open>history\<close> is the snapshot the policy
  was built on.
\<close>

record 's policy_env =
  summaries :: summary_env
  policy_role :: pystr
  budget :: int
  keep_recent :: int
  render :: "int \<Rightarrow> ('s, pystr) eff"
  memory_limit :: "('s, pyval option) eff"

abbreviation user_role :: pystr where
  "user_role \<equiv> ustr ''user''"

section \<open>Digests\<close>

definition digest_header :: "'s policy_env \<Rightarrow> nat \<Rightarrow> pystr" where
  "digest_header env n = compaction_prefix (csettings (summaries env)) @ str_int (int n) @
     ustr '' older messages summarized; re-read files when exact details are needed.''"

text \<open>A reply and the host's answer to it stay together.\<close>

fun digest_groups :: "summary_env \<Rightarrow> message list \<Rightarrow> pystr list list result" where
  "digest_groups env [] = Inr []"
| "digest_groups env (m # ms) =
     (if mkind m = ustr ''prompt''
      then bindR (digest_groups env ms) (\<lambda>gs. Inr ([ustr ''User request: '' @ clip env (VStr (mcontent m))] # gs))
      else bindR (summary_line env (as_message m)) (\<lambda>line.
        case ms of
          [] \<Rightarrow> Inr [[line]]
        | r # rest \<Rightarrow>
            if mkind m = ustr ''assistant'' \<and> mkind r = ustr ''host_result'' \<and> prompt_id r = prompt_id m
            then bindR (summary_line env (as_message r)) (\<lambda>answer.
              bindR (digest_groups env rest) (\<lambda>gs. Inr ([line, answer] # gs)))
            else bindR (digest_groups env ms) (\<lambda>gs. Inr ([line] # gs))))"

definition group_cost :: "pystr list \<Rightarrow> int" where
  "group_cost g = sum_list (map (\<lambda>line. int (length line) + 3) g)"

text \<open>The groups that fit, from the newest back; \<open>used\<close> is what they take.\<close>

fun pick_groups :: "int \<Rightarrow> int \<Rightarrow> pystr list list \<Rightarrow> pystr list list \<times> int" where
  "pick_groups limit used [] = ([], used)"
| "pick_groups limit used (g # gs) =
     (if used + group_cost g \<le> limit
      then (case pick_groups limit (used + group_cost g) gs of (picked, spent) \<Rightarrow> (g # picked, spent))
      else pick_groups limit used gs)"

definition bullet :: pystr where
  "bullet = 10 # ustr ''- ''"

definition session_digest :: "'s policy_env \<Rightarrow> message list \<Rightarrow> int \<Rightarrow> pystr result" where
  "session_digest env ms limit =
     (let header = digest_header env (length ms) in
      if limit < int (length header) then raise ValueError ''Context budget is too small for a compaction digest.''
      else bindR (digest_groups (summaries env) ms) (\<lambda>groups.
        case pick_groups limit (int (length header)) (rev groups) of (picked, used) \<Rightarrow>
          let selected = concat (rev picked);
              omitted = int (sum_list (map length groups)) - int (length selected);
              omission = str_int omitted @ ustr '' older summary lines omitted.'';
              lines = (if omitted \<noteq> 0 \<and> used + int (length omission) + 3 \<le> limit then omission # selected else selected)
          in Inr (if lines = [] then header else header @ bullet @ join bullet lines)))"

section \<open>The instructions\<close>

definition user_task :: pystr where
  "user_task = [10, 10] @ ustr ''--- USER TASK ---'' @ [10]"

definition prior_history :: pystr where
  "prior_history = [10, 10] @ ustr ''--- HOST-GENERATED PRIOR HISTORY ---'' @ [10]"

definition separator :: "'s policy_env \<Rightarrow> pystr" where
  "separator env = compaction_separator (csettings (summaries env))"

definition with_digest :: "'s policy_env \<Rightarrow> pystr \<Rightarrow> pystr option \<Rightarrow> pystr" where
  "with_digest env body d = (case d of None \<Rightarrow> body | Some t \<Rightarrow> body @ separator env @ t)"

definition anchor_messages :: "'s policy_env \<Rightarrow> pystr \<Rightarrow> pystr \<Rightarrow> pystr option \<Rightarrow> messages" where
  "anchor_messages env instructions prompt d = (let body = with_digest env prompt d in
     if policy_role env = user_role then [(user_role, instructions @ user_task @ body)]
     else [(policy_role env, instructions), (user_role, body)])"

definition last_index :: "(message \<Rightarrow> bool) \<Rightarrow> message list \<Rightarrow> nat option" where
  "last_index f ms = List.find (\<lambda>i. f (ms ! i)) (rev [0..<length ms])"

text \<open>The smallest request with these instructions: digests of the older messages take no more than
  a header each, and the last \<open>recent\<close> messages of the active turn are whole.\<close>

definition floor_messages ::
    "'s policy_env \<Rightarrow> message list \<Rightarrow> pystr \<Rightarrow> nat \<Rightarrow> message list \<Rightarrow> nat \<Rightarrow> pystr \<Rightarrow> messages" where
  "floor_messages env history prompt active_index tail recent instructions =
     (let reserve = digest_header env (max 1 (length history));
          has_prior = active_index > 0;
          active = with_digest env prompt (if take (length tail - recent) tail \<noteq> [] then Some reserve else None);
          floor = (if policy_role env = user_role
            then [(user_role, (if has_prior then instructions @ prior_history @ reserve else instructions) @ user_task @ active)]
            else [(policy_role env, instructions),
              (user_role, if has_prior then reserve @ user_task @ active else active)])
      in floor @ map as_message (drop (length tail - recent) tail))"

definition fits ::
    "'s policy_env \<Rightarrow> message list \<Rightarrow> pystr \<Rightarrow> nat \<Rightarrow> message list \<Rightarrow> nat \<Rightarrow> int \<Rightarrow> ('s, bool \<times> pystr) eff" where
  "fits env history prompt active_index tail recent limit =
     bindS (render env limit) (\<lambda>instructions. retS
       (int (messages_size (floor_messages env history prompt active_index tail recent instructions)) \<le> budget env,
        instructions))"

text \<open>Give up the oldest pair of the active turn until the rest fits; then the room left is memory's,
  by bisection on the limit memory may use.\<close>

fun shrink ::
    "'s policy_env \<Rightarrow> message list \<Rightarrow> pystr \<Rightarrow> nat \<Rightarrow> message list \<Rightarrow> nat \<Rightarrow> ('s, nat \<times> bool \<times> pystr) eff" where
  "shrink env history prompt active_index tail recent s =
     (case fits env history prompt active_index tail recent 2 s of
        (s', Inl e) \<Rightarrow> (s', Inl e)
      | (s', Inr (ok, instructions)) \<Rightarrow>
          if ok \<or> recent = 0 then (s', Inr (recent, ok, instructions))
          else shrink env history prompt active_index tail (recent - 2) s')"

function bisect ::
    "'s policy_env \<Rightarrow> message list \<Rightarrow> pystr \<Rightarrow> nat \<Rightarrow> message list \<Rightarrow> nat \<Rightarrow> int \<Rightarrow> int \<Rightarrow> pystr option \<Rightarrow>
     ('s, pystr option) eff" where
  "bisect env history prompt active_index tail recent low high best s =
     (if high < low then (s, Inr best)
      else let middle = (low + high) div 2 in
        case fits env history prompt active_index tail recent middle s of
          (s', Inl e) \<Rightarrow> (s', Inl e)
        | (s', Inr (ok, instructions)) \<Rightarrow>
            if ok then bisect env history prompt active_index tail recent (middle + 1) high (Some instructions) s'
            else bisect env history prompt active_index tail recent low (middle - 1) best s')"
  by pat_completeness auto
termination
  by (relation "measure (\<lambda>(env, history, prompt, i, tail, recent, low, high, best, s). nat (high - low + 1))") auto

definition no_room :: "pystr result" where
  "no_room = raise ValueError (''Context budget cannot hold the harness instructions, active prompt, '' @
     ''catalog, loaded skills, and compaction headroom; increase context_chars or use smaller inputs.'')"

definition choose_instruction :: "'s policy_env \<Rightarrow> message list \<Rightarrow> pystr \<Rightarrow> ('s, pystr) eff" where
  "choose_instruction env history prompt =
     (case last_index (\<lambda>m. mkind m = ustr ''prompt'' \<and> mcontent m = prompt) history of
        None \<Rightarrow> liftR (raise RuntimeError ''Active AgentSession prompt is missing.'')
      | Some active_index \<Rightarrow>
        let tail = drop (Suc active_index) history in
        bindS (shrink env history prompt active_index tail (length tail)) (\<lambda>(recent, ok, instructions).
        bindS (memory_limit env) (\<lambda>limit. case limit of
            None \<Rightarrow> if ok then retS instructions else liftR no_room
          | Some v \<Rightarrow> bindS (liftR (integer_field (Some 1) v (ustr ''context_limit''))) (\<lambda>high.
              bindS (bisect env history prompt active_index tail recent 2 high None) (\<lambda>best. case best of
                  Some t \<Rightarrow> retS t | None \<Rightarrow> liftR no_room)))))"

section \<open>Compaction\<close>

definition violation :: exn where
  "violation = Exn RuntimeError (ustr ''AgentSession conversation invariant was violated.'')"

abbreviation violated :: "'a result" where
  "violated \<equiv> Inl violation"

definition full_messages :: "'s policy_env \<Rightarrow> message list \<Rightarrow> pystr \<Rightarrow> messages result" where
  "full_messages env history instructions =
     (if policy_role env = user_role
      then (case map as_message history of
          (r, body) # rest \<Rightarrow> if r = user_role then Inr ((r, instructions @ user_task @ body) # rest) else violated
        | [] \<Rightarrow> violated)
      else Inr ((policy_role env, instructions) # map as_message history))"

fun after_blocks :: "int \<Rightarrow> message list \<Rightarrow> message list list result" where
  "after_blocks n [] = Inr []"
| "after_blocks n [m] = violated"
| "after_blocks n (a # b # ms) =
     (if mkind a \<noteq> ustr ''assistant'' \<or> role a \<noteq> ustr ''assistant'' \<or> mkind b \<noteq> ustr ''host_result'' \<or> role b \<noteq> user_role
         \<or> prompt_id a \<noteq> n \<or> prompt_id b \<noteq> n
      then violated else bindR (after_blocks n ms) (\<lambda>bs. Inr ([a, b] # bs)))"

text \<open>Where the pairs before the active prompt begin; \<open>i\<close> is the index of the first message.\<close>

fun pair_starts :: "nat \<Rightarrow> message list \<Rightarrow> nat list result" where
  "pair_starts i [] = Inr []"
| "pair_starts i (m # ms) =
     (if mkind m = ustr ''prompt''
      then (if role m \<noteq> user_role then violated else pair_starts (Suc i) ms)
      else if mkind m \<noteq> ustr ''assistant'' \<or> role m \<noteq> ustr ''assistant'' then violated
      else case ms of
          [] \<Rightarrow> Inr []
        | r # rest \<Rightarrow>
            if mkind r = ustr ''host_result''
            then (if role r \<noteq> user_role \<or> prompt_id r \<noteq> prompt_id m then violated
              else bindR (pair_starts (i + 2) rest) (\<lambda>is. Inr (i # is)))
            else pair_starts (Suc i) ms)"

record compaction =
  active_message :: message
  before :: "message list"
  blocks :: "message list list"
  starts :: "nat list"

definition make_compaction :: "message list \<Rightarrow> nat \<Rightarrow> compaction result" where
  "make_compaction history i = (let a = history ! i in
     if mkind a \<noteq> ustr ''prompt'' \<or> role a \<noteq> user_role then violated
     else bindR (after_blocks (prompt_id a) (drop (Suc i) history)) (\<lambda>bs.
       bindR (pair_starts 0 (take i history)) (\<lambda>is.
       Inr \<lparr>active_message = a, before = take i history, blocks = bs, starts = is\<rparr>)))"

definition maximum_keep :: "'s policy_env \<Rightarrow> compaction \<Rightarrow> int" where
  "maximum_keep env c = int (length (blocks c)) + min (keep_recent env) (int (length (starts c)))"

record parts =
  old_prior :: "message list"
  raw_prior :: "message list"
  old_active :: "message list"
  raw_active :: "message list"

definition compaction_parts :: "compaction \<Rightarrow> nat \<Rightarrow> parts" where
  "compaction_parts c keep =
     (let keep_active = min keep (length (blocks c)); keep_prior = keep - keep_active;
          prior_start = (if keep_prior \<noteq> 0 then starts c ! (length (starts c) - keep_prior) else length (before c));
          active_split = length (blocks c) - keep_active
      in \<lparr>old_prior = take prior_start (before c), raw_prior = drop prior_start (before c),
          old_active = concat (take active_split (blocks c)), raw_active = concat (drop active_split (blocks c))\<rparr>)"

definition adjacent_users :: "messages \<Rightarrow> bool" where
  "adjacent_users ms = list_ex (\<lambda>(a, b). fst a = user_role \<and> fst b = user_role) (zip ms (tl ms))"

definition candidate_messages ::
    "'s policy_env \<Rightarrow> pystr \<Rightarrow> message \<Rightarrow> pystr option \<Rightarrow> message list \<Rightarrow> pystr option \<Rightarrow> message list \<Rightarrow> messages" where
  "candidate_messages env instructions active prior_digest rprior active_digest ractive =
     (let body = with_digest env (mcontent active) active_digest;
          prior = map as_message rprior; recent = map as_message ractive
      in case prior_digest of
          None \<Rightarrow> anchor_messages env instructions (mcontent active) active_digest @ recent
        | Some d \<Rightarrow>
            if policy_role env = user_role then
              (let anchor = instructions @ prior_history @ d in
               if prior \<noteq> [] then (user_role, anchor) # prior @ (user_role, body) # recent
               else (user_role, anchor @ user_task @ body) # recent)
            else if prior \<noteq> []
              then (policy_role env, instructions) # (user_role, d) # prior @ (user_role, body) # recent
              else (policy_role env, instructions) # (user_role, d @ user_task @ body) # recent)"

definition build_candidate ::
    "'s policy_env \<Rightarrow> pystr \<Rightarrow> message \<Rightarrow> pystr option \<Rightarrow> message list \<Rightarrow> pystr option \<Rightarrow> message list \<Rightarrow>
     messages result" where
  "build_candidate env instructions active prior_digest rprior active_digest ractive =
     (let candidate = candidate_messages env instructions active prior_digest rprior active_digest ractive
      in if (prior_digest = None \<and> rprior \<noteq> []) \<or> adjacent_users candidate then violated else Inr candidate)"

definition minimum_digest :: "'s policy_env \<Rightarrow> message list \<Rightarrow> pystr option result" where
  "minimum_digest env items =
     (if items = [] then Inr None
      else bindR (session_digest env items (int (length (digest_header env (length items))))) (\<lambda>d. Inr (Some d)))"

definition size_of :: "messages \<Rightarrow> int" where
  "size_of ms = int (messages_size ms)"

text \<open>The largest digest that still fits, each time at a smaller budget.\<close>

function enrich_loop ::
    "'s policy_env \<Rightarrow> message list \<Rightarrow> (pystr \<Rightarrow> messages result) \<Rightarrow> pystr \<Rightarrow> int \<Rightarrow> pystr result" where
  "enrich_loop env items candidate minimum limit =
     (if limit < int (length (compaction_prefix (csettings (summaries env)))) then Inr minimum
      else case session_digest env items limit of
          Inl e \<Rightarrow> if caught_by [ValueError] e then Inr minimum else Inl e
        | Inr d \<Rightarrow> (case candidate d of
            Inl e \<Rightarrow> Inl e
          | Inr ms \<Rightarrow> if size_of ms \<le> budget env then Inr d
              else enrich_loop env items candidate minimum
                (min (limit - max 1 (size_of ms - budget env)) (int (length d) - 1))))"
  by pat_completeness auto
termination
  by (relation "measure (\<lambda>(env, items, candidate, minimum, limit). nat (limit + 1))") auto

definition enrich_digest ::
    "'s policy_env \<Rightarrow> message list \<Rightarrow> pystr option \<Rightarrow> (pystr \<Rightarrow> messages result) \<Rightarrow> pystr option result" where
  "enrich_digest env items minimum candidate = (case minimum of
      None \<Rightarrow> Inr None
    | Some m \<Rightarrow> if items = [] then Inr None
        else bindR (enrich_loop env items candidate m (budget env)) (\<lambda>d. Inr (Some d)))"

definition try_keep :: "'s policy_env \<Rightarrow> compaction \<Rightarrow> pystr \<Rightarrow> nat \<Rightarrow> messages option result" where
  "try_keep env c instructions keep =
     (let p = compaction_parts c keep;
          build = (\<lambda>pd ad. build_candidate env instructions (active_message c) pd (raw_prior p) ad (raw_active p))
      in bindR (minimum_digest env (old_prior p)) (\<lambda>pd0.
         bindR (minimum_digest env (old_active p)) (\<lambda>ad0.
         bindR (build pd0 ad0) (\<lambda>least.
         if size_of least > budget env then Inr None
         else bindR (enrich_digest env (old_active p) ad0 (\<lambda>d. build pd0 (Some d))) (\<lambda>ad.
           bindR (enrich_digest env (old_prior p) pd0 (\<lambda>d. build (Some d) ad)) (\<lambda>pd.
           bindR (build pd ad) (\<lambda>ms. Inr (if size_of ms \<le> budget env then Some ms else None))))))))"

fun try_keeps :: "'s policy_env \<Rightarrow> compaction \<Rightarrow> pystr \<Rightarrow> nat list \<Rightarrow> messages result" where
  "try_keeps env c instructions [] = raise ValueError ''Context budget is too small to compact this conversation.''"
| "try_keeps env c instructions (keep # later) =
     bindR (try_keep env c instructions keep) (\<lambda>r. case r of
       Some ms \<Rightarrow> Inr ms | None \<Rightarrow> try_keeps env c instructions later)"

definition compacted_messages :: "'s policy_env \<Rightarrow> message list \<Rightarrow> pystr \<Rightarrow> nat \<Rightarrow> messages result" where
  "compacted_messages env history instructions i =
     bindR (make_compaction history i) (\<lambda>c.
       try_keeps env c instructions (rev [0..<nat (maximum_keep env c + 1)]))"

definition policy_request :: "'s policy_env \<Rightarrow> message list \<Rightarrow> int \<Rightarrow> ('s, messages) eff" where
  "policy_request env history n =
     (case last_index (\<lambda>m. mkind m = ustr ''prompt'' \<and> prompt_id m = n) history of
        None \<Rightarrow> liftR (raise RuntimeError ''Active AgentSession prompt is missing.'')
      | Some i \<Rightarrow>
        bindS (choose_instruction env history (mcontent (history ! i))) (\<lambda>instructions.
        bindS (liftR (full_messages env history instructions)) (\<lambda>full.
        if size_of full \<le> budget env then retS full
        else liftR (compacted_messages env history instructions i))))"

text \<open>The policy as the kernel's context builder.\<close>

definition context_policy :: "'w session policy_env \<Rightarrow> 'w session \<Rightarrow> 'w context_builder" where
  "context_policy env s = \<lparr>select_instruction = choose_instruction env (hist s), build_messages = policy_request env (hist s)\<rparr>"

end
