(* ===== verification/Context_Properties.thy ===== *)
theory Context_Properties
  imports Context_Policy
begin

text \<open>
  What the context policy promises: digests stay within their budget, requests within the
  session's, the active prompt and complete pairs survive compaction, and once instructions have
  been chosen a well-formed conversation can always be compacted.
\<close>

section \<open>Digests\<close>

lemma group_cost_nonneg: "0 \<le> group_cost g"
  by (auto simp: group_cost_def intro!: sum_list_nonneg)

lemma pick_groups_cost:
  "pick_groups limit used gs = (picked, spent) \<Longrightarrow> used \<le> limit \<Longrightarrow>
     spent = used + sum_list (map group_cost picked) \<and> spent \<le> limit"
  by (induction limit used gs arbitrary: picked spent rule: pick_groups.induct)
    (auto simp: add.assoc split: if_splits prod.splits)

lemma group_cost_append [simp]: "group_cost (xs @ ys) = group_cost xs + group_cost ys" "group_cost [] = 0"
    "group_cost (x # xs) = int (length x) + 3 + group_cost xs"
  by (simp_all add: group_cost_def)

lemma group_cost_concat: "group_cost (concat gs) = sum_list (map group_cost gs)"
  by (induction gs) simp_all

lemma group_cost_concat_rev: "group_cost (concat (rev gs)) = sum_list (map group_cost gs)"
  by (induction gs) simp_all

lemma length_bullets: "xs \<noteq> [] \<Longrightarrow> int (length (bullet @ join bullet xs)) = group_cost xs"
proof (induction xs)
  case (Cons x xs)
  then show ?case by (cases xs) (auto simp: bullet_def)
qed simp

lemma digest_bounded:
  assumes "session_digest env ms limit = Inr d"
  shows "int (length d) \<le> limit \<and> (\<exists>t. d = digest_header env (length ms) @ t)"
proof -
  let ?h = "digest_header env (length ms)"
  obtain groups where fit: "int (length ?h) \<le> limit" and groups: "digest_groups (summaries env) ms = Inr groups"
    using assms by (auto simp: session_digest_def Let_def bindR_Inr_iff split: if_splits)
  obtain picked used where picked: "pick_groups limit (int (length ?h)) (rev groups) = (picked, used)" by fastforce
  let ?selected = "concat (rev picked)"
  let ?omitted = "int (sum_list (map length groups)) - int (length ?selected)"
  let ?omission = "str_int ?omitted @ ustr '' older summary lines omitted.''"
  let ?lines = "if ?omitted \<noteq> 0 \<and> used + int (length ?omission) + 3 \<le> limit then ?omission # ?selected else ?selected"
  have used: "used = int (length ?h) + group_cost ?selected" "used \<le> limit"
    using pick_groups_cost [OF picked fit] by (simp_all add: group_cost_concat_rev)
  then have "int (length ?h) + group_cost ?lines \<le> limit"
    by (simp add: add.assoc)
  moreover have d: "d = (if ?lines = [] then ?h else ?h @ bullet @ join bullet ?lines)"
    using assms fit groups picked by (simp add: session_digest_def Let_def)
  ultimately show ?thesis
    using length_bullets [of ?lines] fit by (cases "?lines = []") (simp_all add: d)
qed

lemma digest_groups_raises: "summary_env_ok env \<Longrightarrow> only_raises [] (digest_groups env ms)"
proof (induction env ms rule: digest_groups.induct)
  case (2 env m ms)
  then have "only_raises [] (summary_line env x)" for x
    using summary_total by (simp add: total_iff)
  note raises = only_raises_bindR this
  show ?case
    using 2 by (subst digest_groups.simps) (auto simp del: digest_groups.simps split: list.splits intro!: raises)
qed simp

lemma session_digest_total:
  assumes "summary_env_ok (summaries env)" "int (length (digest_header env (length ms))) \<le> limit"
  shows "\<exists>d. session_digest env ms limit = Inr d"
proof -
  obtain gs where "digest_groups (summaries env) ms = Inr gs"
    using digest_groups_raises [OF assms(1)] by (auto simp: total_iff)
  with assms(2) show ?thesis by (simp add: session_digest_def Let_def split: prod.splits)
qed

lemma minimum_digest_header:
  assumes "summary_env_ok (summaries env)"
  shows "minimum_digest env items = Inr (if items = [] then None else Some (digest_header env (length items)))"
proof -
  let ?h = "digest_header env (length items)"
  obtain d where d: "session_digest env items (int (length ?h)) = Inr d"
    using session_digest_total [OF assms, of items] by auto
  then have "d = ?h" using digest_bounded [OF d] by auto
  with d show ?thesis by (simp add: minimum_digest_def)
qed

section \<open>Sizes\<close>

definition text_cost :: "pystr \<Rightarrow> nat" where
  "text_cost s = sum_list (map (length \<circ> escape_char) s)"

lemma text_cost_append [simp]: "text_cost (s @ t) = text_cost s + text_cost t"
  by (simp add: text_cost_def)

lemma length_json_string: "length (json_string s) = text_cost s + 2"
  by (simp add: json_string_def text_cost_def length_concat)

lemma size_of_eq:
  "size_of ms = 2 + int (sum_list (map (\<lambda>m. 24 + text_cost (fst m) + text_cost (snd m)) ms)) + int (length ms - 1)"
proof -
  have "length \<circ> message_json = (\<lambda>m. 24 + text_cost (fst m) + text_cost (snd m))"
    by (rule ext) (simp add: message_json_def length_json_string)
  then show ?thesis by (simp add: size_of_def messages_size_eq)
qed

definition smaller :: "pystr \<times> pystr \<Rightarrow> pystr \<times> pystr \<Rightarrow> bool" where
  "smaller a b \<longleftrightarrow> fst a = fst b \<and> text_cost (snd a) \<le> text_cost (snd b)"

lemma size_of_mono:
  assumes "list_all2 smaller xs ys"
  shows "size_of xs \<le> size_of ys"
proof -
  have "sum_list (map (\<lambda>m. 24 + text_cost (fst m) + text_cost (snd m)) xs)
      \<le> sum_list (map (\<lambda>m. 24 + text_cost (fst m) + text_cost (snd m)) ys)"
    using assms by (induction rule: list_all2_induct) (auto simp: smaller_def)
  then show ?thesis using list_all2_lengthD [OF assms] by (simp add: size_of_eq)
qed

lemma smaller_refl: "list_all2 smaller xs xs"
  by (rule list_all2_refl) (simp add: smaller_def)

lemma digits_cost: "text_cost (digits n) = length (digits n)"
proof -
  have "length (escape_char c) = 1" if "c \<in> set (digits n)" for c
    using digits_range [OF that] by (auto simp: escape_char_def)
  then have "map (length \<circ> escape_char) (digits n) = map (\<lambda>_. 1) (digits n)" by simp
  then have "text_cost (digits n) = sum_list (map (\<lambda>_. 1) (digits n))" unfolding text_cost_def by (rule arg_cong)
  then show ?thesis by (simp add: sum_list_triv)
qed

lemma header_cost_mono: "m \<le> n \<Longrightarrow> text_cost (digest_header env m) \<le> text_cost (digest_header env n)"
  by (simp add: digest_header_def str_int_def digits_cost digits_length_mono)

section \<open>Conversations\<close>

text \<open>A prompt, then replies and results by turns; a reply or a result belongs to the turn before it.\<close>

definition follows :: "message \<Rightarrow> message \<Rightarrow> bool" where
  "follows a b \<longleftrightarrow> (mkind b = ustr ''assistant'') = (mkind a \<noteq> ustr ''assistant'') \<and>
     (mkind b \<noteq> ustr ''prompt'' \<longrightarrow> prompt_id b = prompt_id a)"

definition conversation_ok :: "message list \<Rightarrow> bool" where
  "conversation_ok ms \<longleftrightarrow> list_all message_ok ms \<and> (ms \<noteq> [] \<longrightarrow> mkind (hd ms) = ustr ''prompt'') \<and>
     successively follows ms"

lemma message_ok_kinds:
  assumes "message_ok m"
  shows "mkind m = ustr ''prompt'' \<or> mkind m = ustr ''assistant'' \<or> mkind m = ustr ''host_result''"
    "role m = (if mkind m = ustr ''assistant'' then ustr ''assistant'' else user_role)"
  using assms by (auto simp: message_ok_def session_message_def split: if_splits)

lemma after_blocks_concat:
  "after_blocks n ms = Inr bs \<Longrightarrow> concat bs = ms \<and> list_all (\<lambda>b. length b = 2) bs"
  by (induction n ms arbitrary: bs rule: after_blocks.induct)
    (auto simp: bindR_Inr_iff split: if_splits)

lemma concat_pairs:
  "list_all (\<lambda>b. length b = 2) bs \<Longrightarrow> concat (take k bs) = take (2 * k) (concat bs) \<and>
     concat (drop k bs) = drop (2 * k) (concat bs) \<and> length (concat bs) = 2 * length bs"
proof (induction bs arbitrary: k)
  case (Cons b bs)
  then show ?case by (cases k) auto
qed simp

lemma after_blocks_total:
  "successively follows (p # ms) \<Longrightarrow> mkind p \<noteq> ustr ''assistant'' \<Longrightarrow> prompt_id p = n \<Longrightarrow>
     list_all (\<lambda>m. message_ok m \<and> mkind m \<noteq> ustr ''prompt'') ms \<Longrightarrow> even (length ms) \<Longrightarrow>
     \<exists>bs. after_blocks n ms = Inr bs"
proof (induction n ms arbitrary: p rule: after_blocks.induct)
  case (3 n a b ms)
  have a: "mkind a = ustr ''assistant''" "prompt_id a = n" "role a = ustr ''assistant''"
    using "3.prems" message_ok_kinds [of a] by (auto simp: follows_def)
  have b: "mkind b = ustr ''host_result''" "prompt_id b = n" "role b = user_role"
    using "3.prems" a message_ok_kinds [of b] by (auto simp: follows_def)
  have "\<exists>bs. after_blocks n ms = Inr bs"
    using "3.prems" a b by (intro "3.IH" [of b]) auto
  with a b show ?case by auto
qed auto

lemma pair_starts_total:
  "successively follows ms \<Longrightarrow> list_all message_ok ms \<Longrightarrow> ms \<noteq> [] \<longrightarrow> mkind (hd ms) \<noteq> ustr ''host_result'' \<Longrightarrow>
     \<exists>is. pair_starts i ms = Inr is"
proof (induction i ms rule: pair_starts.induct)
  case (2 i m ms)
  show ?case
  proof (cases "mkind m = ustr ''prompt''")
    case True
    have "ms \<noteq> [] \<longrightarrow> mkind (hd ms) \<noteq> ustr ''host_result''"
      using "2.prems" True by (cases ms) (auto simp: follows_def)
    with 2 True message_ok_kinds [of m] show ?thesis by (cases ms) auto
  next
    case False
    then have m: "mkind m = ustr ''assistant''" "role m = ustr ''assistant''"
      using "2.prems" message_ok_kinds [of m] by auto
    show ?thesis
    proof (cases ms)
      case Nil
      with m show ?thesis by simp
    next
      case (Cons r rest)
      show ?thesis
      proof (cases "mkind r = ustr ''host_result''")
        case True
        have r: "role r = user_role" "prompt_id r = prompt_id m" "successively follows rest" "list_all message_ok rest"
          using "2.prems" True message_ok_kinds [of r] by (auto simp: Cons follows_def successively_Cons)
        have "rest \<noteq> [] \<longrightarrow> mkind (hd rest) \<noteq> ustr ''host_result''"
          using "2.prems" True by (cases rest) (auto simp: Cons follows_def)
        then obtain js where "pair_starts (i + 2) rest = Inr js"
          using "2.IH" (2) [OF _ _ Cons True] m r by auto
        with m True Cons r show ?thesis by simp
      next
        case False
        then have "\<exists>is. pair_starts (Suc i) ms = Inr is"
          using "2.IH" (3) "2.prems" m by (auto simp: Cons)
        with m False Cons show ?thesis by simp
      qed
    qed
  qed
qed simp

lemma pair_starts_sound:
  "pair_starts i ms = Inr is \<Longrightarrow> k \<in> set is \<Longrightarrow> i \<le> k \<and> k < i + length ms \<and> mkind (ms ! (k - i)) = ustr ''assistant''"
proof (induction i ms arbitrary: "is" rule: pair_starts.induct)
  case (2 i m ms)
  show ?case
  proof (cases "mkind m = ustr ''prompt''")
    case True
    with 2 show ?thesis by (fastforce simp: nth_Cons' split: if_splits)
  next
    case False
    then have m: "mkind m = ustr ''assistant''" using "2.prems"(1) by (auto split: if_splits)
    show ?thesis
    proof (cases ms)
      case Nil
      with 2 False show ?thesis by (auto split: if_splits)
    next
      case (Cons r rest)
      show ?thesis
      proof (cases "mkind r = ustr ''host_result''")
        case True
        then obtain js where js: "pair_starts (i + 2) rest = Inr js" "is = i # js"
          using "2.prems"(1) False Cons by (auto simp: bindR_Inr_iff split: if_splits)
        show ?thesis
        proof (cases "k = i")
          case True
          then show ?thesis using m by simp
        next
          case neq: False
          then have "i + 2 \<le> k \<and> k < i + 2 + length rest \<and> mkind (rest ! (k - (i + 2))) = ustr ''assistant''"
            using "2.IH"(2) [OF False _ Cons True _ js(1)] js "2.prems" True False Cons by (auto split: if_splits)
          then show ?thesis using Cons by (simp add: nth_Cons')
        qed
      next
        case False
        then have js: "pair_starts (Suc i) ms = Inr is"
          using "2.prems"(1) m Cons by (auto split: if_splits)
        have "Suc i \<le> k \<and> k < Suc i + length ms \<and> mkind (ms ! (k - Suc i)) = ustr ''assistant''"
          using "2.IH"(3) [OF _ _ Cons False] js "2.prems" m Cons by (auto split: if_splits)
        then show ?thesis by (simp add: nth_Cons')
      qed
    qed
  qed
qed simp

section \<open>The active turn\<close>

lemma find_append: "List.find f (xs @ ys) = (case List.find f xs of None \<Rightarrow> List.find f ys | Some x \<Rightarrow> Some x)"
  by (induction xs) simp_all

lemma last_index_active:
  assumes "f a" "list_all (\<lambda>m. \<not> f m) tail"
  shows "last_index f (earlier @ a # tail) = Some (length earlier)"
proof -
  let ?h = "earlier @ a # tail"
  have "[0..<length ?h] = [0..<length earlier] @ [length earlier..<length ?h]"
    using upt_add_eq_append [of 0 "length earlier" "Suc (length tail)"] by (simp del: upt_Suc)
  also have "[length earlier..<length ?h] = length earlier # [Suc (length earlier)..<length ?h]"
    by (rule upt_conv_Cons) simp
  finally have split: "rev [0..<length ?h] = rev [Suc (length earlier)..<length ?h] @ length earlier # rev [0..<length earlier]"
    by simp
  have "List.find (\<lambda>i. f (?h ! i)) (rev [Suc (length earlier)..<length ?h]) = None"
  proof -
    have "\<not> f (?h ! i)" if "Suc (length earlier) \<le> i" "i < length ?h" for i
    proof -
      have "?h ! i = tail ! (i - Suc (length earlier))" using that by (simp add: nth_append nth_Cons')
      with that assms(2) show ?thesis by (simp add: list_all_length)
    qed
    then show ?thesis unfolding find_None_iff by (metis atLeastLessThan_iff set_rev set_upt)
  qed
  moreover have "List.find (\<lambda>i. f (?h ! i)) (length earlier # rev [0..<length earlier]) = Some (length earlier)"
    using assms(1) by simp
  ultimately show ?thesis
    by (simp only: last_index_def split find_append) simp
qed

lemma shrink_fits:
  "shrink env h prompt i tail recent s = (s', Inr (r, ok, t)) \<Longrightarrow>
     r \<le> recent \<and> (even recent \<longrightarrow> even r) \<and> (ok \<longrightarrow> size_of (floor_messages env h prompt i tail r t) \<le> budget env)"
proof (induction env h prompt i tail recent s arbitrary: s' r ok t rule: shrink.induct)
  case (1 env h prompt i tail recent s)
  obtain s1 x where f: "fits env h prompt i tail recent 2 s = (s1, x)" by fastforce
  show ?case
  proof (cases x)
    case (Inl e)
    with 1 f show ?thesis by simp
  next
    case (Inr y)
    obtain ok1 t1 where y: "y = (ok1, t1)" by fastforce
    have floor: "ok1 \<longrightarrow> size_of (floor_messages env h prompt i tail recent t1) \<le> budget env"
      using f Inr y by (auto simp: fits_def bindS_def retS_def size_of_def split: prod.splits sum.splits)
    show ?thesis
    proof (cases "ok1 \<or> recent = 0")
      case True
      with "1.prems" f Inr y floor show ?thesis by simp
    next
      case False
      with "1.prems" f Inr y have "shrink env h prompt i tail (recent - 2) s1 = (s', Inr (r, ok, t))" by simp
      with "1.IH" [OF f [symmetric] Inr y [symmetric] False] show ?thesis by auto
    qed
  qed
qed

lemma bisect_fits:
  assumes "\<forall>t. best = Some t \<longrightarrow> size_of (floor_messages env h prompt i tail recent t) \<le> budget env"
  shows "bisect env h prompt i tail recent low high best s = (s', Inr (Some t)) \<Longrightarrow>
     size_of (floor_messages env h prompt i tail recent t) \<le> budget env"
  using assms
proof (induction env h prompt i tail recent low high best s arbitrary: s' t rule: bisect.induct)
  case (1 env h prompt i tail recent low high best s)
  show ?case
  proof (cases "high < low")
    case True
    with "1.prems" show ?thesis by simp
  next
    case False
    let ?m = "(low + high) div 2"
    obtain s1 x where f: "fits env h prompt i tail recent ?m s = (s1, x)" by fastforce
    show ?thesis
    proof (cases x)
      case (Inl e)
      with "1.prems" False f show ?thesis by (simp add: Let_def)
    next
      case (Inr y)
      obtain ok t1 where y: "y = (ok, t1)" by fastforce
      have floor: "ok \<longrightarrow> size_of (floor_messages env h prompt i tail recent t1) \<le> budget env"
        using f Inr y by (auto simp: fits_def bindS_def retS_def size_of_def split: prod.splits sum.splits)
      show ?thesis
      proof (cases ok)
        case True
        with "1.prems"(1) False f Inr y
        have "bisect env h prompt i tail recent (?m + 1) high (Some t1) s1 = (s', Inr (Some t))"
          by (simp add: Let_def)
        with "1.IH"(1) [OF False refl f [symmetric] Inr y [symmetric] True] floor True show ?thesis by blast
      next
        case no: False
        with "1.prems"(1) False f Inr y
        have "bisect env h prompt i tail recent low (?m - 1) best s1 = (s', Inr (Some t))"
          by (simp add: Let_def)
        with "1.IH"(2) [OF False refl f [symmetric] Inr y [symmetric] no] "1.prems"(2) show ?thesis by blast
      qed
    qed
  qed
qed

declare shrink.simps [simp del] bisect.simps [simp del] enrich_loop.simps [simp del]

text \<open>Chosen instructions leave room for a suffix of the active turn, of even length.\<close>

lemma chosen_fits:
  assumes "choose_instruction env (earlier @ a # tail) (mcontent a) s = (s', Inr t)"
    and "mkind a = ustr ''prompt''" "list_all (\<lambda>m. mkind m \<noteq> ustr ''prompt'') tail" "even (length tail)"
  shows "\<exists>r. r \<le> length tail \<and> even r \<and>
    size_of (floor_messages env (earlier @ a # tail) (mcontent a) (length earlier) tail r t) \<le> budget env"
proof -
  let ?h = "earlier @ a # tail"
  have i: "last_index (\<lambda>m. mkind m = ustr ''prompt'' \<and> mcontent m = mcontent a) ?h = Some (length earlier)"
    using assms(2,3) by (intro last_index_active) (auto simp: list_all_iff)
  have tail: "drop (Suc (length earlier)) ?h = tail" by simp
  obtain s1 x where sh: "shrink env ?h (mcontent a) (length earlier) tail (length tail) s = (s1, x)" by fastforce
  with assms(1) obtain r ok t1 where x: "x = Inr (r, ok, t1)"
    by (cases x) (auto simp: choose_instruction_def i bindS_def)
  note fit = shrink_fits [OF sh [unfolded x]]
  obtain s2 m where m: "memory_limit env s1 = (s2, m)" by fastforce
  with assms(1) sh x obtain v where v: "m = Inr v"
    by (cases m) (auto simp: choose_instruction_def i bindS_def)
  show ?thesis
  proof (cases v)
    case None
    then have "ok" "t = t1"
      using assms(1) sh x m v by (auto simp: choose_instruction_def i bindS_def retS_def liftR_def no_room_def split: if_splits)
    with fit assms(4) show ?thesis by blast
  next
    case (Some w)
    then obtain n s3 where n: "integer_field (Some 1) w (ustr ''context_limit'') = Inr n"
      and b: "bisect env ?h (mcontent a) (length earlier) tail r 2 n None s2 = (s3, Inr (Some t))"
      using assms(1) sh x m v
      by (auto simp: choose_instruction_def i bindS_def retS_def liftR_def no_room_def
          split: sum.splits prod.splits option.splits)
    have "size_of (floor_messages env ?h (mcontent a) (length earlier) tail r t) \<le> budget env"
      by (rule bisect_fits [OF _ b]) simp
    with fit assms(4) show ?thesis by blast
  qed
qed

section \<open>Candidates\<close>

definition not_both_users :: "pystr \<times> pystr \<Rightarrow> pystr \<times> pystr \<Rightarrow> bool" where
  "not_both_users a b \<longleftrightarrow> \<not> (fst a = user_role \<and> fst b = user_role)"

lemma adjacent_users_iff: "adjacent_users ms = (\<not> successively not_both_users ms)"
  by (induction not_both_users ms rule: successively.induct)
    (auto simp: adjacent_users_def not_both_users_def)

lemma follows_roles:
  assumes "successively follows ms" "list_all message_ok ms"
  shows "successively not_both_users (map as_message ms)"
  using assms
proof (induction follows ms rule: successively.induct)
  case (3 a b ms)
  then have "follows a b" "successively follows (b # ms)" "message_ok a" "message_ok b" by simp_all
  moreover have "not_both_users (as_message a) (as_message b)"
    using \<open>follows a b\<close> message_ok_kinds(2) [OF \<open>message_ok a\<close>] message_ok_kinds(2) [OF \<open>message_ok b\<close>]
    by (auto simp: not_both_users_def as_message_def follows_def)
  ultimately show ?case using 3 by simp
qed simp_all

text \<open>Raw messages before and after the active prompt that begin with a reply, and end with one before it.\<close>

definition raw_ok :: "message list \<Rightarrow> bool" where
  "raw_ok ms \<longleftrightarrow> successively follows ms \<and> list_all message_ok ms \<and> (ms \<noteq> [] \<longrightarrow> mkind (hd ms) = ustr ''assistant'')"

lemma raw_ok_messages:
  assumes "raw_ok ms"
  shows "successively not_both_users (map as_message ms)" "ms \<noteq> [] \<Longrightarrow> fst (as_message (hd ms)) = ustr ''assistant''"
proof -
  show "successively not_both_users (map as_message ms)" using assms follows_roles by (simp add: raw_ok_def)
  show "fst (as_message (hd ms)) = ustr ''assistant''" if "ms \<noteq> []"
    using that assms message_ok_kinds(2) [of "hd ms"] by (cases ms) (auto simp: raw_ok_def as_message_def)
qed

lemma candidate_alternates:
  assumes "raw_ok rp" "rp \<noteq> [] \<longrightarrow> mkind (last rp) = ustr ''assistant'' \<and> pd \<noteq> None" "raw_ok ra"
  shows "build_candidate env t a pd rp ad ra = Inr (candidate_messages env t a pd rp ad ra)"
proof -
  note prior = raw_ok_messages [OF assms(1)] and recent = raw_ok_messages [OF assms(3)]
  have last: "fst (as_message (last rp)) = ustr ''assistant''" if "rp \<noteq> []"
    using that assms(1,2) message_ok_kinds(2) [of "last rp"] by (auto simp: raw_ok_def as_message_def list_all_iff)
  have join: "not_both_users x (as_message (hd ms))" if "raw_ok ms" "ms \<noteq> []" for x ms
    using raw_ok_messages(2) [OF that] by (simp add: not_both_users_def)
  have "successively not_both_users (candidate_messages env t a pd rp ad ra)"
    using prior recent last join [OF assms(1)] join [OF assms(3)] assms(2)
    by (auto simp: candidate_messages_def anchor_messages_def Let_def successively_Cons successively_append_iff
        hd_map last_map not_both_users_def split: option.splits)
  with assms(2) show ?thesis by (auto simp: build_candidate_def adjacent_users_iff)
qed

lemma enrich_loop_fits:
  assumes "summary_env_ok (summaries env)" "\<And>d. \<exists>ms. candidate d = Inr ms"
  shows "\<exists>d. enrich_loop env items candidate m limit = Inr d \<and>
    (d = m \<or> (\<exists>ms. candidate d = Inr ms \<and> size_of ms \<le> budget env))"
  using assms
proof (induction env items candidate m limit rule: enrich_loop.induct)
  case (1 env items candidate m limit)
  show ?case
  proof (cases "limit < int (length (compaction_prefix (csettings (summaries env))))")
    case True
    then show ?thesis by (simp add: enrich_loop.simps)
  next
    case False
    show ?thesis
    proof (cases "session_digest env items limit")
      case (Inl e)
      then have "caught_by [ValueError] e"
        using session_digest_total [OF "1.prems"(1), of items limit]
        by (auto simp: session_digest_def Let_def raise_def caught_by_def split: if_splits)
      with False Inl show ?thesis by (simp add: enrich_loop.simps [of env items candidate m limit])
    next
      case (Inr d)
      from "1.prems"(2) obtain ms where ms: "candidate d = Inr ms" by blast
      show ?thesis
      proof (cases "size_of ms \<le> budget env")
        case True
        with False Inr ms show ?thesis by (auto simp: enrich_loop.simps [of env items candidate m limit])
      next
        case large: False
        from "1.IH" [OF False Inr ms large "1.prems"] show ?thesis
          using False Inr ms large by (simp add: enrich_loop.simps [of env items candidate m limit])
      qed
    qed
  qed
qed

lemma enrich_fits:
  assumes "summary_env_ok (summaries env)" "\<And>d. \<exists>ms. candidate (Some d) = Inr ms"
    and "candidate m = Inr ms0" "size_of ms0 \<le> budget env" "(m = None) = (items = [])"
  shows "\<exists>d ms. enrich_digest env items m (\<lambda>d. candidate (Some d)) = Inr d \<and> candidate d = Inr ms \<and>
    size_of ms \<le> budget env \<and> (d = None) = (m = None)"
proof (cases m)
  case None
  with assms show ?thesis by (auto simp: enrich_digest_def)
next
  case (Some x)
  obtain d where "enrich_loop env items (\<lambda>d. candidate (Some d)) x (budget env) = Inr d"
      "d = x \<or> (\<exists>ms. candidate (Some d) = Inr ms \<and> size_of ms \<le> budget env)"
    using enrich_loop_fits [OF assms(1), of "\<lambda>d. candidate (Some d)" items x "budget env"] assms(2) by blast
  with Some assms(3,4,5) show ?thesis by (auto simp: enrich_digest_def)
qed

section \<open>Compaction\<close>

definition header_of :: "'s policy_env \<Rightarrow> message list \<Rightarrow> pystr option" where
  "header_of env items = (if items = [] then None else Some (digest_header env (length items)))"

definition parts_ok :: "parts \<Rightarrow> bool" where
  "parts_ok p \<longleftrightarrow> raw_ok (raw_prior p) \<and> raw_ok (raw_active p) \<and>
     (raw_prior p \<noteq> [] \<longrightarrow> mkind (last (raw_prior p)) = ustr ''assistant'' \<and> old_prior p \<noteq> [])"

lemma try_keep_Some:
  assumes "compaction_parts c keep = p"
    and "minimum_digest env (old_prior p) = Inr pd0" "minimum_digest env (old_active p) = Inr ad0"
    and "build_candidate env t (active_message c) pd0 (raw_prior p) ad0 (raw_active p) = Inr least"
    and "size_of least \<le> budget env"
    and "enrich_digest env (old_active p) ad0
      (\<lambda>d. build_candidate env t (active_message c) pd0 (raw_prior p) (Some d) (raw_active p)) = Inr ad"
    and "enrich_digest env (old_prior p) pd0
      (\<lambda>d. build_candidate env t (active_message c) (Some d) (raw_prior p) ad (raw_active p)) = Inr pd"
    and "build_candidate env t (active_message c) pd (raw_prior p) ad (raw_active p) = Inr ms"
    and "size_of ms \<le> budget env"
  shows "try_keep env c t keep = Inr (Some ms)"
  by (simp add: try_keep_def assms not_less)

lemma try_keep_outcome:
  assumes "summary_env_ok (summaries env)" "compaction_parts c keep = p" "parts_ok p"
  shows "\<exists>r. try_keep env c t keep = Inr r \<and>
    (size_of (candidate_messages env t (active_message c) (header_of env (old_prior p)) (raw_prior p)
       (header_of env (old_active p)) (raw_active p)) \<le> budget env \<longrightarrow> r \<noteq> None)"
proof -
  let ?build = "\<lambda>pd ad. build_candidate env t (active_message c) pd (raw_prior p) ad (raw_active p)"
  let ?ms = "\<lambda>pd ad. candidate_messages env t (active_message c) pd (raw_prior p) ad (raw_active p)"
  let ?pd = "header_of env (old_prior p)" and ?ad = "header_of env (old_active p)"
  have digests: "minimum_digest env items = Inr (header_of env items)" for items
    by (simp add: minimum_digest_header [OF assms(1)] header_of_def)
  have build: "?build pd ad = Inr (?ms pd ad)" if "(pd = None) = (old_prior p = [])" for pd ad
    using assms(3) that by (intro candidate_alternates) (auto simp: parts_ok_def)
  have pd: "(?pd = None) = (old_prior p = [])" and ad: "(?ad = None) = (old_active p = [])"
    by (simp_all add: header_of_def)
  show ?thesis
  proof (cases "size_of (?ms ?pd ?ad) \<le> budget env")
    case False
    then show ?thesis
      by (simp add: try_keep_def Let_def assms(2) digests build [OF pd])
  next
    case True
    have "\<exists>ms. ?build ?pd (Some d) = Inr ms" for d
      using build [OF pd] by auto
    from enrich_fits [OF assms(1), of "?build ?pd", OF this build [OF pd] True ad]
    obtain ad1 ms1 where e1: "enrich_digest env (old_active p) ?ad (\<lambda>d. ?build ?pd (Some d)) = Inr ad1"
        "?build ?pd ad1 = Inr ms1" "size_of ms1 \<le> budget env"
      by auto
    obtain pd2 ms2 where e2: "enrich_digest env (old_prior p) ?pd (\<lambda>d. ?build (Some d) ad1) = Inr pd2"
        "?build pd2 ad1 = Inr ms2" "size_of ms2 \<le> budget env"
    proof (cases "old_prior p = []")
      case True
      then have "?pd = None" by (simp add: header_of_def)
      with e1 that show ?thesis by (simp add: enrich_digest_def)
    next
      case False
      then have "\<exists>ms. ?build (Some d) ad1 = Inr ms" for d
        using build [of "Some d" ad1] by auto
      from enrich_fits [OF assms(1), of "\<lambda>pd. ?build pd ad1", OF this e1(2,3) pd] that show ?thesis by auto
    qed
    have "try_keep env c t keep = Inr (Some ms2)"
      by (rule try_keep_Some [OF assms(2) digests digests build [OF pd] True e1(1) e2])
    then show ?thesis by blast
  qed
qed

lemma try_keeps_Some:
  assumes "\<And>k. k \<in> set ks \<Longrightarrow> \<exists>r. try_keep env c t k = Inr r \<and> (good k \<longrightarrow> r \<noteq> None)"
    and "\<exists>k\<in>set ks. good k"
  shows "\<exists>ms. try_keeps env c t ks = Inr ms"
  using assms
proof (induction ks)
  case (Cons k ks)
  from Cons.prems(1) [of k] obtain r where r: "try_keep env c t k = Inr r" "good k \<longrightarrow> r \<noteq> None" by auto
  show ?case
  proof (cases r)
    case None
    with r Cons.prems(2) have "\<exists>k\<in>set ks. good k" by auto
    with Cons.IH Cons.prems(1) r None show ?thesis by auto
  next
    case (Some ms)
    with r show ?thesis by simp
  qed
qed simp

lemma raw_ok_drop:
  assumes "successively follows ms" "list_all message_ok ms" "n < length ms \<Longrightarrow> mkind (ms ! n) = ustr ''assistant''"
  shows "raw_ok (drop n ms)"
proof -
  have "successively follows (take n ms @ drop n ms)" using assms(1) by simp
  then have "successively follows (drop n ms)" by (simp only: successively_append_iff)
  moreover have "list_all message_ok (drop n ms)" using assms(2) by (auto simp: list_all_iff dest: in_set_dropD)
  moreover have "drop n ms \<noteq> [] \<longrightarrow> mkind (hd (drop n ms)) = ustr ''assistant''"
    using assms(3) by (simp add: hd_drop_conv_nth)
  ultimately show ?thesis by (simp add: raw_ok_def)
qed

text \<open>In the active turn replies are at even places.\<close>

lemma reply_places:
  assumes "successively follows (p # ms)" "mkind p \<noteq> ustr ''assistant''"
  shows "i < length (p # ms) \<Longrightarrow> (mkind ((p # ms) ! i) = ustr ''assistant'') = odd i"
proof (induction i)
  case 0
  with assms(2) show ?case by simp
next
  case (Suc i)
  then have "follows ((p # ms) ! i) ((p # ms) ! Suc i)"
    using assms(1) by (simp only: successively_conv_nth)
  with Suc show ?case by (simp add: follows_def)
qed

section \<open>A well-formed conversation can be compacted\<close>

text \<open>The conversation before a request: earlier turns, the active prompt, and complete pairs after it.\<close>

definition awaiting_reply :: "message list \<Rightarrow> message \<Rightarrow> message list \<Rightarrow> bool" where
  "awaiting_reply earlier a tail \<longleftrightarrow> conversation_ok (earlier @ a # tail) \<and> mkind a = ustr ''prompt'' \<and>
     list_all (\<lambda>m. mkind m \<noteq> ustr ''prompt'') tail \<and> even (length tail)"

lemma awaiting_facts:
  assumes "awaiting_reply earlier a tail"
  shows "successively follows (a # tail)" "successively follows earlier" "list_all message_ok (earlier @ a # tail)"
    "earlier \<noteq> [] \<Longrightarrow> mkind (hd earlier) = ustr ''prompt''" "earlier \<noteq> [] \<Longrightarrow> mkind (last earlier) = ustr ''assistant''"
    "mkind a = ustr ''prompt''" "list_all (\<lambda>m. mkind m \<noteq> ustr ''prompt'') tail" "even (length tail)"
  using assms by (auto simp: awaiting_reply_def conversation_ok_def successively_append_iff follows_def)

lemma make_compaction_total:
  assumes "awaiting_reply earlier a tail"
  obtains bs "is" where "make_compaction (earlier @ a # tail) (length earlier) =
      Inr \<lparr>active_message = a, before = earlier, blocks = bs, starts = is\<rparr>"
    "concat bs = tail" "list_all (\<lambda>b. length b = 2) bs" "pair_starts 0 earlier = Inr is"
proof -
  note facts = awaiting_facts [OF assms]
  have "role a = user_role" using facts message_ok_kinds(2) [of a] by simp
  moreover obtain bs where bs: "after_blocks (prompt_id a) tail = Inr bs"
    using after_blocks_total [OF facts(1) _ refl _ facts(8)] facts by (auto simp: list_all_iff)
  moreover obtain "is" where "is": "pair_starts 0 earlier = Inr is"
    using pair_starts_total [OF facts(2), of 0] facts by auto
  ultimately have "make_compaction (earlier @ a # tail) (length earlier) =
      Inr \<lparr>active_message = a, before = earlier, blocks = bs, starts = is\<rparr>"
    using facts(6) by (simp add: make_compaction_def)
  with after_blocks_concat [OF bs] "is" that show ?thesis by blast
qed

lemma parts_ok_compaction:
  assumes "awaiting_reply earlier a tail" "concat bs = tail" "list_all (\<lambda>b. length b = 2) bs"
    and "pair_starts 0 earlier = Inr is" "keep \<le> length bs + length is"
  shows "parts_ok (compaction_parts \<lparr>active_message = a, before = earlier, blocks = bs, starts = is\<rparr> keep)"
proof -
  note facts = awaiting_facts [OF assms(1)]
  let ?p = "compaction_parts \<lparr>active_message = a, before = earlier, blocks = bs, starts = is\<rparr> keep"
  let ?split = "length bs - min keep (length bs)"
  have "raw_active ?p = drop (2 * ?split) tail"
    using concat_pairs [OF assms(3), of ?split] by (simp add: compaction_parts_def Let_def assms(2))
  moreover have "raw_ok (drop (2 * ?split) tail)"
  proof (rule raw_ok_drop)
    show "successively follows tail" using facts(1) by (cases tail) simp_all
    show "list_all message_ok tail" using facts(3) by simp
    show "mkind (tail ! (2 * ?split)) = ustr ''assistant''" if "2 * ?split < length tail"
      using reply_places [OF facts(1), of "Suc (2 * ?split)"] facts(6) that by simp
  qed
  ultimately have active: "raw_ok (raw_active ?p)" by simp
  show ?thesis
  proof (cases "keep \<le> length bs")
    case True
    then have "raw_prior ?p = []" by (simp add: compaction_parts_def Let_def)
    with active show ?thesis by (simp add: parts_ok_def raw_ok_def)
  next
    case False
    let ?k = "is ! (length is - (keep - length bs))"
    have "?k \<in> set is" using False assms(5) by (intro nth_mem) simp
    then have k: "?k < length earlier" "mkind (earlier ! ?k) = ustr ''assistant''"
      using pair_starts_sound [OF assms(4)] by auto
    have "?k \<noteq> 0"
    proof
      assume zero: "?k = 0"
      have "earlier \<noteq> []" using k(1) by auto
      then have "mkind (hd earlier) = ustr ''assistant''" using k(2) by (simp add: zero hd_conv_nth)
      with facts(4) \<open>earlier \<noteq> []\<close> show False by simp
    qed
    have parts: "raw_prior ?p = drop ?k earlier" "old_prior ?p = take ?k earlier"
      using False by (simp_all add: compaction_parts_def Let_def)
    have "raw_ok (drop ?k earlier)"
      using facts(2,3) k by (intro raw_ok_drop) simp_all
    moreover have "mkind (last (drop ?k earlier)) = ustr ''assistant''"
      using k(1) facts(5) by (cases "earlier = []") (simp_all add: last_drop)
    ultimately show ?thesis
      using active k \<open>?k \<noteq> 0\<close> by (auto simp: parts_ok_def parts)
  qed
qed

lemma least_below_floor:
  assumes "concat bs = tail" "list_all (\<lambda>b. length b = 2) bs" "r \<le> length tail" "even r"
    and p_def: "p = compaction_parts \<lparr>active_message = a, before = earlier, blocks = bs, starts = is\<rparr> (r div 2)"
  shows "size_of (candidate_messages env t a (header_of env (old_prior p)) (raw_prior p) (header_of env (old_active p)) (raw_active p))
    \<le> size_of (floor_messages env (earlier @ a # tail) (mcontent a) (length earlier) tail r t)"
proof -
  let ?h = "earlier @ a # tail"
  have len: "length tail = 2 * length bs" using concat_pairs [OF assms(2)] assms(1) by auto
  then have "r div 2 \<le> length bs" "2 * (length bs - r div 2) = length tail - r" using assms(3,4) by auto
  then have p: "raw_prior p = []" "old_prior p = earlier" "old_active p = take (length tail - r) tail"
    "raw_active p = drop (length tail - r) tail"
    using concat_pairs [OF assms(2), of "length bs - r div 2"] assms(1)
    by (simp_all add: p_def compaction_parts_def Let_def)
  have header: "text_cost (digest_header env n) \<le> text_cost (digest_header env (max 1 (length ?h)))" if "n \<le> length ?h" for n
    using that by (intro header_cost_mono) simp
  have "length tail - r \<le> length ?h" by simp
  note header = header [of "length earlier"] header [OF this]
  have "list_all2 smaller
      (candidate_messages env t a (header_of env earlier) [] (header_of env (take (length tail - r) tail)) (drop (length tail - r) tail))
      (floor_messages env ?h (mcontent a) (length earlier) tail r t)"
    using header by (auto intro: add_mono simp: candidate_messages_def floor_messages_def anchor_messages_def header_of_def with_digest_def Let_def
        smaller_def smaller_refl)
  then show ?thesis unfolding p by (rule size_of_mono)
qed

lemma compaction_total:
  assumes "summary_env_ok (summaries env)" "0 \<le> keep_recent env" "awaiting_reply earlier a tail"
    and "r \<le> length tail" "even r"
    and "size_of (floor_messages env (earlier @ a # tail) (mcontent a) (length earlier) tail r t) \<le> budget env"
  shows "\<exists>ms. compacted_messages env (earlier @ a # tail) t (length earlier) = Inr ms"
proof -
  obtain bs "is" where c: "make_compaction (earlier @ a # tail) (length earlier) =
      Inr \<lparr>active_message = a, before = earlier, blocks = bs, starts = is\<rparr>"
    and bs: "concat bs = tail" "list_all (\<lambda>b. length b = 2) bs" and starts: "pair_starts 0 earlier = Inr is"
    by (rule make_compaction_total [OF assms(3)])
  let ?c = "\<lparr>active_message = a, before = earlier, blocks = bs, starts = is\<rparr>"
  let ?ks = "rev [0..<nat (maximum_keep env ?c + 1)]"
  have len: "length tail = 2 * length bs" using concat_pairs [OF bs(2)] bs(1) by auto
  have "\<exists>ms. try_keeps env ?c t ?ks = Inr ms"
  proof (rule try_keeps_Some [where good = "\<lambda>k. k = r div 2"])
    show "\<exists>k\<in>set ?ks. k = r div 2"
      using assms(2,4) len by (simp add: maximum_keep_def)
    fix k assume k: "k \<in> set ?ks"
    then have "k \<le> length bs + length is" by (auto simp: maximum_keep_def)
    then have ok: "parts_ok (compaction_parts ?c k)" by (rule parts_ok_compaction [OF assms(3) bs starts])
    from try_keep_outcome [OF assms(1) refl ok] obtain v where v: "try_keep env ?c t k = Inr v"
      "size_of (candidate_messages env t (active_message ?c) (header_of env (old_prior (compaction_parts ?c k)))
        (raw_prior (compaction_parts ?c k)) (header_of env (old_active (compaction_parts ?c k)))
        (raw_active (compaction_parts ?c k))) \<le> budget env \<longrightarrow> v \<noteq> None" by blast
    have "v \<noteq> None" if "k = r div 2"
      using v(2) least_below_floor [OF bs assms(4,5) refl, of env t a earlier "is"] assms(6) that by simp
    with v(1) show "\<exists>v. try_keep env ?c t k = Inr v \<and> (k = r div 2 \<longrightarrow> v \<noteq> None)" by blast
  qed
  then show ?thesis by (simp add: compacted_messages_def c)
qed

lemma full_messages_total:
  assumes "awaiting_reply earlier a tail"
  shows "\<exists>ms. full_messages env (earlier @ a # tail) t = Inr ms"
proof -
  note facts = awaiting_facts [OF assms]
  have "role (hd (earlier @ a # tail)) = user_role"
    using facts(3,4,6) message_ok_kinds(2) [of "hd (earlier @ a # tail)"] by (cases earlier) auto
  then show ?thesis
    by (cases earlier) (auto simp: full_messages_def as_message_def)
qed

lemma last_index_prompt:
  assumes "awaiting_reply earlier a tail"
  shows "last_index (\<lambda>m. mkind m = ustr ''prompt'' \<and> prompt_id m = prompt_id a) (earlier @ a # tail) = Some (length earlier)"
  using awaiting_facts(6,7) [OF assms] by (intro last_index_active) (auto simp: list_all_iff)

text \<open>What any request keeps of the active turn.\<close>

lemma candidate_keeps:
  "\<exists>front r c. candidate_messages env t a pd rp ad ra = front @ (r, c) # map as_message ra \<and> sublist (mcontent a) c"
proof -
  let ?w = "with_digest env (mcontent a) ad"
  have w: "sublist (mcontent a) ?w" by (cases ad) (simp_all add: with_digest_def)
  then have uw: "sublist (mcontent a) (u @ ?w)" for u
    by (auto simp: sublist_def) (metis append.assoc)
  let ?kept = "\<lambda>ms. \<exists>front r c. ms = front @ (r, c) # map as_message ra \<and> sublist (mcontent a) c"
  have kept: "?kept (front @ (r, u @ ?w) # map as_message ra)" for front r u using uw by blast
  have kept0: "?kept (front @ (r, ?w) # map as_message ra)" for front r using w by blast
  note shapes = kept [of "[]" _ "t @ user_task"] kept0 [of "[(policy_role env, t)]"]
  show ?thesis
  proof (cases pd)
    case None
    with shapes show ?thesis by (simp add: candidate_messages_def anchor_messages_def Let_def)
  next
    case (Some d)
    note shapes = kept [of "[]" _ "t @ prior_history @ d @ user_task"] kept [of "[(policy_role env, t)]" _ "d @ user_task"]
      kept0 [of "(user_role, t @ prior_history @ d) # map as_message rp"]
      kept0 [of "(policy_role env, t) # (user_role, d) # map as_message rp"]
    with Some show ?thesis by (simp add: candidate_messages_def Let_def)
  qed
qed

lemma try_keeps_SomeD:
  "try_keeps env c t ks = Inr ms \<Longrightarrow> \<exists>k\<in>set ks. try_keep env c t k = Inr (Some ms)"
  by (induction ks) (auto simp: bindR_Inr_iff split: option.splits)

lemma try_keep_SomeD:
  assumes "try_keep env c t k = Inr (Some ms)"
  shows "size_of ms \<le> budget env \<and> (\<exists>pd ad. ms = candidate_messages env t (active_message c) pd
    (raw_prior (compaction_parts c k)) ad (raw_active (compaction_parts c k)))"
proof -
  let ?p = "compaction_parts c k"
  let ?build = "\<lambda>pd ad. build_candidate env t (active_message c) pd (raw_prior ?p) ad (raw_active ?p)"
  obtain pd ad ms' where b: "?build pd ad = Inr ms'" and ms: "(if size_of ms' \<le> budget env then Some ms' else None) = Some ms"
  proof -
    obtain pd0 ad0 least where "?build pd0 ad0 = Inr least"
      and rest: "(if size_of least > budget env then Inr None
         else bindR (enrich_digest env (old_active ?p) ad0 (\<lambda>d. ?build pd0 (Some d))) (\<lambda>ad.
           bindR (enrich_digest env (old_prior ?p) pd0 (\<lambda>d. ?build (Some d) ad)) (\<lambda>pd.
           bindR (?build pd ad) (\<lambda>ms. Inr (if size_of ms \<le> budget env then Some ms else None))))) = Inr (Some ms)"
      using assms unfolding try_keep_def Let_def bindR_Inr_iff by blast
    show thesis
    proof (cases "size_of least > budget env")
      case True
      with rest show thesis by simp
    next
      case False
      with rest that show thesis by (simp only: if_False bindR_Inr_iff sum.inject) blast
    qed
  qed
  from b have "ms' = candidate_messages env t (active_message c) pd (raw_prior ?p) ad (raw_active ?p)"
    by (simp add: build_candidate_def Let_def split: if_splits)
  with ms show ?thesis by (auto split: if_splits)
qed

lemma compacted_keeps:
  assumes "awaiting_reply earlier a tail" "compacted_messages env (earlier @ a # tail) t (length earlier) = Inr ms"
  shows "size_of ms \<le> budget env \<and>
    (\<exists>front r c k. ms = front @ (r, c) # map as_message (drop (2 * k) tail) \<and> sublist (mcontent a) c)"
proof -
  obtain bs "is" where c: "make_compaction (earlier @ a # tail) (length earlier) =
      Inr \<lparr>active_message = a, before = earlier, blocks = bs, starts = is\<rparr>"
    and bs: "concat bs = tail" "list_all (\<lambda>b. length b = 2) bs" and starts: "pair_starts 0 earlier = Inr is"
    by (rule make_compaction_total [OF assms(1)])
  let ?c = "\<lparr>active_message = a, before = earlier, blocks = bs, starts = is\<rparr>"
  from assms(2) obtain k where "try_keep env ?c t k = Inr (Some ms)"
    using try_keeps_SomeD [of env ?c t _ ms] by (auto simp: compacted_messages_def c)
  from try_keep_SomeD [OF this] obtain pd ad where ms: "size_of ms \<le> budget env"
    "ms = candidate_messages env t a pd (raw_prior (compaction_parts ?c k)) ad (raw_active (compaction_parts ?c k))" by auto
  moreover have "raw_active (compaction_parts ?c k) = drop (2 * (length bs - min k (length bs))) tail"
    using concat_pairs [OF bs(2)] bs(1) by (simp add: compaction_parts_def Let_def)
  ultimately show ?thesis
    using candidate_keeps [of env t a pd "raw_prior (compaction_parts ?c k)" ad "raw_active (compaction_parts ?c k)"] by metis
qed

lemma full_keeps:
  assumes "full_messages env (earlier @ a # tail) t = Inr ms"
  shows "\<exists>front r c. ms = front @ (r, c) # map as_message tail \<and> sublist (mcontent a) c"
proof (cases "policy_role env = user_role \<and> earlier = []")
  case True
  with assms have "ms = [] @ (role a, t @ user_task @ mcontent a) # map as_message tail"
    by (auto simp: full_messages_def as_message_def split: if_splits)
  moreover have "sublist (mcontent a) (t @ user_task @ mcontent a)" by (auto simp: sublist_def) (metis append.assoc append_Nil2)
  ultimately show ?thesis by blast
next
  case False
  obtain front where "ms = front @ (role a, mcontent a) # map as_message tail"
  proof (cases "policy_role env = user_role")
    case True
    with False obtain e es where e: "earlier = e # es" by (cases earlier) auto
    with assms True have "ms = (role e, t @ user_task @ mcontent e) # map as_message es @ (role a, mcontent a) # map as_message tail"
      by (auto simp: full_messages_def as_message_def split: if_splits)
    then show ?thesis using that [of "(role e, t @ user_task @ mcontent e) # map as_message es"] by simp
  next
    case no: False
    with assms show ?thesis
      using that [of "(policy_role env, t) # map as_message earlier"] by (simp add: full_messages_def as_message_def)
  qed
  then show ?thesis by blast
qed

section \<open>Properties\<close>

text \<open>C18: What the context policy sends is within the session's budget, contains the active prompt, and ends
  with the most recent messages of the turn word for word, a whole number of action-result pairs.\<close>

theorem request_keeps_task:
  assumes "awaiting_reply earlier a tail"
    and "policy_request env (earlier @ a # tail) (prompt_id a) s = (s', Inr ms)"
  shows "size_of ms \<le> budget env \<and>
    (\<exists>front r c k. ms = front @ (r, c) # map as_message (drop (2 * k) tail) \<and> sublist (mcontent a) c)"
proof -
  let ?h = "earlier @ a # tail"
  obtain t full where full: "full_messages env ?h t = Inr full"
    and ms: "(if size_of full \<le> budget env then ms = full else compacted_messages env ?h t (length earlier) = Inr ms)"
    using assms(2) by (auto simp: policy_request_def last_index_prompt [OF assms(1)] bindS_def liftR_def retS_def
        split: prod.splits sum.splits if_splits)
  show ?thesis
  proof (cases "size_of full \<le> budget env")
    case True
    with ms full_keeps [OF full] show ?thesis by (metis drop0 mult_0_right)
  next
    case False
    with ms compacted_keeps [OF assms(1)] show ?thesis by simp
  qed
qed

text \<open>C17: Once instructions have been chosen for a well-formed conversation, building the request never
  fails: either all of it fits, or some compaction of it does.\<close>

theorem compaction_never_fails:
  assumes "summary_env_ok (summaries env)" "0 \<le> keep_recent env" "awaiting_reply earlier a tail"
    and "choose_instruction env (earlier @ a # tail) (mcontent a) s = (s', Inr t)"
  shows "\<exists>ms. policy_request env (earlier @ a # tail) (prompt_id a) s = (s', Inr ms)"
proof -
  let ?h = "earlier @ a # tail"
  obtain full where full: "full_messages env ?h t = Inr full"
    using full_messages_total [OF assms(3)] by blast
  obtain r where "r \<le> length tail" "even r"
    "size_of (floor_messages env ?h (mcontent a) (length earlier) tail r t) \<le> budget env"
    using chosen_fits [OF assms(4)] awaiting_facts(6-8) [OF assms(3)] by blast
  then obtain ms where "compacted_messages env ?h t (length earlier) = Inr ms"
    using compaction_total [OF assms(1,2,3)] by blast
  with assms(4) full show ?thesis
    by (simp add: policy_request_def last_index_prompt [OF assms(3)] bindS_def liftR_def retS_def)
qed

definition demo_summary :: summary_env where
  "demo_summary = \<lparr>csettings = \<lparr>base_protocol = ustr ''p'', clip_chars = 3, compaction_prefix = ustr ''OLD: '',
     compaction_separator = ustr '' | '', summary_limits = map (\<lambda>k. (ustr k, 30)) limit_names\<rparr>,
     reply_prefix = ustr ''HOST_RESULT: '', reply_limit = 1000, loads = (\<lambda>_. raise ValueError ''no JSON''),
     dumps_text = (\<lambda>_. Inr []), repr_of = (\<lambda>_. []), str_of = (\<lambda>_. []), title_of = (\<lambda>s. s)\<rparr>"

definition demo_policy :: "unit policy_env" where
  "demo_policy = \<lparr>summaries = demo_summary, policy_role = ustr ''system'', budget = 310, keep_recent = 1,
     render = (\<lambda>n. retS (ustr ''Be brief.'')), memory_limit = retS None\<rparr>"

definition demo_message :: "string \<Rightarrow> string \<Rightarrow> int \<Rightarrow> message" where
  "demo_message k t n = \<lparr>role = (if k = ''assistant'' then ustr ''assistant'' else user_role), mcontent = ustr t,
     mkind = ustr k, prompt_id = n\<rparr>"

definition demo_earlier :: "message list" where
  "demo_earlier = [demo_message ''prompt'' ''hello'' 1, (demo_message ''assistant'' [] 1)\<lparr>mcontent := replicate 150 97\<rparr>]"

definition demo_tail :: "message list" where
  "demo_tail = [demo_message ''assistant'' ''an action whose text takes room'' 2,
     demo_message ''host_result'' ''a result whose text takes room'' 2]"

definition demo_prompt :: message where
  "demo_prompt = demo_message ''prompt'' ''do the thing'' 2"

lemma demo_policy_ok: "summary_env_ok (summaries demo_policy)" "0 \<le> keep_recent demo_policy"
  "awaiting_reply demo_earlier demo_prompt demo_tail"
proof -
  show "summary_env_ok (summaries demo_policy)"
    by (simp add: summary_env_ok_def demo_policy_def demo_summary_def raise_def limit_names_def)
  show "0 \<le> keep_recent demo_policy" by code_simp
  show "awaiting_reply demo_earlier demo_prompt demo_tail" by code_simp
qed

theorem request_keeps_task_witness:
  "\<exists>ms. policy_request demo_policy (demo_earlier @ demo_prompt # demo_tail) 2 () = ((), Inr ms) \<and> size_of ms \<le> 310 \<and>
     length ms = 4 \<and> (\<exists>r c. (r, c) \<in> set ms \<and> sublist (ustr ''do the thing'') c)"
proof -
  have "case snd (policy_request demo_policy (demo_earlier @ demo_prompt # demo_tail) 2 ()) of
      Inl e \<Rightarrow> False | Inr ms \<Rightarrow> length ms = 4"
    by code_simp
  then obtain ms where ms: "policy_request demo_policy (demo_earlier @ demo_prompt # demo_tail) 2 () = ((), Inr ms)" "length ms = 4"
    by (auto split: sum.splits simp: prod_eq_iff)
  have "prompt_id demo_prompt = 2" "mcontent demo_prompt = ustr ''do the thing''" "budget demo_policy = 310"
    by code_simp+
  with request_keeps_task [OF demo_policy_ok(3), of demo_policy "()" "()" ms] ms show ?thesis by fastforce
qed

theorem compaction_never_fails_witness:
  "\<exists>ms. policy_request demo_policy (demo_earlier @ demo_prompt # demo_tail) 2 () = ((), Inr ms)"
proof -
  have "choose_instruction demo_policy (demo_earlier @ demo_prompt # demo_tail) (mcontent demo_prompt) () = ((), Inr (ustr ''Be brief.''))"
    by code_simp
  then show ?thesis
    using compaction_never_fails [OF demo_policy_ok] by (simp add: demo_prompt_def demo_message_def)
qed

text \<open>A clipped fact is one line of single blanks, at most as long as a configured limit of three or
  more; the summaries of every message of a well-configured host exist.\<close>

theorem summaries_are_bounded_lines:
  assumes "summary_env_ok env" "3 \<le> clip_chars (csettings env)"
  shows "one_line (clip env v) \<and> int (length (clip env v)) \<le> clip_chars (csettings env) \<and>
    (\<exists>line. summary_line env m = Inr line)"
  using clip_text_one_line clip_text_length [OF assms(2)] summary_total [OF assms(1)] by (simp add: clip_def)

theorem summaries_are_bounded_lines_witness:
  "one_line (clip demo_summary (VStr (ustr ''a  b''))) \<and> (\<exists>line. summary_line demo_summary (user_role, ustr ''x'') = Inr line)"
proof -
  have "summary_env_ok demo_summary" using demo_policy_ok(1) by (simp add: demo_policy_def)
  moreover have "3 \<le> clip_chars (csettings demo_summary)" by code_simp
  ultimately show ?thesis using summaries_are_bounded_lines by blast
qed

text \<open>The line of an edit shows the positions of the action as they are, and the action of a reply is
  not validated before it is summarized: text with line breaks passes into the digest.\<close>

lemma edit_summary_is_not_one_line:
  "(case summarize_edit demo_summary [(ustr ''path'', VStr []), (ustr ''start'', VStr (10 # ustr ''- Host result: ok=True'')),
     (ustr ''end'', VInt 0), (ustr ''content'', VStr []), (ustr ''expected_sha256'', VStr [])] of
     Inl e \<Rightarrow> False | Inr line \<Rightarrow> \<not> one_line line)"
  by (simp add: summarize_edit_def quoted_item_def shown_item_def shown_text_def content_bytes_def content_text_def
      encoded_length_def item_def one_line_def ustr_def utf8_encodable_def is_space_def py_spaces_def)

end
