(* ===== verification/Memory_Store.thy ===== *)
theory Memory_Store
  imports Context_Summary Machines "HOL-Library.Sublist"
begin

text \<open>
  \<open>plugins/memory/store.py\<close>, \<open>registration.py\<close> and \<open>configuration.py\<close>: numbered notes kept in one JSON
  file that is replaced as a whole. A file is its size in bytes and what decoding it yields; what
  the store writes is written out (\<open>document_text\<close>), with the tree it decodes to. \<open>mfaults\<close> lists what
  the system calls of the coming loads and saves do: nothing, or the exception one of them raises.
  Up to the rename a failing save leaves the file as it was and removes its temporary file.
\<close>

section \<open>Settings and entries\<close>

record memory_settings =
  memory_enabled :: bool
  memory_path :: "pystr option"
  memory_filename :: pystr
  max_file_bytes :: int
  max_items :: int
  max_memory_chars :: int
  max_context_chars :: int
  max_id :: int

definition memory_fields :: "pystr list" where
  "memory_fields = map ustr [''enabled'', ''path'', ''filename'', ''max_memory_file_bytes'', ''max_memory_items'',
     ''max_memory_chars'', ''max_memory_context_chars'', ''max_memory_id'']"

definition parse_memory_settings :: "(pystr list \<Rightarrow> pystr list \<Rightarrow> pystr) \<Rightarrow> pyval \<Rightarrow> memory_settings result" where
  "parse_memory_settings shown v =
     bindR (settings_fields shown memory_fields [] v (ustr ''Memory settings'')) (\<lambda>fs.
     bindR (integer_field (Some 1) (get fs ''max_memory_id'') (ustr ''memory.max_memory_id'')) (\<lambda>limit.
     bindR (boolean_field (get fs ''enabled'') (ustr ''chat.memory.enabled'')) (\<lambda>on.
     bindR (text_field True False (get fs ''path'') (ustr ''chat.memory.path'')) (\<lambda>path.
     bindR (required_text (get fs ''filename'') (ustr ''chat.memory.filename'')) (\<lambda>file.
     bindR (integer_field (Some 1) (get fs ''max_memory_file_bytes'') (ustr ''memory.max_memory_file_bytes'')) (\<lambda>bytes.
     bindR (integer_field (Some 1) (get fs ''max_memory_items'') (ustr ''memory.max_memory_items'')) (\<lambda>count.
     bindR (integer_field (Some 1) (get fs ''max_memory_chars'') (ustr ''memory.max_memory_chars'')) (\<lambda>chars.
     bindR (integer_field (Some 1) (get fs ''max_memory_context_chars'') (ustr ''memory.max_memory_context_chars'')) (\<lambda>context.
     Inr \<lparr>memory_enabled = on, memory_path = path, memory_filename = file, max_file_bytes = bytes, max_items = count,
       max_memory_chars = chars, max_context_chars = context, max_id = limit\<rparr>)))))))))"

record memory_entry =
  entry_id :: int
  entry_text :: pystr

record memory_env =
  mem :: memory_settings
  path_text :: pystr

datatype memory_file = No_File | Not_Regular | File nat "rawjson result"

record memory_state =
  stored :: "memory_entry list"
  next_memory :: int
  disk :: memory_file
  mfaults :: "exn option list"

section \<open>Identifiers and content\<close>

text \<open>The regular expression \<open>[1-9][0-9]{0,k}\<close>, with \<open>k\<close> one less than the digits of the largest identifier.\<close>

definition memory_id_text :: "memory_env \<Rightarrow> pystr \<Rightarrow> bool" where
  "memory_id_text env s \<longleftrightarrow> s \<noteq> [] \<and> 49 \<le> hd s \<and> hd s \<le> 57 \<and> list_all (\<lambda>c. 48 \<le> c \<and> c \<le> 57) (tl s) \<and>
     length s \<le> length (str_int (max_id (mem env)))"

definition int_of_text :: "pystr \<Rightarrow> int" where
  "int_of_text s = (case py_int s of Some n \<Rightarrow> n | None \<Rightarrow> 0)"

definition parse_memory_id :: "memory_env \<Rightarrow> pyval \<Rightarrow> int result" where
  "parse_memory_id env v =
     (let check = (\<lambda>n. if 1 \<le> n \<and> n \<le> max_id (mem env) then Inr n
            else raise ValueError ''Memory id is outside the supported range.'');
          failure = raise ValueError ''Memory id must be a positive ASCII decimal integer.''
      in case v of VInt n \<Rightarrow> check n
         | VStr s \<Rightarrow> if memory_id_text env s then check (int_of_text s) else failure
         | _ \<Rightarrow> failure)"

definition parse_memory_cursor :: "memory_env \<Rightarrow> pyval \<Rightarrow> int result" where
  "parse_memory_cursor env v = (case v of
      VNone \<Rightarrow> Inr 0
    | VStr s \<Rightarrow>
        if \<not> memory_id_text env s then raise ValueError ''Memory cursor must be passed back unchanged.''
        else let n = int_of_text s in
          if max_id (mem env) < n then raise ValueError ''Memory cursor is outside the supported range.'' else Inr n
    | _ \<Rightarrow> raise ValueError ''Memory cursor must be a string returned by the host.'')"

definition valid_memory_text :: "pystr \<Rightarrow> bool" where
  "valid_memory_text s \<longleftrightarrow> utf8_encodable s \<and>
     list_all (\<lambda>c. c \<in> set [9, 10, 13] \<or> \<not> (c < 32 \<or> (127 \<le> c \<and> c \<le> 159))) s"

definition valid_content :: "memory_env \<Rightarrow> pystr \<Rightarrow> bool" where
  "valid_content env s \<longleftrightarrow> \<not> blank s \<and> int (length s) \<le> max_memory_chars (mem env) \<and> valid_memory_text s"

definition memory_object :: "pyval \<Rightarrow> string \<Rightarrow> fields result" where
  "memory_object v what = rescue [ConfigurationError]
     (\<lambda>_. raise ValueError (what @ '' has an invalid structure.'')) (object_field v (ustr what))"

definition memory_content :: "pyval \<Rightarrow> pystr result" where
  "memory_content v = (case v of VStr s \<Rightarrow> Inr s | _ \<Rightarrow> raise ValueError ''Memory content must be a string.'')"

definition read_entry :: "memory_env \<Rightarrow> pyval \<Rightarrow> memory_entry result" where
  "read_entry env v =
     bindR (memory_object v ''Memory entry'') (\<lambda>fs.
     if set (keys fs) \<noteq> {ustr ''id'', ustr ''content''} then raise ValueError ''Memory entry has an invalid structure.''
     else case (get fs ''id'', get fs ''content'') of
        (VInt i, VStr t) \<Rightarrow> if 1 \<le> i \<and> i < max_id (mem env) \<and> valid_content env t
          then Inr \<lparr>entry_id = i, entry_text = t\<rparr> else raise ValueError ''Memory entry has an invalid ID or content.''
      | _ \<Rightarrow> raise ValueError ''Memory entry has an invalid ID or content.'')"

section \<open>Reading and writing the file\<close>

text \<open>\<open>v == 1\<close>: a boolean and a float can equal the integer.\<close>

definition equals_one :: "pyval \<Rightarrow> bool" where
  "equals_one v = (case v of VInt i \<Rightarrow> i = 1 | VBool b \<Rightarrow> b | VFloat f \<Rightarrow> f = Fin 1 | _ \<Rightarrow> False)"

fun unique_entries :: "memory_env \<Rightarrow> int set \<Rightarrow> pyval list \<Rightarrow> memory_entry list result" where
  "unique_entries env ids [] = Inr []"
| "unique_entries env ids (v # vs) = bindR (read_entry env v) (\<lambda>e.
     if entry_id e \<in> ids then raise ValueError ''Memory entry has an invalid ID or content.''
     else bindR (unique_entries env (insert (entry_id e) ids) vs) (\<lambda>es. Inr (e # es)))"

definition validated :: "memory_env \<Rightarrow> pyval \<Rightarrow> (memory_entry list \<times> int) result" where
  "validated env v =
     bindR (memory_object v ''Memory file'') (\<lambda>fs.
     if \<not> equals_one (get fs ''version'') then raise ValueError ''Memory file has an unsupported or missing version.''
     else if set (keys fs) \<noteq> {ustr ''version'', ustr ''next_id'', ustr ''memories''}
       then raise ValueError ''Memory file has an invalid structure.''
     else case (get fs ''next_id'', get fs ''memories'') of
        (VInt n, VList vs) \<Rightarrow>
          if \<not> (1 \<le> n \<and> n \<le> max_id (mem env)) then raise ValueError ''Memory file has invalid IDs or entries.''
          else if int (length vs) > max_items (mem env)
            then raise_text ValueError (ustr ''Memory file exceeds '' @ str_int (max_items (mem env)) @ ustr '' entries.'')
          else bindR (unique_entries env {} vs) (\<lambda>es.
            if es \<noteq> [] \<and> n \<le> Max (set (map entry_id es))
            then raise ValueError ''Memory next_id must be greater than existing IDs.''
            else Inr (sort_key entry_id es, n))
      | _ \<Rightarrow> raise ValueError ''Memory file has invalid IDs or entries.'')"

definition take_fault :: "memory_state \<Rightarrow> memory_state \<times> exn option" where
  "take_fault s = (case mfaults s of [] \<Rightarrow> (s, None) | f # fs \<Rightarrow> (s\<lparr>mfaults := fs\<rparr>, f))"

definition load_memory :: "memory_env \<Rightarrow> (memory_state, unit) eff" where
  "load_memory env s = (case disk s of
      No_File \<Rightarrow> (s\<lparr>stored := [], next_memory := 1\<rparr>, Inr ())
    | Not_Regular \<Rightarrow> (s, raise_text ValueError (ustr ''Memory path is not a regular file: '' @ path_text env))
    | File bytes tree \<Rightarrow> (case take_fault s of
        (s1, Some e) \<Rightarrow> (s1, Inl e)
      | (s1, None) \<Rightarrow>
          if int bytes > max_file_bytes (mem env)
          then (s1, raise_text ValueError (ustr ''Memory file exceeds '' @ str_int (max_file_bytes (mem env)) @ ustr '' bytes.''))
          else (case rescue [ValueError]
              (\<lambda>_. raise_text ValueError (ustr ''Memory file is not valid UTF-8 JSON: '' @ path_text env))
              (bindR tree json_object) of
            Inl e \<Rightarrow> (s1, Inl e)
          | Inr v \<Rightarrow> (case validated env v of
              Inl e \<Rightarrow> (s1, Inl e)
            | Inr (es, n) \<Rightarrow> (s1\<lparr>stored := es, next_memory := n\<rparr>, Inr ())))))"

text \<open>The keys are written sorted.\<close>

definition entry_tree :: "memory_entry \<Rightarrow> rawjson" where
  "entry_tree e = RObj [(ustr ''content'', RStr (entry_text e)), (ustr ''id'', RInt (entry_id e))]"

definition document_tree :: "memory_entry list \<Rightarrow> int \<Rightarrow> rawjson" where
  "document_tree es n = RObj [(ustr ''memories'', RArr (map entry_tree es)), (ustr ''next_id'', RInt n), (ustr ''version'', RInt 1)]"

definition entry_lines :: "memory_entry \<Rightarrow> pystr" where
  "entry_lines e = ustr ''    {'' @ 10 # ustr ''      \"content\": '' @ json_string (entry_text e) @ ustr '','' @
     10 # ustr ''      \"id\": '' @ str_int (entry_id e) @ 10 # ustr ''    }''"

definition document_text :: "memory_entry list \<Rightarrow> int \<Rightarrow> pystr" where
  "document_text es n = ustr ''{'' @ 10 # ustr ''  \"memories\": '' @
     (if es = [] then ustr ''[]'' else ustr ''['' @ 10 # join [44, 10] (map entry_lines es) @ 10 # ustr ''  ]'') @
     ustr '','' @ 10 # ustr ''  \"next_id\": '' @ str_int n @ ustr '','' @ 10 # ustr ''  \"version\": 1'' @
     10 # ustr ''}'' @ [10]"

definition save_memory :: "memory_env \<Rightarrow> memory_entry list \<Rightarrow> int \<Rightarrow> (memory_state, unit) eff" where
  "save_memory env es n s = (case encoded_length (document_text es n) of
      Inl e \<Rightarrow> (s, Inl e)
    | Inr bytes \<Rightarrow>
        if int bytes > max_file_bytes (mem env)
        then (s, raise_text ValueError (ustr ''Memory file would exceed '' @ str_int (max_file_bytes (mem env)) @ ustr '' bytes.''))
        else (case take_fault s of
            (s1, Some e) \<Rightarrow> (s1, Inl e)
          | (s1, None) \<Rightarrow> (s1\<lparr>disk := File bytes (Inr (document_tree es n))\<rparr>, Inr ())))"

definition open_memory :: "memory_env \<Rightarrow> memory_file \<Rightarrow> exn option list \<Rightarrow> memory_state \<times> unit result" where
  "open_memory env f faults = load_memory env \<lparr>stored = [], next_memory = 1, disk = f, mfaults = faults\<rparr>"

section \<open>Operations\<close>

record memory_page =
  page_entries :: "memory_entry list"
  next_cursor :: "pystr option"
  page_total :: nat

definition page :: "memory_env \<Rightarrow> pyval \<Rightarrow> memory_state \<Rightarrow> memory_page result" where
  "page env cursor s =
     bindR (parse_memory_cursor env cursor) (\<lambda>c.
       let remaining = filter (\<lambda>e. c < entry_id e) (stored s); selected = take 1 remaining
       in Inr \<lparr>page_entries = selected,
         next_cursor = (if length remaining > length selected then Some (str_int (entry_id (last selected))) else None),
         page_total = length (stored s)\<rparr>)"

definition add_memory :: "memory_env \<Rightarrow> pyval \<Rightarrow> (memory_state, memory_entry) eff" where
  "add_memory env v s =
     (case memory_content v of
        Inl e \<Rightarrow> (s, Inl e)
      | Inr raw \<Rightarrow>
        let t = strip raw; limit = max_items (mem env) in
        if t = [] \<or> int (length t) > max_memory_chars (mem env)
          then (s, raise_text ValueError (ustr ''Memory content must contain 1-'' @ str_int (max_memory_chars (mem env)) @ ustr '' characters.''))
        else if \<not> valid_memory_text t
          then (s, raise ValueError (''Memory content must be valid Unicode text without control '' @ ''characters other than tab or newlines.''))
        else if limit \<le> int (length (stored s))
          then (s, raise_text ValueError (ustr ''Memory is full ('' @ str_int limit @ ustr '' entries); forget one first.''))
        else if max_id (mem env) \<le> next_memory s then (s, raise ValueError ''Memory ID space is exhausted.'')
        else let e = \<lparr>entry_id = next_memory s, entry_text = t\<rparr>; es = stored s @ [e] in
          bindS (save_memory env es (next_memory s + 1)) (\<lambda>_.
          bindS (modS (\<lambda>s. s\<lparr>stored := es, next_memory := next_memory s + 1\<rparr>)) (\<lambda>_. retS e)) s)"

definition remove_memory :: "memory_env \<Rightarrow> pyval \<Rightarrow> (memory_state, bool) eff" where
  "remove_memory env v s =
     (case parse_memory_id env v of
        Inl e \<Rightarrow> (s, Inl e)
      | Inr i \<Rightarrow> let es = filter (\<lambda>e. entry_id e \<noteq> i) (stored s) in
          if length es = length (stored s) then (s, Inr False)
          else bindS (save_memory env es (next_memory s)) (\<lambda>_.
            bindS (modS (\<lambda>s. s\<lparr>stored := es\<rparr>)) (\<lambda>_. retS True)) s)"

definition entry_json :: "memory_entry \<Rightarrow> pystr" where
  "entry_json e = ustr ''{\"id\":'' @ str_int (entry_id e) @ ustr '',\"content\":'' @ json_string (entry_text e) @ ustr ''}''"

definition entries_json :: "memory_entry list \<Rightarrow> pystr" where
  "entries_json es = ustr ''['' @ join (ustr '','') (map entry_json es) @ ustr '']''"

text \<open>The newest entries that fit, from the last one back.\<close>

fun select_entries :: "int \<Rightarrow> memory_entry list \<Rightarrow> memory_entry list \<Rightarrow> memory_entry list" where
  "select_entries limit selected [] = selected"
| "select_entries limit selected (e # es) =
     (if int (length (entries_json (e # selected))) \<le> limit then select_entries limit (e # selected) es
      else select_entries limit selected es)"

definition memory_context :: "memory_state \<Rightarrow> int \<Rightarrow> pystr" where
  "memory_context s limit = (if limit < 2 then ustr ''[]''
     else entries_json (select_entries limit [] (rev (stored s))))"

section \<open>The plugin's tools\<close>

definition memory_schemas :: schemas where
  "memory_schemas = [(ustr ''memories'', ([], [ustr ''cursor''])), (ustr ''remember'', ([ustr ''content''], [])),
     (ustr ''forget'', ([ustr ''id''], []))]"

definition validate_memory_action ::
    "(pystr \<Rightarrow> pystr list \<Rightarrow> pystr list \<Rightarrow> pystr) \<Rightarrow> memory_env \<Rightarrow> fields \<Rightarrow> unit result" where
  "validate_memory_action shown env a =
     bindR (validate_fields shown a memory_schemas []) (\<lambda>name.
     bindR (if name = ustr ''memories'' \<and> has_key a (ustr ''cursor'')
       then bindR (parse_memory_cursor env (get a ''cursor'')) (\<lambda>_. Inr ()) else Inr ()) (\<lambda>_.
     if name = ustr ''forget'' then bindR (bindR (item a ''id'') (parse_memory_id env)) (\<lambda>_. Inr ()) else Inr ()))"

definition entry_fields :: "memory_entry \<Rightarrow> pyval" where
  "entry_fields e = dict_of [(ustr ''id'', VInt (entry_id e)), (ustr ''content'', VStr (entry_text e))]"

definition execute_memory ::
    "(pystr \<Rightarrow> pystr list \<Rightarrow> pystr list \<Rightarrow> pystr) \<Rightarrow> memory_env \<Rightarrow> fields \<Rightarrow> (memory_state, fields) eff" where
  "execute_memory shown env a =
     bindS (liftR (validate_memory_action shown env a)) (\<lambda>_.
     bindS (liftR (item a ''action'')) (\<lambda>name.
     if name = VStr (ustr ''memories'')
     then bindS (liftR (text_field True False (get a ''cursor'') (ustr ''memory cursor''))) (\<lambda>c.
       bindS (\<lambda>s. (s, page env (case c of None \<Rightarrow> VNone | Some t \<Rightarrow> VStr t) s)) (\<lambda>p.
       retS [(ustr ''ok'', VBool True), (ustr ''memories'', VList (map entry_fields (page_entries p))),
         (ustr ''next_cursor'', case next_cursor p of None \<Rightarrow> VNone | Some t \<Rightarrow> VStr t),
         (ustr ''total'', VInt (int (page_total p)))]))
     else if name = VStr (ustr ''remember'')
     then bindS (liftR (bindR (item a ''content'') (\<lambda>v. required_text v (ustr ''memory content'')))) (\<lambda>t.
       bindS (add_memory env (VStr t)) (\<lambda>e. retS [(ustr ''ok'', VBool True), (ustr ''id'', VInt (entry_id e))]))
     else bindS (liftR (bindR (item a ''id'') (\<lambda>v. required_text v (ustr ''memory id'')))) (\<lambda>t.
       bindS (remove_memory env (VStr t)) (\<lambda>removed.
       retS ([(ustr ''ok'', VBool removed), (ustr ''id'', VStr t)] @
         (if removed then [] else [(ustr ''error'', VStr (ustr ''Memory id was not found.''))]))))))"

text \<open>A store that is not configured offers no notes and refuses the tools.\<close>

definition memory_tool ::
    "(pystr \<Rightarrow> pystr list \<Rightarrow> pystr list \<Rightarrow> pystr) \<Rightarrow> memory_env \<Rightarrow> bool \<Rightarrow> fields \<Rightarrow> (memory_state, fields) eff" where
  "memory_tool shown env on a = (if on then execute_memory shown env a
     else liftR (raise ValueError ''Persistent memory is disabled.''))"

definition memory_instruction :: "bool \<Rightarrow> memory_state \<Rightarrow> int \<Rightarrow> pystr" where
  "memory_instruction on s limit = 10 # ustr ''Persistent memories: '' @ (if on then memory_context s limit else ustr ''[]'')"

section \<open>Identifiers in text\<close>

lemma digits_head: "0 < n \<Longrightarrow> 49 \<le> hd (digits n) \<and> hd (digits n) \<le> 57"
proof (induction n rule: digits.induct)
  case (1 n)
  then show ?case
    by (cases "n < 10") (auto simp: digits.simps [of n])
qed

lemma id_in_text:
  assumes "1 \<le> i" "i \<le> max_id (mem env)"
  shows "memory_id_text env (str_int i)"
proof -
  have "length (digits (nat i)) \<le> length (digits (nat (max_id (mem env))))"
    using assms by (intro digits_length_mono) simp
  moreover have "list_all (\<lambda>c. 48 \<le> c \<and> c \<le> 57) (tl (digits (nat i)))"
    using digits_range by (auto simp: list_all_iff dest: list.set_sel(2) [rotated])
  ultimately show ?thesis
    using assms digits_head [of "nat i"] by (simp add: memory_id_text_def str_int_def)
qed

lemma int_of_text_id [simp]: "int_of_text (str_int i) = i"
  by (simp add: int_of_text_def)

lemma cursor_of_id: "1 \<le> i \<Longrightarrow> i \<le> max_id (mem env) \<Longrightarrow> parse_memory_cursor env (VStr (str_int i)) = Inr i"
  by (simp add: parse_memory_cursor_def id_in_text)

section \<open>Well-formed notes\<close>

definition note_ok :: "memory_env \<Rightarrow> int \<Rightarrow> memory_entry \<Rightarrow> bool" where
  "note_ok env n e \<longleftrightarrow> 1 \<le> entry_id e \<and> entry_id e < n \<and> valid_content env (entry_text e)"

definition entries_ok :: "memory_env \<Rightarrow> memory_entry list \<Rightarrow> int \<Rightarrow> bool" where
  "entries_ok env es n \<longleftrightarrow> 1 \<le> n \<and> n \<le> max_id (mem env) \<and> int (length es) \<le> max_items (mem env) \<and>
     sorted_wrt (<) (map entry_id es) \<and> list_all (note_ok env n) es"

definition memory_ok :: "memory_env \<Rightarrow> memory_state \<Rightarrow> bool" where
  "memory_ok env s \<longleftrightarrow> entries_ok env (stored s) (next_memory s) \<and>
     open_memory env (disk s) [] = (s\<lparr>mfaults := []\<rparr>, Inr ())"

lemma memory_object_Inr_iff: "memory_object v what = Inr fs \<longleftrightarrow> object_field v (ustr what) = Inr fs"
  by (auto simp: memory_object_def object_field_def rescue_def raise_def raise_text_def
      split: pyval.splits option.splits sum.splits)

lemma read_entry_Inr: "read_entry env v = Inr e \<Longrightarrow> note_ok env (max_id (mem env)) e"
  by (auto simp: read_entry_def bindR_Inr_iff note_ok_def split: pyval.splits if_splits)

lemma unique_entries_Inr:
  "unique_entries env ids vs = Inr es \<Longrightarrow> length es = length vs \<and> distinct (map entry_id es) \<and>
     set (map entry_id es) \<inter> ids = {} \<and> list_all (note_ok env (max_id (mem env))) es"
  by (induction env ids vs arbitrary: es rule: unique_entries.induct)
     (fastforce simp: bindR_Inr_iff dest: read_entry_Inr split: if_splits)+

lemma sorted_distinct_ids:
  "distinct (map entry_id es) \<Longrightarrow> sorted_wrt (<) (map entry_id (sort_key entry_id es))"
  by (simp add: strict_sorted_iff distinct_map)

lemma validated_ok:
  assumes "validated env v = Inr (es, n)"
  shows "entries_ok env es n"
proof -
  obtain vs us where us: "unique_entries env {} vs = Inr us" "int (length vs) \<le> max_items (mem env)"
      "1 \<le> n" "n \<le> max_id (mem env)" "us \<noteq> [] \<longrightarrow> \<not> n \<le> Max (entry_id ` set us)" "es = sort_key entry_id us"
    using assms by (fastforce simp: validated_def bindR_Inr_iff split: pyval.splits if_splits)
  have "entry_id e < n" if "e \<in> set us" for e
  proof -
    have "entry_id e \<le> Max (entry_id ` set us)" using that by simp
    moreover have "us \<noteq> []" using that by auto
    ultimately show ?thesis using us(5) by simp
  qed
  then show ?thesis
    using us unique_entries_Inr [OF us(1)] sorted_distinct_ids [of us]
    by (auto simp: entries_ok_def note_ok_def list_all_iff)
qed

lemma take_fault_cases:
  obtains fs where "take_fault s = (s\<lparr>mfaults := fs\<rparr>, None)" | fs e where "take_fault s = (s\<lparr>mfaults := fs\<rparr>, Some e)"
proof (cases "mfaults s")
  case Nil
  then show ?thesis by (intro that(1) [of "[]"]) (simp add: take_fault_def)
next
  case (Cons f fs)
  then show ?thesis by (cases f) (auto simp: take_fault_def intro: that)
qed

lemma load_memory_cases:
  "load_memory env s = (s', r) \<Longrightarrow> s' = s\<lparr>stored := stored s', next_memory := next_memory s', mfaults := mfaults s'\<rparr> \<and>
     (case r of Inl e \<Rightarrow> stored s' = stored s \<and> next_memory s' = next_memory s
      | Inr _ \<Rightarrow> open_memory env (disk s) [] = (s'\<lparr>mfaults := []\<rparr>, Inr ()))"
  by (cases s) (auto simp: load_memory_def open_memory_def take_fault_def raise_text_def
      split: memory_file.splits prod.splits option.splits list.splits sum.splits if_splits)

lemma load_memory_entries:
  assumes "load_memory env s = (s', Inr u)" "1 \<le> max_id (mem env)" "0 \<le> max_items (mem env)"
  shows "entries_ok env (stored s') (next_memory s')"
  using assms validated_ok
  by (fastforce simp: load_memory_def entries_ok_def raise_text_def
      split: memory_file.splits prod.splits option.splits list.splits sum.splits if_splits)

lemma load_memory_ok:
  assumes "load_memory env s = (s', Inr u)" "1 \<le> max_id (mem env)" "0 \<le> max_items (mem env)"
  shows "memory_ok env s'"
proof -
  have "disk s' = disk s" using load_memory_cases [OF assms(1)] by (cases s') auto
  then show ?thesis
    using load_memory_cases [OF assms(1)] load_memory_entries [OF assms] by (simp add: memory_ok_def)
qed

section \<open>What is saved is read back\<close>

definition saved_fields :: "memory_entry \<Rightarrow> fields" where
  "saved_fields e = [(ustr ''content'', VStr (entry_text e)), (ustr ''id'', VInt (entry_id e))]"

lemma json_entries: "json_elems (map entry_tree es) = Inr (map (dict_of \<circ> saved_fields) es)"
  by (induction es) (simp_all add: entry_tree_def saved_fields_def unique_object_def has_key_def keys_def)

lemma object_field_dict: "object_field (dict_of fs) path = Inr fs"
  by (simp add: object_field_def dict_of_def text_keys_def list_all_iff comp_def)

lemma memory_object_dict: "memory_object (dict_of fs) what = Inr fs"
  by (simp add: memory_object_Inr_iff object_field_dict)

lemma read_saved: "note_ok env n e \<Longrightarrow> n \<le> max_id (mem env) \<Longrightarrow> read_entry env (dict_of (saved_fields e)) = Inr e"
  by (cases e) (auto simp: read_entry_def memory_object_dict saved_fields_def keys_def get_def note_ok_def)

lemma unique_saved:
  "list_all (note_ok env n) es \<Longrightarrow> n \<le> max_id (mem env) \<Longrightarrow> distinct (map entry_id es) \<Longrightarrow>
     set (map entry_id es) \<inter> ids = {} \<Longrightarrow> unique_entries env ids (map (dict_of \<circ> saved_fields) es) = Inr es"
proof (induction es arbitrary: ids)
  case (Cons e es)
  moreover have "unique_entries env (insert (entry_id e) ids) (map (dict_of \<circ> saved_fields) es) = Inr es"
    using Cons.prems by (intro Cons.IH) auto
  moreover have "read_entry env (dict_of (saved_fields e)) = Inr e"
    using Cons.prems by (auto intro: read_saved)
  ultimately show ?case by (simp add: comp_def)
qed simp

lemma read_document:
  assumes "entries_ok env es n"
  shows "\<exists>v. json_object (document_tree es n) = Inr v \<and> validated env v = Inr (es, n)"
proof -
  let ?fs = "[(ustr ''memories'', VList (map (dict_of \<circ> saved_fields) es)), (ustr ''next_id'', VInt n), (ustr ''version'', VInt 1)]"
  have sorted: "sorted (map entry_id es)" "distinct (map entry_id es)"
    using assms by (simp_all add: entries_ok_def strict_sorted_iff)
  then have "unique_entries env {} (map (dict_of \<circ> saved_fields) es) = Inr es"
    using assms by (intro unique_saved [of _ n]) (auto simp: entries_ok_def)
  moreover have "es \<noteq> [] \<Longrightarrow> \<not> n \<le> Max (entry_id ` set es)"
    using assms by (auto simp: entries_ok_def note_ok_def list_all_iff not_le)
  ultimately have "validated env (dict_of ?fs) = Inr (es, n)"
    using assms sorted
    by (auto simp: validated_def memory_object_dict equals_one_def keys_def get_def entries_ok_def sort_key_id_if_sorted)
  moreover have "json_object (document_tree es n) = Inr (dict_of ?fs)"
    by (simp add: document_tree_def json_entries unique_object_def has_key_def keys_def)
  ultimately show ?thesis by blast
qed

lemma save_memory_cases:
  assumes "save_memory env es n s = (s', r)" "entries_ok env es n"
  shows "case r of Inl e \<Rightarrow> s' = s\<lparr>mfaults := mfaults s'\<rparr>
    | Inr _ \<Rightarrow> s' = s\<lparr>disk := disk s', mfaults := mfaults s'\<rparr> \<and>
        open_memory env (disk s') [] = (\<lparr>stored = es, next_memory = n, disk = disk s', mfaults = []\<rparr>, Inr ())"
proof -
  obtain v where "json_object (document_tree es n) = Inr v" "validated env v = Inr (es, n)"
    using read_document [OF assms(2)] by blast
  then have opened: "int b \<le> max_file_bytes (mem env) \<Longrightarrow> open_memory env (File b (Inr (document_tree es n))) [] =
        (\<lparr>stored = es, next_memory = n, disk = File b (Inr (document_tree es n)), mfaults = []\<rparr>, Inr ())" for b
    by (simp add: open_memory_def load_memory_def take_fault_def)
  show ?thesis
    using assms(1) opened
    by (cases s rule: take_fault_cases) (auto simp: save_memory_def raise_text_def split: if_splits sum.splits)
qed

section \<open>Every change is all or nothing\<close>

lemma add_memory_cases:
  assumes "add_memory env v s = (s', r)" "entries_ok env (stored s) (next_memory s)"
  shows "case r of Inl e \<Rightarrow> s' = s\<lparr>mfaults := mfaults s'\<rparr>
    | Inr e \<Rightarrow> (\<exists>t. v = VStr t \<and> e = \<lparr>entry_id = next_memory s, entry_text = strip t\<rparr>) \<and> stored s' = stored s @ [e] \<and>
        next_memory s' = next_memory s + 1 \<and> entries_ok env (stored s') (next_memory s') \<and>
        open_memory env (disk s') [] = (s'\<lparr>mfaults := []\<rparr>, Inr ())"
proof -
  let ?es = "\<lambda>t. stored s @ [\<lparr>entry_id = next_memory s, entry_text = strip t\<rparr>]"
  show ?thesis
  proof (cases "\<exists>t. v = VStr t \<and> strip t \<noteq> [] \<and> int (length (strip t)) \<le> max_memory_chars (mem env) \<and>
      valid_memory_text (strip t) \<and> int (length (stored s)) < max_items (mem env) \<and> next_memory s < max_id (mem env)")
    case True
    then obtain t where t: "v = VStr t" "strip t \<noteq> []" "int (length (strip t)) \<le> max_memory_chars (mem env)"
        "valid_memory_text (strip t)" "int (length (stored s)) < max_items (mem env)" "next_memory s < max_id (mem env)"
      by blast
    then have "entries_ok env (?es t) (next_memory s + 1)"
      using assms(2) by (auto simp: entries_ok_def note_ok_def sorted_wrt_append list_all_iff valid_content_def blank_def)
    moreover obtain s1 x where "save_memory env (?es t) (next_memory s + 1) s = (s1, x)" by fastforce
    ultimately show ?thesis
      using save_memory_cases [of env "?es t" "next_memory s + 1" s s1 x] t assms(1)
      by (cases s; cases s1) (auto simp: add_memory_def memory_content_def Let_def bindS_def modS_def retS_def split: sum.splits)
  next
    case False
    with assms(1) show ?thesis
      by (cases s) (auto simp: add_memory_def memory_content_def Let_def raise_def raise_text_def not_le not_less
          split: pyval.splits if_splits)
  qed
qed

lemma entries_ok_filter: "entries_ok env es n \<Longrightarrow> entries_ok env (filter f es) n"
  using sorted_wrt_filter [of "\<lambda>x y. entry_id x < entry_id y" es f]
  by (auto simp: entries_ok_def list_all_iff sorted_wrt_map intro: order_trans [OF of_nat_mono [OF length_filter_le]])

lemma remove_memory_cases:
  assumes "remove_memory env v s = (s', r)" "entries_ok env (stored s) (next_memory s)"
  shows "case r of Inl e \<Rightarrow> s' = s\<lparr>mfaults := mfaults s'\<rparr>
    | Inr removed \<Rightarrow> (\<exists>i. parse_memory_id env v = Inr i \<and> stored s' = filter (\<lambda>e. entry_id e \<noteq> i) (stored s) \<and>
          removed = (i \<in> entry_id ` set (stored s))) \<and> next_memory s' = next_memory s \<and>
        (if removed then open_memory env (disk s') [] = (s'\<lparr>mfaults := []\<rparr>, Inr ()) else s' = s)"
proof (cases "parse_memory_id env v")
  case (Inl e)
  with assms(1) show ?thesis by (auto simp: remove_memory_def)
next
  case (Inr i)
  let ?es = "filter (\<lambda>e. entry_id e \<noteq> i) (stored s)"
  have found: "length ?es = length (stored s) \<longleftrightarrow> i \<notin> entry_id ` set (stored s)"
  proof
    assume "length ?es = length (stored s)"
    then show "i \<notin> entry_id ` set (stored s)"
      using length_filter_less [where P = "\<lambda>e. entry_id e \<noteq> i" and xs = "stored s"] by fastforce
  next
    assume "i \<notin> entry_id ` set (stored s)"
    then have "?es = stored s" by (auto simp: filter_id_conv)
    then show "length ?es = length (stored s)" by simp
  qed
  show ?thesis
  proof (cases "i \<in> entry_id ` set (stored s)")
    case True
    obtain s1 x where "save_memory env ?es (next_memory s) s = (s1, x)" by fastforce
    then show ?thesis
      using save_memory_cases [of env ?es "next_memory s" s s1 x] entries_ok_filter [OF assms(2)] True Inr assms(1) found
      by (cases s; cases s1) (auto simp: remove_memory_def Let_def bindS_def modS_def retS_def split: sum.splits)
  next
    case False
    then have "?es = stored s" by (auto simp: filter_id_conv)
    with False Inr assms(1) show ?thesis by (auto simp: remove_memory_def)
  qed
qed

section \<open>Sequences of operations\<close>

datatype memory_op = Add_Note pyval | Remove_Note pyval | Reload

fun memory_perform :: "memory_env \<Rightarrow> memory_op \<Rightarrow> memory_state \<Rightarrow> memory_state" where
  "memory_perform env (Add_Note v) s = fst (add_memory env v s)"
| "memory_perform env (Remove_Note v) s = fst (remove_memory env v s)"
| "memory_perform env Reload s = fst (load_memory env s)"

text \<open>What holds of a store that was once in state \<open>s0\<close>: no note since then took an identifier
  that had been issued.\<close>

definition memory_since :: "memory_env \<Rightarrow> memory_state \<Rightarrow> memory_state \<Rightarrow> bool" where
  "memory_since env s0 s \<longleftrightarrow> memory_ok env s \<and> next_memory s0 \<le> next_memory s \<and>
     (\<forall>e\<in>set (stored s). next_memory s0 \<le> entry_id e \<or> e \<in> set (stored s0))"

lemma memory_ok_faults: "memory_ok env (s\<lparr>mfaults := fs\<rparr>) = memory_ok env s"
  by (simp add: memory_ok_def)

lemma memory_since_faults: "s' = s\<lparr>mfaults := fs\<rparr> \<Longrightarrow> memory_since env s0 s' = memory_since env s0 s"
  by (simp add: memory_since_def memory_ok_faults)

lemma memory_ok_reload:
  assumes "memory_ok env s" "load_memory env s = (s', r)"
  shows "s' = s\<lparr>mfaults := mfaults s'\<rparr>"
  using assms load_memory_cases [OF assms(2)]
  by (cases s; cases s') (auto simp: memory_ok_def split: sum.splits)

lemma memory_step:
  assumes "memory_since env s0 s"
  shows "memory_since env s0 (memory_perform env x s)"
proof -
  have s: "entries_ok env (stored s) (next_memory s)" "memory_ok env s"
    using assms by (simp_all add: memory_since_def memory_ok_def)
  show ?thesis
  proof (cases x)
    case (Add_Note v)
    obtain s' r where r: "add_memory env v s = (s', r)" by fastforce
    show ?thesis
    proof (cases r)
      case (Inl e)
      with add_memory_cases [OF r s(1)] memory_since_faults [of s' "mfaults s'" s] r assms Add_Note show ?thesis by simp
    next
      case (Inr e)
      with add_memory_cases [OF r s(1)] r assms Add_Note show ?thesis by (auto simp: memory_since_def memory_ok_def)
    qed
  next
    case (Remove_Note v)
    obtain s' r where r: "remove_memory env v s = (s', r)" by fastforce
    show ?thesis
    proof (cases r)
      case (Inl e)
      with remove_memory_cases [OF r s(1)] memory_since_faults [of s' "mfaults s'" s] r assms Remove_Note show ?thesis by simp
    next
      case (Inr removed)
      with remove_memory_cases [OF r s(1)] entries_ok_filter [OF s(1)] r assms Remove_Note show ?thesis
        by (auto simp: memory_since_def memory_ok_def split: if_splits)
    qed
  next
    case Reload
    obtain s' r where r: "load_memory env s = (s', r)" by fastforce
    with memory_since_faults [OF memory_ok_reload [OF s(2) r]] assms Reload show ?thesis by simp
  qed
qed

interpretation notebook: op_machine "memory_perform env" "memory_since env s0" "\<lambda>_. True" for env s0
  by unfold_locales (rule memory_step)

section \<open>Walking the pages\<close>

text \<open>A client that asks for the next page until there is none.\<close>

fun walk_pages :: "memory_env \<Rightarrow> memory_state \<Rightarrow> nat \<Rightarrow> pyval \<Rightarrow> memory_entry list option" where
  "walk_pages env s 0 c = None"
| "walk_pages env s (Suc n) c = (case page env c s of
      Inl _ \<Rightarrow> None
    | Inr p \<Rightarrow> (case next_cursor p of
        None \<Rightarrow> Some (page_entries p)
      | Some t \<Rightarrow> map_option (append (page_entries p)) (walk_pages env s n (VStr t))))"

lemma walk_rest:
  assumes "stored s = ds @ es" "parse_memory_cursor env v = Inr c" "list_all (\<lambda>e. entry_id e \<le> c) ds"
    "list_all (\<lambda>e. c < entry_id e) es" "entries_ok env (stored s) n"
  shows "walk_pages env s (Suc (length es)) v = Some es"
  using assms
proof (induction es arbitrary: ds v c)
  case Nil
  then have "filter (\<lambda>e. c < entry_id e) (stored s) = []"
    by (auto simp: list_all_iff filter_empty_conv not_less)
  with Nil show ?case by (simp add: page_def)
next
  case (Cons e es)
  have rest: "filter (\<lambda>x. c < entry_id x) (stored s) = e # es"
    using Cons.prems by (auto simp: list_all_iff filter_id_conv not_less)
  have ids: "1 \<le> entry_id e" "entry_id e \<le> max_id (mem env)" "list_all (\<lambda>x. entry_id e < entry_id x) es"
      "list_all (\<lambda>x. entry_id x \<le> entry_id e) (ds @ [e])"
    using Cons.prems by (auto simp: entries_ok_def note_ok_def list_all_iff sorted_wrt_append less_imp_le)
  moreover have "parse_memory_cursor env (VStr (str_int (entry_id e))) = Inr (entry_id e)"
    using ids by (intro cursor_of_id)
  ultimately have "walk_pages env s (Suc (length es)) (VStr (str_int (entry_id e))) = Some es"
    using Cons.prems by (intro Cons.IH [of "ds @ [e]" _ "entry_id e"]) auto
  moreover have "page env v s = Inr \<lparr>page_entries = [e],
      next_cursor = (if es = [] then None else Some (str_int (entry_id e))), page_total = length (stored s)\<rparr>"
    using Cons.prems(2) by (simp add: page_def rest)
  ultimately show ?case by (subst walk_pages.simps) simp
qed

section \<open>The notes in the instructions\<close>

lemma select_entries_cases:
  assumes "int (length (entries_json selected)) \<le> limit"
  shows "\<exists>zs. select_entries limit selected es = zs @ selected \<and> subseq zs (rev es)"
    and "int (length (entries_json (select_entries limit selected es))) \<le> limit"
  using assms
proof (induction es arbitrary: selected)
  case (Cons e es)
  {
    case 1
    show ?case
    proof (cases "int (length (entries_json (e # selected))) \<le> limit")
      case True
      then obtain zs where "select_entries limit (e # selected) es = zs @ e # selected" "subseq zs (rev es)"
        using Cons.IH(1) [of "e # selected"] by blast
      with True show ?thesis by (intro exI [of _ "zs @ [e]"]) (simp add: list_emb_append_mono)
    next
      case False
      with Cons.IH(1) [of selected] 1 show ?thesis by (auto intro: subseq_rev_drop_many)
    qed
  next
    case 2
    with Cons.IH(2) [of "e # selected"] Cons.IH(2) [of selected] show ?case by simp
  }
qed auto

lemma entries_json_suffix: "length (entries_json es) \<le> length (entries_json (ds @ es))"
  by (simp add: entries_json_def ustr_def length_join)

lemma select_entries_all:
  "int (length (entries_json (rev es @ selected))) \<le> limit \<Longrightarrow> select_entries limit selected es = rev es @ selected"
proof (induction es arbitrary: selected)
  case (Cons e es)
  have "length (entries_json (e # selected)) \<le> length (entries_json (rev es @ e # selected))"
    by (rule entries_json_suffix)
  with Cons show ?case by simp
qed simp

section \<open>What the store guarantees\<close>

lemma parsed_memory_settings:
  assumes "parse_memory_settings shown v = Inr cfg"
  shows "1 \<le> max_id cfg" "1 \<le> max_items cfg"
  using assms by (auto simp: parse_memory_settings_def bindR_Inr_iff integer_field_Inr_iff)

lemma opened_memory_since:
  assumes "parse_memory_settings shown v = Inr (mem env)" "open_memory env f faults = (s, Inr ())"
  shows "memory_since env s s"
  using load_memory_ok [of env _ s] assms parsed_memory_settings [OF assms(1)]
  by (auto simp: memory_since_def open_memory_def)

lemma run_since:
  assumes "parse_memory_settings shown v = Inr (mem env)" "open_memory env f faults = (s, Inr ())"
  shows "memory_since env s (run_ops (memory_perform env) ops s)"
  by (rule notebook.run_inv [OF opened_memory_since [OF assms]]) (simp add: list_all_iff)

definition memory_demo_settings :: "pyval" where
  "memory_demo_settings = dict_of [(ustr ''enabled'', VBool True), (ustr ''path'', VNone), (ustr ''filename'', VStr (ustr ''m.json'')),
     (ustr ''max_memory_file_bytes'', VInt 300), (ustr ''max_memory_items'', VInt 2), (ustr ''max_memory_chars'', VInt 9),
     (ustr ''max_memory_context_chars'', VInt 40), (ustr ''max_memory_id'', VInt 20)]"

definition memory_demo_env :: memory_env where
  "memory_demo_env = \<lparr>mem = \<lparr>memory_enabled = True, memory_path = None, memory_filename = ustr ''m.json'', max_file_bytes = 300,
     max_items = 2, max_memory_chars = 9, max_context_chars = 40, max_id = 20\<rparr>, path_text = ustr ''m.json''\<rparr>"

definition memory_demo_state :: memory_state where
  "memory_demo_state = \<lparr>stored = [], next_memory = 1, disk = No_File, mfaults = [None, Some (Exn OSError [])]\<rparr>"

lemma memory_demo_opened:
  "parse_memory_settings (\<lambda>_ _. []) memory_demo_settings = Inr (mem memory_demo_env)"
  "open_memory memory_demo_env No_File (mfaults memory_demo_state) = (memory_demo_state, Inr ())"
  by code_simp+

definition memory_demo_ops :: "memory_op list" where
  "memory_demo_ops = [Add_Note (VStr (ustr '' a'')), Add_Note (VStr (ustr ''b'')), Add_Note (VStr (ustr ''c'')), Remove_Note (VInt 1)]"

text \<open>C38: Whatever notes are added and removed, whichever of the saves and loads fail, the file holds
  what the store holds: opening it again gives the same notes and the same next identifier. The
  notes stay in the order of their identifiers, within the limit, and an identifier that was ever
  issued is not issued again: a note that is not new was there before, unchanged.\<close>

theorem notes_survive_reopening:
  assumes "parse_memory_settings shown v = Inr (mem env)" "open_memory env f faults = (s0, Inr ())"
  shows "let s = run_ops (memory_perform env) ops s0
    in open_memory env (disk s) [] = (s\<lparr>mfaults := []\<rparr>, Inr ()) \<and> sorted_wrt (<) (map entry_id (stored s)) \<and>
       int (length (stored s)) \<le> max_items (mem env) \<and> next_memory s0 \<le> next_memory s \<and>
       list_all (\<lambda>e. entry_id e < next_memory s \<and> (next_memory s0 \<le> entry_id e \<or> e \<in> set (stored s0))) (stored s)"
  using run_since [OF assms, of ops]
  by (simp add: Let_def memory_since_def memory_ok_def entries_ok_def note_ok_def list_all_iff)

lemma notes_survive_reopening_witness:
  "let s = run_ops (memory_perform memory_demo_env) memory_demo_ops memory_demo_state
    in open_memory memory_demo_env (disk s) [] = (s\<lparr>mfaults := []\<rparr>, Inr ()) \<and> stored s = [\<lparr>entry_id = 2, entry_text = ustr ''c''\<rparr>]"
  using notes_survive_reopening [OF memory_demo_opened, of memory_demo_ops]
  by (simp add: Let_def) code_simp

text \<open>C39: Adding and removing are all or nothing. When either raises, notes, next identifier and file
  are as before; when they return, the note has been appended under the next identifier, or exactly
  the note with that identifier is gone, and the file already holds the result.\<close>

theorem memory_change_is_all_or_nothing:
  assumes "parse_memory_settings shown v = Inr (mem env)" "open_memory env f faults = (s0, Inr ())"
    "s = run_ops (memory_perform env) ops s0"
  shows "(case add_memory env w s of
      (s', Inl e) \<Rightarrow> s' = s\<lparr>mfaults := mfaults s'\<rparr>
    | (s', Inr e) \<Rightarrow> (\<exists>t. w = VStr t \<and> e = \<lparr>entry_id = next_memory s, entry_text = strip t\<rparr>) \<and> stored s' = stored s @ [e] \<and>
        next_memory s' = next_memory s + 1 \<and> open_memory env (disk s') [] = (s'\<lparr>mfaults := []\<rparr>, Inr ())) \<and>
    (case remove_memory env w s of
      (s', Inl e) \<Rightarrow> s' = s\<lparr>mfaults := mfaults s'\<rparr>
    | (s', Inr removed) \<Rightarrow> (\<exists>i. parse_memory_id env w = Inr i \<and> stored s' = filter (\<lambda>e. entry_id e \<noteq> i) (stored s) \<and>
          removed = (i \<in> entry_id ` set (stored s))) \<and> next_memory s' = next_memory s \<and>
        open_memory env (disk s') [] = (s'\<lparr>mfaults := []\<rparr>, Inr ()))"
proof -
  have s: "entries_ok env (stored s) (next_memory s)" "open_memory env (disk s) [] = (s\<lparr>mfaults := []\<rparr>, Inr ())"
    using run_since [OF assms(1,2), of ops] assms(3) by (simp_all add: memory_since_def memory_ok_def)
  obtain s1 r1 s2 r2 where "add_memory env w s = (s1, r1)" "remove_memory env w s = (s2, r2)" by fastforce
  then show ?thesis
    using add_memory_cases [OF _ s(1)] remove_memory_cases [OF _ s(1)] s(2)
    by (fastforce split: sum.splits if_splits)
qed

lemma memory_change_is_all_or_nothing_witness:
  "let (s', r) = remove_memory memory_demo_env (VStr (ustr ''2'')) (run_ops (memory_perform memory_demo_env) memory_demo_ops memory_demo_state)
    in r = Inr True \<and> open_memory memory_demo_env (disk s') [] = (s'\<lparr>mfaults := []\<rparr>, Inr ())"
proof -
  let ?s = "run_ops (memory_perform memory_demo_env) memory_demo_ops memory_demo_state"
  have "snd (remove_memory memory_demo_env (VStr (ustr ''2'')) ?s) = Inr True" by code_simp
  then show ?thesis
    using memory_change_is_all_or_nothing [OF memory_demo_opened refl, where w = "VStr (ustr ''2'')" and ops = memory_demo_ops]
    by (cases "remove_memory memory_demo_env (VStr (ustr ''2'')) ?s") auto
qed

text \<open>Paging is complete. A client that starts without a cursor and passes each cursor back
  unchanged until there is none receives every note exactly once, oldest first.\<close>

theorem pages_enumerate_notes:
  assumes "parse_memory_settings shown v = Inr (mem env)" "open_memory env f faults = (s0, Inr ())"
    "s = run_ops (memory_perform env) ops s0"
  shows "walk_pages env s (Suc (length (stored s))) VNone = Some (stored s)"
proof -
  have "entries_ok env (stored s) (next_memory s)"
    using run_since [OF assms(1,2), of ops] assms(3) by (simp add: memory_since_def memory_ok_def)
  then show ?thesis
    by (intro walk_rest [where ds = "[]" and c = 0]) (auto simp: parse_memory_cursor_def entries_ok_def note_ok_def list_all_iff)
qed

lemma pages_enumerate_notes_witness:
  "let s = run_ops (memory_perform memory_demo_env) [Add_Note (VStr (ustr ''a'')), Reload, Add_Note (VStr (ustr ''c''))] memory_demo_state
    in walk_pages memory_demo_env s (Suc (length (stored s))) VNone = Some (stored s)"
  unfolding Let_def by (rule pages_enumerate_notes [OF memory_demo_opened refl])

text \<open>The notes shown to the model are JSON of whole notes in their order, within the limit
  (except for the empty array, which needs two characters). All notes are shown if they fit
  together, and the newest is shown if it fits alone.\<close>

theorem memory_context_bounded:
  "\<exists>es. memory_context s limit = entries_json es \<and> subseq es (stored s) \<and>
     int (length (memory_context s limit)) \<le> max limit 2 \<and>
     (int (length (entries_json (stored s))) \<le> limit \<longrightarrow> es = stored s) \<and>
     (stored s \<noteq> [] \<and> int (length (entries_json [last (stored s)])) \<le> limit \<longrightarrow> last (stored s) \<in> set es)"
proof (cases "limit < 2")
  case True
  have "\<not> int (length (entries_json es)) \<le> limit" for es using True by (simp add: entries_json_def ustr_def)
  with True show ?thesis
    by (intro exI [of _ "[]"]) (auto simp: memory_context_def entries_json_def ustr_def)
next
  case False
  let ?es = "select_entries limit [] (rev (stored s))"
  have "int (length (entries_json [])) \<le> limit" using False by (simp add: entries_json_def ustr_def)
  note cases = select_entries_cases [OF this, of "rev (stored s)"]
  have "last (stored s) \<in> set ?es" if some: "stored s \<noteq> []" "int (length (entries_json [last (stored s)])) \<le> limit"
  proof -
    obtain ds d where "stored s = ds @ [d]" using some(1) by (cases "stored s" rule: rev_cases) auto
    with some select_entries_cases(1) [of "[d]" limit "rev ds"] show ?thesis by auto
  qed
  with False cases select_entries_all [of "rev (stored s)" "[]" limit] show ?thesis
    by (intro exI [of _ ?es]) (auto simp: memory_context_def)
qed

lemma memory_context_bounded_witness:
  "\<exists>es. entries_json es = ustr ''[{\"id\":3,\"content\":\"c\"}]'' \<and> \<lparr>entry_id = 3, entry_text = ustr ''c''\<rparr> \<in> set es \<and>
     subseq es [\<lparr>entry_id = 1, entry_text = ustr ''bbb''\<rparr>, \<lparr>entry_id = 3, entry_text = ustr ''c''\<rparr>]"
proof -
  let ?s = "\<lparr>stored = [\<lparr>entry_id = 1, entry_text = ustr ''bbb''\<rparr>, \<lparr>entry_id = 3, entry_text = ustr ''c''\<rparr>], next_memory = 4,
    disk = No_File, mfaults = []\<rparr>"
  have "memory_context ?s 30 = ustr ''[{\"id\":3,\"content\":\"c\"}]'' \<and>
      int (length (entries_json [\<lparr>entry_id = 3, entry_text = ustr ''c''\<rparr>])) \<le> 30"
    by code_simp
  with memory_context_bounded [of ?s 30] show ?thesis by auto
qed

end
