(* ===== verification/Packages.thy ===== *)
theory Packages
  imports Validation
begin

text \<open>
  \<open>raychat/packages.py\<close>, the metadata of a plugin package: names and versions, declarative
  command-line arguments and the manifest with its document. The regular expressions are written
  out as predicates; \<open>word\<close> is the character class \<open>\w\<close> of the interpreter's \<open>re\<close>. A recursion
  deep enough to exhaust the interpreter's stack is not modelled.
\<close>

section \<open>Names\<close>

definition ascii_letter :: "int \<Rightarrow> bool" where
  "ascii_letter c \<longleftrightarrow> 65 \<le> c \<and> c \<le> 90 \<or> 97 \<le> c \<and> c \<le> 122"

definition ascii_digit :: "int \<Rightarrow> bool" where
  "ascii_digit c \<longleftrightarrow> 48 \<le> c \<and> c \<le> 57"

text \<open>\<open>s.split(c)\<close> for one character.\<close>

fun split_on :: "int \<Rightarrow> pystr \<Rightarrow> pystr list" where
  "split_on c [] = [[]]"
| "split_on c (x # s) = (if x = c then [] # split_on c s
     else case split_on c s of p # ps \<Rightarrow> (x # p) # ps | [] \<Rightarrow> [[x]])"

definition name_text :: "pystr \<Rightarrow> bool" where
  "name_text s \<longleftrightarrow> s \<noteq> [] \<and> length s \<le> 64 \<and> (ascii_letter (hd s) \<or> ascii_digit (hd s)) \<and>
     list_all (\<lambda>c. ascii_letter c \<or> ascii_digit c \<or> c \<in> {95, 46, 45}) (tl s)"

definition decimal_text :: "pystr \<Rightarrow> bool" where
  "decimal_text s \<longleftrightarrow> s = [48] \<or> s \<noteq> [] \<and> hd s \<noteq> 48 \<and> list_all ascii_digit s"

definition version_text :: "pystr \<Rightarrow> bool" where
  "version_text s \<longleftrightarrow> length (split_on 46 s) = 3 \<and> list_all decimal_text (split_on 46 s)"

definition flag_text :: "pystr \<Rightarrow> bool" where
  "flag_text s \<longleftrightarrow> take 2 s = [45, 45] \<and> drop 2 s \<noteq> [] \<and> 97 \<le> s ! 2 \<and> s ! 2 \<le> 122 \<and>
     list_all (\<lambda>c. 97 \<le> c \<and> c \<le> 122 \<or> ascii_digit c \<or> c = 45) (drop 3 s)"

definition identifier_text :: "(int \<Rightarrow> bool) \<Rightarrow> pystr \<Rightarrow> bool" where
  "identifier_text word s \<longleftrightarrow> s \<noteq> [] \<and> (ascii_letter (hd s) \<or> hd s = 95) \<and> list_all word (tl s)"

definition environment_text :: "pystr \<Rightarrow> bool" where
  "environment_text s \<longleftrightarrow> identifier_text (\<lambda>c. ascii_letter c \<or> ascii_digit c \<or> c = 95) s"

definition entrypoint_text :: "(int \<Rightarrow> bool) \<Rightarrow> pystr \<Rightarrow> bool" where
  "entrypoint_text word s \<longleftrightarrow> (case split_on 58 s of
      [modules, function_name] \<Rightarrow> list_all (identifier_text word) (split_on 46 modules) \<and> identifier_text word function_name
    | _ \<Rightarrow> False)"

section \<open>Checked scalars\<close>

definition matching_text :: "(pystr \<Rightarrow> bool) \<Rightarrow> string \<Rightarrow> pyval \<Rightarrow> pystr result" where
  "matching_text pattern message v = (case v of
      VStr s \<Rightarrow> if pattern s then Inr s else raise PluginError message
    | _ \<Rightarrow> raise PluginError message)"

definition nonempty_text :: "string \<Rightarrow> pyval \<Rightarrow> pystr result" where
  "nonempty_text message v = (case v of
      VStr s \<Rightarrow> if blank s then raise PluginError message else Inr s
    | _ \<Rightarrow> raise PluginError message)"

definition api_version :: int where
  "api_version = 4"

definition sdk_field :: "pystr \<Rightarrow> bool \<Rightarrow> pyval \<Rightarrow> int result" where
  "sdk_field identifier require_current v = (case v of
      VInt n \<Rightarrow>
        if n < 1 then raise PluginError ''Plugin SDK version must be a positive integer.''
        else if require_current \<and> n \<noteq> api_version
          then raise_text PluginError (ustr ''Unsupported SDK version for '' @ identifier @ ustr '': found '' @ str_int n @
            ustr '', expected '' @ str_int api_version @ ustr ''. Update this package or start with '' @
            ustr ''--disable-plugin '' @ identifier @ ustr ''.'')
        else Inr n
    | _ \<Rightarrow> raise PluginError ''Plugin SDK version must be a positive integer.'')"

definition requires_message :: string where
  "requires_message = ''Dependencies must map plugin IDs to exact versions.''"

definition requires_field :: "pyval \<Rightarrow> (pystr, pystr) dict result" where
  "requires_field v =
     bindR (rescue [ConfigurationError] (\<lambda>_. raise PluginError requires_message) (object_field v (ustr ''dependencies'')))
       (mapR (\<lambda>(k, x). bindR (matching_text name_text requires_message (VStr k)) (\<lambda>name.
          bindR (matching_text version_text requires_message x) (\<lambda>version. Inr (name, version)))))"

definition json_value :: "pystr \<Rightarrow> pyval \<Rightarrow> pyval result" where
  "json_value path v = bindR (freeze_settings v path) (\<lambda>f. Inr (plain f))"

section \<open>Command-line arguments\<close>

definition one_of :: "string list \<Rightarrow> string \<Rightarrow> pyval \<Rightarrow> pyval result" where
  "one_of names message v =
     (if v \<in> set (map (VStr \<circ> ustr) names) then Inr v else raise PluginError message)"

definition cli_type :: "pyval \<Rightarrow> pyval result" where
  "cli_type = one_of [''str'', ''int'', ''float'', ''path''] ''Invalid declarative plugin CLI argument type.''"

definition cli_action :: "pyval \<Rightarrow> pyval result" where
  "cli_action = one_of [''store'', ''store_true'', ''append''] ''Invalid declarative plugin CLI argument action.''"

text \<open>The checks of the optional keys, in the order they are copied to the new argument.\<close>

definition as_text :: "pystr result \<Rightarrow> pyval result" where
  "as_text r = bindR r (\<lambda>s. Inr (VStr s))"

definition as_flag :: "bool result \<Rightarrow> pyval result" where
  "as_flag r = bindR r (\<lambda>b. Inr (VBool b))"

definition cli_checks :: "(string \<times> (pyval \<Rightarrow> pyval result)) list" where
  "cli_checks =
     [(''type'', cli_type), (''action'', cli_action), (''default'', json_value (ustr ''CLI default'')),
      (''setting'', \<lambda>v. as_text (nonempty_text ''CLI setting must be nonempty text.'' v)),
      (''group'', \<lambda>v. as_text (nonempty_text ''CLI group must be nonempty text.'' v)),
      (''help'', \<lambda>v. as_text (nonempty_text ''CLI help must be nonempty text.'' v)),
      (''environment'', \<lambda>v. as_text (matching_text environment_text ''CLI environment must name an environment variable.'' v)),
      (''json'', \<lambda>v. as_flag (boolean_field v (ustr ''CLI json''))),
      (''invert'', \<lambda>v. as_flag (boolean_field v (ustr ''CLI invert'')))]"

fun copy_checked :: "(string \<times> (pyval \<Rightarrow> pyval result)) list \<Rightarrow> fields \<Rightarrow> fields \<Rightarrow> fields result" where
  "copy_checked [] fs argument = Inr argument"
| "copy_checked ((k, check) # cs) fs argument =
     (if has_key fs (ustr k)
      then bindR (check (get fs k)) (\<lambda>v. copy_checked cs fs (argument @ [(ustr k, v)]))
      else copy_checked cs fs argument)"

definition is_list :: "pyval \<Rightarrow> bool" where
  "is_list v = (case v of VList xs \<Rightarrow> True | _ \<Rightarrow> False)"

definition is_bool :: "pyval \<Rightarrow> bool" where
  "is_bool v = (case v of VBool b \<Rightarrow> True | _ \<Rightarrow> False)"

definition cli_defaults :: "fields \<Rightarrow> fields \<Rightarrow> unit result" where
  "cli_defaults argument settings =
     (let has = (\<lambda>k. has_key argument (ustr k)); setting = the_text (get argument ''setting'');
          default_value = (if has ''setting'' then (case map_of settings setting of Some v \<Rightarrow> v | None \<Rightarrow> VNone)
            else get argument ''default'');
          action = (if has ''action'' then get argument ''action'' else VStr (ustr ''store''))
      in if has ''setting'' \<and> (has ''default'' \<or> \<not> has_key settings setting)
         then raise PluginError ''CLI setting must reference a manifest default without a separate default.''
         else if action = VStr (ustr ''append'') \<and> default_value \<noteq> VNone \<and> \<not> is_list default_value
         then raise PluginError ''Append CLI defaults must be arrays.''
         else if action = VStr (ustr ''store_true'') \<and>
           (default_value \<noteq> VNone \<and> \<not> is_bool default_value \<or> list_ex has [''type'', ''json'', ''environment''])
         then raise PluginError (''Boolean CLI flags require boolean defaults without type, '' @
           ''JSON or environment conversions.'')
         else Inr ())"

definition cli_keys :: "pystr list" where
  "cli_keys = map ustr [''flags'', ''type'', ''action'', ''default'', ''setting'', ''environment'', ''json'', ''invert'',
     ''group'', ''help'']"

definition cli_failure :: string where
  "cli_failure = ''Invalid declarative plugin CLI argument.''"

definition cli_argument :: "fields \<Rightarrow> pyval \<Rightarrow> fields result" where
  "cli_argument settings v =
     bindR (object_field v (ustr ''CLI argument'')) (\<lambda>fs.
     if \<not> set (keys fs) \<subseteq> set cli_keys then raise PluginError cli_failure
     else bindR (array_field (get fs ''flags'') (ustr ''CLI flags'')) (\<lambda>xs.
     bindR (mapR (matching_text flag_text cli_failure) xs) (\<lambda>flags.
     if flags = [] then raise PluginError cli_failure
     else bindR (copy_checked cli_checks fs [(ustr ''flags'', VList (map VStr flags))]) (\<lambda>argument.
     bindR (cli_defaults argument settings) (\<lambda>_. Inr argument)))))"

definition argument_flags :: "fields \<Rightarrow> pystr list" where
  "argument_flags argument = (case get argument ''flags'' of VList xs \<Rightarrow> map the_text xs | _ \<Rightarrow> [])"

fun unique_flags :: "pystr list \<Rightarrow> pystr list \<Rightarrow> unit result" where
  "unique_flags seen [] = Inr ()"
| "unique_flags seen (f # fs) =
     (if f \<in> set seen then raise_text PluginError (ustr ''Duplicate plugin CLI flag: '' @ f)
      else unique_flags (f # seen) fs)"

definition cli_arguments :: "fields \<Rightarrow> pyval \<Rightarrow> fields list result" where
  "cli_arguments settings v =
     bindR (array_field v (ustr ''Plugin cli metadata'')) (\<lambda>xs.
     bindR (mapR (cli_argument settings) xs) (\<lambda>arguments.
     bindR (unique_flags [] (concat (map argument_flags arguments))) (\<lambda>_. Inr arguments)))"

section \<open>Manifests\<close>

record manifest =
  plugin_id :: pystr
  plugin_version :: pystr
  plugin_sdk :: int
  entrypoint :: pystr
  description :: pystr
  requires :: "(pystr, pystr) dict"
  plugin_defaults :: fields
  plugin_cli :: "fields list"
  plugin_instructions :: pystr

definition required_keys :: "pystr list" where
  "required_keys = map ustr [''id'', ''version'', ''sdk'', ''entrypoint'', ''description'', ''requires'', ''instructions'']"

definition get_or :: "fields \<Rightarrow> string \<Rightarrow> pyval \<Rightarrow> pyval" where
  "get_or fs k v = (if has_key fs (ustr k) then get fs k else v)"

definition instructions_message :: string where
  "instructions_message = ''Plugin instructions must contain 1-8192 characters '' @ ''explaining when and how to use it.''"

definition max_instructions :: nat where
  "max_instructions = 8192"

definition manifest_document :: "(int \<Rightarrow> bool) \<Rightarrow> bool \<Rightarrow> pyval \<Rightarrow> manifest result" where
  "manifest_document word require_current v =
     bindR (object_field v (ustr ''plugin.json'')) (\<lambda>fs.
     if \<not> (set required_keys \<subseteq> set (keys fs) \<and> set (keys fs) \<subseteq> set required_keys \<union> {ustr ''defaults'', ustr ''cli''})
     then raise PluginError (''plugin.json requires id, version, sdk, entrypoint, description, '' @ ''requires and instructions.'')
     else bindR (matching_text name_text ''Invalid plugin ID.'' (get fs ''id'')) (\<lambda>identifier.
     bindR (nonempty_text instructions_message (get fs ''instructions'')) (\<lambda>instructions.
     if length instructions > max_instructions then raise PluginError instructions_message
     else bindR (object_field (get_or fs ''defaults'' (dict_of [])) (ustr ''Plugin defaults'')) (\<lambda>raw.
     bindR (bindR (json_value (ustr ''Plugin defaults'') (dict_of raw)) (\<lambda>x. object_field x (ustr ''Plugin defaults''))) (\<lambda>settings.
     bindR (matching_text version_text ''Plugin version must be MAJOR.MINOR.PATCH.'' (get fs ''version'')) (\<lambda>version.
     bindR (sdk_field identifier require_current (get fs ''sdk'')) (\<lambda>sdk.
     bindR (matching_text (entrypoint_text word) ''Entrypoint must be module:register_function.'' (get fs ''entrypoint'')) (\<lambda>entry.
     bindR (nonempty_text ''Plugin description must be nonempty text.'' (get fs ''description'')) (\<lambda>about.
     bindR (requires_field (get fs ''requires'')) (\<lambda>needed.
     bindR (cli_arguments settings (get_or fs ''cli'' (VList []))) (\<lambda>arguments.
     Inr \<lparr>plugin_id = identifier, plugin_version = version, plugin_sdk = sdk, entrypoint = entry, description = about,
       requires = needed, plugin_defaults = settings, plugin_cli = arguments, plugin_instructions = instructions\<rparr>)))))))))))"

definition parse_manifest :: "(int \<Rightarrow> bool) \<Rightarrow> bool \<Rightarrow> pyval \<Rightarrow> manifest result" where
  "parse_manifest word require_current v =
     rescue [ConfigurationError, RecursionError] (\<lambda>e. raise_text PluginError (exn_text e))
       (manifest_document word require_current v)"

definition write_document :: "manifest \<Rightarrow> pyval result" where
  "write_document m =
     bindR (mapR (\<lambda>a. cli_argument (plugin_defaults m) (dict_of a)) (plugin_cli m)) (\<lambda>arguments.
     Inr (dict_of [(ustr ''id'', VStr (plugin_id m)), (ustr ''version'', VStr (plugin_version m)), (ustr ''sdk'', VInt (plugin_sdk m)),
       (ustr ''entrypoint'', VStr (entrypoint m)), (ustr ''description'', VStr (description m)),
       (ustr ''requires'', dict_of (map (\<lambda>(k, v). (k, VStr v)) (requires m))),
       (ustr ''defaults'', plain (dict_of (plugin_defaults m))), (ustr ''cli'', VList (map dict_of arguments)),
       (ustr ''instructions'', VStr (plugin_instructions m))]))"

text \<open>\<open>read_manifest\<close>: what is found at the path, with its bytes and what decoding them yields.\<close>

datatype manifest_file = Not_A_File | Manifest_File nat "rawjson result"

definition max_manifest_bytes :: nat where
  "max_manifest_bytes = 65536"

definition read_manifest :: "(int \<Rightarrow> bool) \<Rightarrow> pystr \<Rightarrow> bool \<Rightarrow> manifest_file \<Rightarrow> manifest result" where
  "read_manifest word path require_current f = (case f of
      Not_A_File \<Rightarrow> raise_text PluginError (ustr ''A package directory requires a regular plugin.json: '' @ path)
    | Manifest_File bytes tree \<Rightarrow>
        if bytes > max_manifest_bytes then raise PluginError ''Plugin manifest exceeds 64 KiB.''
        else bindR (bindR tree json_object) (parse_manifest word require_current))"

section \<open>What parsing establishes\<close>

lemma split_on_chars: "ps = split_on c s \<Longrightarrow> p \<in> set ps \<Longrightarrow> set p \<subseteq> set s - {c}"
  by (induction c s arbitrary: ps p rule: split_on.induct) (fastforce split: if_splits list.splits)+

lemma matching_text_Inr_iff: "matching_text pattern m v = Inr s \<longleftrightarrow> v = VStr s \<and> pattern s"
  by (auto simp: matching_text_def split: pyval.splits)

lemma nonempty_text_Inr_iff: "nonempty_text m v = Inr s \<longleftrightarrow> v = VStr s \<and> \<not> blank s"
  by (auto simp: nonempty_text_def split: pyval.splits)

lemma sdk_field_Inr_iff: "sdk_field i cur v = Inr n \<longleftrightarrow> v = VInt n \<and> 1 \<le> n \<and> (cur \<longrightarrow> n = api_version)"
  by (auto simp: sdk_field_def raise_def raise_text_def split: pyval.splits if_splits)

lemma one_of_Inr_iff: "one_of names m v = Inr w \<longleftrightarrow> v = w \<and> w \<in> set (map (VStr \<circ> ustr) names)"
  by (auto simp: one_of_def)

lemma json_value_Inr:
  assumes "json_value path v = Inr w"
  shows "json_data w" "json_value path' w = Inr w"
proof -
  obtain f where f: "freeze_settings v path = Inr f" "w = plain f"
    using assms by (auto simp: json_value_def bindR_Inr_iff)
  show "json_data w" using f freeze_frozen(1) plain_frozen_json_data by blast
  then obtain g where "freeze_settings w path' = Inr g" using json_data_freezes(1) by blast
  with \<open>json_data w\<close> show "json_value path' w = Inr w"
    using json_data_freeze_plain(2) by (auto simp: json_value_def bindR_Inr_iff)
qed

lemma rescue_Inr_iff: "rescue cs h r = Inr x \<longleftrightarrow> r = Inr x \<or> (\<exists>e. r = Inl e \<and> caught_by cs e \<and> h e = Inr x)"
  by (auto simp: rescue_def split: sum.splits if_splits)

lemma requires_field_Inr_iff:
  "requires_field v = Inr ds \<longleftrightarrow> v = dict_of (map (\<lambda>(k, s). (k, VStr s)) ds) \<and> list_all (\<lambda>(k, s). name_text k \<and> version_text s) ds"
proof -
  have "mapR (\<lambda>(k, x). bindR (matching_text name_text requires_message (VStr k)) (\<lambda>name.
      bindR (matching_text version_text requires_message x) (\<lambda>version. Inr (name, version)))) fs = Inr ds \<longleftrightarrow>
    fs = map (\<lambda>(k, s). (k, VStr s)) ds \<and> list_all (\<lambda>(k, s). name_text k \<and> version_text s) ds" for fs
  proof (induction fs arbitrary: ds)
    case (Cons f fs)
    then show ?case by (cases f; cases ds) (auto simp: bindR_Inr_iff matching_text_Inr_iff)
  qed (auto)
  then show ?thesis
    by (auto simp: requires_field_def bindR_Inr_iff rescue_Inr_iff object_field_Inr_iff)
qed

section \<open>Checked arguments\<close>

definition settled :: "('a \<Rightarrow> 'a result) \<Rightarrow> bool" where
  "settled check \<longleftrightarrow> (\<forall>v w. check v = Inr w \<longrightarrow> check w = Inr w)"

lemma copy_checked_again:
  assumes "copy_checked cs fs pre = Inr out" "list_all (\<lambda>c. settled (snd c)) cs" "distinct (map fst cs)"
  shows "\<exists>more. out = pre @ more \<and> set (keys more) \<subseteq> ustr ` fst ` set cs \<and>
    (\<forall>gs. (\<forall>k\<in>fst ` set cs. map_of gs (ustr k) = map_of more (ustr k)) \<longrightarrow> copy_checked cs gs pre = Inr out)"
  using assms
proof (induction cs arbitrary: pre)
  case (Cons c cs)
  obtain k check where c: "c = (k, check)" by fastforce
  have settled: "settled check" "list_all (\<lambda>c. settled (snd c)) cs" "distinct (map fst cs)"
    using Cons.prems by (simp_all add: c)
  show ?case
  proof (cases "has_key fs (ustr k)")
    case True
    then obtain w where w: "check (get fs k) = Inr w" "copy_checked cs fs (pre @ [(ustr k, w)]) = Inr out"
      using Cons.prems(1) by (auto simp: c bindR_Inr_iff)
    then obtain more where more: "out = (pre @ [(ustr k, w)]) @ more" "set (keys more) \<subseteq> ustr ` fst ` set cs"
        "\<And>gs. \<forall>k\<in>fst ` set cs. map_of gs (ustr k) = map_of more (ustr k) \<Longrightarrow> copy_checked cs gs (pre @ [(ustr k, w)]) = Inr out"
      using Cons.IH [OF w(2) settled(2,3)] by auto
    have again: "check w = Inr w" using settled(1) w(1) by (simp add: settled_def)
    have "copy_checked (c # cs) gs pre = Inr out"
      if gs: "\<forall>k'\<in>fst ` set (c # cs). map_of gs (ustr k') = map_of ((ustr k, w) # more) (ustr k')" for gs
    proof -
      have "copy_checked cs gs (pre @ [(ustr k, w)]) = Inr out"
        using gs Cons.prems(3) by (intro more(3)) (auto simp: c)
      with gs again show ?thesis by (simp add: c has_key_iff get_def)
    qed
    with more show ?thesis by (intro exI [of _ "(ustr k, w) # more"]) (auto simp: c keys_def)
  next
    case False
    then obtain more where more: "out = pre @ more" "set (keys more) \<subseteq> ustr ` fst ` set cs"
        "\<And>gs. \<forall>k\<in>fst ` set cs. map_of gs (ustr k) = map_of more (ustr k) \<Longrightarrow> copy_checked cs gs pre = Inr out"
      using Cons.IH [of pre] settled Cons.prems(1) by (auto simp: c)
    have "ustr k \<notin> ustr ` fst ` set cs" using Cons.prems(3) by (force simp: c)
    with more(2) have "map_of more (ustr k) = None" by (auto simp: map_of_eq_None_iff keys_def)
    with more show ?thesis by (intro exI [of _ more]) (auto simp: c has_key_iff)
  qed
qed (simp add: keys_def)

lemma cli_checks_settled: "list_all (\<lambda>c. settled (snd c)) cli_checks"
  by (auto simp: settled_def cli_checks_def cli_type_def cli_action_def one_of_Inr_iff as_text_def as_flag_def bindR_Inr_iff
      nonempty_text_Inr_iff matching_text_Inr_iff boolean_field_Inr_iff json_value_Inr(2))

lemma flags_again: "mapR (matching_text flag_text m) xs = Inr flags \<Longrightarrow> mapR (matching_text flag_text m) (map VStr flags) = Inr flags"
  by (induction xs arbitrary: flags) (auto simp: bindR_Inr_iff matching_text_Inr_iff)

lemma cli_argument_again:
  assumes "cli_argument settings v = Inr argument"
  shows "cli_argument settings (dict_of argument) = Inr argument"
proof -
  obtain fs xs flags where a: "mapR (matching_text flag_text cli_failure) xs = Inr flags" "flags \<noteq> []"
      "copy_checked cli_checks fs [(ustr ''flags'', VList (map VStr flags))] = Inr argument"
      "cli_defaults argument settings = Inr ()"
    using assms by (auto simp: cli_argument_def bindR_Inr_iff split: if_splits)
  have "distinct (map fst cli_checks)" by (simp add: cli_checks_def)
  then obtain more where more: "argument = [(ustr ''flags'', VList (map VStr flags))] @ more"
      "set (keys more) \<subseteq> ustr ` fst ` set cli_checks"
      "\<And>gs. \<forall>k\<in>fst ` set cli_checks. map_of gs (ustr k) = map_of more (ustr k) \<Longrightarrow>
        copy_checked cli_checks gs [(ustr ''flags'', VList (map VStr flags))] = Inr argument"
    using copy_checked_again [OF a(3) cli_checks_settled] by blast
  have "\<forall>k\<in>fst ` set cli_checks. map_of argument (ustr k) = map_of more (ustr k)"
    by (auto simp: more(1) cli_checks_def)
  then have "copy_checked cli_checks argument [(ustr ''flags'', VList (map VStr flags))] = Inr argument"
    by (rule more(3))
  moreover have "set (keys argument) \<subseteq> set cli_keys"
    using more(2) by (auto simp: more(1) keys_def cli_checks_def cli_keys_def)
  moreover have "get argument ''flags'' = VList (map VStr flags)" by (simp add: more(1) get_def)
  moreover have "object_field (dict_of argument) (ustr ''CLI argument'') = Inr argument" by (simp only: object_field_Inr_iff)
  ultimately show ?thesis
    using a flags_again [OF a(1)] by (simp add: cli_argument_def array_field_def)
qed

section \<open>Manifests that parse\<close>

definition manifest_ok :: "(int \<Rightarrow> bool) \<Rightarrow> manifest \<Rightarrow> bool" where
  "manifest_ok word m \<longleftrightarrow> name_text (plugin_id m) \<and> version_text (plugin_version m) \<and> 1 \<le> plugin_sdk m \<and>
     entrypoint_text word (entrypoint m) \<and> \<not> blank (description m) \<and> \<not> blank (plugin_instructions m) \<and>
     length (plugin_instructions m) \<le> max_instructions \<and>
     list_all (\<lambda>(k, s). name_text k \<and> version_text s) (requires m) \<and> json_data (dict_of (plugin_defaults m)) \<and>
     list_all (\<lambda>a. cli_argument (plugin_defaults m) (dict_of a) = Inr a) (plugin_cli m) \<and>
     distinct (concat (map argument_flags (plugin_cli m)))"

lemma unique_flags_Inr_iff: "unique_flags seen fs = Inr u \<longleftrightarrow> distinct fs \<and> set fs \<inter> set seen = {}"
  by (induction seen fs rule: unique_flags.induct) auto

lemma cli_arguments_Inr:
  assumes "cli_arguments settings v = Inr arguments"
  shows "list_all (\<lambda>a. cli_argument settings (dict_of a) = Inr a) arguments" "distinct (concat (map argument_flags arguments))"
proof -
  obtain xs where xs: "mapR (cli_argument settings) xs = Inr arguments"
      "unique_flags [] (concat (map argument_flags arguments)) = Inr ()"
    using assms by (auto simp: cli_arguments_def bindR_Inr_iff)
  have "list_all2 (\<lambda>x a. cli_argument settings x = Inr a) xs arguments" using xs(1) by (simp add: mapR_Inr_iff)
  then show "list_all (\<lambda>a. cli_argument settings (dict_of a) = Inr a) arguments"
    by (induction rule: list_all2_induct) (auto dest: cli_argument_again)
  show "distinct (concat (map argument_flags arguments))" using xs(2) by (simp add: unique_flags_Inr_iff)
qed

lemma cli_arguments_again:
  assumes "list_all (\<lambda>a. cli_argument settings (dict_of a) = Inr a) arguments" "distinct (concat (map argument_flags arguments))"
  shows "mapR (\<lambda>a. cli_argument settings (dict_of a)) arguments = Inr arguments"
    "cli_arguments settings (VList (map dict_of arguments)) = Inr arguments"
proof -
  have "mapR (cli_argument settings) (map dict_of arguments) = Inr arguments"
    "mapR (\<lambda>a. cli_argument settings (dict_of a)) arguments = Inr arguments"
    using assms(1) by (induction arguments) auto
  moreover have "unique_flags [] (concat (map argument_flags arguments)) = Inr ()"
    using assms(2) by (simp only: unique_flags_Inr_iff) simp
  ultimately show "mapR (\<lambda>a. cli_argument settings (dict_of a)) arguments = Inr arguments"
      "cli_arguments settings (VList (map dict_of arguments)) = Inr arguments"
    by (simp_all add: cli_arguments_def array_field_def)
qed

lemma parse_manifest_Inr_iff: "parse_manifest word cur v = Inr m \<longleftrightarrow> manifest_document word cur v = Inr m"
  by (auto simp: parse_manifest_def rescue_Inr_iff raise_text_def)

lemma manifest_document_ok:
  assumes "manifest_document word cur v = Inr m"
  shows "manifest_ok word m \<and> (cur \<longrightarrow> plugin_sdk m = api_version)"
  using assms cli_arguments_Inr [of "plugin_defaults m" _ "plugin_cli m"] json_value_Inr(1) [of _ _ "dict_of (plugin_defaults m)"]
  by (auto simp: manifest_document_def manifest_ok_def bindR_Inr_iff matching_text_Inr_iff nonempty_text_Inr_iff
      sdk_field_Inr_iff requires_field_Inr_iff object_field_Inr_iff split: if_splits)

lemma json_value_data: "json_data v \<Longrightarrow> json_value path v = Inr v"
  using json_data_freezes(1) [of v path] json_data_freeze_plain(2) [of v path] by (auto simp: json_value_def)

lemma write_document_eq:
  assumes "manifest_ok word m"
  shows "write_document m = Inr (dict_of [(ustr ''id'', VStr (plugin_id m)), (ustr ''version'', VStr (plugin_version m)),
    (ustr ''sdk'', VInt (plugin_sdk m)), (ustr ''entrypoint'', VStr (entrypoint m)), (ustr ''description'', VStr (description m)),
    (ustr ''requires'', dict_of (map (\<lambda>(k, v). (k, VStr v)) (requires m))), (ustr ''defaults'', dict_of (plugin_defaults m)),
    (ustr ''cli'', VList (map dict_of (plugin_cli m))), (ustr ''instructions'', VStr (plugin_instructions m))])"
proof -
  have "plain (dict_of (plugin_defaults m)) = dict_of (plugin_defaults m)"
    using assms by (intro json_data_plain) (simp add: manifest_ok_def)
  with assms show ?thesis by (simp add: write_document_def manifest_ok_def cli_arguments_again)
qed

text \<open>C36: A manifest can be written and read back: the document of a manifest that parsed exists and
  parses, under the same SDK policy, to the manifest itself.\<close>

theorem manifest_reads_back:
  assumes "parse_manifest word cur v = Inr m"
  shows "\<exists>d. write_document m = Inr d \<and> parse_manifest word cur d = Inr m"
proof -
  have ok: "manifest_ok word m" "cur \<longrightarrow> plugin_sdk m = api_version"
    using assms manifest_document_ok by (auto simp: parse_manifest_Inr_iff)
  have raw: "object_field (dict_of fs) path = Inr fs" "requires_field (dict_of (map (\<lambda>(k, v). (k, VStr v)) (requires m))) = Inr (requires m)" for fs path
    using ok by (simp_all add: object_field_Inr_iff requires_field_Inr_iff manifest_ok_def)
  have "matching_text name_text x (VStr (plugin_id m)) = Inr (plugin_id m)"
      "matching_text version_text x (VStr (plugin_version m)) = Inr (plugin_version m)"
      "matching_text (entrypoint_text word) x (VStr (entrypoint m)) = Inr (entrypoint m)"
      "nonempty_text x (VStr (description m)) = Inr (description m)"
      "nonempty_text x (VStr (plugin_instructions m)) = Inr (plugin_instructions m)"
      "sdk_field (plugin_id m) cur (VInt (plugin_sdk m)) = Inr (plugin_sdk m)" for x
    using ok by (simp_all add: matching_text_Inr_iff nonempty_text_Inr_iff sdk_field_Inr_iff manifest_ok_def)
  with ok show ?thesis
    by (simp add: write_document_eq [OF ok(1)] parse_manifest_Inr_iff manifest_document_def raw get_def get_or_def has_key_def keys_def
        required_keys_def manifest_ok_def json_value_data cli_arguments_again)
qed

lemma caught_plugin_error: "caught_by [PluginError] e \<longleftrightarrow> exn_kind e = PluginError"
  by (cases e; cases "exn_kind e") (simp_all add: caught_by_def isa_def numeral_eq_Suc)

definition plugin_errors :: "exn_class list" where
  "plugin_errors = [PluginError, ConfigurationError]"

lemma plugin_errors_raise [simp]: "list_ex (isa PluginError) plugin_errors" "list_ex (isa ConfigurationError) plugin_errors"
  by (simp_all add: plugin_errors_def)

lemma raises_freeze:
  "only_raises plugin_errors (freeze_settings v path)" "only_raises plugin_errors (freeze_items d path)"
  "only_raises plugin_errors (freeze_elems xs i path)"
  by (induction v path and d path and xs i path rule: freeze_settings_freeze_items_freeze_elems.induct)
     (auto intro!: only_raises_bindR simp: configuration_fields_def split: option.splits)

lemma raises_checks [simp]:
  "only_raises plugin_errors (matching_text f msg v)" "only_raises plugin_errors (nonempty_text msg v)"
  "only_raises plugin_errors (sdk_field i cur v)" "only_raises plugin_errors (one_of names msg v)"
  "only_raises plugin_errors (object_field v p)" "only_raises plugin_errors (array_field v p)"
  "only_raises plugin_errors (boolean_field v p)" "only_raises plugin_errors (json_value path v)"
  "only_raises plugin_errors (cli_defaults a settings)"
  by (auto simp: matching_text_def nonempty_text_def sdk_field_def one_of_def object_field_def array_field_def boolean_field_def
      json_value_def cli_defaults_def Let_def raises_freeze intro!: only_raises_bindR split: pyval.splits option.splits)

lemma raises_unique [simp]: "only_raises plugin_errors (unique_flags seen fs)"
  by (induction seen fs rule: unique_flags.induct) auto

lemma raises_copy:
  "list_all (\<lambda>c. \<forall>v. only_raises plugin_errors (snd c v)) cs \<Longrightarrow> only_raises plugin_errors (copy_checked cs fs a)"
  by (induction cs fs a rule: copy_checked.induct) (auto intro!: only_raises_bindR)

lemma raises_cli_checks [simp]: "only_raises plugin_errors (copy_checked cli_checks fs a)"
  by (rule raises_copy) (auto simp: cli_checks_def cli_type_def cli_action_def as_text_def as_flag_def intro!: only_raises_bindR)

lemma raises_requires [simp]: "only_raises plugin_errors (requires_field v)"
proof -
  have "only_raises ([ConfigurationError] @ plugin_errors) (object_field v (ustr ''dependencies''))"
    by (rule only_raises_mono [OF raises_checks(5)]) auto
  then show ?thesis
    by (auto simp: requires_field_def intro!: only_raises_bindR only_raises_mapR only_raises_rescue)
qed

lemma raises_arguments [simp]: "only_raises plugin_errors (cli_arguments settings v)"
  by (auto simp: cli_arguments_def cli_argument_def intro!: only_raises_bindR only_raises_mapR)

lemma raises_document: "only_raises plugin_errors (manifest_document word cur v)"
  by (auto simp: manifest_document_def intro!: only_raises_bindR)

lemma raises_parse: "only_raises [PluginError] (parse_manifest word cur v)"
  unfolding parse_manifest_def
  by (intro only_raises_rescue only_raises_mono [OF raises_document]) (auto simp: plugin_errors_def)

text \<open>C37: What parsing accepts is well formed (identifier, version, dependencies, entry point, arguments
  with distinct flags, JSON defaults, instructions within the limit), and under the current SDK policy
  of this SDK version; every refusal is a plugin error.\<close>

theorem parsed_manifest_ok:
  "case parse_manifest word cur v of
      Inr m \<Rightarrow> manifest_ok word m \<and> (if cur then plugin_sdk m = api_version else 1 \<le> plugin_sdk m)
    | Inl e \<Rightarrow> exn_kind e = PluginError"
proof (cases "parse_manifest word cur v")
  case (Inl e)
  then show ?thesis using raises_parse [of word cur v] by (simp add: only_raises_def caught_plugin_error)
next
  case (Inr m)
  then have "manifest_ok word m \<and> (if cur then plugin_sdk m = api_version else 1 \<le> plugin_sdk m)"
    using manifest_document_ok [of word cur v m] by (auto simp: parse_manifest_Inr_iff manifest_ok_def)
  with Inr show ?thesis by simp
qed

definition demo_word :: "int \<Rightarrow> bool" where
  "demo_word c \<longleftrightarrow> ascii_letter c \<or> ascii_digit c \<or> c = 95"

definition demo_manifest :: manifest where
  "demo_manifest = \<lparr>plugin_id = ustr ''notes'', plugin_version = ustr ''1.0.12'', plugin_sdk = 4, entrypoint = ustr ''notes.main:register'',
     description = ustr ''d'', requires = [(ustr ''base'', ustr ''2.1.0'')], plugin_defaults = [(ustr ''n'', VInt 3)],
     plugin_cli = [[(ustr ''flags'', VList [VStr (ustr ''--n'')]), (ustr ''type'', VStr (ustr ''int'')), (ustr ''setting'', VStr (ustr ''n''))]],
     plugin_instructions = ustr ''use''\<rparr>"

definition demo_document :: pyval where
  "demo_document = dict_of [(ustr ''id'', VStr (ustr ''notes'')), (ustr ''version'', VStr (ustr ''1.0.12'')), (ustr ''sdk'', VInt 4),
     (ustr ''cli'', VList [dict_of [(ustr ''setting'', VStr (ustr ''n'')), (ustr ''type'', VStr (ustr ''int'')),
       (ustr ''flags'', VList [VStr (ustr ''--n'')])]]), (ustr ''defaults'', dict_of [(ustr ''n'', VInt 3)]),
     (ustr ''entrypoint'', VStr (ustr ''notes.main:register'')), (ustr ''description'', VStr (ustr ''d'')),
     (ustr ''requires'', dict_of [(ustr ''base'', VStr (ustr ''2.1.0''))]), (ustr ''instructions'', VStr (ustr ''use''))]"

lemma demo_manifest_parses: "parse_manifest demo_word True demo_document = Inr demo_manifest"
  by code_simp

lemma manifest_reads_back_witness:
  "\<exists>d. write_document demo_manifest = Inr d \<and> parse_manifest demo_word True d = Inr demo_manifest"
  by (rule manifest_reads_back [OF demo_manifest_parses])

end
