(* ===== verification/Package_Order.thy ===== *)
theory Package_Order
  imports Packages
begin

text \<open>
  \<open>dependency_order\<close> of \<open>raychat/packages.py\<close>: a depth-first search over the selected manifests that
  lists every plugin after its dependencies. \<open>visit\<close> is the inner function with the three
  collections it mutates; \<open>visit_requires\<close> is its loop over the dependencies of one plugin. An
  exception abandons the collections, which are local to the call.
\<close>

section \<open>The search\<close>

record order_state =
  visiting :: "pystr set"
  visited :: "pystr set"
  ordered :: "pystr list"

type_synonym manifests = "(pystr, manifest) dict"

definition conflict_text :: "pystr \<Rightarrow> pystr \<Rightarrow> pystr \<Rightarrow> pystr" where
  "conflict_text name dependency version = ustr ''Dependency conflict: '' @ name @ ustr '' requires '' @ dependency @
     ustr ''@'' @ version @ ustr ''.''"

function visit :: "manifests \<Rightarrow> pystr set \<Rightarrow> pystr \<Rightarrow> order_state \<Rightarrow> order_state result"
  and visit_requires :: "manifests \<Rightarrow> pystr set \<Rightarrow> pystr \<Rightarrow> (pystr, pystr) dict \<Rightarrow> order_state \<Rightarrow> order_state result" where
  "visit ms excluded name s =
     (if name \<in> visiting s then raise_text PluginError (ustr ''Plugin dependency cycle: '' @ name)
      else if name \<in> visited s then Inr s
      else if name \<in> excluded \<or> name \<notin> fst ` set ms
        then raise_text PluginError (ustr ''Missing or disabled plugin dependency: '' @ name)
      else case visit_requires ms excluded name (case map_of ms name of Some m \<Rightarrow> requires m | None \<Rightarrow> [])
          (s\<lparr>visiting := insert name (visiting s)\<rparr>) of
        Inl e \<Rightarrow> Inl e
      | Inr s' \<Rightarrow> Inr (s'\<lparr>visiting := visiting s' - {name}, visited := insert name (visited s'), ordered := ordered s' @ [name]\<rparr>))"
| "visit_requires ms excluded name [] s = Inr s"
| "visit_requires ms excluded name ((dependency, version) # ds) s =
     (case visit ms excluded dependency s of
        Inl e \<Rightarrow> Inl e
      | Inr s' \<Rightarrow>
          if map_option plugin_version (map_of ms dependency) \<noteq> Some version
          then raise_text PluginError (conflict_text name dependency version)
          else visit_requires ms excluded name ds s')"
  by pat_completeness auto

text \<open>A call that returns leaves the set of open plugins as it found it, so an open set that only
  grows on the way down is a subset of the manifests.\<close>

lemma visiting_kept:
  "visit_visit_requires_dom (Inl (ms, excluded, name, s)) \<Longrightarrow> visit ms excluded name s = Inr s' \<Longrightarrow> visiting s' = visiting s"
  "visit_visit_requires_dom (Inr (ms, excluded, name, ds, s)) \<Longrightarrow> visit_requires ms excluded name ds s = Inr s' \<Longrightarrow>
     visiting s' = visiting s"
proof (induction ms excluded name s and ms excluded name ds s arbitrary: s' and s' rule: visit_visit_requires.pinduct)
  case (1 ms excluded name s)
  note unfolded = "1.prems" [unfolded visit.psimps [OF "1.hyps"]]
  show ?case
  proof (cases "name \<in> visiting s \<or> name \<in> visited s \<or> name \<in> excluded \<or> name \<notin> fst ` set ms")
    case True
    then consider "name \<in> visiting s" | "name \<notin> visiting s" "name \<in> visited s"
      | "name \<notin> visiting s" "name \<notin> visited s" "name \<in> excluded \<or> name \<notin> fst ` set ms" by blast
    then show ?thesis using unfolded by cases (simp_all only: raise_text_def if_True if_False refl sum.distinct sum.inject)
  next
    case False
    show ?thesis
    proof (cases "visit_requires ms excluded name (case map_of ms name of Some m \<Rightarrow> requires m | None \<Rightarrow> [])
        (s\<lparr>visiting := insert name (visiting s)\<rparr>)")
      case (Inl e)
      with unfolded False show ?thesis by simp
    next
      case (Inr s1)
      with unfolded False have "s' = s1\<lparr>visiting := visiting s1 - {name}, visited := insert name (visited s1), ordered := ordered s1 @ [name]\<rparr>"
        by simp
      with "1.IH" [OF _ _ _ Inr] False show ?thesis by simp
    qed
  qed
next
  case (2 ms excluded name s)
  then show ?case by (simp add: visit_requires.psimps)
next
  case (3 ms excluded name dependency version ds s)
  note unfolded = "3.prems" [unfolded visit_requires.psimps(2) [OF "3.hyps"]]
  show ?case
  proof (cases "visit ms excluded dependency s")
    case (Inl e)
    with unfolded show ?thesis by simp
  next
    case (Inr s1)
    have u: "(if map_option plugin_version (map_of ms dependency) \<noteq> Some version
        then raise_text PluginError (conflict_text name dependency version) else visit_requires ms excluded name ds s1) = Inr s'"
      using unfolded unfolding Inr sum.case .
    then have "map_option plugin_version (map_of ms dependency) = Some version"
      by (cases "map_option plugin_version (map_of ms dependency) = Some version") (simp_all only: raise_text_def simp_thms if_True sum.distinct)
    moreover from this u have "visit_requires ms excluded name ds s1 = Inr s'"
      by (simp only: simp_thms if_False)
    ultimately have "visiting s' = visiting s1" using "3.IH"(2) [OF Inr] by blast
    with "3.IH"(1) [OF Inr] show ?thesis by simp
  qed
qed

termination visit
proof (relation "inv_image (less_than <*lex*> less_than)
    (\<lambda>x. case x of Inl (ms, _, _, s) \<Rightarrow> (card (fst ` set ms - visiting s), 0)
      | Inr (ms, _, _, ds, s) \<Rightarrow> (card (fst ` set ms - visiting s), Suc (length ds)))", goal_cases)
  case 1
  then show ?case by (intro wf_inv_image wf_lex_prod wf_less_than)
next
  case (2 ms excluded name s)
  then have "fst ` set ms - insert name (visiting s) \<subset> fst ` set ms - visiting s" by auto
  then have "card (fst ` set ms - insert name (visiting s)) < card (fst ` set ms - visiting s)"
    by (intro psubset_card_mono) simp
  then show ?case by simp
next
  case (3 ms excluded name dependency version ds s)
  then show ?case by simp
next
  case (4 ms excluded name dependency version ds s s')
  then have "visiting s' = visiting s" using visiting_kept(1) by blast
  then show ?case by simp
qed

declare visit.simps [simp del]

fun visit_all :: "manifests \<Rightarrow> pystr set \<Rightarrow> pystr list \<Rightarrow> order_state \<Rightarrow> order_state result" where
  "visit_all ms excluded [] s = Inr s"
| "visit_all ms excluded (n # ns) s = bindR (visit ms excluded n s) (visit_all ms excluded ns)"

definition selection :: "manifests \<Rightarrow> pystr list option \<Rightarrow> pystr list" where
  "selection ms selected = (case selected of None \<Rightarrow> keys ms | Some ns \<Rightarrow> ns)"

definition dependency_order :: "manifests \<Rightarrow> pystr list option \<Rightarrow> pystr list \<Rightarrow> pystr list result" where
  "dependency_order ms selected disabled =
     bindR (visit_all ms (set disabled) (selection ms selected) \<lparr>visiting = {}, visited = {}, ordered = []\<rparr>)
       (\<lambda>s. Inr (ordered s))"

section \<open>One call\<close>

lemma visit_Inr_iff:
  "visit ms excluded n s = Inr s' \<longleftrightarrow> n \<notin> visiting s \<and>
     (n \<in> visited s \<and> s' = s \<or>
      n \<notin> visited s \<and> n \<notin> excluded \<and> (\<exists>m s1. map_of ms n = Some m \<and>
        visit_requires ms excluded n (requires m) (s\<lparr>visiting := insert n (visiting s)\<rparr>) = Inr s1 \<and>
        s' = s1\<lparr>visiting := visiting s1 - {n}, visited := insert n (visited s1), ordered := ordered s1 @ [n]\<rparr>))"
proof (cases "map_of ms n")
  case None
  then have "n \<notin> fst ` set ms" by (simp add: map_of_eq_None_iff)
  with None show ?thesis by (subst visit.simps) (auto simp: raise_text_def)
next
  case (Some m)
  then have "n \<in> fst ` set ms" by (metis map_of_eq_None_iff option.distinct(1))
  with Some show ?thesis
    by (subst visit.simps) (auto simp: raise_text_def split: sum.splits)
qed

lemma visit_requires_Inr_iff:
  "visit_requires ms excluded n ((d, v) # ds) s = Inr s' \<longleftrightarrow>
     (\<exists>s1 m. visit ms excluded d s = Inr s1 \<and> map_of ms d = Some m \<and> plugin_version m = v \<and>
        visit_requires ms excluded n ds s1 = Inr s')"
  by (auto simp: raise_text_def split: sum.splits if_splits)

declare visit_requires.simps(2) [simp del]

section \<open>Orders that install\<close>

text \<open>Every plugin once, after its dependencies, each of which has the version it asks for.\<close>

definition ready :: "manifests \<Rightarrow> pystr set \<Rightarrow> pystr list \<Rightarrow> pystr \<Rightarrow> bool" where
  "ready ms excluded done_names n \<longleftrightarrow> n \<notin> excluded \<and> (case map_of ms n of None \<Rightarrow> False
     | Some m \<Rightarrow> list_all (\<lambda>(d, v). d \<in> set done_names \<and> map_option plugin_version (map_of ms d) = Some v) (requires m))"

fun in_order :: "manifests \<Rightarrow> pystr set \<Rightarrow> pystr list \<Rightarrow> pystr list \<Rightarrow> bool" where
  "in_order ms excluded done_names [] = True"
| "in_order ms excluded done_names (n # ns) =
     (n \<notin> set done_names \<and> ready ms excluded done_names n \<and> in_order ms excluded (done_names @ [n]) ns)"

lemma in_order_append:
  "in_order ms excluded ds (xs @ ys) \<longleftrightarrow> in_order ms excluded ds xs \<and> in_order ms excluded (ds @ xs) ys"
  by (induction xs arbitrary: ds) simp_all

text \<open>What the roots need.\<close>

inductive needed :: "manifests \<Rightarrow> pystr set \<Rightarrow> pystr \<Rightarrow> bool" for ms :: manifests and roots :: "pystr set" where
  root: "n \<in> roots \<Longrightarrow> needed ms roots n"
| dependency: "needed ms roots n \<Longrightarrow> map_of ms n = Some m \<Longrightarrow> (d, v) \<in> set (requires m) \<Longrightarrow> needed ms roots d"

lemma needed_trans: "needed ms R x \<Longrightarrow> (\<And>r. r \<in> R \<Longrightarrow> needed ms S r) \<Longrightarrow> needed ms S x"
  by (induction rule: needed.induct) (auto intro: needed.dependency)

lemma needed_mono: "needed ms R x \<Longrightarrow> R \<subseteq> S \<Longrightarrow> needed ms S x"
  by (rule needed_trans) (auto intro: needed.root)

section \<open>What the search finds is an order\<close>

definition order_ok :: "manifests \<Rightarrow> pystr set \<Rightarrow> order_state \<Rightarrow> bool" where
  "order_ok ms excluded s \<longleftrightarrow> in_order ms excluded [] (ordered s) \<and> visited s = set (ordered s) \<and> visiting s \<inter> visited s = {}"

definition extends :: "manifests \<Rightarrow> pystr set \<Rightarrow> pystr set \<Rightarrow> order_state \<Rightarrow> order_state \<Rightarrow> bool" where
  "extends ms excluded roots s s' \<longleftrightarrow> order_ok ms excluded s' \<and> visiting s' = visiting s \<and> visited s \<subseteq> visited s' \<and>
     visited s' \<subseteq> visited s \<union> {x. needed ms roots x}"

lemma extends_trans:
  "extends ms excluded R s s1 \<Longrightarrow> extends ms excluded R' s1 s2 \<Longrightarrow> R \<subseteq> S \<Longrightarrow> R' \<subseteq> S \<Longrightarrow> extends ms excluded S s s2"
  using needed_mono [of ms R _ S] needed_mono [of ms R' _ S] unfolding extends_def by blast

lemma visit_extends:
  "visit ms excluded n s = Inr s' \<Longrightarrow> order_ok ms excluded s \<Longrightarrow> extends ms excluded {n} s s' \<and> n \<in> visited s'"
  "visit_requires ms excluded n ds s = Inr s' \<Longrightarrow> order_ok ms excluded s \<Longrightarrow>
     extends ms excluded (fst ` set ds) s s' \<and>
     list_all (\<lambda>(d, v). d \<in> visited s' \<and> map_option plugin_version (map_of ms d) = Some v) ds"
proof (induction ms excluded n s and ms excluded n ds s arbitrary: s' and s' rule: visit_visit_requires.induct)
  case (1 ms excluded n s)
  show ?case
  proof (cases "n \<in> visited s")
    case True
    with 1 show ?thesis by (auto simp: visit_Inr_iff extends_def)
  next
    case False
    then obtain m s1 where m: "n \<notin> visiting s" "n \<notin> excluded" "map_of ms n = Some m"
        "visit_requires ms excluded n (requires m) (s\<lparr>visiting := insert n (visiting s)\<rparr>) = Inr s1"
        "s' = s1\<lparr>visiting := visiting s1 - {n}, visited := insert n (visited s1), ordered := ordered s1 @ [n]\<rparr>"
      using "1.prems"(1) by (auto simp: visit_Inr_iff)
    have "n \<in> fst ` set ms" using m(3) by (metis map_of_eq_None_iff option.distinct(1))
    moreover have "order_ok ms excluded (s\<lparr>visiting := insert n (visiting s)\<rparr>)"
      using "1.prems"(2) False by (auto simp: order_ok_def)
    ultimately have s1: "extends ms excluded (fst ` set (requires m)) (s\<lparr>visiting := insert n (visiting s)\<rparr>) s1"
        "list_all (\<lambda>(d, v). d \<in> visited s1 \<and> map_option plugin_version (map_of ms d) = Some v) (requires m)"
      using "1.IH" [of s1] m False by auto
    have "needed ms {n} x" if "needed ms (fst ` set (requires m)) x" for x
      using that by (rule needed_trans) (auto intro: needed.root needed.dependency [OF needed.root m(3)])
    with s1 m False show ?thesis
      by (auto simp: extends_def order_ok_def in_order_append ready_def intro: needed.root)
  qed
next
  case (2 ms excluded n s)
  then show ?case by (simp add: extends_def)
next
  case (3 ms excluded n d v ds s)
  obtain s1 m where s1: "visit ms excluded d s = Inr s1" "map_of ms d = Some m" "plugin_version m = v"
      "visit_requires ms excluded n ds s1 = Inr s'"
    using "3.prems"(1) by (auto simp: visit_requires_Inr_iff)
  have e1: "extends ms excluded {d} s s1" "d \<in> visited s1" using "3.IH"(1) s1(1) "3.prems"(2) by auto
  then have "order_ok ms excluded s1" by (simp add: extends_def)
  then have e2: "extends ms excluded (fst ` set ds) s1 s'"
      "list_all (\<lambda>(d, v). d \<in> visited s' \<and> map_option plugin_version (map_of ms d) = Some v) ds"
    using "3.IH"(2) [OF s1(1) _ s1(4)] s1(2,3) by auto
  then have "d \<in> visited s'" using e1(2) by (auto simp: extends_def)
  with e1 e2 s1(2,3) extends_trans [OF e1(1) e2(1), of "fst ` set ((d, v) # ds)"] show ?case by auto
qed

lemma visit_all_extends:
  "visit_all ms excluded ns s = Inr s' \<Longrightarrow> order_ok ms excluded s \<Longrightarrow> extends ms excluded (set ns) s s' \<and> set ns \<subseteq> visited s'"
proof (induction ns arbitrary: s)
  case (Cons n ns)
  then obtain s1 where s1: "visit ms excluded n s = Inr s1" "visit_all ms excluded ns s1 = Inr s'"
    by (auto simp: bindR_Inr_iff)
  have e1: "extends ms excluded {n} s s1" "n \<in> visited s1" using visit_extends(1) s1(1) Cons.prems(2) by auto
  then have e2: "extends ms excluded (set ns) s1 s'" "set ns \<subseteq> visited s'"
    using Cons.IH [OF s1(2)] by (auto simp: extends_def)
  with e1 extends_trans [OF e1(1) e2(1), of "set (n # ns)"] show ?case by (auto simp: extends_def)
qed (simp add: extends_def)

lemma in_order_closed:
  "in_order ms excluded ds ns \<Longrightarrow> n \<in> set ns \<Longrightarrow> map_of ms n = Some m \<Longrightarrow> (d, v) \<in> set (requires m) \<Longrightarrow> d \<in> set ds \<union> set ns"
  by (induction ns arbitrary: ds) (fastforce simp: ready_def list_all_iff)+

lemma order_of_needed:
  assumes "in_order ms excluded [] ns" "roots \<subseteq> set ns" "needed ms roots n"
  shows "n \<in> set ns"
  using assms(3) by induction (use assms in_order_closed [OF assms(1)] in auto)

lemma order_lists_needed:
  assumes "dependency_order ms selected disabled = Inr names"
  shows "in_order ms (set disabled) [] names" "set (selection ms selected) \<subseteq> set names"
    "set names \<subseteq> {n. needed ms (set (selection ms selected)) n}"
proof -
  obtain s where s: "visit_all ms (set disabled) (selection ms selected) \<lparr>visiting = {}, visited = {}, ordered = []\<rparr> = Inr s"
      "names = ordered s"
    using assms by (auto simp: dependency_order_def bindR_Inr_iff)
  then show "in_order ms (set disabled) [] names" "set (selection ms selected) \<subseteq> set names"
      "set names \<subseteq> {n. needed ms (set (selection ms selected)) n}"
    using visit_all_extends [OF s(1)] by (auto simp: extends_def order_ok_def)
qed

section \<open>The search finds an order if there is one\<close>

text \<open>In an order every dependency stands at a smaller position.\<close>

definition position :: "pystr list \<Rightarrow> pystr \<Rightarrow> nat" where
  "position ns n = length (takeWhile (\<lambda>x. x \<noteq> n) ns)"

definition ranked :: "manifests \<Rightarrow> pystr set \<Rightarrow> pystr list \<Rightarrow> pystr \<Rightarrow> bool" where
  "ranked ms excluded ns n \<longleftrightarrow> n \<in> set ns \<and> n \<notin> excluded \<and> (\<exists>m. map_of ms n = Some m \<and>
     (\<forall>(d, v)\<in>set (requires m). d \<in> set ns \<and> position ns d < position ns n \<and> map_option plugin_version (map_of ms d) = Some v))"

lemma position_less: "d \<in> set ds \<Longrightarrow> n \<notin> set ds \<Longrightarrow> position (ds @ ns) d < position (ds @ ns) n"
  unfolding position_def by (induction ds) auto

lemma in_order_ranked: "in_order ms excluded ds ns \<Longrightarrow> n \<in> set ns \<Longrightarrow> ranked ms excluded (ds @ ns) n"
proof (induction ns arbitrary: ds)
  case (Cons x ns)
  show ?case
  proof (cases "n = x")
    case True
    with Cons.prems position_less [of _ ds x "x # ns"] show ?thesis
      by (fastforce simp: ranked_def ready_def list_all_iff split: option.splits)
  next
    case False
    with Cons.IH [of "ds @ [x]"] Cons.prems show ?thesis by simp
  qed
qed simp

lemma visiting_unchanged:
  "visit ms excluded n s = Inr s' \<Longrightarrow> visiting s' = visiting s"
  "visit_requires ms excluded n ds s = Inr s' \<Longrightarrow> visiting s' = visiting s"
proof (induction ms excluded n s and ms excluded n ds s arbitrary: s' and s' rule: visit_visit_requires.induct)
  case (1 ms excluded n s)
  show ?case
  proof (cases "n \<in> visited s")
    case True
    with "1.prems" show ?thesis by (auto simp: visit_Inr_iff)
  next
    case False
    then obtain m s1 where m: "n \<notin> visiting s" "n \<notin> excluded" "map_of ms n = Some m"
        "visit_requires ms excluded n (requires m) (s\<lparr>visiting := insert n (visiting s)\<rparr>) = Inr s1"
        "s' = s1\<lparr>visiting := visiting s1 - {n}, visited := insert n (visited s1), ordered := ordered s1 @ [n]\<rparr>"
      using "1.prems"(1) by (auto simp: visit_Inr_iff)
    have "n \<in> fst ` set ms" using m(3) by (metis map_of_eq_None_iff option.distinct(1))
    then have "visiting s1 = visiting (s\<lparr>visiting := insert n (visiting s)\<rparr>)"
      using "1.IH" [of s1] m(1-4) False by auto
    with m(1,5) show ?thesis by auto
  qed
next
  case (3 ms excluded n d v ds s)
  obtain s1 m where s1: "visit ms excluded d s = Inr s1" "map_of ms d = Some m" "plugin_version m = v"
      "visit_requires ms excluded n ds s1 = Inr s'"
    using "3.prems" by (auto simp: visit_requires_Inr_iff)
  have "visiting s' = visiting s1" using "3.IH"(2) [OF s1(1) _ s1(4)] s1(2,3) by simp
  with "3.IH"(1) [OF s1(1)] show ?case by simp
qed simp

lemma visit_succeeds:
  "ranked ms excluded ns n \<Longrightarrow> list_all (ranked ms excluded ns) ns \<Longrightarrow>
     (\<forall>x\<in>visiting s. position ns n < position ns x) \<Longrightarrow> \<exists>s'. visit ms excluded n s = Inr s'"
  "list_all (ranked ms excluded ns) ns \<Longrightarrow>
     list_all (\<lambda>(d, v). d \<in> set ns \<and> position ns d < position ns n \<and> map_option plugin_version (map_of ms d) = Some v) ds \<Longrightarrow>
     (\<forall>x\<in>visiting s. position ns n \<le> position ns x) \<Longrightarrow> \<exists>s'. visit_requires ms excluded n ds s = Inr s'"
proof (induction ms excluded n s and ms excluded n ds s rule: visit_visit_requires.induct)
  case (1 ms excluded n s)
  obtain m where m: "map_of ms n = Some m" "n \<notin> excluded"
      "list_all (\<lambda>(d, v). d \<in> set ns \<and> position ns d < position ns n \<and> map_option plugin_version (map_of ms d) = Some v) (requires m)"
    using "1.prems"(1) by (auto simp: ranked_def list_all_iff)
  have n: "n \<notin> visiting s" "n \<in> fst ` set ms"
    using "1.prems"(3) m(1) by (auto, metis map_of_eq_None_iff option.distinct(1))
  show ?case
  proof (cases "n \<in> visited s")
    case True
    with n show ?thesis by (auto simp: visit_Inr_iff)
  next
    case False
    have "\<exists>s'. visit_requires ms excluded n (requires m) (s\<lparr>visiting := insert n (visiting s)\<rparr>) = Inr s'"
      using "1.IH" False m n "1.prems" by (fastforce simp: less_imp_le)
    with False m n show ?thesis by (auto simp: visit_Inr_iff)
  qed
next
  case (2 ms excluded n s)
  then show ?case by simp
next
  case (3 ms excluded n d v ds s)
  have d: "d \<in> set ns" "position ns d < position ns n" "\<exists>m. map_of ms d = Some m \<and> plugin_version m = v"
    using "3.prems"(2) by auto
  have "ranked ms excluded ns d" using "3.prems"(1) d(1) by (simp add: list_all_iff)
  moreover have "\<forall>x\<in>visiting s. position ns d < position ns x" using "3.prems"(3) d(2) by (meson less_le_trans)
  ultimately obtain s1 where s1: "visit ms excluded d s = Inr s1" using "3.IH"(1) "3.prems"(1) by blast
  then have "visiting s1 = visiting s" by (rule visiting_unchanged(1))
  then have "\<exists>s'. visit_requires ms excluded n ds s1 = Inr s'"
    using "3.IH"(2) [OF s1] d(3) "3.prems" by auto
  with s1 d(3) show ?case by (auto simp: visit_requires_Inr_iff)
qed

lemma visit_all_succeeds:
  "list_all (ranked ms excluded ns) ns \<Longrightarrow> set rs \<subseteq> set ns \<Longrightarrow> visiting s = {} \<Longrightarrow> \<exists>s'. visit_all ms excluded rs s = Inr s'"
proof (induction rs arbitrary: s)
  case (Cons r rs)
  then obtain s1 where s1: "visit ms excluded r s = Inr s1"
    using visit_succeeds(1) [of ms excluded ns r s] by (auto simp: list_all_iff)
  with Cons visiting_unchanged(1) [OF s1] show ?case by simp
qed simp

lemma visit_raises:
  "visit ms excluded n s = Inl e \<Longrightarrow> exn_kind e = PluginError"
  "visit_requires ms excluded n ds s = Inl e \<Longrightarrow> exn_kind e = PluginError"
proof (induction ms excluded n s and ms excluded n ds s rule: visit_visit_requires.induct)
  case (1 ms excluded n s)
  note unfolded = "1.prems" [unfolded visit.simps [of ms excluded n s]]
  show ?case
  proof (cases "n \<in> visiting s \<or> n \<in> visited s \<or> n \<in> excluded \<or> n \<notin> fst ` set ms")
    case True
    with unfolded show ?thesis by (auto simp: raise_text_def split: if_splits)
  next
    case False
    with unfolded "1.IH" show ?thesis by (auto split: sum.splits)
  qed
next
  case (3 ms excluded n d v ds s)
  show ?case
  proof (cases "visit ms excluded d s")
    case (Inl e')
    with 3 show ?thesis by (simp add: visit_requires.simps(2))
  next
    case (Inr s1)
    with 3 show ?thesis by (auto simp: visit_requires.simps(2) raise_text_def split: if_splits)
  qed
qed simp

lemma visit_all_raises: "visit_all ms excluded ns s = Inl e \<Longrightarrow> exn_kind e = PluginError"
  by (induction ns arbitrary: s) (auto simp: bindR_Inl_iff dest: visit_raises(1))

section \<open>Guarantees\<close>

text \<open>C33: A dependency order that is returned is one: every plugin once, none of them disabled, each
  after its dependencies and these in the version it asks for; and the plugins in it are exactly
  the selected ones with everything they need.\<close>

theorem dependency_order_is_topological:
  assumes "dependency_order ms selected disabled = Inr names"
  shows "in_order ms (set disabled) [] names \<and> set names = {n. needed ms (set (selection ms selected)) n}"
  using order_lists_needed [OF assms] order_of_needed [of ms "set disabled" names "set (selection ms selected)"] by auto

text \<open>C32: The search fails only when it must: it returns an order exactly when some order of plugins that
  are present and enabled contains the selected ones and respects all dependencies. Its
  failure is a plugin error. It always ends: on a cycle too.\<close>

theorem dependency_order_is_complete:
  "(\<exists>names. dependency_order ms selected disabled = Inr names) =
     (\<exists>ns. in_order ms (set disabled) [] ns \<and> set (selection ms selected) \<subseteq> set ns) \<and>
   (case dependency_order ms selected disabled of Inl e \<Rightarrow> exn_kind e = PluginError | Inr _ \<Rightarrow> True)"
proof -
  let ?start = "\<lparr>visiting = {}, visited = {}, ordered = []\<rparr>"
  have "\<exists>names. dependency_order ms selected disabled = Inr names"
    if "in_order ms (set disabled) [] ns" "set (selection ms selected) \<subseteq> set ns" for ns
  proof -
    have "list_all (ranked ms (set disabled) ns) ns"
      using in_order_ranked [OF that(1)] by (simp add: list_all_iff)
    then show ?thesis
      using visit_all_succeeds [of ms "set disabled" ns "selection ms selected" ?start] that(2)
      by (auto simp: dependency_order_def)
  qed
  moreover have "\<exists>ns. in_order ms (set disabled) [] ns \<and> set (selection ms selected) \<subseteq> set ns"
    if found: "dependency_order ms selected disabled = Inr names" for names
  proof -
    obtain s where s: "visit_all ms (set disabled) (selection ms selected) ?start = Inr s"
      using found by (auto simp: dependency_order_def bindR_Inr_iff)
    have "order_ok ms (set disabled) ?start" by (simp add: order_ok_def)
    from visit_all_extends [OF s this] show ?thesis by (auto simp: extends_def order_ok_def)
  qed
  moreover have "exn_kind e = PluginError" if "dependency_order ms selected disabled = Inl e" for e
    using that visit_all_raises by (auto simp: dependency_order_def bindR_Inl_iff)
  ultimately show ?thesis by (auto split: sum.splits)
qed

section \<open>Examples\<close>

definition demo_package :: "string \<Rightarrow> (string \<times> string) list \<Rightarrow> pystr \<times> manifest" where
  "demo_package n ds = (ustr n, demo_manifest\<lparr>plugin_id := ustr n, requires := map (\<lambda>(d, v). (ustr d, ustr v)) ds\<rparr>)"

definition demo_packages :: manifests where
  "demo_packages = [demo_package ''c'' [(''b'', ''1.0.12''), (''a'', ''1.0.12'')], demo_package ''b'' [(''a'', ''1.0.12'')],
     demo_package ''x'' [(''x'', ''1.0.12'')], demo_package ''a'' []]"

lemma dependency_order_is_topological_witness:
  "in_order demo_packages {} [] (map ustr [''a'', ''b'', ''c'']) \<and> needed demo_packages {ustr ''c''} (ustr ''a'')"
proof -
  have "dependency_order demo_packages (Some [ustr ''c'']) [] = Inr (map ustr [''a'', ''b'', ''c''])" by code_simp
  from dependency_order_is_topological [OF this] show ?thesis by (auto simp: selection_def)
qed

text \<open>A plugin that needs itself is refused.\<close>

lemma cycle_is_refused:
  "dependency_order demo_packages (Some [ustr ''x'']) [] = raise PluginError ''Plugin dependency cycle: x''"
  by code_simp

end
