(* ===== verification/Package_Archives.thy ===== *)
theory Package_Archives
  imports Packages "HOL-Library.List_Lexorder"
begin

text \<open>
  The archives of \<open>raychat/packages.py\<close>: portable member names, the files of a package directory,
  packing, and unpacking into an empty directory. The ZIP container is the interpreter's: an
  archive is its length in bytes and what \<open>infolist\<close> and \<open>read\<close> return. A directory is a tree; what
  extraction writes is a map from paths to nodes, on a file system that distinguishes case. The
  operating system's own failures (a full disk) are not modelled, nor is the container's refusal to
  write a member whose name has no UTF-8 encoding: the names in a directory are taken to have one.
\<close>

type_synonym bytes = "int list"

record text_env =
  upper_of :: "pystr \<Rightarrow> pystr"
  casefold_of :: "pystr \<Rightarrow> pystr"
  repr_text :: "pyval \<Rightarrow> pystr"
  word_char :: "int \<Rightarrow> bool"
  decode_json :: "bytes \<Rightarrow> rawjson result"
  encode_name :: "pystr \<Rightarrow> bytes"

definition max_files :: int where
  "max_files = 2048"

definition max_bytes :: int where
  "max_bytes = 16 * 1024 * 1024"

section \<open>Portable names\<close>

text \<open>\<open>PurePosixPath(name)\<close>: a root and the parts, without empty ones and single dots.\<close>

definition path_root :: "pystr \<Rightarrow> pystr" where
  "path_root name = (if take 1 name \<noteq> [47] then [] else if take 2 name = [47, 47] \<and> take 3 name \<noteq> [47, 47, 47] then [47, 47] else [47])"

definition path_parts :: "pystr \<Rightarrow> pystr list" where
  "path_parts name = filter (\<lambda>p. p \<noteq> [] \<and> p \<noteq> [46]) (split_on 47 name)"

definition all_parts :: "pystr \<Rightarrow> pystr list" where
  "all_parts name = (if path_root name = [] then path_parts name else path_root name # path_parts name)"

definition path_string :: "pystr \<Rightarrow> pystr" where
  "path_string name = (if path_root name = [] \<and> path_parts name = [] then [46] else path_root name @ join [47] (path_parts name))"

definition reserved_names :: "pystr list" where
  "reserved_names = map ustr ([''CON'', ''PRN'', ''AUX'', ''NUL''] @
     concat (map (\<lambda>d. [''COM'' @ [d], ''LPT'' @ [d]]) ''123456789''))"

lemma reserved_names_points [code]: "reserved_names =
    [[67, 79, 78], [80, 82, 78], [65, 85, 88], [78, 85, 76], [67, 79, 77, 49], [76, 80, 84, 49], [67, 79, 77, 50],
     [76, 80, 84, 50], [67, 79, 77, 51], [76, 80, 84, 51], [67, 79, 77, 52], [76, 80, 84, 52], [67, 79, 77, 53],
     [76, 80, 84, 53], [67, 79, 77, 54], [76, 80, 84, 54], [67, 79, 77, 55], [76, 80, 84, 55], [67, 79, 77, 56],
     [76, 80, 84, 56], [67, 79, 77, 57], [76, 80, 84, 57]]"
  by code_simp

definition unsafe_part :: "text_env \<Rightarrow> pystr \<Rightarrow> bool" where
  "unsafe_part env part \<longleftrightarrow> part \<noteq> [] \<and> last part \<in> {32, 46} \<or> upper_of env (hd (split_on 46 part)) \<in> set reserved_names"

definition unsafe_text :: "pystr \<Rightarrow> bool" where
  "unsafe_text name \<longleftrightarrow> name = [] \<or> name = [46] \<or> list_ex (\<lambda>c. c \<in> {92, 0, 58}) name"

definition unsafe_path :: "pystr \<Rightarrow> bool" where
  "unsafe_path name \<longleftrightarrow> path_root name \<noteq> [] \<or> [46, 46] \<in> set (all_parts name) \<or> path_string name \<noteq> name"

definition unsafe_member :: "text_env \<Rightarrow> pyval \<Rightarrow> 'a result" where
  "unsafe_member env v = raise_text PluginError (ustr ''Unsafe package member: '' @ repr_text env v)"

definition safe_name :: "text_env \<Rightarrow> pyval \<Rightarrow> pystr list result" where
  "safe_name env v = (case v of
      VStr name \<Rightarrow> if unsafe_text name \<or> unsafe_path name \<or> list_ex (unsafe_part env) (all_parts name)
        then unsafe_member env v else Inr (all_parts name)
    | _ \<Rightarrow> unsafe_member env v)"

section \<open>The files of a directory\<close>

datatype node = Dir "(pystr \<times> node) list" | Regular bytes | Link | Special

fun rglob :: "pystr list \<Rightarrow> node \<Rightarrow> (pystr list \<times> node) list"
  and rglob_entries :: "pystr list \<Rightarrow> (pystr \<times> node) list \<Rightarrow> (pystr list \<times> node) list" where
  "rglob path (Dir entries) = rglob_entries path entries"
| "rglob path (Regular data) = []"
| "rglob path Link = []"
| "rglob path Special = []"
| "rglob_entries path [] = []"
| "rglob_entries path ((name, n) # entries) =
     (path @ [name], n) # rglob (path @ [name]) n @ rglob_entries path entries"

definition ignored_member :: "bool \<Rightarrow> pystr list \<Rightarrow> bool" where
  "ignored_member finder parts \<longleftrightarrow> list_ex (\<lambda>p. p \<in> set (map ustr [''.git'', ''__pycache__'', ''.venv''])) parts \<or>
     finder \<and> ustr ''.DS_Store'' \<in> set parts"

type_synonym members = "(pystr, bytes) dict"

definition read_member :: "node \<Rightarrow> int \<Rightarrow> bytes result" where
  "read_member n remaining = (case n of
      Regular data \<Rightarrow> if int (length data) > remaining then raise PluginError ''Package exceeds its byte limit.'' else Inr data
    | _ \<Rightarrow> raise PluginError ''Package members must be regular files.'')"

definition is_dir :: "node \<Rightarrow> bool" where
  "is_dir n = (case n of Dir entries \<Rightarrow> True | _ \<Rightarrow> False)"

fun read_files :: "text_env \<Rightarrow> bool \<Rightarrow> (pystr list \<times> node) list \<Rightarrow> members \<Rightarrow> int \<Rightarrow> pystr list \<Rightarrow> members result" where
  "read_files env finder [] found remaining folded = Inr found"
| "read_files env finder ((parts, n) # items) found remaining folded =
     (let name = join [47] parts; key = casefold_of env name in
      if ignored_member finder parts then read_files env finder items found remaining folded
      else bindR (safe_name env (VStr name)) (\<lambda>_.
        if key \<in> set folded then raise_text PluginError (ustr ''Case-colliding package member: '' @ name)
        else if n = Link then raise_text PluginError (ustr ''Package links are not supported: '' @ name)
        else if is_dir n then read_files env finder items found remaining (key # folded)
        else if int (length found) \<ge> max_files then raise PluginError ''Package exceeds its file limit.''
        else bindR (read_member n remaining) (\<lambda>data.
          read_files env finder items (AList.update name data found) (remaining - int (length data)) (key # folded))))"

definition manifest_bytes :: "members \<Rightarrow> bytes" where
  "manifest_bytes ms = (case map_of ms (ustr ''plugin.json'') of Some data \<Rightarrow> data | None \<Rightarrow> ustr ''{}'')"

definition check_manifest :: "text_env \<Rightarrow> members \<Rightarrow> manifest result" where
  "check_manifest env ms =
     bindR (bindR (decode_json env (manifest_bytes ms)) json_object) (parse_manifest (word_char env) True)"

text \<open>\<open>sorted\<close> compares the parts of the paths.\<close>

definition package_files :: "text_env \<Rightarrow> bool \<Rightarrow> bool \<Rightarrow> node \<Rightarrow> members result" where
  "package_files env validate_manifest finder dir =
     (if \<not> is_dir dir then raise PluginError ''Plugins must be SDK v4 package directories containing plugin.json.''
      else bindR (read_files env finder (sort_key fst (rglob [] dir)) [] max_bytes []) (\<lambda>ms.
        if validate_manifest then bindR (check_manifest env ms) (\<lambda>_. Inr ms) else Inr ms))"

text \<open>What \<open>digest\<close> hashes.\<close>

definition digest_input :: "text_env \<Rightarrow> members \<Rightarrow> bytes" where
  "digest_input env ms = concat (map (\<lambda>(name, data). encode_name env name @ 0 # data @ [0]) (sort_key fst ms))"

section \<open>Archives\<close>

record zip_entry =
  filename :: pystr
  entry_mode :: int
  file_size :: int
  entry_data :: "bytes result"

text \<open>\<open>S_IFMT\<close>: the upper four of sixteen bits; 8 is a regular file, 4 a directory, 10 a link.\<close>

definition mode_kind :: "int \<Rightarrow> int" where
  "mode_kind mode = mode div 4096 mod 16"

definition pack_entry :: "pystr \<times> bytes \<Rightarrow> zip_entry" where
  "pack_entry m = \<lparr>filename = fst m, entry_mode = 8 * 4096 + 420, file_size = int (length (snd m)), entry_data = Inr (snd m)\<rparr>"

definition pack :: "text_env \<Rightarrow> node \<Rightarrow> zip_entry list result" where
  "pack env dir = bindR (package_files env True True dir) (\<lambda>ms. Inr (map pack_entry ms))"

definition strip_slashes :: "pystr \<Rightarrow> pystr" where
  "strip_slashes s = rev (dropWhile (\<lambda>c. c = 47) (rev s))"

definition entry_is_dir :: "zip_entry \<Rightarrow> bool" where
  "entry_is_dir i \<longleftrightarrow> filename i \<noteq> [] \<and> last (filename i) = 47"

fun read_archive :: "text_env \<Rightarrow> zip_entry list \<Rightarrow> members \<Rightarrow> int \<Rightarrow> pystr list \<Rightarrow> members result" where
  "read_archive env [] found total_size folded = Inr found"
| "read_archive env (i # entries) found total_size folded =
     (let name = strip_slashes (filename i); key = casefold_of env name in
      bindR (safe_name env (VStr name)) (\<lambda>_.
      if mode_kind (entry_mode i) \<notin> {0, 8, 4} then raise PluginError ''Archive links and special files are forbidden.''
      else if key \<in> set folded then raise_text PluginError (ustr ''Duplicate or case-colliding archive entry: '' @ name)
      else if entry_is_dir i then read_archive env entries found total_size (key # folded)
      else if total_size + file_size i > max_bytes \<or> int (length found) \<ge> max_files
        then raise PluginError ''Expanded archive exceeds package limits.''
      else bindR (entry_data i) (\<lambda>data.
        read_archive env entries (AList.update name data found) (total_size + file_size i) (key # folded))))"

definition archive_members :: "text_env \<Rightarrow> zip_entry list \<Rightarrow> members result" where
  "archive_members env entries =
     (if int (length entries) > max_files then raise PluginError ''Archive exceeds its member limit.''
      else read_archive env entries [] 0 [])"

text \<open>The archive of a repository has one top-level directory.\<close>

definition top_name :: "pystr \<Rightarrow> pystr" where
  "top_name name = hd (split_on 47 name)"

definition strip_top :: "members \<Rightarrow> members result" where
  "strip_top ms =
     (if has_key ms (ustr ''plugin.json'') then Inr ms
      else case remdups (map top_name (keys ms)) of
          [p] \<Rightarrow> Inr (fold (\<lambda>(name, data). AList.update (removeprefix name (p @ [47])) data) ms [])
        | _ \<Rightarrow> raise PluginError ''Archive must contain one plugin package.'')"

definition parents :: "pystr list \<Rightarrow> pystr list list" where
  "parents parts = map (\<lambda>i. take i parts) [1..<length parts]"

fun check_parents :: "text_env \<Rightarrow> pystr list \<Rightarrow> pystr list \<Rightarrow> unit result" where
  "check_parents env folded [] = Inr ()"
| "check_parents env folded (name # names) =
     bindR (safe_name env (VStr name)) (\<lambda>parts.
     if list_ex (\<lambda>p. casefold_of env (join [47] p) \<in> set folded) (parents parts)
     then raise_text PluginError (ustr ''Archive member collides with a directory: '' @ name)
     else check_parents env folded names)"

definition checked_members :: "text_env \<Rightarrow> int \<Rightarrow> zip_entry list result \<Rightarrow> members result" where
  "checked_members env archive_bytes infolist =
     (if archive_bytes > max_bytes then raise PluginError ''Downloaded package exceeds its byte limit.''
      else bindR (bindR infolist (archive_members env)) (\<lambda>raw.
      bindR (strip_top raw) (\<lambda>ms.
      bindR (check_manifest env ms) (\<lambda>_.
      bindR (check_parents env (map (casefold_of env) (keys ms)) (keys ms)) (\<lambda>_. Inr ms)))))"

datatype written = Made_Dir | Made_File bytes

type_synonym extracted = "pystr list \<Rightarrow> written option"

fun make_dirs :: "pystr list list \<Rightarrow> extracted \<Rightarrow> extracted result" where
  "make_dirs [] t = Inr t"
| "make_dirs (p # ps) t = (case t p of
      Some (Made_File _) \<Rightarrow> raise OSError ''Not a directory''
    | _ \<Rightarrow> make_dirs ps (t(p \<mapsto> Made_Dir)))"

definition write_member :: "text_env \<Rightarrow> pystr \<times> bytes \<Rightarrow> extracted \<Rightarrow> extracted result" where
  "write_member env m t =
     bindR (safe_name env (VStr (fst m))) (\<lambda>parts.
     bindR (make_dirs (parents parts) t) (\<lambda>t.
     if t parts = Some Made_Dir then raise OSError ''Is a directory'' else Inr (t(parts \<mapsto> Made_File (snd m)))))"

fun write_members :: "text_env \<Rightarrow> members \<Rightarrow> extracted \<Rightarrow> extracted result" where
  "write_members env [] t = Inr t"
| "write_members env (m # ms) t = bindR (write_member env m t) (write_members env ms)"

text \<open>What is at the destination; \<open>Present\<close> lists the names in a directory, \<open>Not_Directory\<close> is a file, of which
  \<open>iterdir\<close> raises.\<close>

datatype destination = Missing | Linked | Present "pystr list" | Not_Directory

definition unpack :: "text_env \<Rightarrow> int \<Rightarrow> zip_entry list result \<Rightarrow> destination \<Rightarrow> extracted result" where
  "unpack env archive_bytes infolist destination =
     bindR (checked_members env archive_bytes infolist) (\<lambda>ms. case destination of
        Missing \<Rightarrow> write_members env ms Map.empty
      | Present [] \<Rightarrow> write_members env ms Map.empty
      | Not_Directory \<Rightarrow> raise OSError ''Not a directory''
      | _ \<Rightarrow> raise PluginError ''Archive destination must be an empty directory.'')"

section \<open>Safe names\<close>

lemma split_on_nonempty [simp]: "split_on c s \<noteq> []"
  by (induction c s rule: split_on.induct) (auto split: list.splits)

lemma join_split: "join [c] (split_on c s) = s"
proof (induction c s rule: split_on.induct)
  case (2 c x s)
  then show ?case by (cases "split_on c s" rule: remdups_adj.cases) auto
qed simp

lemma split_on_free: "c \<notin> set s \<Longrightarrow> split_on c s = [s]"
  by (induction c s rule: split_on.induct) auto

lemma split_on_append: "c \<notin> set p \<Longrightarrow> split_on c (p @ c # s) = p # split_on c s"
  by (induction p) auto

lemma split_join: "xs \<noteq> [] \<Longrightarrow> list_all (\<lambda>x. c \<notin> set x) xs \<Longrightarrow> split_on c (join [c] xs) = xs"
  by (induction "[c]" xs rule: join.induct) (auto simp: split_on_free split_on_append)

text \<open>A part that every supported system resolves to an entry of its own in the directory it is looked up in:
  not empty, not a reference to that directory or its parent, without separators, drive colons and
  NUL, without the trailing dots and spaces that Windows drops, and with a stem that does not name a
  device there.\<close>

definition device_name :: "pystr \<Rightarrow> bool" where
  "device_name s \<longleftrightarrow> s \<in> {ustr ''CON'', ustr ''PRN'', ustr ''AUX'', ustr ''NUL''} \<or>
     (\<exists>d\<in>{49..57}. s = ustr ''COM'' @ [d] \<or> s = ustr ''LPT'' @ [d])"

definition confined :: "text_env \<Rightarrow> pystr \<Rightarrow> bool" where
  "confined env part \<longleftrightarrow> part \<noteq> [] \<and> part \<noteq> [46] \<and> part \<noteq> [46, 46] \<and> set part \<inter> {47, 92, 0, 58} = {} \<and>
     last part \<noteq> 46 \<and> last part \<noteq> 32 \<and> \<not> device_name (upper_of env (takeWhile (\<lambda>c. c \<noteq> 46) part))"

lemma device_name_reserved: "device_name s \<longleftrightarrow> s \<in> set reserved_names"
proof -
  have d: "{49..57 :: int} = {49, 50, 51, 52, 53, 54, 55, 56, 57}" by auto
  show ?thesis
    unfolding device_name_def reserved_names_points d by (simp add: ustr_def)
qed

lemma split_stem: "hd (split_on c s) = takeWhile (\<lambda>x. x \<noteq> c) s"
  by (induction c s rule: split_on.induct) (auto split: list.splits)

lemma safe_name_Inr:
  assumes "safe_name env v = Inr parts"
  shows "v = VStr (join [47] parts)" "parts = path_parts (join [47] parts)" "parts \<noteq> []" "list_all (confined env) parts"
proof -
  obtain name where checked: "v = VStr name" "\<not> unsafe_text name" "\<not> unsafe_path name" "parts = all_parts name"
      and portable: "\<not> list_ex (unsafe_part env) parts"
    using assms by (cases v) (simp_all add: safe_name_def unsafe_member_def raise_text_def split: if_splits)
  then have "path_root name = []" by (simp add: unsafe_path_def)
  with checked have name: "v = VStr name" "\<not> unsafe_text name" "\<not> unsafe_path name" "parts = path_parts name"
      "path_root name = []"
    by (simp_all add: all_parts_def)
  then have join: "name = join [47] parts" and nonempty: "parts \<noteq> []"
    by (auto simp: unsafe_path_def unsafe_text_def path_string_def split: if_splits)
  show "v = VStr (join [47] parts)" by (simp only: name(1) join [symmetric])
  show "parts = path_parts (join [47] parts)" by (subst join [symmetric]) (rule name(4))
  show "parts \<noteq> []" by (rule nonempty)
  have "confined env p" if "p \<in> set parts" for p
  proof -
    have "set p \<subseteq> set name - {47}" "p \<noteq> []" "p \<noteq> [46]"
      using that split_on_chars [OF refl, of p 47 name] by (auto simp: name(4) path_parts_def)
    moreover have "p \<noteq> [46, 46]"
      using that name(3,4,5) by (auto simp: unsafe_path_def all_parts_def)
    moreover have "last p \<noteq> 46 \<and> last p \<noteq> 32 \<and> \<not> device_name (upper_of env (takeWhile (\<lambda>c. c \<noteq> 46) p))"
      using portable that calculation(2)
      by (auto simp: list_ex_iff unsafe_part_def device_name_reserved split_stem)
    ultimately show ?thesis
      using name(2) by (auto simp: confined_def unsafe_text_def list_ex_iff)
  qed
  then show "list_all (confined env) parts" by (simp add: list_all_iff)
qed

section \<open>Writing checked members\<close>

definition clean :: "text_env \<Rightarrow> members \<Rightarrow> bool" where
  "clean env ms \<longleftrightarrow> distinct (keys ms) \<and> (\<forall>n\<in>set (keys ms). safe_name env (VStr n) = Inr (path_parts n)) \<and>
     (\<forall>n\<in>set (keys ms). \<forall>k\<in>set (keys ms). path_parts k \<notin> set (parents (path_parts n)))"

definition holds_members :: "members \<Rightarrow> extracted \<Rightarrow> bool" where
  "holds_members ms t \<longleftrightarrow>
     (\<forall>p d. t p = Some (Made_File d) \<longleftrightarrow> (\<exists>n. (n, d) \<in> set ms \<and> p = path_parts n)) \<and>
     (\<forall>p. t p = Some Made_Dir \<longleftrightarrow> (\<exists>n d. (n, d) \<in> set ms \<and> p \<in> set (parents (path_parts n))))"

lemma make_dirs_Inr:
  "\<forall>p\<in>set ps. \<forall>d. t p \<noteq> Some (Made_File d) \<Longrightarrow> make_dirs ps t = Inr (\<lambda>p. if p \<in> set ps then Some Made_Dir else t p)"
proof (induction ps arbitrary: t)
  case (Cons p ps)
  then have "make_dirs (p # ps) t = make_dirs ps (t(p \<mapsto> Made_Dir))" by (auto split: option.splits written.splits)
  also have "\<dots> = Inr (\<lambda>q. if q \<in> set ps then Some Made_Dir else (t(p \<mapsto> Made_Dir)) q)"
    using Cons.prems by (intro Cons.IH) auto
  finally show ?case by (simp add: fun_eq_iff)
qed simp

lemma parents_shorter: "p \<in> set (parents q) \<Longrightarrow> length p < length q \<and> p \<noteq> []"
  by (auto simp: parents_def)

lemma write_members_Inr:
  "clean env (ds @ ms) \<Longrightarrow> holds_members ds t \<Longrightarrow> \<exists>t'. write_members env ms t = Inr t' \<and> holds_members (ds @ ms) t'"
proof (induction ms arbitrary: ds t)
  case (Cons m ms)
  obtain name d where m: "m = (name, d)" by fastforce
  define parts where "parts = path_parts name"
  have mem: "name \<in> set (keys (ds @ m # ms))" "\<And>k d'. (k, d') \<in> set ds \<Longrightarrow> k \<in> set (keys (ds @ m # ms))"
    by (force simp: m keys_def)+
  have safe: "safe_name env (VStr name) = Inr parts"
    using Cons.prems(1) mem(1) unfolding clean_def parts_def by blast
  have apart: "path_parts k \<notin> set (parents parts)" "parts \<notin> set (parents (path_parts k))" if "(k, d') \<in> set ds" for k d'
    using Cons.prems(1) mem(1) mem(2) [OF that] unfolding clean_def parts_def by blast+
  have other: "path_parts k \<noteq> parts" if "(k, d') \<in> set ds" for k d'
  proof
    assume same: "path_parts k = parts"
    have "safe_name env (VStr k) = Inr (path_parts k)" using Cons.prems(1) mem(2) [OF that] unfolding clean_def by blast
    from safe_name_Inr(1) [OF this] safe_name_Inr(1) [OF safe] have "k = name" by (simp add: same)
    with that have "name \<in> fst ` set ds" by force
    with Cons.prems(1) show False by (simp add: clean_def m keys_def)
  qed
  have "\<forall>p\<in>set (parents parts). \<forall>d. t p \<noteq> Some (Made_File d)"
    using Cons.prems(2) apart by (auto simp: holds_members_def)
  then have dirs: "make_dirs (parents parts) t = Inr (\<lambda>p. if p \<in> set (parents parts) then Some Made_Dir else t p)"
    by (rule make_dirs_Inr)
  let ?t = "(\<lambda>p. if p \<in> set (parents parts) then Some Made_Dir else t p)(parts \<mapsto> Made_File d)"
  have self: "parts \<notin> set (parents parts)" using parents_shorter by blast
  have "t parts \<noteq> Some Made_Dir" using Cons.prems(2) apart by (auto simp: holds_members_def)
  then have "write_member env m t = Inr ?t"
    using self by (simp add: write_member_def m safe dirs)
  moreover have held: "holds_members (ds @ [m]) ?t"
    unfolding holds_members_def
  proof (intro conjI allI)
    fix p e
    have t: "t p = Some (Made_File e) \<longleftrightarrow> (\<exists>n. (n, e) \<in> set ds \<and> p = path_parts n)"
        "t p = Some Made_Dir \<longleftrightarrow> (\<exists>n d. (n, d) \<in> set ds \<and> p \<in> set (parents (path_parts n)))"
      using Cons.prems(2) unfolding holds_members_def by blast+
    have split: "(\<exists>n. (n, e) \<in> set (ds @ [m]) \<and> p = path_parts n) \<longleftrightarrow>
        (\<exists>n. (n, e) \<in> set ds \<and> p = path_parts n) \<or> e = d \<and> p = parts"
      "(\<exists>n d. (n, d) \<in> set (ds @ [m]) \<and> p \<in> set (parents (path_parts n))) \<longleftrightarrow>
        (\<exists>n d. (n, d) \<in> set ds \<and> p \<in> set (parents (path_parts n))) \<or> p \<in> set (parents parts)"
      unfolding m parts_def set_append by (auto intro: exI)
    show "(?t p = Some (Made_File e)) = (\<exists>n. (n, e) \<in> set (ds @ [m]) \<and> p = path_parts n)"
      unfolding split using t(1) apart(1) other by (cases "p = parts"; cases "p \<in> set (parents parts)") auto
    show "(?t p = Some Made_Dir) = (\<exists>n d. (n, d) \<in> set (ds @ [m]) \<and> p \<in> set (parents (path_parts n)))"
      unfolding split using t(2) apart(2) self by (cases "p = parts"; cases "p \<in> set (parents parts)") auto
  qed
  moreover have "clean env ((ds @ [m]) @ ms)" using Cons.prems(1) by simp
  from Cons.IH [OF this held] obtain t' where "write_members env ms ?t = Inr t'" "holds_members ((ds @ [m]) @ ms) t'"
    by blast
  ultimately show ?case by (intro exI [of _ t']) (simp only: write_members.simps bindR_simps append_assoc append_Cons append_Nil simp_thms)
qed simp

section \<open>Members that pass the checks\<close>

lemma check_parents_Inr_iff:
  "check_parents env folded names = Inr u \<longleftrightarrow> list_all (\<lambda>n. \<exists>parts. safe_name env (VStr n) = Inr parts \<and>
     list_all (\<lambda>p. casefold_of env (join [47] p) \<notin> set folded) (parents parts)) names"
  by (induction env folded names rule: check_parents.induct)
     (auto simp: bindR_Inr_iff raise_text_def list_all_iff list_ex_iff split: if_splits)

lemma checked_parents_clean:
  assumes "check_parents env (map (casefold_of env) (keys ms)) (keys ms) = Inr u" "distinct (keys ms)"
  shows "clean env ms"
  unfolding clean_def
proof (intro conjI ballI)
  fix n k assume n: "n \<in> set (keys ms)" and k: "k \<in> set (keys ms)"
  obtain parts where parts: "safe_name env (VStr n) = Inr parts"
      "list_all (\<lambda>p. casefold_of env (join [47] p) \<notin> set (map (casefold_of env) (keys ms))) (parents parts)"
    using assms(1) n by (auto simp: check_parents_Inr_iff list_all_iff)
  from parts(1) safe_name_Inr [OF parts(1)] show "safe_name env (VStr n) = Inr (path_parts n)" by simp
  obtain parts' where k': "safe_name env (VStr k) = Inr parts'"
    using assms(1) k by (auto simp: check_parents_Inr_iff list_all_iff)
  have "join [47] (path_parts k) = k" using safe_name_Inr [OF k'] by simp
  moreover have "path_parts n = parts" using safe_name_Inr [OF parts(1)] by simp
  ultimately show "path_parts k \<notin> set (parents (path_parts n))"
    using parts(2) k by (auto simp: list_all_iff)
qed (rule assms(2))

lemma keys_update: "distinct (keys d) \<Longrightarrow> distinct (keys (AList.update k v d))"
  using dict_ok_update [of d k v] by (simp add: dict_ok_def)

lemma read_archive_keys: "read_archive env es found n folded = Inr ms \<Longrightarrow> distinct (keys found) \<Longrightarrow> distinct (keys ms)"
  by (induction env es found n folded rule: read_archive.induct)
     (auto simp: Let_def bindR_Inr_iff raise_text_def keys_update split: if_splits)

lemma rename_keys: "distinct (keys acc) \<Longrightarrow> distinct (keys (fold (\<lambda>(name, data). AList.update (f name) data) raw acc))"
  by (induction raw arbitrary: acc) (auto simp: keys_update)

lemma strip_top_cases:
  assumes "strip_top raw = Inr ms"
  obtains "ms = raw" | p where "ms = fold (\<lambda>(name, data). AList.update (removeprefix name (p @ [47])) data) raw []"
  using assms by (auto simp: strip_top_def split: if_splits list.splits)

lemma strip_top_keys: "strip_top raw = Inr ms \<Longrightarrow> distinct (keys raw) \<Longrightarrow> distinct (keys ms)"
  by (erule strip_top_cases) (use rename_keys [of "[]"] in \<open>simp_all add: keys_def\<close>)

lemma checked_members_Inr:
  assumes "checked_members env n infolist = Inr ms"
  obtains es raw where "infolist = Inr es" "int (length es) \<le> max_files" "read_archive env es [] 0 [] = Inr raw" "strip_top raw = Inr ms"
    "\<exists>m. check_manifest env ms = Inr m" "check_parents env (map (casefold_of env) (keys ms)) (keys ms) = Inr ()"
  using assms by (auto simp: checked_members_def archive_members_def bindR_Inr_iff split: if_splits)

lemma checked_members_clean:
  assumes "checked_members env n infolist = Inr ms"
  shows "clean env ms"
proof -
  obtain es raw where *: "read_archive env es [] 0 [] = Inr raw" "strip_top raw = Inr ms"
      "check_parents env (map (casefold_of env) (keys ms)) (keys ms) = Inr ()"
    using assms by (rule checked_members_Inr)
  have "distinct (keys raw)" using read_archive_keys [OF *(1)] by (simp add: keys_def)
  from checked_parents_clean [OF *(3) strip_top_keys [OF *(2) this]] show ?thesis .
qed

section \<open>The limits\<close>

definition honest :: "zip_entry \<Rightarrow> bool" where
  "honest i \<longleftrightarrow> (case entry_data i of Inl _ \<Rightarrow> True | Inr data \<Rightarrow> int (length data) \<le> file_size i)"

definition content_bytes :: "members \<Rightarrow> nat" where
  "content_bytes ms = sum_list (map (length \<circ> snd) ms)"

lemma update_bytes: "content_bytes (AList.update k v d) \<le> content_bytes d + length v" "length (AList.update k v d) \<le> Suc (length d)"
  by (induction d) (auto simp: content_bytes_def)

lemma read_archive_bounds:
  assumes "list_all honest es" "read_archive env es found n folded = Inr ms" "int (content_bytes found) \<le> n" "n \<le> max_bytes"
    "int (length found) \<le> max_files"
  shows "int (content_bytes ms) \<le> max_bytes \<and> int (length ms) \<le> max_files"
  using assms
proof (induction es arbitrary: found n folded)
  case (Cons i es)
  define name where "name = strip_slashes (filename i)"
  show ?case
  proof (cases "entry_is_dir i")
    case True
    then have "read_archive env es found n (casefold_of env name # folded) = Inr ms"
      using Cons.prems(2) by (auto simp: Let_def bindR_Inr_iff raise_text_def name_def split: if_splits)
    with Cons show ?thesis by simp
  next
    case False
    then obtain data where step: "entry_data i = Inr data" "n + file_size i \<le> max_bytes" "int (length found) < max_files"
        "read_archive env es (AList.update name data found) (n + file_size i) (casefold_of env name # folded) = Inr ms"
      using Cons.prems(2) by (auto simp: Let_def bindR_Inr_iff raise_text_def name_def split: if_splits)
    moreover have "int (content_bytes (AList.update name data found)) \<le> n + file_size i"
      using update_bytes(1) [of name data found] Cons.prems(1,3) step(1) by (simp add: honest_def)
    moreover have "int (length (AList.update name data found)) \<le> max_files"
      using update_bytes(2) [of name data found] step(3) by simp
    ultimately show ?thesis using Cons.prems(1) by (intro Cons.IH [OF _ step(4)]) auto
  qed
qed simp

lemma rename_bounds:
  "content_bytes (fold (\<lambda>(name, data). AList.update (f name) data) raw acc) \<le> content_bytes raw + content_bytes acc \<and>
     length (fold (\<lambda>(name, data). AList.update (f name) data) raw acc) \<le> length raw + length acc"
proof (induction raw arbitrary: acc)
  case (Cons m raw)
  obtain name data where "m = (name, data)" by fastforce
  with Cons [of "AList.update (f name) data acc"] update_bytes [of "f name" data acc] show ?case
    by (simp add: content_bytes_def)
qed (simp add: content_bytes_def)

section \<open>A packed directory unpacks to itself\<close>

text \<open>The names a directory can hold.\<close>

fun tree_ok :: "node \<Rightarrow> bool" where
  "tree_ok (Dir entries) = list_all (\<lambda>(name, n). name \<noteq> [] \<and> name \<noteq> [46] \<and> 47 \<notin> set name \<and> tree_ok n) entries"
| "tree_ok _ = True"

definition path_ok :: "pystr list \<Rightarrow> bool" where
  "path_ok parts \<longleftrightarrow> parts \<noteq> [] \<and> list_all (\<lambda>p. p \<noteq> [] \<and> p \<noteq> [46] \<and> 47 \<notin> set p) parts"

lemma path_parts_join: "path_ok parts \<Longrightarrow> path_parts (join [47] parts) = parts"
  by (auto simp: path_ok_def path_parts_def split_join list_all_iff filter_id_conv)

lemma rglob_paths:
  "(p, n) \<in> set (rglob base dir) \<Longrightarrow> tree_ok dir \<Longrightarrow> \<exists>r. p = base @ r \<and> path_ok r \<and>
     (\<forall>i. length base < i \<and> i < length p \<longrightarrow> (\<exists>es. (take i p, Dir es) \<in> set (rglob base dir)))"
  "(p, n) \<in> set (rglob_entries base entries) \<Longrightarrow> tree_ok (Dir entries) \<Longrightarrow> \<exists>r. p = base @ r \<and> path_ok r \<and>
     (\<forall>i. length base < i \<and> i < length p \<longrightarrow> (\<exists>es. (take i p, Dir es) \<in> set (rglob_entries base entries)))"
proof (induction base dir and base entries rule: rglob_rglob_entries.induct)
  case (6 base name m entries)
  then consider "p = base @ [name]" "n = m" | "(p, n) \<in> set (rglob (base @ [name]) m)" | "(p, n) \<in> set (rglob_entries base entries)"
    by auto
  then show ?case
  proof cases
    case 1
    with 6 show ?thesis by (auto simp: path_ok_def)
  next
    case 2
    with "6.IH"(1) "6.prems"(2) obtain r where r: "p = (base @ [name]) @ r" "path_ok r"
        "\<And>i. length (base @ [name]) < i \<Longrightarrow> i < length p \<Longrightarrow> \<exists>es. (take i p, Dir es) \<in> set (rglob (base @ [name]) m)"
      by auto
    obtain es where m: "m = Dir es" using 2 by (cases m) auto
    have "\<exists>es. (take i p, Dir es) \<in> set (rglob_entries base ((name, m) # entries))" if "length base < i" "i < length p" for i
    proof (cases "i = Suc (length base)")
      case True
      with r(1) m show ?thesis by auto
    next
      case False
      with that r(3) [of i] show ?thesis by auto
    qed
    with r(1,2) "6.prems"(2) show ?thesis by (intro exI [of _ "name # r"]) (auto simp: path_ok_def)
  next
    case 3
    with "6.IH"(2) "6.prems"(2) show ?thesis by fastforce
  qed
qed auto

section \<open>What reading a directory establishes\<close>

definition kept :: "bool \<Rightarrow> (pystr list \<times> node) list \<Rightarrow> (pystr list \<times> node) list" where
  "kept finder items = filter (\<lambda>(parts, _). \<not> ignored_member finder parts) items"

fun regular_files :: "(pystr list \<times> node) list \<Rightarrow> members" where
  "regular_files [] = []"
| "regular_files ((parts, Regular data) # items) = (join [47] parts, data) # regular_files items"
| "regular_files (_ # items) = regular_files items"

definition item_keys :: "text_env \<Rightarrow> (pystr list \<times> node) list \<Rightarrow> pystr list" where
  "item_keys env items = map (\<lambda>(parts, _). casefold_of env (join [47] parts)) items"

lemma read_files_Inr:
  assumes "read_files env finder items found remaining folded = Inr ms" "\<forall>k\<in>set (keys found). casefold_of env k \<in> set folded"
    "0 \<le> remaining"
  shows "ms = found @ regular_files (kept finder items) \<and> distinct (item_keys env (kept finder items)) \<and>
    set (item_keys env (kept finder items)) \<inter> set folded = {} \<and>
    list_all (\<lambda>(parts, _). \<exists>ps. safe_name env (VStr (join [47] parts)) = Inr ps) (kept finder items) \<and>
    int (content_bytes (regular_files (kept finder items))) \<le> remaining \<and> (int (length found) \<le> max_files \<longrightarrow> int (length (found @ regular_files (kept finder items))) \<le> max_files)"
  using assms
proof (induction items arbitrary: found remaining folded)
  case Nil
  then show ?case by (simp add: kept_def item_keys_def content_bytes_def)
next
  case (Cons item items)
  obtain parts n where item: "item = (parts, n)" by fastforce
  define name where "name = join [47] parts"
  show ?case
  proof (cases "ignored_member finder parts")
    case True
    then have read: "read_files env finder items found remaining folded = Inr ms" using Cons.prems(1) by (simp add: item)
    have same: "kept finder (item # items) = kept finder items" using True by (simp add: item kept_def)
    show ?thesis unfolding same by (rule Cons.IH [OF read Cons.prems(2,3)])
  next
    case False
    then obtain ps where ps: "safe_name env (VStr name) = Inr ps" "casefold_of env name \<notin> set folded" "n \<noteq> Link"
        "if is_dir n then read_files env finder items found remaining (casefold_of env name # folded) = Inr ms
         else int (length found) < max_files \<and> (\<exists>data. n = Regular data \<and> int (length data) \<le> remaining \<and>
           read_files env finder items (AList.update name data found) (remaining - int (length data)) (casefold_of env name # folded) = Inr ms)"
      using Cons.prems(1)
      by (auto simp: item Let_def bindR_Inr_iff raise_text_def name_def read_member_def split: if_splits node.splits)
    have kept: "kept finder (item # items) = item # kept finder items" using False by (simp add: kept_def item)
    show ?thesis
    proof (cases "is_dir n")
      case True
      then have "read_files env finder items found remaining (casefold_of env name # folded) = Inr ms" using ps(4) by simp
      from Cons.IH [OF this] Cons.prems(2,3)
      have "ms = found @ regular_files (kept finder items) \<and> distinct (item_keys env (kept finder items)) \<and>
        set (item_keys env (kept finder items)) \<inter> set (casefold_of env name # folded) = {} \<and>
        list_all (\<lambda>(parts, _). \<exists>ps. safe_name env (VStr (join [47] parts)) = Inr ps) (kept finder items) \<and>
        int (content_bytes (regular_files (kept finder items))) \<le> remaining \<and> (int (length found) \<le> max_files \<longrightarrow> int (length (found @ regular_files (kept finder items))) \<le> max_files)"
        by simp
      moreover obtain es where "n = Dir es" using True by (cases n) (auto simp: is_dir_def)
      ultimately show ?thesis using ps(1,2) unfolding kept by (auto simp: item item_keys_def name_def)
    next
      case False
      then obtain data where data: "int (length found) < max_files" "n = Regular data" "int (length data) \<le> remaining"
          "read_files env finder items (AList.update name data found) (remaining - int (length data)) (casefold_of env name # folded) = Inr ms"
        using ps(4) by auto
      have "\<not> has_key found name" using ps(2) Cons.prems(2) by (auto simp: has_key_def)
      then have new: "AList.update name data found = found @ [(name, data)]" by (rule update_new_key)
      have "\<forall>k\<in>set (keys (found @ [(name, data)])). casefold_of env k \<in> set (casefold_of env name # folded)"
        using Cons.prems(2) by (auto simp: keys_def)
      from Cons.IH [OF data(4) [unfolded new] this] data(3)
      have "ms = (found @ [(name, data)]) @ regular_files (kept finder items) \<and> distinct (item_keys env (kept finder items)) \<and>
        set (item_keys env (kept finder items)) \<inter> set (casefold_of env name # folded) = {} \<and>
        list_all (\<lambda>(parts, _). \<exists>ps. safe_name env (VStr (join [47] parts)) = Inr ps) (kept finder items) \<and>
        int (content_bytes (regular_files (kept finder items))) \<le> remaining - int (length data) \<and>
        int (length ((found @ [(name, data)]) @ regular_files (kept finder items))) \<le> max_files"
        using data(1) by simp
      with data(2,3) ps(1,2) show ?thesis unfolding kept by (auto simp: item item_keys_def name_def content_bytes_def)
    qed
  qed
qed

lemma regular_files_iff: "(name, data) \<in> set (regular_files items) \<longleftrightarrow> (\<exists>p. name = join [47] p \<and> (p, Regular data) \<in> set items)"
  by (induction items rule: regular_files.induct) auto

lemma regular_keys_iff: "n \<in> set (keys (regular_files items)) \<longleftrightarrow> (\<exists>p d. n = join [47] p \<and> (p, Regular d) \<in> set items)"
  by (induction items rule: regular_files.induct) (auto simp: keys_def)

lemma regular_keys: "map (casefold_of env) (keys (regular_files items)) = item_keys env (filter (\<lambda>(_, n). \<exists>d. n = Regular d) items)"
  by (induction items rule: regular_files.induct) (auto simp: keys_def item_keys_def)

lemma distinct_item_keys:
  "distinct (item_keys env items) \<Longrightarrow> (p, n) \<in> set items \<Longrightarrow> (q, m) \<in> set items \<Longrightarrow>
     casefold_of env (join [47] p) = casefold_of env (join [47] q) \<Longrightarrow> n = m"
  by (induction items) (force simp: item_keys_def)+

lemma ignored_prefix: "\<not> ignored_member finder p \<Longrightarrow> \<not> ignored_member finder (take i p)"
  using set_take_subset [of i p] by (auto simp: ignored_member_def list_ex_iff)

lemma package_members:
  assumes "package_files env True True dir = Inr ms" "tree_ok dir"
  shows "distinct (map (casefold_of env) (keys ms))" "list_all (\<lambda>n. \<exists>ps. safe_name env (VStr n) = Inr ps) (keys ms)"
    "int (content_bytes ms) \<le> max_bytes" "int (length ms) \<le> max_files" "\<exists>m. check_manifest env ms = Inr m"
    "check_parents env (map (casefold_of env) (keys ms)) (keys ms) = Inr ()"
proof -
  define items where "items = kept True (sort_key fst (rglob [] dir))"
  have read: "read_files env True (sort_key fst (rglob [] dir)) [] max_bytes [] = Inr ms" "\<exists>m. check_manifest env ms = Inr m"
    using assms(1) by (auto simp: package_files_def bindR_Inr_iff split: if_splits)
  have "\<forall>k\<in>set (keys ([] :: members)). casefold_of env k \<in> set []" by (simp add: keys_def)
  note facts = read_files_Inr [OF read(1) this, folded items_def, unfolded append_Nil]
  have limits: "0 \<le> max_bytes" "int (length ([] :: members)) \<le> max_files" by (simp_all add: max_bytes_def max_files_def)
  have ms: "ms = regular_files items" "distinct (item_keys env items)" "int (content_bytes (regular_files items)) \<le> max_bytes"
      "int (length (regular_files items)) \<le> max_files"
      "list_all (\<lambda>(parts, _). \<exists>ps. safe_name env (VStr (join [47] parts)) = Inr ps) items"
    using facts [OF limits(1)] limits(2) by blast+
  show "\<exists>m. check_manifest env ms = Inr m" by (rule read(2))
  show "int (length ms) \<le> max_files" "int (content_bytes ms) \<le> max_bytes" unfolding ms(1) by (rule ms)+
  show "distinct (map (casefold_of env) (keys ms))"
    unfolding ms(1) regular_keys using ms(2) by (simp add: item_keys_def distinct_map_filter)
  show safe: "list_all (\<lambda>n. \<exists>ps. safe_name env (VStr n) = Inr ps) (keys ms)"
    unfolding list_all_iff
  proof
    fix n assume "n \<in> set (keys ms)"
    then obtain p d where p: "n = join [47] p" "(p, Regular d) \<in> set items"
      unfolding ms(1) regular_keys_iff by blast
    with ms(5) show "\<exists>ps. safe_name env (VStr n) = Inr ps" unfolding list_all_iff by blast
  qed
  have "casefold_of env (join [47] q) \<notin> set (map (casefold_of env) (keys ms))"
    if p: "(p, Regular d) \<in> set items" and q: "q \<in> set (parents p)" for p d q
  proof
    obtain i where i: "q = take i p" "0 < i" "i < length p" using q by (auto simp: parents_def)
    have p': "(p, Regular d) \<in> set (rglob [] dir)" "\<not> ignored_member True p" using p by (auto simp: items_def kept_def)
    have "\<forall>i. length ([] :: pystr list) < i \<and> i < length p \<longrightarrow> (\<exists>es. (take i p, Dir es) \<in> set (rglob [] dir))"
      using rglob_paths(1) [OF p'(1) assms(2)] by blast
    with i obtain es where es: "(q, Dir es) \<in> set (rglob [] dir)" by auto
    have dir: "(q, Dir es) \<in> set items"
      using es ignored_prefix [OF p'(2)] i(1) by (simp add: items_def kept_def)
    assume "casefold_of env (join [47] q) \<in> set (map (casefold_of env) (keys ms))"
    then obtain q' d' where "(q', Regular d') \<in> set items" "casefold_of env (join [47] q) = casefold_of env (join [47] q')"
      unfolding ms(1) set_map image_iff bex_simps by (auto simp: regular_keys_iff)
    from distinct_item_keys [OF ms(2) dir this] show False by simp
  qed
  note apart = this
  show "check_parents env (map (casefold_of env) (keys ms)) (keys ms) = Inr ()"
    unfolding check_parents_Inr_iff list_all_iff
  proof (intro ballI)
    fix n assume n: "n \<in> set (keys ms)"
    then obtain p d where p: "n = join [47] p" "(p, Regular d) \<in> set items"
      unfolding ms(1) regular_keys_iff by blast
    obtain ps where ps: "safe_name env (VStr n) = Inr ps" using safe n by (auto simp: list_all_iff)
    have "(p, Regular d) \<in> set (rglob [] dir)" using p(2) by (simp add: items_def kept_def)
    from rglob_paths(1) [OF this assms(2)] have "path_ok p" by auto
    moreover have "join [47] p = join [47] ps" using safe_name_Inr(1) [OF ps] p(1) by simp
    ultimately have "ps = p" using safe_name_Inr(2) [OF ps] path_parts_join [of p] by simp
    with ps apart [OF p(2)] show "\<exists>parts. safe_name env (VStr n) = Inr parts \<and>
        (\<forall>p\<in>set (parents parts). casefold_of env (join [47] p) \<notin> set (map (casefold_of env) (keys ms)))"
      by blast
  qed
qed

section \<open>Reading a packed archive\<close>

lemma last_join: "xs \<noteq> [] \<Longrightarrow> last xs \<noteq> [] \<Longrightarrow> join sep xs \<noteq> [] \<and> last (join sep xs) = last (last xs)"
  by (induction sep xs rule: join.induct) (auto simp: join_Cons)

lemma safe_name_plain:
  assumes "safe_name env (VStr name) = Inr parts"
  shows "name \<noteq> []" "last name \<noteq> 47" "strip_slashes name = name"
proof -
  have last: "parts \<noteq> []" "last parts \<noteq> []" "47 \<notin> set (last parts)" "name = join [47] parts"
    using safe_name_Inr [OF assms] last_in_set [of parts] by (auto simp: list_all_iff confined_def)
  then have "last (last parts) \<noteq> 47" by (metis last_in_set)
  with last show "name \<noteq> []" "last name \<noteq> 47"
    using last_join [of parts "[47]"] by auto
  then show "strip_slashes name = name"
    by (cases name rule: rev_cases) (simp_all add: strip_slashes_def)
qed

lemma read_packed:
  assumes "list_all (\<lambda>n. \<exists>ps. safe_name env (VStr n) = Inr ps) (keys ms)" "distinct (map (casefold_of env) (keys (found @ ms)))"
    "set folded = casefold_of env ` set (keys found)" "n + int (content_bytes ms) \<le> max_bytes" "int (length (found @ ms)) \<le> max_files"
  shows "read_archive env (map pack_entry ms) found n folded = Inr (found @ ms)"
  using assms
proof (induction ms arbitrary: found n folded)
  case (Cons m ms)
  obtain name data where m: "m = (name, data)" by fastforce
  obtain ps where ps: "safe_name env (VStr name) = Inr ps" using Cons.prems(1) by (auto simp: m keys_def)
  have new: "casefold_of env name \<notin> set folded" using Cons.prems(2,3) by (auto simp: m keys_def)
  then have "\<not> has_key found name" using Cons.prems(3) by (auto simp: has_key_def)
  then have update: "AList.update name data found = found @ [(name, data)]" by (rule update_new_key)
  have "read_archive env (map pack_entry ms) (found @ [(name, data)]) (n + int (length data)) (casefold_of env name # folded) =
      Inr ((found @ [(name, data)]) @ ms)"
    using Cons.prems by (intro Cons.IH) (auto simp: m keys_def content_bytes_def)
  with Cons.prems(4,5) ps new show ?case
    using safe_name_plain [OF ps]
    by (simp add: m pack_entry_def [of "(name, data)"] mode_kind_def entry_is_dir_def Let_def update content_bytes_def)
qed simp

lemma empty_manifest: "parse_manifest word True (dict_of []) \<noteq> Inr m"
  by (simp add: parse_manifest_Inr_iff manifest_document_def bindR_Inr_iff object_field_Inr_iff dict_of_def required_keys_def keys_def)

lemma manifest_present:
  assumes "check_manifest env ms = Inr m" "decode_json env (ustr ''{}'') = Inr (RObj [])"
  shows "has_key ms (ustr ''plugin.json'')"
proof (rule ccontr)
  assume "\<not> has_key ms (ustr ''plugin.json'')"
  then have "check_manifest env ms = parse_manifest (word_char env) True (dict_of [])"
    using assms(2) by (simp add: check_manifest_def manifest_bytes_def has_key_iff unique_object_def)
  with assms(1) empty_manifest show False by simp
qed

section \<open>Guarantees\<close>

text \<open>C34: Writing the checked members is complete and confined. When the checks have passed and returned the
  members to write, and the destination is missing or an empty directory, extraction raises nothing;
  afterwards the files are exactly those members, each at its path with its data, and every path written,
  directories included, is a nonempty list of parts that are portable: none is empty, a dot or two
  dots, none has a separator, a colon, NUL, or a dot or space at its end, and none has the stem of a
  Windows device name. (Which members the checks return: those of the archive, or, when it has a single
  top-level directory, those with it removed, where one may take the place of another, see
  \<open>top_file_is_overwritten\<close> below.)\<close>

theorem unpack_writes_the_members:
  assumes "checked_members env size_of_archive infolist = Inr ms" "destination = Missing \<or> destination = Present []"
  shows "\<exists>t. unpack env size_of_archive infolist destination = Inr t \<and>
    (\<forall>path data. t path = Some (Made_File data) \<longleftrightarrow> (\<exists>name. map_of ms name = Some data \<and> path = path_parts name)) \<and>
    (\<forall>path. t path \<noteq> None \<longrightarrow> path \<noteq> [] \<and> list_all (confined env) path)"
proof -
  have clean: "clean env ([] @ ms)" using checked_members_clean [OF assms(1)] by simp
  have "holds_members [] Map.empty" by (simp add: holds_members_def)
  from write_members_Inr [OF clean this] obtain t where t: "write_members env ms Map.empty = Inr t" "holds_members ms t"
    by auto
  have distinct: "distinct (map fst ms)" using clean by (simp add: clean_def keys_def)
  have confined: "path_parts n \<noteq> [] \<and> list_all (confined env) (path_parts n)" if "(n, d) \<in> set ms" for n d
  proof -
    have "safe_name env (VStr n) = Inr (path_parts n)" using clean that by (force simp: clean_def keys_def)
    from safe_name_Inr [OF this] show ?thesis by blast
  qed
  have "path \<noteq> [] \<and> list_all (confined env) path" if some: "t path \<noteq> None" for path
  proof -
    obtain n d where n: "(n, d) \<in> set ms" "path = path_parts n \<or> path \<in> set (parents (path_parts n))"
    proof (cases "t path")
      case (Some w)
      with t(2) show ?thesis by (cases w) (auto simp: holds_members_def intro: that)
    qed (use some in simp)
    from n(2) show ?thesis
    proof
      assume "path \<in> set (parents (path_parts n))"
      then show ?thesis
        using confined [OF n(1)] parents_shorter set_take_subset by (fastforce simp: parents_def list_all_iff)
    qed (use confined [OF n(1)] in simp)
  qed
  moreover have "unpack env size_of_archive infolist destination = Inr t"
    using assms t(1) by (auto simp: unpack_def)
  moreover have "t path = Some (Made_File data) \<longleftrightarrow> (\<exists>name. map_of ms name = Some data \<and> path = path_parts name)" for path data
    using t(2) distinct unfolding holds_members_def by simp
  ultimately show ?thesis by blast
qed

text \<open>What is accepted is bounded: at most 2048 files with at most 16 MiB together, as long as the ZIP
  reader returns no more bytes for a member than the archive declares.\<close>

theorem checked_archive_is_bounded:
  assumes "checked_members env size_of_archive (Inr es) = Inr ms" "list_all honest es"
  shows "int (length ms) \<le> max_files \<and> int (content_bytes ms) \<le> max_bytes \<and> size_of_archive \<le> max_bytes"
proof -
  obtain raw where raw: "read_archive env es [] 0 [] = Inr raw" "strip_top raw = Inr ms"
    using assms(1) by (auto elim: checked_members_Inr)
  have "int (content_bytes raw) \<le> max_bytes \<and> int (length raw) \<le> max_files"
    by (rule read_archive_bounds [OF assms(2) raw(1)]) (simp_all add: content_bytes_def max_bytes_def max_files_def)
  moreover have "content_bytes ms \<le> content_bytes raw \<and> length ms \<le> length raw"
    using raw(2) by (rule strip_top_cases) (use rename_bounds [of _ raw "[]"] in \<open>simp_all add: content_bytes_def\<close>)
  moreover have "size_of_archive \<le> max_bytes" using assms(1) by (simp add: checked_members_def split: if_splits)
  ultimately show ?thesis by auto
qed

text \<open>C35: A package directory that packs, packs to an archive that unpacks to the same files, if the
  archive itself is within the limit for downloads. (\<open>json.loads\<close> of an empty object is one.)\<close>

theorem packed_directory_unpacks:
  assumes "package_files env True True dir = Inr ms" "tree_ok dir" "decode_json env (ustr ''{}'') = Inr (RObj [])"
    "size_of_archive \<le> max_bytes"
  shows "checked_members env size_of_archive (pack env dir) = Inr ms"
proof -
  note facts = package_members [OF assms(1,2)]
  have "read_archive env (map pack_entry ms) [] 0 [] = Inr ([] @ ms)"
    by (rule read_packed) (use facts in \<open>simp_all add: keys_def\<close>)
  moreover obtain m where m: "check_manifest env ms = Inr m" using facts(5) by blast
  moreover have "strip_top ms = Inr ms" using manifest_present [OF m assms(3)] by (simp add: strip_top_def)
  ultimately show ?thesis
    using facts(4,6) assms(1,4) by (simp add: checked_members_def archive_members_def pack_def)
qed

section \<open>Examples\<close>

definition demo_tree :: rawjson where
  "demo_tree = RObj [(ustr ''id'', RStr (ustr ''p'')), (ustr ''version'', RStr (ustr ''1.0.0'')), (ustr ''sdk'', RInt 4),
     (ustr ''entrypoint'', RStr (ustr ''m:r'')), (ustr ''description'', RStr (ustr ''d'')), (ustr ''requires'', RObj []),
     (ustr ''instructions'', RStr (ustr ''u''))]"

definition demo_text_env :: text_env where
  "demo_text_env = \<lparr>upper_of = List.map (\<lambda>c. if 97 \<le> c \<and> c \<le> 122 then c - 32 else c),
     casefold_of = List.map (\<lambda>c. if 65 \<le> c \<and> c \<le> 90 then c + 32 else c), repr_text = (\<lambda>_. []), word_char = demo_word,
     decode_json = (\<lambda>b. if b = ustr ''{}'' then Inr (RObj []) else Inr demo_tree), encode_name = id\<rparr>"

definition demo_dir :: node where
  "demo_dir = Dir [(ustr ''src'', Dir [(ustr ''m.py'', Regular [1, 2])]), (ustr ''plugin.json'', Regular [0]), (ustr ''.git'', Link)]"

definition demo_members :: members where
  "demo_members = [(ustr ''plugin.json'', [0]), (ustr ''src/m.py'', [1, 2])]"

definition demo_entry :: "string \<Rightarrow> bytes \<Rightarrow> zip_entry" where
  "demo_entry name data = pack_entry (ustr name, data)"

lemma demo_checked:
  "checked_members demo_text_env 100 (Inr [demo_entry ''r/'' [], demo_entry ''r/plugin.json'' [0], demo_entry ''r/src/m.py'' [1, 2]]) =
     Inr demo_members"
  by code_simp

lemma demo_files: "package_files demo_text_env True True demo_dir = Inr demo_members"
  by code_simp

lemma unpack_writes_the_members_witness:
  "\<exists>t. unpack demo_text_env 100 (Inr [demo_entry ''r/'' [], demo_entry ''r/plugin.json'' [0], demo_entry ''r/src/m.py'' [1, 2]]) (Present []) =
     Inr t \<and> t [ustr ''src'', ustr ''m.py''] = Some (Made_File [1, 2])"
proof -
  have "map_of demo_members (ustr ''src/m.py'') = Some [1, 2]" "path_parts (ustr ''src/m.py'') = [ustr ''src'', ustr ''m.py'']"
    by code_simp+
  with unpack_writes_the_members [OF demo_checked, of "Present []"] show ?thesis by (metis (no_types, lifting))
qed

lemma checked_archive_is_bounded_witness: "int (length demo_members) \<le> max_files \<and> int (content_bytes demo_members) \<le> max_bytes"
  using checked_archive_is_bounded [OF demo_checked] by (simp add: honest_def demo_entry_def pack_entry_def)

lemma packed_directory_unpacks_witness: "checked_members demo_text_env 4096 (pack demo_text_env demo_dir) = Inr demo_members"
proof (rule packed_directory_unpacks [OF demo_files])
  show "tree_ok demo_dir" by code_simp
  show "decode_json demo_text_env (ustr ''{}'') = Inr (RObj [])" by (simp add: demo_text_env_def)
  show "4096 \<le> max_bytes" by (simp add: max_bytes_def)
qed

text \<open>A file with the name of the top-level directory survives the removal of that directory's prefix and
  is overwritten by a member of the same name: three files go in, two come out.\<close>

lemma top_file_is_overwritten:
  "checked_members demo_text_env 100 (Inr [demo_entry ''a'' [7], demo_entry ''a/a'' [8], demo_entry ''a/plugin.json'' [0]]) =
     Inr [(ustr ''a'', [8]), (ustr ''plugin.json'', [0])]"
  by code_simp

text \<open>Different members are hashed from the same bytes.\<close>

lemma digest_input_is_ambiguous:
  "digest_input demo_text_env [(ustr ''a'', [1]), (ustr ''b'', [2])] =
     digest_input demo_text_env [(ustr ''a'', 1 # 0 # ustr ''b'' @ [0, 2])]"
  by code_simp

end
