(* ===== verification/Plugin_Registry.thy ===== *)
theory Plugin_Registry
  imports Package_Order
begin

text \<open>
  The registry of \<open>raychat/plugins.py\<close> and the transaction that loads plugins into it. The tables of a
  registry are one dictionary per kind of registration; what is registered (a tool, a factory, a
  callback) is opaque and named by a number. A plugin's \<open>register\<close> function is the sequence of calls
  it makes on the staging interface: a call that raises ends it, and a call whose exception the
  plugin swallows stages nothing and is left out. \<open>effects\<close> records the cleanup callbacks that are
  staged and run and the source trees that are retired; an exception of a cleanup callback is only
  collected. The status lines of plugins are not modelled.
\<close>

section \<open>Data\<close>

datatype kind = Tools | Commands | Services | Providers | Middlewares | Navigations | Worker_Factories
  | Instructions | Menus | Reload_Handlers | Handoff_Handlers

datatype rname = Plain pystr | Scoped pystr pystr

record cleanup =
  owner :: pystr
  callback :: nat
  on_reload :: bool

record event_key =
  key_id :: nat
  key_name :: pystr

record subscription =
  sub_key :: event_key
  sub_handler :: nat

record tree =
  tree_id :: nat
  tree_path :: pystr
  tree_manifest :: manifest

datatype registration = Add kind rname nat | Subscribe event_key nat | Keep_Cleanup cleanup

record registry =
  options :: fields
  tables :: "kind \<Rightarrow> (rname, nat) dict"
  hooks :: "(pystr, (pystr \<times> subscription) list) dict"
  cleanups :: "cleanup list"
  plugins :: "(pystr, pystr) dict"
  owners :: "(kind \<times> rname, pystr) dict"
  plugin_state :: "(pystr, fields) dict"
  plugin_modules :: "(pystr, tree) dict"
  source_trees :: "tree list"
  source_snapshots :: "(pystr, tree) dict"

definition empty_registry :: registry where
  "empty_registry = \<lparr>options = [], tables = (\<lambda>_. []), hooks = [], cleanups = [], plugins = [], owners = [], plugin_state = [],
     plugin_modules = [], source_trees = [], source_snapshots = []\<rparr>"

datatype effect = Staged cleanup | Cleaned cleanup | Retired tree

text \<open>\<open>active\<close> is the registry that \<open>registry()\<close> returns: the one staged for an update, or the current one.\<close>

record host =
  active :: registry
  effects :: "effect list"
  host_closed :: bool

section \<open>The staging interface\<close>

text \<open>\<open>Register k n v ok\<close> is the method of the kind, with \<open>ok\<close> the outcome of its checks of the value.\<close>

datatype api_call =
    Register kind pystr nat bool
  | On event_key nat bool
  | On_Close nat bool bool
  | Require_Service pystr
  | Set_Service pystr nat
  | Put_State pystr pyval
  | Fail exn

definition registered_name :: "pystr \<Rightarrow> kind \<Rightarrow> pystr \<Rightarrow> rname" where
  "registered_name plugin k name =
     (if k = Worker_Factories then Scoped plugin name
      else if k = Reload_Handlers \<or> k = Handoff_Handlers then Plain plugin else Plain name)"

definition last_name :: "rname \<Rightarrow> pystr" where
  "last_name n = (case n of Plain s \<Rightarrow> s | Scoped _ s \<Rightarrow> s)"

definition rejected_value :: "kind \<Rightarrow> string" where
  "rejected_value k = (case k of
      Tools \<Rightarrow> ''Expected a valid ToolDefinition.''
    | Commands \<Rightarrow> ''Expected a valid CommandDefinition.''
    | Instructions \<Rightarrow> ''Instructions require a callable and integer priority.''
    | Menus \<Rightarrow> ''A menu factory must be callable.''
    | Navigations \<Rightarrow> ''Navigation must expose root_id, entries() and attach_root(worker).''
    | Worker_Factories \<Rightarrow> ''A worker factory must be callable.''
    | Providers \<Rightarrow> ''A provider factory must be callable.''
    | Middlewares \<Rightarrow> ''Middleware must be callable.''
    | Reload_Handlers \<Rightarrow> ''Reload handlers must be callable.''
    | _ \<Rightarrow> [])"

definition checks_value :: "kind \<Rightarrow> bool" where
  "checks_value k \<longleftrightarrow> k \<noteq> Services \<and> k \<noteq> Handoff_Handlers"

definition stage :: "(pystr \<Rightarrow> pystr) \<Rightarrow> pystr \<Rightarrow> registration \<Rightarrow> registration list \<Rightarrow> registration list result" where
  "stage repr name r pending =
     (if name_text name then Inr (pending @ [r])
      else raise_text PluginError (ustr ''Invalid registration name: '' @ repr name))"

text \<open>\<open>service\<close>: a plugin may only use the services of plugins it depends on.\<close>

definition service :: "registry \<Rightarrow> pystr \<Rightarrow> pystr \<Rightarrow> nat result" where
  "service reg plugin name =
     (let provider = map_of (owners reg) (Services, Plain name);
          allowed = (\<lambda>p. case map_of (plugin_modules reg) plugin of None \<Rightarrow> False | Some t \<Rightarrow> has_key (requires (tree_manifest t)) p)
      in case provider of
          Some p \<Rightarrow> if p \<noteq> [] \<and> p \<noteq> plugin \<and> \<not> allowed p
            then raise_text PluginError (plugin @ ustr '' must declare a dependency on '' @ p @ ustr '' to require service '' @ name @ ustr ''.'')
            else (case map_of (tables reg Services) (Plain name) of Some v \<Rightarrow> Inr v | None \<Rightarrow> raise_text KeyError name)
        | None \<Rightarrow> (case map_of (tables reg Services) (Plain name) of Some v \<Rightarrow> Inr v | None \<Rightarrow> raise_text KeyError name))"

definition replace_service :: "registry \<Rightarrow> pystr \<Rightarrow> pystr \<Rightarrow> nat \<Rightarrow> registry result" where
  "replace_service reg plugin name v =
     (if map_of (owners reg) (Services, Plain name) \<noteq> Some plugin
      then raise_text PluginError (ustr ''Plugins may replace only their own services: '' @ name)
      else Inr (reg\<lparr>tables := (tables reg)(Services := AList.update (Plain name) v (tables reg Services))\<rparr>))"

definition call_api ::
    "(pystr \<Rightarrow> pystr) \<Rightarrow> pystr \<Rightarrow> api_call \<Rightarrow> host \<Rightarrow> registration list \<Rightarrow> host \<times> registration list result" where
  "call_api repr plugin call h pending = (case call of
      Register k name v ok \<Rightarrow> (h,
        if checks_value k \<and> \<not> ok then raise PluginError (rejected_value k)
        else if k = Tools \<and> name = ustr ''done'' then raise PluginError ''done is reserved for session completion.''
        else let n = registered_name plugin k name in stage repr (last_name n) (Add k n v) pending)
    | On key f ok \<Rightarrow> (h,
        if \<not> ok then raise TypeError ''An event handler must be callable.''
        else stage repr (key_name key) (Subscribe key f) pending)
    | On_Close f keep ok \<Rightarrow>
        if \<not> ok then (h, raise PluginError ''A cleanup callback must be callable.'')
        else let c = \<lparr>owner = plugin, callback = f, on_reload = keep\<rparr> in (case stage repr plugin (Keep_Cleanup c) pending of
            Inl e \<Rightarrow> (h, Inl e) | Inr rs \<Rightarrow> (h\<lparr>effects := effects h @ [Staged c]\<rparr>, Inr rs))
    | Require_Service name \<Rightarrow> (h, bindR (service (active h) plugin name) (\<lambda>_. Inr pending))
    | Set_Service name v \<Rightarrow> (case replace_service (active h) plugin name v of
          Inl e \<Rightarrow> (h, Inl e) | Inr reg \<Rightarrow> (h\<lparr>active := reg\<rparr>, Inr pending))
    | Put_State k v \<Rightarrow>
        let st = (case map_of (plugin_state (active h)) plugin of Some fs \<Rightarrow> fs | None \<Rightarrow> [])
        in (h\<lparr>active := (active h)\<lparr>plugin_state := AList.update plugin (AList.update k v st) (plugin_state (active h))\<rparr>\<rparr>, Inr pending)
    | Fail e \<Rightarrow> (h, Inl e))"

fun run_script ::
    "(pystr \<Rightarrow> pystr) \<Rightarrow> pystr \<Rightarrow> api_call list \<Rightarrow> host \<Rightarrow> registration list \<Rightarrow> host \<times> registration list \<times> unit result" where
  "run_script repr plugin [] h pending = (h, pending, Inr ())"
| "run_script repr plugin (c # cs) h pending = (case call_api repr plugin c h pending of
      (h', Inl e) \<Rightarrow> (h', pending, Inl e)
    | (h', Inr rs) \<Rightarrow> run_script repr plugin cs h' rs)"

section \<open>Applying registrations\<close>

definition kind_text :: "kind \<Rightarrow> string" where
  "kind_text k = (case k of Tools \<Rightarrow> ''tools'' | Commands \<Rightarrow> ''commands'' | Services \<Rightarrow> ''services'' | Providers \<Rightarrow> ''providers''
     | Middlewares \<Rightarrow> ''middleware'' | Navigations \<Rightarrow> ''navigation'' | Worker_Factories \<Rightarrow> ''workers'' | Instructions \<Rightarrow> ''instructions''
     | Menus \<Rightarrow> ''menus'' | Reload_Handlers \<Rightarrow> ''reload_handlers'' | Handoff_Handlers \<Rightarrow> ''handoff_handlers'')"

fun check_duplicates ::
    "(rname \<Rightarrow> pystr) \<Rightarrow> registry \<Rightarrow> (kind \<times> rname) list \<Rightarrow> registration list \<Rightarrow> unit result" where
  "check_duplicates shown reg seen [] = Inr ()"
| "check_duplicates shown reg seen (Add k n v # rs) =
     (if has_key (tables reg k) n \<or> (k, n) \<in> set seen
      then raise_text PluginError (ustr ''Duplicate '' @ ustr (kind_text k) @ ustr '' registration: '' @ shown n)
      else check_duplicates shown reg ((k, n) # seen) rs)"
| "check_duplicates shown reg seen (r # rs) = check_duplicates shown reg seen rs"

definition apply_one :: "pystr \<Rightarrow> registration \<Rightarrow> registry \<Rightarrow> registry result" where
  "apply_one plugin r reg = (case r of
      Add k n v \<Rightarrow> Inr (reg\<lparr>tables := (tables reg)(k := AList.update n v (tables reg k)),
        owners := AList.update (k, n) plugin (owners reg)\<rparr>)
    | Subscribe key f \<Rightarrow>
        let subs = (case map_of (hooks reg) (key_name key) of Some ss \<Rightarrow> ss | None \<Rightarrow> []) in
        if list_ex (\<lambda>(_, s). sub_key s \<noteq> key) subs
        then raise_text PluginError (ustr ''Conflicting event contract: '' @ key_name key)
        else Inr (reg\<lparr>hooks := AList.update (key_name key) (subs @ [(plugin, \<lparr>sub_key = key, sub_handler = f\<rparr>)]) (hooks reg)\<rparr>)
    | Keep_Cleanup c \<Rightarrow> Inr (reg\<lparr>cleanups := cleanups reg @ [c]\<rparr>))"

fun apply_each :: "pystr \<Rightarrow> registration list \<Rightarrow> registry \<Rightarrow> registry \<times> unit result" where
  "apply_each plugin [] reg = (reg, Inr ())"
| "apply_each plugin (r # rs) reg = (case apply_one plugin r reg of
      Inl e \<Rightarrow> (reg, Inl e) | Inr reg' \<Rightarrow> apply_each plugin rs reg')"

definition apply_registrations ::
    "(rname \<Rightarrow> pystr) \<Rightarrow> pystr \<Rightarrow> registration list \<Rightarrow> registry \<Rightarrow> registry \<times> unit result" where
  "apply_registrations shown plugin rs reg = (case check_duplicates shown reg [] rs of
      Inl e \<Rightarrow> (reg, Inl e) | Inr _ \<Rightarrow> apply_each plugin rs reg)"

section \<open>Loading\<close>

text \<open>A module is the tree it was captured in and its \<open>register\<close> function, \<open>None\<close> when that is not callable.\<close>

record module =
  module_tree :: tree
  register_calls :: "api_call list option"

definition plugin_name :: "module \<Rightarrow> pystr" where
  "plugin_name m = plugin_id (tree_manifest (module_tree m))"

text \<open>\<open>SourceTree.failure\<close>.\<close>

definition tree_failure :: "tree \<Rightarrow> string \<Rightarrow> exn \<Rightarrow> exn" where
  "tree_failure t operation e = Exn PluginError (ustr ''Cannot '' @ ustr operation @ ustr '' plugin '' @ [39] @ plugin_id (tree_manifest t) @
     [39] @ ustr '' at '' @ tree_path t @ ustr '': '' @ ustr (exn_class_name (exn_kind e)) @ ustr '': '' @ exn_text e @
     ustr ''. Repair or update this package.'')"

fun check_modules :: "registry \<Rightarrow> module list \<Rightarrow> (pystr, module) dict \<Rightarrow> (pystr, module) dict result" where
  "check_modules reg [] pending = Inr pending"
| "check_modules reg (m # ms) pending =
     (let n = plugin_name m in
      if \<not> name_text n then raise PluginError ''Plugin must have a valid SDK v4 manifest.''
      else if plugin_sdk (tree_manifest (module_tree m)) \<noteq> api_version
        then raise_text PluginError (ustr ''Unsupported API version for '' @ n @ ustr ''.'')
      else if has_key pending n \<or> has_key (plugins reg) n then raise_text PluginError (ustr ''Duplicate plugin: '' @ n)
      else check_modules reg ms (pending @ [(n, m)]))"

definition merged :: "('k, 'v) dict \<Rightarrow> ('k, 'v) dict \<Rightarrow> ('k, 'v) dict" where
  "merged d e = fold (\<lambda>(k, v) a. AList.update k v a) e d"

definition ordered_modules :: "registry \<Rightarrow> module list \<Rightarrow> module list result" where
  "ordered_modules reg mods = bindR (check_modules reg mods []) (\<lambda>pending.
     let manifests = map (\<lambda>(n, t). (n, tree_manifest t)) (merged (plugin_modules reg) (map (\<lambda>(n, m). (n, module_tree m)) pending)) in
     bindR (dependency_order manifests (Some (keys pending)) []) (\<lambda>ns.
       Inr (List.map_filter (map_of pending) ns)))"

definition pending_cleanups :: "registration list \<Rightarrow> cleanup list" where
  "pending_cleanups rs = List.map_filter (\<lambda>r. case r of Keep_Cleanup c \<Rightarrow> Some c | _ \<Rightarrow> None) rs"

definition run_cleanups :: "cleanup list \<Rightarrow> host \<Rightarrow> host" where
  "run_cleanups cs h = h\<lparr>effects := effects h @ map Cleaned (rev cs)\<rparr>"

definition setdefault :: "'k \<Rightarrow> 'v \<Rightarrow> ('k, 'v) dict \<Rightarrow> ('k, 'v) dict" where
  "setdefault k v d = (if has_key d k then d else d @ [(k, v)])"

text \<open>\<open>_stage_module\<close>; the second component is what the module has staged when it ends.\<close>

definition stage_module ::
    "(pystr \<Rightarrow> pystr) \<Rightarrow> (rname \<Rightarrow> pystr) \<Rightarrow> module \<Rightarrow> host \<Rightarrow> host \<times> registration list \<times> unit result" where
  "stage_module repr shown m h =
     (let t = module_tree m; n = plugin_name m; reg = active h;
          reg = reg\<lparr>plugin_modules := AList.update n t (plugin_modules reg),
            source_trees := (if t \<in> set (source_trees reg) then source_trees reg else source_trees reg @ [t]),
            source_snapshots := setdefault (tree_path t) t (source_snapshots reg)\<rparr>;
          h = h\<lparr>active := reg\<rparr>
      in case register_calls m of
          None \<Rightarrow> (h, [], raise PluginError ''Plugin entrypoint must be callable.'')
        | Some cs \<Rightarrow> (case run_script repr n cs h [] of
              (h, rs, Inl e) \<Rightarrow> (h, rs, Inl e)
            | (h, rs, Inr _) \<Rightarrow> (case apply_registrations shown n rs (active h) of
                  (reg, Inl e) \<Rightarrow> (h\<lparr>active := reg\<rparr>, rs, Inl e)
                | (reg, Inr _) \<Rightarrow> (h\<lparr>active := reg\<lparr>plugins := AList.update n (tree_path t) (plugins reg)\<rparr>\<rparr>, rs, Inr ()))))"

definition load_module ::
    "(pystr \<Rightarrow> pystr) \<Rightarrow> (rname \<Rightarrow> pystr) \<Rightarrow> module \<Rightarrow> host \<Rightarrow> host \<times> unit result" where
  "load_module repr shown m h = (case stage_module repr shown m h of
      (h', rs, Inr _) \<Rightarrow> (h', Inr ())
    | (h', rs, Inl e) \<Rightarrow>
        let h'' = run_cleanups (pending_cleanups rs) h';
            reg = active h''
        in (h''\<lparr>active := reg\<lparr>cleanups := take (length (cleanups (active h))) (cleanups reg)\<rparr>\<rparr>,
            Inl (if isa (exn_kind e) Exception then tree_failure (module_tree m) ''register'' e else e)))"

fun load_each :: "(pystr \<Rightarrow> pystr) \<Rightarrow> (rname \<Rightarrow> pystr) \<Rightarrow> module list \<Rightarrow> host \<Rightarrow> host \<times> unit result" where
  "load_each repr shown [] h = (h, Inr ())"
| "load_each repr shown (m # ms) h = (case load_module repr shown m h of
      (h', Inl e) \<Rightarrow> (h', Inl e)
    | (h', Inr _) \<Rightarrow> load_each repr shown ms h')"

text \<open>\<open>Registry.fork\<close> copies every container and \<open>Registry.restore\<close> assigns every one of them back, table by
  table. A copy of a container is its value: the model has no aliases, so what \<open>fork\<close> guards against
  beyond its list of fields, sharing with the registry that goes on changing, does not arise.\<close>

definition fork_registry :: "registry \<Rightarrow> registry" where
  "fork_registry reg = \<lparr>options = options reg,
     tables = (\<lambda>k. case k of Tools \<Rightarrow> tables reg Tools | Commands \<Rightarrow> tables reg Commands
       | Services \<Rightarrow> tables reg Services | Providers \<Rightarrow> tables reg Providers
       | Middlewares \<Rightarrow> tables reg Middlewares | Navigations \<Rightarrow> tables reg Navigations
       | Worker_Factories \<Rightarrow> tables reg Worker_Factories | Instructions \<Rightarrow> tables reg Instructions
       | Menus \<Rightarrow> tables reg Menus | Reload_Handlers \<Rightarrow> tables reg Reload_Handlers
       | Handoff_Handlers \<Rightarrow> tables reg Handoff_Handlers),
     hooks = map (\<lambda>(name, callbacks). (name, callbacks)) (hooks reg), cleanups = cleanups reg,
     plugins = plugins reg, owners = owners reg,
     plugin_state = map (\<lambda>(name, st). (name, st)) (plugin_state reg), plugin_modules = plugin_modules reg,
     source_trees = source_trees reg, source_snapshots = source_snapshots reg\<rparr>"

definition restore_registry :: "registry \<Rightarrow> registry \<Rightarrow> registry" where
  "restore_registry reg previous = reg\<lparr>options := options previous,
     tables := (tables reg)(Tools := tables previous Tools, Commands := tables previous Commands,
       Services := tables previous Services, Providers := tables previous Providers,
       Middlewares := tables previous Middlewares, Reload_Handlers := tables previous Reload_Handlers,
       Handoff_Handlers := tables previous Handoff_Handlers, Navigations := tables previous Navigations,
       Worker_Factories := tables previous Worker_Factories, Instructions := tables previous Instructions,
       Menus := tables previous Menus),
     hooks := hooks previous, cleanups := cleanups previous, plugins := plugins previous,
     owners := owners previous, plugin_state := plugin_state previous,
     plugin_modules := plugin_modules previous, source_trees := source_trees previous,
     source_snapshots := source_snapshots previous\<rparr>"

definition load :: "(pystr \<Rightarrow> pystr) \<Rightarrow> (rname \<Rightarrow> pystr) \<Rightarrow> module list \<Rightarrow> host \<Rightarrow> host \<times> unit result" where
  "load repr shown mods h =
     (if host_closed h then (h, raise PluginError ''Runtime is closed.'')
      else case ordered_modules (active h) mods of
        Inl e \<Rightarrow> (h, Inl e)
      | Inr ordered_mods \<Rightarrow>
          let original = fork_registry (active h) in
          (case load_each repr shown ordered_mods h of
             (h', Inr _) \<Rightarrow> (h', Inr ())
           | (h', Inl e) \<Rightarrow>
               let h'' = run_cleanups (drop (length (cleanups (active h))) (cleanups (active h'))) h';
                   reg = (active h'')\<lparr>cleanups := take (length (cleanups (active h))) (cleanups (active h''))\<rparr>;
                   new_trees = filter (\<lambda>t. t \<notin> set (source_trees (active h))) (source_trees reg)
               in (h''\<lparr>active := restore_registry reg original, effects := effects h'' @ map Retired new_trees\<rparr>, Inl e)))"

lemma restore_forked [simp]: "restore_registry reg (fork_registry old) = old"
proof -
  have "tables (restore_registry reg (fork_registry old)) k = tables old k" for k
    by (cases k) (simp_all add: restore_registry_def fork_registry_def)
  then have "tables (restore_registry reg (fork_registry old)) = tables old" by blast
  then show ?thesis by (simp add: restore_registry_def fork_registry_def)
qed


section \<open>What a load leaves behind\<close>

lemma pending_cleanups_simps [simp]:
  "pending_cleanups [] = []"
  "pending_cleanups (rs @ ss) = pending_cleanups rs @ pending_cleanups ss"
  "pending_cleanups (Keep_Cleanup c # rs) = c # pending_cleanups rs"
  "pending_cleanups (Add k n v # rs) = pending_cleanups rs"
  "pending_cleanups (Subscribe key f # rs) = pending_cleanups rs"
  by (simp_all add: pending_cleanups_def List.map_filter_def)

lemma stage_Inr_iff: "stage repr n r pending = Inr rs \<longleftrightarrow> name_text n \<and> rs = pending @ [r]"
  by (auto simp: stage_def raise_text_def)

lemma replace_service_Inr_iff:
  "replace_service reg p n v = Inr reg' \<longleftrightarrow> map_of (owners reg) (Services, Plain n) = Some p \<and>
     reg' = reg\<lparr>tables := (tables reg)(Services := AList.update (Plain n) v (tables reg Services))\<rparr>"
  by (auto simp: replace_service_def raise_text_def)

text \<open>A call stages at most one registration; its cleanup callback enters the log as it is staged.\<close>

lemma call_api_stages:
  assumes "call_api repr p c h pending = (h', r)"
  shows "cleanups (active h') = cleanups (active h) \<and> source_trees (active h') = source_trees (active h) \<and>
    (case r of Inl _ \<Rightarrow> effects h' = effects h
     | Inr rs \<Rightarrow> \<exists>new. rs = pending @ new \<and> effects h' = effects h @ map Staged (pending_cleanups new))"
proof (cases c)
  case (Register k n v ok)
  with assms show ?thesis
    by (auto simp: call_api_def stage_def raise_def raise_text_def Let_def split: sum.splits if_splits)
next
  case (On key f ok)
  with assms show ?thesis
    by (auto simp: call_api_def stage_def raise_def raise_text_def Let_def split: sum.splits if_splits)
next
  case (On_Close f keep ok)
  with assms show ?thesis
    by (auto simp: call_api_def stage_def raise_def raise_text_def Let_def split: sum.splits if_splits)
next
  case (Require_Service n)
  with assms show ?thesis by (cases "service (active h) p n") (auto simp: call_api_def)
next
  case (Set_Service n v)
  with assms show ?thesis
    by (cases "replace_service (active h) p n v") (auto simp: call_api_def replace_service_Inr_iff)
next
  case (Put_State k v)
  with assms show ?thesis by (auto simp: call_api_def Let_def)
next
  case (Fail e)
  with assms show ?thesis by (auto simp: call_api_def)
qed

lemma run_script_stages:
  "run_script repr p cs h pending = (h', rs, r) \<Longrightarrow>
     cleanups (active h') = cleanups (active h) \<and> source_trees (active h') = source_trees (active h) \<and>
     (\<exists>new. rs = pending @ new \<and> effects h' = effects h @ map Staged (pending_cleanups new))"
proof (induction cs arbitrary: h pending)
  case (Cons c cs)
  obtain h1 r1 where c: "call_api repr p c h pending = (h1, r1)" by fastforce
  show ?case
  proof (cases r1)
    case (Inl e)
    with Cons.prems call_api_stages [OF c] c show ?thesis by auto
  next
    case (Inr rs1)
    with Cons.prems c have "run_script repr p cs h1 rs1 = (h', rs, r)" by simp
    from Cons.IH [OF this] call_api_stages [OF c] Inr show ?thesis by fastforce
  qed
qed simp

lemma apply_one_cleanups:
  "apply_one p r reg = Inr reg' \<Longrightarrow> cleanups reg' = cleanups reg @ pending_cleanups [r] \<and> source_trees reg' = source_trees reg"
  by (cases r) (auto simp: apply_one_def Let_def raise_text_def split: if_splits option.splits)

lemma apply_each_cleanups:
  "apply_each p rs reg = (reg', r) \<Longrightarrow> source_trees reg' = source_trees reg \<and>
     (\<exists>cs. cleanups reg' = cleanups reg @ cs \<and> (r = Inr () \<longrightarrow> cs = pending_cleanups rs))"
proof (induction rs arbitrary: reg)
  case (Cons q rs)
  show ?case
  proof (cases "apply_one p q reg")
    case (Inl e)
    with Cons.prems show ?thesis by auto
  next
    case (Inr reg1)
    with Cons.prems have "apply_each p rs reg1 = (reg', r)" by simp
    from Cons.IH [OF this] apply_one_cleanups [OF Inr] show ?thesis
      by (cases q) auto
  qed
qed simp

lemma apply_registrations_cleanups:
  "apply_registrations shown p rs reg = (reg', r) \<Longrightarrow> source_trees reg' = source_trees reg \<and>
     (\<exists>cs. cleanups reg' = cleanups reg @ cs \<and> (r = Inr () \<longrightarrow> cs = pending_cleanups rs))"
  by (auto simp: apply_registrations_def apply_each_cleanups split: sum.splits)

lemma stage_module_cleanups:
  assumes "stage_module repr shown m h = (h', rs, r)"
  shows "(\<exists>cs. cleanups (active h') = cleanups (active h) @ cs \<and> (r = Inr () \<longrightarrow> cs = pending_cleanups rs)) \<and>
    effects h' = effects h @ map Staged (pending_cleanups rs) \<and>
    (\<exists>ts. source_trees (active h') = source_trees (active h) @ ts \<and> set ts = {module_tree m} - set (source_trees (active h)) \<and> distinct ts)"
proof -
  define reg where "reg = (active h)\<lparr>plugin_modules := AList.update (plugin_name m) (module_tree m) (plugin_modules (active h)),
    source_trees := (if module_tree m \<in> set (source_trees (active h)) then source_trees (active h)
      else source_trees (active h) @ [module_tree m]),
    source_snapshots := setdefault (tree_path (module_tree m)) (module_tree m) (source_snapshots (active h))\<rparr>"
  have reg: "cleanups reg = cleanups (active h)" "\<exists>ts. source_trees reg = source_trees (active h) @ ts \<and>
      set ts = {module_tree m} - set (source_trees (active h)) \<and> distinct ts"
    by (auto simp: reg_def)
  show ?thesis
  proof (cases "register_calls m")
    case None
    with assms reg show ?thesis by (auto simp: stage_module_def Let_def reg_def [symmetric])
  next
    case (Some calls)
    obtain h1 rs1 r1 where run: "run_script repr (plugin_name m) calls (h\<lparr>active := reg\<rparr>) [] = (h1, rs1, r1)"
      using prod_cases3 by blast
    note h1 = run_script_stages [OF run]
    show ?thesis
    proof (cases r1)
      case (Inl e)
      with assms Some run have "h' = h1" "rs = rs1" "r = Inl e"
        by (simp_all add: stage_module_def Let_def reg_def [symmetric])
      with h1 reg show ?thesis by auto
    next
      case (Inr u)
      obtain reg2 r2 where applied: "apply_registrations shown (plugin_name m) rs1 (active h1) = (reg2, r2)" by fastforce
      then have "rs = rs1 \<and> effects h' = effects h1 \<and> r = r2 \<and>
          cleanups (active h') = cleanups reg2 \<and> source_trees (active h') = source_trees reg2"
        using assms Some run Inr
        by (cases r2) (auto simp: stage_module_def Let_def reg_def [symmetric])
      with apply_registrations_cleanups [OF applied] h1 reg show ?thesis by auto
    qed
  qed
qed


text \<open>A module that fails has run every cleanup callback it staged, newest first, and left none behind.\<close>

lemma load_module_effects:
  assumes "load_module repr shown m h = (h', r)"
  shows "(\<exists>ts. source_trees (active h') = source_trees (active h) @ ts \<and> set ts = {module_tree m} - set (source_trees (active h)) \<and> distinct ts) \<and>
    (\<exists>cs. case r of
       Inl _ \<Rightarrow> cleanups (active h') = cleanups (active h) \<and> effects h' = effects h @ map Staged cs @ map Cleaned (rev cs)
     | Inr _ \<Rightarrow> cleanups (active h') = cleanups (active h) @ cs \<and> effects h' = effects h @ map Staged cs)"
proof -
  obtain h1 rs r1 where staged: "stage_module repr shown m h = (h1, rs, r1)"
    using prod_cases3 by blast
  note h1 = stage_module_cleanups [OF staged]
  show ?thesis
  proof (cases r1)
    case (Inl e)
    with assms staged have "r \<noteq> Inr ()" "effects h' = effects h1 @ map Cleaned (rev (pending_cleanups rs))"
        "cleanups (active h') = take (length (cleanups (active h))) (cleanups (active h1))"
        "source_trees (active h') = source_trees (active h1)"
      by (auto simp: load_module_def Let_def run_cleanups_def)
    with h1 show ?thesis by (cases r) auto
  next
    case (Inr u)
    with assms staged have "h' = h1" "r = Inr ()" by (simp_all add: load_module_def)
    with h1 Inr show ?thesis by auto
  qed
qed

lemma ordered_modules_subset:
  assumes "ordered_modules reg mods = Inr ms"
  shows "set ms \<subseteq> set mods"
proof -
  have "snd ` set p \<subseteq> snd ` set pending \<union> set mods" if "check_modules reg mods pending = Inr p" for p pending
    using that by (induction reg mods pending rule: check_modules.induct)
      (force simp: Let_def raise_def raise_text_def split: if_splits)+
  moreover have "m \<in> snd ` set p" if "m \<in> set (List.map_filter (map_of p) ns)" for m and p :: "(pystr, module) dict" and ns
    using that by (force simp: List.map_filter_def dest: map_of_SomeD)
  ultimately show ?thesis
    using assms by (fastforce simp: ordered_modules_def bindR_Inr_iff)
qed

text \<open>The modules whose registration a load has begun: all of them, or those up to the one that raised.\<close>

definition attempted ::
    "(pystr \<Rightarrow> pystr) \<Rightarrow> (rname \<Rightarrow> pystr) \<Rightarrow> host \<Rightarrow> module list \<Rightarrow> unit result \<Rightarrow> module list \<Rightarrow> bool" where
  "attempted repr shown h ms r tried \<longleftrightarrow> (case r of
      Inr _ \<Rightarrow> tried = ms
    | Inl e \<Rightarrow> \<exists>before' m after h1. ms = before' @ m # after \<and> tried = before' @ [m] \<and>
        load_each repr shown before' h = (h1, Inr ()) \<and> snd (load_module repr shown m h1) = Inl e)"

lemma attempted_Cons:
  assumes "load_module repr shown m h = (h1, Inr u)" "attempted repr shown h1 ms r tried"
  shows "attempted repr shown h (m # ms) r (m # tried)"
proof (cases r)
  case (Inl e)
  with assms(2) obtain before' k after h2 where "ms = before' @ k # after" "tried = before' @ [k]"
      "load_each repr shown before' h1 = (h2, Inr ())" "snd (load_module repr shown k h2) = Inl e"
    by (auto simp: attempted_def)
  with assms(1) Inl show ?thesis
    unfolding attempted_def by (auto intro!: exI [of _ "m # before'"] exI [of _ k] exI [of _ after] exI [of _ h2])
qed (use assms in \<open>simp add: attempted_def\<close>)

lemma attempted_subset: "attempted repr shown h ms r tried \<Longrightarrow> set tried \<subseteq> set ms"
  by (auto simp: attempted_def split: sum.splits)

lemma load_each_effects:
  "load_each repr shown ms h = (h', r) \<Longrightarrow>
    (\<exists>ts tried. source_trees (active h') = source_trees (active h) @ ts \<and> distinct ts \<and>
       set ts = module_tree ` set tried - set (source_trees (active h)) \<and> attempted repr shown h ms r tried) \<and>
    (\<exists>cs ds. cleanups (active h') = cleanups (active h) @ cs \<and>
       effects h' = effects h @ map Staged cs @ map Staged ds @ map Cleaned (rev ds) \<and> (r = Inr () \<longrightarrow> ds = []))"
proof (induction ms arbitrary: h)
  case (Cons m ms)
  obtain h1 r1 where m: "load_module repr shown m h = (h1, r1)" by fastforce
  obtain ts1 cs1 where h1: "source_trees (active h1) = source_trees (active h) @ ts1"
      "set ts1 = {module_tree m} - set (source_trees (active h))" "distinct ts1"
      and r1: "case r1 of
       Inl _ \<Rightarrow> cleanups (active h1) = cleanups (active h) \<and> effects h1 = effects h @ map Staged cs1 @ map Cleaned (rev cs1)
     | Inr _ \<Rightarrow> cleanups (active h1) = cleanups (active h) @ cs1 \<and> effects h1 = effects h @ map Staged cs1"
    using load_module_effects [OF m] by blast
  show ?case
  proof (cases r1)
    case (Inl e)
    with Cons.prems m have "h' = h1" "r = Inl e" by simp_all
    moreover have "attempted repr shown h (m # ms) (Inl e) [m]"
      using m Inl by (auto simp: attempted_def)
    ultimately show ?thesis using h1 r1 Inl by (intro conjI exI [of _ ts1] exI [of _ "[m]"]) auto
  next
    case (Inr u)
    with Cons.prems m have "load_each repr shown ms h1 = (h', r)" by simp
    from Cons.IH [OF this] obtain ts2 tried cs2 ds where h2: "source_trees (active h') = source_trees (active h1) @ ts2"
        "set ts2 = module_tree ` set tried - set (source_trees (active h1))" "distinct ts2"
        "cleanups (active h') = cleanups (active h1) @ cs2"
        "effects h' = effects h1 @ map Staged cs2 @ map Staged ds @ map Cleaned (rev ds)" "r = Inr () \<longrightarrow> ds = []"
        "attempted repr shown h1 ms r tried"
      by blast
    have "source_trees (active h') = source_trees (active h) @ (ts1 @ ts2)" using h1 h2 by simp
    moreover have "set (ts1 @ ts2) = module_tree ` set (m # tried) - set (source_trees (active h))" "distinct (ts1 @ ts2)"
      using h1 h2 by auto
    moreover have "attempted repr shown h (m # ms) r (m # tried)"
      using attempted_Cons [OF m [unfolded Inr] h2(7)] .
    moreover have "cleanups (active h') = cleanups (active h) @ (cs1 @ cs2) \<and>
        effects h' = effects h @ map Staged (cs1 @ cs2) @ map Staged ds @ map Cleaned (rev ds)"
      using r1 Inr h2 by simp
    ultimately show ?thesis using h2(6) by blast
  qed
next
  case Nil
  then have "h' = h" "r = Inr ()" by simp_all
  then show ?case by (intro conjI exI [of _ "[]"]) (simp_all add: attempted_def)
qed

lemma load_succeeds:
  assumes "load repr shown mods h = (h', Inr u)"
  obtains cs ts where "cleanups (active h') = cleanups (active h) @ cs" "effects h' = effects h @ map Staged cs"
    "source_trees (active h') = source_trees (active h) @ ts"
    "set ts \<subseteq> module_tree ` set mods - set (source_trees (active h))" "distinct ts"
proof -
  obtain ms where ms: "ordered_modules (active h) mods = Inr ms" "load_each repr shown ms h = (h', Inr ())"
    using assms by (auto simp: load_def raise_def Let_def split: if_splits sum.splits prod.splits)
  from load_each_effects [OF ms(2)] obtain ts tried cs ds where
    "source_trees (active h') = source_trees (active h) @ ts" "distinct ts"
    "set ts = module_tree ` set tried - set (source_trees (active h))" "attempted repr shown h ms (Inr ()) tried"
    "cleanups (active h') = cleanups (active h) @ cs" "effects h' = effects h @ map Staged cs" by fastforce
  moreover from this(4) have "set tried \<subseteq> set mods" using attempted_subset ordered_modules_subset [OF ms(1)] by blast
  ultimately show ?thesis using that [of cs ts] by blast
qed

lemma load_failure:
  assumes "load repr shown mods h = (h', Inl e)" "\<not> host_closed h" "ordered_modules (active h) mods = Inr ms"
  obtains cs ts tried where "active h' = active h"
    "effects h' = effects h @ map Staged cs @ map Cleaned (rev cs) @ map Retired ts" "distinct ts"
    "set ts = module_tree ` set tried - set (source_trees (active h))" "attempted repr shown h ms (Inl e) tried"
proof -
  obtain h1 r1 where each: "load_each repr shown ms h = (h1, r1)" by fastforce
  with assms have r1: "r1 = Inl e" by (cases r1) (auto simp: load_def Let_def)
  obtain ts tried cs ds where h1: "source_trees (active h1) = source_trees (active h) @ ts"
      "set ts = module_tree ` set tried - set (source_trees (active h))" "distinct ts"
      "cleanups (active h1) = cleanups (active h) @ cs"
      "effects h1 = effects h @ map Staged cs @ map Staged ds @ map Cleaned (rev ds)"
      "attempted repr shown h ms (Inl e) tried"
    using load_each_effects [OF each] r1 by blast
  have "filter (\<lambda>t. t \<notin> set (source_trees (active h))) (source_trees (active h1)) = ts"
    using h1(1,2) by (auto simp: filter_id_conv)
  with assms each h1 r1 have "active h' = active h \<and>
      effects h' = effects h @ map Staged (cs @ ds) @ map Cleaned (rev (cs @ ds)) @ map Retired ts"
    by (auto simp: load_def run_cleanups_def Let_def)
  then show ?thesis using that h1(2,3,6) by blast
qed

lemma load_refused:
  "host_closed h \<or> isl (ordered_modules (active h) mods) \<Longrightarrow> fst (load repr shown mods h) = h"
  by (auto simp: load_def isl_def)

lemma load_fails:
  assumes "load repr shown mods h = (h', Inl e)"
  obtains cs ts where "active h' = active h" "effects h' = effects h @ map Staged cs @ map Cleaned (rev cs) @ map Retired ts"
    "set ts \<subseteq> module_tree ` set mods - set (source_trees (active h))" "distinct ts"
proof (cases "host_closed h \<or> isl (ordered_modules (active h) mods)")
  case True
  with assms load_refused [of h mods repr shown] have "h' = h" by simp
  with that [of "[]" "[]"] show ?thesis by simp
next
  case False
  then obtain ms where ms: "\<not> host_closed h" "ordered_modules (active h) mods = Inr ms"
    by (cases "ordered_modules (active h) mods") auto
  obtain cs ts tried where f: "active h' = active h"
      "effects h' = effects h @ map Staged cs @ map Cleaned (rev cs) @ map Retired ts" "distinct ts"
      "set ts = module_tree ` set tried - set (source_trees (active h))" "attempted repr shown h ms (Inl e) tried"
    by (rule load_failure [OF assms ms])
  have "set tried \<subseteq> set mods" using attempted_subset [OF f(5)] ordered_modules_subset [OF ms(2)] by blast
  then have "set ts \<subseteq> module_tree ` set mods - set (source_trees (active h))" using f(4) by blast
  with that f(1-3) show ?thesis by blast
qed



lemma map_leD: "f \<subseteq>\<^sub>m g \<Longrightarrow> f k = Some v \<Longrightarrow> g k = Some v"
  by (metis domI map_le_def)

section \<open>The invariant of a registry\<close>

text \<open>Every registration has an owner that is loaded, keeps to its owner's scope, and events are
  subscribed under one contract per name.\<close>

definition staged_by :: "pystr \<Rightarrow> registration \<Rightarrow> bool" where
  "staged_by p r = (case r of
      Add k n v \<Rightarrow> k = Worker_Factories \<longrightarrow> (\<exists>s. n = Scoped p s)
    | Subscribe key f \<Rightarrow> True
    | Keep_Cleanup c \<Rightarrow> owner c = p)"

definition owned :: "registry \<Rightarrow> bool" where
  "owned reg \<longleftrightarrow>
     (\<forall>k n p. map_of (owners reg) (k, n) = Some p \<longrightarrow> has_key (tables reg k) n \<and> has_key (plugin_modules reg) p \<and>
        (k = Worker_Factories \<longrightarrow> (\<exists>s. n = Scoped p s))) \<and>
     (\<forall>name subs. map_of (hooks reg) name = Some subs \<longrightarrow> (\<exists>key. key_name key = name \<and>
        list_all (\<lambda>(p, s). sub_key s = key \<and> has_key (plugin_modules reg) p) subs)) \<and>
     list_all (\<lambda>c. has_key (plugin_modules reg) (owner c)) (cleanups reg)"

definition manifests_of :: "registry \<Rightarrow> manifests" where
  "manifests_of reg = map (\<lambda>(n, t). (n, tree_manifest t)) (plugin_modules reg)"

text \<open>The plugins are listed in an order in which each comes after those it requires.\<close>

definition registry_ok :: "registry \<Rightarrow> bool" where
  "registry_ok reg \<longleftrightarrow> owned reg \<and> keys (plugin_modules reg) = keys (plugins reg) \<and>
     in_order (manifests_of reg) {} [] (keys (plugins reg)) \<and>
     (\<forall>n t. map_of (plugin_modules reg) n = Some t \<longrightarrow> plugin_id (tree_manifest t) = n \<and>
        map_of (plugins reg) n = Some (tree_path t) \<and> t \<in> set (source_trees reg) \<and>
        has_key (source_snapshots reg) (tree_path t))"

text \<open>What a registry keeps when plugins are added to it.\<close>

definition grows :: "registry \<Rightarrow> registry \<Rightarrow> bool" where
  "grows reg reg' \<longleftrightarrow> options reg' = options reg \<and> (\<forall>k. map_of (tables reg k) \<subseteq>\<^sub>m map_of (tables reg' k)) \<and>
     map_of (owners reg) \<subseteq>\<^sub>m map_of (owners reg') \<and>
     (\<forall>k n. has_key (tables reg k) n \<longrightarrow> map_of (owners reg') (k, n) = map_of (owners reg) (k, n)) \<and>
     (\<forall>name subs. map_of (hooks reg) name = Some subs \<longrightarrow> (\<exists>more. map_of (hooks reg') name = Some (subs @ more))) \<and>
     map_of (plugin_modules reg) \<subseteq>\<^sub>m map_of (plugin_modules reg') \<and> prefix (plugins reg) (plugins reg') \<and>
     prefix (cleanups reg) (cleanups reg')"

definition same_plugins :: "registry \<Rightarrow> registry \<Rightarrow> bool" where
  "same_plugins reg reg' \<longleftrightarrow> plugin_modules reg' = plugin_modules reg \<and> plugins reg' = plugins reg \<and>
     source_trees reg' = source_trees reg \<and> source_snapshots reg' = source_snapshots reg"

lemma grows_refl [simp]: "grows reg reg"
  by (simp add: grows_def map_le_refl)

lemma grows_has_key: "grows reg reg' \<Longrightarrow> has_key (tables reg k) n \<Longrightarrow> has_key (tables reg' k) n"
  by (auto simp: grows_def has_key_iff map_le_def dom_def)

lemma grows_trans:
  assumes "grows a b" "grows b c"
  shows "grows a c"
proof -
  have "map_of (owners c) (k, n) = map_of (owners a) (k, n)" if "has_key (tables a k) n" for k n
    using assms that grows_has_key [OF assms(1) that] by (simp add: grows_def)
  moreover have "\<exists>more. map_of (hooks c) name = Some (subs @ more)" if "map_of (hooks a) name = Some subs" for name subs
    using assms that unfolding grows_def by (metis append.assoc)
  ultimately show ?thesis
    using assms unfolding grows_def by (auto intro: map_le_trans prefix_order.trans)
qed

fun additions :: "registration list \<Rightarrow> (kind \<times> rname) list" where
  "additions [] = []"
| "additions (Add k n v # rs) = (k, n) # additions rs"
| "additions (r # rs) = additions rs"

lemma check_duplicates_Inr_iff:
  "check_duplicates shown reg seen rs = Inr u \<longleftrightarrow>
     distinct (additions rs) \<and> (\<forall>(k, n) \<in> set (additions rs). \<not> has_key (tables reg k) n \<and> (k, n) \<notin> set seen)"
  by (induction shown reg seen rs rule: check_duplicates.induct) (auto simp: raise_text_def)

lemma update_fresh: "\<not> has_key d k \<Longrightarrow> AList.update k v d = d @ [(k, v)]"
  by (induction d) (auto simp: has_key_def keys_def)

lemma has_key_update [simp]: "has_key (AList.update k v d) n \<longleftrightarrow> n = k \<or> has_key d n"
  by (auto simp: has_key_iff)

declare map_le_refl [simp]

lemma map_le_fresh: "\<not> has_key d k \<Longrightarrow> map_of d \<subseteq>\<^sub>m (map_of d)(k \<mapsto> v)"
  by (auto simp: map_le_def has_key_iff)

lemma apply_one_ok:
  assumes "apply_one p r reg = Inr reg'" "owned reg" "staged_by p r" "has_key (plugin_modules reg) p"
    "\<forall>(k, n) \<in> set (additions [r]). \<not> has_key (tables reg k) n"
  shows "owned reg' \<and> grows reg reg' \<and> same_plugins reg reg' \<and>
    (\<forall>k n. has_key (tables reg' k) n \<longleftrightarrow> has_key (tables reg k) n \<or> (k, n) \<in> set (additions [r]))"
proof (cases r)
  case (Add k n v)
  then have new: "\<not> has_key (tables reg k) n" using assms(5) by simp
  moreover from new have unowned: "\<not> has_key (owners reg) (k, n)"
    using assms(2) unfolding owned_def has_key_iff [of "owners reg"] by blast
  moreover have reg': "reg' = reg\<lparr>tables := (tables reg)(k := AList.update n v (tables reg k)),
      owners := AList.update (k, n) p (owners reg)\<rparr>"
    using Add assms(1) by (simp add: apply_one_def)
  moreover have "owned reg'"
    using Add assms(2,3,4) unfolding owned_def reg' by (simp add: staged_by_def)
  ultimately show ?thesis using Add by (auto simp: grows_def same_plugins_def map_le_fresh)
next
  case (Subscribe key f)
  define subs where "subs = (case map_of (hooks reg) (key_name key) of Some ss \<Rightarrow> ss | None \<Rightarrow> [])"
  have same: "list_all (\<lambda>(_, s). sub_key s = key) subs"
    and reg': "reg' = reg\<lparr>hooks := AList.update (key_name key) (subs @ [(p, \<lparr>sub_key = key, sub_handler = f\<rparr>)]) (hooks reg)\<rparr>"
    using assms(1) Subscribe
    by (auto simp: apply_one_def Let_def subs_def [symmetric] raise_text_def list_all_iff list_ex_iff split: if_splits)
  moreover have "list_all (\<lambda>(q, s). has_key (plugin_modules reg) q) subs"
  proof (cases "map_of (hooks reg) (key_name key)")
    case (Some ss)
    with assms(2) obtain k where "list_all (\<lambda>(q, s). sub_key s = k \<and> has_key (plugin_modules reg) q) ss"
      unfolding owned_def by blast
    with Some show ?thesis by (auto simp: subs_def list_all_iff)
  qed (simp add: subs_def)
  ultimately have "list_all (\<lambda>(q, s). sub_key s = key \<and> has_key (plugin_modules reg') q) (subs @ [(p, \<lparr>sub_key = key, sub_handler = f\<rparr>)])"
    using assms(4) by (auto simp: list_all_iff)
  then have "owned reg'" using assms(2) unfolding reg' owned_def by auto
  moreover have "grows reg reg'"
    unfolding reg' grows_def by (auto simp: subs_def map_le_refl)
  ultimately show ?thesis using Subscribe reg' by (auto simp: same_plugins_def)
next
  case (Keep_Cleanup c)
  with assms show ?thesis by (auto simp: apply_one_def owned_def grows_def staged_by_def same_plugins_def)
qed


lemma apply_each_ok:
  "apply_each p rs reg = (reg', Inr ()) \<Longrightarrow> owned reg \<Longrightarrow> list_all (staged_by p) rs \<Longrightarrow> has_key (plugin_modules reg) p \<Longrightarrow>
     distinct (additions rs) \<Longrightarrow> \<forall>(k, n) \<in> set (additions rs). \<not> has_key (tables reg k) n \<Longrightarrow>
   owned reg' \<and> grows reg reg' \<and> same_plugins reg reg'"
proof (induction rs arbitrary: reg)
  case Nil
  then show ?case by (simp add: same_plugins_def)
next
  case (Cons r rs)
  obtain reg1 where r: "apply_one p r reg = Inr reg1" "apply_each p rs reg1 = (reg', Inr ())"
    using Cons.prems(1) by (cases "apply_one p r reg") auto
  have adds: "additions (r # rs) = additions [r] @ additions rs" by (cases r) auto
  have reg1: "owned reg1 \<and> grows reg reg1 \<and> same_plugins reg reg1 \<and>
      (\<forall>k n. has_key (tables reg1 k) n \<longleftrightarrow> has_key (tables reg k) n \<or> (k, n) \<in> set (additions [r]))"
    using r(1) Cons.prems(2-4,6) adds by (intro apply_one_ok) auto
  have "owned reg' \<and> grows reg1 reg' \<and> same_plugins reg1 reg'"
  proof (rule Cons.IH [OF r(2)])
    show "\<forall>(k, n) \<in> set (additions rs). \<not> has_key (tables reg1 k) n"
      using reg1 Cons.prems(5,6) adds by auto
  qed (use reg1 Cons.prems adds in \<open>auto simp: same_plugins_def\<close>)
  with reg1 show ?case using grows_trans by (auto simp: same_plugins_def)
qed

lemma apply_registrations_ok:
  assumes "apply_registrations shown p rs reg = (reg', Inr ())" "owned reg" "list_all (staged_by p) rs"
    "has_key (plugin_modules reg) p"
  shows "owned reg' \<and> grows reg reg' \<and> same_plugins reg reg'"
proof -
  have "check_duplicates shown reg [] rs = Inr ()" "apply_each p rs reg = (reg', Inr ())"
    using assms(1) by (auto simp: apply_registrations_def split: sum.splits)
  with assms show ?thesis by (intro apply_each_ok) (auto simp: check_duplicates_Inr_iff)
qed

text \<open>While it registers, a plugin changes nothing of the registry but its own state.\<close>

lemma call_api_keeps:
  assumes "call_api repr p c h pending = (h', r)" "\<forall>kn. map_of (owners (active h)) kn \<noteq> Some p"
  shows "(\<exists>st. active h' = (active h)\<lparr>plugin_state := st\<rparr>) \<and>
    (case r of Inl _ \<Rightarrow> True | Inr rs \<Rightarrow> \<exists>new. rs = pending @ new \<and> list_all (staged_by p) new)"
proof (cases c)
  case (Register k n v ok)
  with assms show ?thesis
    by (auto simp: call_api_def stage_def raise_def raise_text_def Let_def staged_by_def registered_name_def
        intro: exI [of _ "plugin_state (active h)"] split: sum.splits if_splits)
next
  case (On key f ok)
  with assms show ?thesis
    by (auto simp: call_api_def stage_def raise_def raise_text_def Let_def staged_by_def
        intro: exI [of _ "plugin_state (active h)"] split: sum.splits if_splits)
next
  case (On_Close f keep ok)
  with assms show ?thesis
    by (auto simp: call_api_def stage_def raise_def raise_text_def Let_def staged_by_def
        intro: exI [of _ "plugin_state (active h)"] split: sum.splits if_splits)
next
  case (Require_Service n)
  with assms show ?thesis
    by (cases "service (active h) p n") (auto simp: call_api_def intro: exI [of _ "plugin_state (active h)"])
next
  case (Set_Service n v)
  with assms show ?thesis
    by (cases "replace_service (active h) p n v")
      (auto simp: call_api_def replace_service_Inr_iff intro: exI [of _ "plugin_state (active h)"])
next
  case (Put_State k v)
  with assms show ?thesis by (auto simp: call_api_def Let_def)
next
  case (Fail e)
  with assms show ?thesis by (auto simp: call_api_def intro: exI [of _ "plugin_state (active h)"])
qed

lemma run_script_keeps:
  "run_script repr p cs h pending = (h', rs, r) \<Longrightarrow> \<forall>kn. map_of (owners (active h)) kn \<noteq> Some p \<Longrightarrow>
     list_all (staged_by p) pending \<Longrightarrow>
     (\<exists>st. active h' = (active h)\<lparr>plugin_state := st\<rparr>) \<and> list_all (staged_by p) rs"
proof (induction cs arbitrary: h pending)
  case Nil
  then show ?case by (auto intro: exI [of _ "plugin_state (active h')"])
next
  case (Cons c cs)
  obtain h1 r1 where c: "call_api repr p c h pending = (h1, r1)" by fastforce
  note h1 = call_api_keeps [OF c Cons.prems(2)]
  show ?case
  proof (cases r1)
    case (Inl e)
    with Cons.prems c h1 show ?thesis by auto
  next
    case (Inr rs1)
    with Cons.prems c have "run_script repr p cs h1 rs1 = (h', rs, r)" by simp
    from Cons.IH [OF this] h1 Inr Cons.prems show ?thesis by auto
  qed
qed

text \<open>The next module of an order has everything it requires.\<close>

definition requirements_met :: "registry \<Rightarrow> module \<Rightarrow> bool" where
  "requirements_met reg m \<longleftrightarrow> list_all (\<lambda>(d, v). has_key (plugins reg) d \<and>
     map_option plugin_version (map_of (manifests_of reg) d) = Some v) (requires (tree_manifest (module_tree m)))"

lemma in_order_mono:
  "in_order ms excluded ds ns \<Longrightarrow> map_of ms \<subseteq>\<^sub>m map_of ms' \<Longrightarrow> in_order ms' excluded ds ns"
proof (induction ns arbitrary: ds)
  case (Cons n ns)
  have "ready ms' excluded ds n" if r: "ready ms excluded ds n"
  proof -
    from r obtain m where m: "map_of ms n = Some m" "map_of ms' n = Some m"
      using Cons.prems(2) by (auto simp: ready_def map_le_def split: option.splits) force
    moreover have "map_of ms' d = Some x" if "map_of ms d = Some x" for d x
      using that Cons.prems(2) by (auto simp: map_le_def) force
    ultimately show ?thesis using r by (fastforce simp: ready_def list_all_iff)
  qed
  with Cons show ?case by simp
qed simp


lemma owned_fields [simp]:
  "owned (reg\<lparr>plugin_state := st\<rparr>) = owned reg" "owned (reg\<lparr>plugins := ps\<rparr>) = owned reg"
  "owned (reg\<lparr>source_trees := ts\<rparr>) = owned reg" "owned (reg\<lparr>source_snapshots := ss\<rparr>) = owned reg"
  by (simp_all add: owned_def)

lemma owned_more_modules: "owned reg \<Longrightarrow> owned (reg\<lparr>plugin_modules := AList.update n t (plugin_modules reg)\<rparr>)"
  by (auto simp: owned_def list_all_iff) fastforce

lemma map_of_manifests: "map_of (manifests_of reg) n = map_option tree_manifest (map_of (plugin_modules reg) n)"
  by (simp only: manifests_of_def map_of_map o_def)

lemma keys_manifests [simp]: "keys (manifests_of reg) = keys (plugin_modules reg)"
  by (induction "plugin_modules reg") (auto simp: manifests_of_def keys_def)

lemma has_key_setdefault [simp]: "has_key (setdefault k v d) n \<longleftrightarrow> n = k \<or> has_key d n"
  by (auto simp: setdefault_def has_key_def keys_def)

lemma keys_update_fresh: "\<not> has_key d k \<Longrightarrow> keys (AList.update k v d) = keys d @ [k]"
  by (simp add: update_fresh keys_def)

lemma has_key_keys: "keys d = keys e \<Longrightarrow> has_key d k \<longleftrightarrow> has_key e k"
  by (simp add: has_key_def)

text \<open>The registry in which a module registers itself.\<close>

definition with_module :: "module \<Rightarrow> registry \<Rightarrow> registry" where
  "with_module m reg = reg\<lparr>plugin_modules := AList.update (plugin_name m) (module_tree m) (plugin_modules reg),
     source_trees := (if module_tree m \<in> set (source_trees reg) then source_trees reg else source_trees reg @ [module_tree m]),
     source_snapshots := setdefault (tree_path (module_tree m)) (module_tree m) (source_snapshots reg)\<rparr>"

lemma stage_module_Inr:
  assumes "stage_module repr shown m h = (h', rs, Inr u)"
  obtains calls h1 reg2 where "run_script repr (plugin_name m) calls (h\<lparr>active := with_module m (active h)\<rparr>) [] = (h1, rs, Inr ())"
    "apply_registrations shown (plugin_name m) rs (active h1) = (reg2, Inr ())"
    "active h' = reg2\<lparr>plugins := AList.update (plugin_name m) (tree_path (module_tree m)) (plugins reg2)\<rparr>"
proof (cases "register_calls m")
  case None
  with assms show ?thesis by (simp add: stage_module_def Let_def raise_def)
next
  case (Some calls)
  obtain h1 rs1 r1 where run: "run_script repr (plugin_name m) calls (h\<lparr>active := with_module m (active h)\<rparr>) [] = (h1, rs1, r1)"
    using prod_cases3 by blast
  then have run1: "run_script repr (plugin_name m) calls (h\<lparr>active := with_module m (active h)\<rparr>) [] = (h1, rs1, Inr ())"
    using assms Some by (cases r1) (auto simp: stage_module_def Let_def with_module_def [symmetric])
  obtain reg2 r2 where applied: "apply_registrations shown (plugin_name m) rs1 (active h1) = (reg2, r2)" by fastforce
  then have "r2 = Inr () \<and> rs1 = rs \<and> active h' = reg2\<lparr>plugins := AList.update (plugin_name m) (tree_path (module_tree m)) (plugins reg2)\<rparr>"
    using assms Some run1 by (cases r2) (auto simp: stage_module_def Let_def with_module_def [symmetric])
  with run1 applied that show ?thesis by blast
qed

lemma load_module_ok:
  assumes "load_module repr shown m h = (h', Inr u)" "registry_ok (active h)" "\<not> has_key (plugins (active h)) (plugin_name m)"
    "requirements_met (active h) m"
  shows "registry_ok (active h') \<and> grows (active h) (active h') \<and>
    keys (plugins (active h')) = keys (plugins (active h)) @ [plugin_name m] \<and>
    plugin_modules (active h') = plugin_modules (active h) @ [(plugin_name m, module_tree m)]"
proof -
  let ?n = "plugin_name m" and ?reg = "active h" and ?t = "module_tree m"
  obtain rs where "stage_module repr shown m h = (h', rs, Inr ())"
    using assms(1) by (auto simp: load_module_def Let_def split: prod.splits sum.splits)
  then obtain calls h1 reg2 where
      run: "run_script repr ?n calls (h\<lparr>active := with_module m ?reg\<rparr>) [] = (h1, rs, Inr ())"
      and applied: "apply_registrations shown ?n rs (active h1) = (reg2, Inr ())"
      and h': "active h' = reg2\<lparr>plugins := AList.update ?n (tree_path ?t) (plugins reg2)\<rparr>"
    by (rule stage_module_Inr)
  have keys: "keys (plugin_modules ?reg) = keys (plugins ?reg)" "owned ?reg"
    using assms(2) by (simp_all add: registry_ok_def)
  have new: "\<not> has_key (plugin_modules ?reg) ?n" using assms(3) has_key_keys [OF keys(1)] by simp
  have "\<forall>kn. map_of (owners ?reg) kn \<noteq> Some ?n"
  proof
    fix kn
    show "map_of (owners ?reg) kn \<noteq> Some ?n"
      using keys(2) new unfolding owned_def by (cases kn) blast
  qed
  then obtain st where h1: "active h1 = (with_module m ?reg)\<lparr>plugin_state := st\<rparr>" "list_all (staged_by ?n) rs"
    using run_script_keeps [OF run] by (auto simp: with_module_def)
  have "owned (active h1)" "has_key (plugin_modules (active h1)) ?n"
    using owned_more_modules [OF keys(2)] by (simp_all add: h1 with_module_def)
  from apply_registrations_ok [OF applied this(1) h1(2) this(2)]
  have reg2: "owned reg2" "grows (active h1) reg2" "same_plugins (active h1) reg2" by auto
  have mods: "plugin_modules (active h') = plugin_modules ?reg @ [(?n, ?t)]"
    and names: "plugins (active h') = plugins ?reg @ [(?n, tree_path ?t)]"
    using reg2(3) h' h1 new assms(3) by (simp_all add: same_plugins_def with_module_def update_fresh)
  have captured: "source_trees (active h') = (if ?t \<in> set (source_trees ?reg) then source_trees ?reg else source_trees ?reg @ [?t])"
      "source_snapshots (active h') = setdefault (tree_path ?t) ?t (source_snapshots ?reg)"
    using reg2(3) h' h1 by (simp_all add: same_plugins_def with_module_def)
  have absent: "map_of (plugins ?reg) ?n = None" using assms(3) by (simp add: has_key_iff)
  have le: "map_of (plugin_modules ?reg) \<subseteq>\<^sub>m map_of (plugin_modules ?reg @ [(?n, ?t)])"
    by (auto simp: map_le_def map_add_def split: option.splits)
  have "grows ?reg (active h1)" using h1 new le by (simp add: grows_def with_module_def update_fresh)
  moreover have "grows reg2 (active h')" using names reg2(3) h1 h' by (simp add: grows_def same_plugins_def with_module_def)
  ultimately have grows: "grows ?reg (active h')" using reg2(2) grows_trans by blast
  have lookup: "map_of (plugin_modules (active h')) = (map_of (plugin_modules ?reg))(?n \<mapsto> ?t)"
    using new by (auto simp: mods map_add_def has_key_iff split: option.splits)
  have more: "map_of (manifests_of ?reg) \<subseteq>\<^sub>m map_of (manifests_of (active h'))"
    using new by (auto simp: map_of_manifests map_le_def lookup has_key_iff)
  have "ready (manifests_of (active h')) {} (keys (plugins ?reg)) ?n"
  proof -
    have "d \<in> set (keys (plugins ?reg)) \<and> map_option plugin_version (map_of (manifests_of (active h')) d) = Some v"
      if "(d, v) \<in> set (requires (tree_manifest ?t))" for d v
    proof -
      have "has_key (plugins ?reg) d" "map_option plugin_version (map_of (manifests_of ?reg) d) = Some v"
        using assms(4) that by (auto simp: requirements_met_def list_all_iff)
      moreover from this(2) obtain x where "map_of (manifests_of ?reg) d = Some x" "plugin_version x = v" by blast
      moreover from this(1) have "map_of (manifests_of (active h')) d = Some x"
        using map_leD [OF more] by simp
      ultimately show ?thesis by (simp add: has_key_def)
    qed
    then show ?thesis by (auto simp: ready_def map_of_manifests [of _ ?n] lookup list_all_iff)
  qed
  then have "in_order (manifests_of (active h')) {} [] (keys (plugins (active h')))"
    using in_order_mono [OF _ more] assms(2,3) by (simp add: names registry_ok_def in_order_append keys_def has_key_def)
  moreover have "plugin_id (tree_manifest t) = n \<and> map_of (plugins (active h')) n = Some (tree_path t) \<and>
      t \<in> set (source_trees (active h')) \<and> has_key (source_snapshots (active h')) (tree_path t)"
    if "map_of (plugin_modules (active h')) n = Some t" for n t
  proof (cases "n = ?n")
    case True
    then have "t = ?t" using that by (simp add: lookup)
    with True absent show ?thesis by (simp add: names captured plugin_name_def map_add_def)
  next
    case False
    then have "map_of (plugin_modules ?reg) n = Some t" using that by (simp add: lookup)
    then have old: "plugin_id (tree_manifest t) = n" "map_of (plugins ?reg) n = Some (tree_path t)" "t \<in> set (source_trees ?reg)"
        "has_key (source_snapshots ?reg) (tree_path t)"
      using assms(2) by (auto simp: registry_ok_def)
    with False show ?thesis by (simp add: names captured map_add_def)
  qed
  moreover have "owned (active h')" using reg2(1) h' by simp
  moreover have "keys (plugin_modules (active h')) = keys (plugins (active h'))"
    using keys(1) unfolding mods names by (simp add: keys_def)
  ultimately have "registry_ok (active h')" unfolding registry_ok_def by blast
  then show ?thesis using grows mods by (simp add: names keys_def)
qed


section \<open>Loading in dependency order\<close>

lemma in_order_new: "in_order ms excluded ds ns \<Longrightarrow> n \<in> set ns \<Longrightarrow> n \<notin> set ds"
  by (induction ns arbitrary: ds) fastforce+

lemma in_order_keys: "in_order ms excluded ds ns \<Longrightarrow> set ns \<subseteq> set (keys ms)"
proof (induction ns arbitrary: ds)
  case (Cons n ns)
  then have "map_of ms n \<noteq> None" by (auto simp: ready_def split: option.splits)
  with Cons show ?case by (auto simp: keys_def map_of_eq_None_iff)
qed simp

lemma ready_mono: "ready ms excluded ds n \<Longrightarrow> set ds \<subseteq> set es \<Longrightarrow> ready ms excluded es n"
  by (auto simp: ready_def list_all_iff split: option.splits)

text \<open>Dropping plugins that are loaded already leaves an order of the others.\<close>

lemma in_order_filter:
  "in_order ms excluded ds ns \<Longrightarrow> set ds \<subseteq> set es \<Longrightarrow> \<forall>n \<in> set ns. n \<in> set es \<longleftrightarrow> \<not> P n \<Longrightarrow>
     in_order ms excluded es (filter P ns)"
proof (induction ns arbitrary: ds es)
  case (Cons n ns)
  have n: "ready ms excluded ds n" "in_order ms excluded (ds @ [n]) ns" using Cons.prems(1) by simp_all
  show ?case
  proof (cases "P n")
    case True
    have "in_order ms excluded (es @ [n]) (filter P ns)"
      by (rule Cons.IH [OF n(2)]) (use Cons.prems in_order_new [OF n(2)] in auto)
    with True n Cons.prems ready_mono [OF n(1)] show ?thesis by simp
  next
    case False
    then have "in_order ms excluded es (filter P ns)"
      by (intro Cons.IH [OF n(2)]) (use Cons.prems in auto)
    with False show ?thesis by simp
  qed
qed simp

lemma check_modules_Inr:
  "check_modules reg ms pending = Inr p \<Longrightarrow> p = pending @ map (\<lambda>m. (plugin_name m, m)) ms \<and> distinct (map plugin_name ms) \<and>
     (\<forall>m \<in> set ms. \<not> has_key pending (plugin_name m) \<and> \<not> has_key (plugins reg) (plugin_name m) \<and>
       plugin_sdk (tree_manifest (module_tree m)) = api_version)"
proof (induction ms arbitrary: pending)
  case (Cons m ms)
  then have m: "plugin_sdk (tree_manifest (module_tree m)) = api_version" "\<not> has_key pending (plugin_name m)"
      "\<not> has_key (plugins reg) (plugin_name m)" "check_modules reg ms (pending @ [(plugin_name m, m)]) = Inr p"
    by (auto simp: Let_def raise_def raise_text_def split: if_splits)
  from Cons.IH [OF m(4)] m show ?case by (auto simp: has_key_def keys_def)
qed simp

lemma merged_fresh:
  "distinct (keys e) \<Longrightarrow> set (keys e) \<inter> set (keys d) = {} \<Longrightarrow> merged d e = d @ e"
proof (induction e arbitrary: d)
  case (Cons kv e)
  obtain k v where kv: "kv = (k, v)" by fastforce
  with Cons.prems have "AList.update k v d = d @ [(k, v)]" by (intro update_fresh) (auto simp: has_key_def keys_def)
  moreover have "merged (d @ [(k, v)]) e = (d @ [(k, v)]) @ e"
    by (rule Cons.IH) (use Cons.prems kv in \<open>auto simp: keys_def\<close>)
  ultimately show ?case by (simp add: kv merged_def)
qed (simp add: merged_def)

lemma selected_modules:
  "distinct (map plugin_name ms) \<Longrightarrow> p = map (\<lambda>m. (plugin_name m, m)) ms \<Longrightarrow>
     map plugin_name (List.map_filter (map_of p) ns) = filter (has_key p) ns \<and>
     set (List.map_filter (map_of p) ns) = {m \<in> set ms. plugin_name m \<in> set ns}"
proof (induction ns)
  case (Cons n ns)
  show ?case
  proof (cases "map_of p n")
    case None
    then have "n \<notin> plugin_name ` set ms" using Cons.prems(2) by (auto simp: map_of_eq_None_iff image_image)
    with None Cons show ?thesis by (auto simp: List.map_filter_def has_key_iff)
  next
    case (Some m)
    then have "(n, m) \<in> set p" by (rule map_of_SomeD)
    then have m: "n = plugin_name m" "m \<in> set ms" using Cons.prems(2) by auto
    moreover have "m' = m" if "m' \<in> set ms" "plugin_name m' = plugin_name m" for m'
      using that m Cons.prems(1) by (simp add: distinct_map inj_on_def)
    ultimately show ?thesis using Some Cons by (auto simp: List.map_filter_def has_key_iff)
  qed
qed (simp add: List.map_filter_def)

lemma ordered_modules_Inr:
  assumes "ordered_modules reg mods = Inr ms" "registry_ok reg"
  obtains M where "in_order M {} (keys (plugins reg)) (map plugin_name ms)" "map_of (manifests_of reg) \<subseteq>\<^sub>m map_of M"
    "\<forall>m \<in> set ms. map_of M (plugin_name m) = Some (tree_manifest (module_tree m))" "set ms = set mods"
    "\<forall>m \<in> set mods. plugin_sdk (tree_manifest (module_tree m)) = api_version"
proof -
  define pending where "pending = map (\<lambda>m. (plugin_name m, m)) mods"
  define M where "M = map (\<lambda>(n, t). (n, tree_manifest t)) (plugin_modules reg @ map (\<lambda>m. (plugin_name m, module_tree m)) mods)"
  have keys: "keys (plugin_modules reg) = keys (plugins reg)" using assms(2) by (simp add: registry_ok_def)
  obtain p where p: "check_modules reg mods [] = Inr p"
    using assms(1) by (auto simp: ordered_modules_def bindR_Inr_iff)
  then have new: "p = pending" "distinct (map plugin_name mods)" "\<forall>m \<in> set mods. \<not> has_key (plugins reg) (plugin_name m)"
      "\<forall>m \<in> set mods. plugin_sdk (tree_manifest (module_tree m)) = api_version"
    using check_modules_Inr [OF p] by (auto simp: pending_def)
  have names: "keys pending = map plugin_name mods" by (simp add: pending_def keys_def o_def)
  have "merged (plugin_modules reg) (map (\<lambda>(n, m). (n, module_tree m)) pending) =
      plugin_modules reg @ map (\<lambda>m. (plugin_name m, module_tree m)) mods"
    using new(2,3) keys by (subst merged_fresh) (auto simp: pending_def keys_def o_def has_key_def)
  then obtain ns where ns: "dependency_order M (Some (map plugin_name mods)) [] = Inr ns" "ms = List.map_filter (map_of pending) ns"
    using assms(1) p new(1) names by (auto simp: ordered_modules_def bindR_Inr_iff M_def Let_def)
  have order: "in_order M {} [] ns" "set (map plugin_name mods) \<subseteq> set ns"
    using order_lists_needed [OF ns(1)] by (auto simp: selection_def)
  have listed: "set ns \<subseteq> set (keys M)"
    using in_order_keys [OF order(1)] by blast
  have picked: "map plugin_name ms = filter (has_key pending) ns" "set ms = {m \<in> set mods. plugin_name m \<in> set ns}"
    using selected_modules [OF new(2) pending_def] ns(2) by auto
  have "set (keys M) = set (keys (plugins reg)) \<union> plugin_name ` set mods"
    by (simp add: M_def keys [symmetric]) (simp add: keys_def image_image split_def image_Un)
  then have "\<forall>n \<in> set ns. n \<in> set (keys (plugins reg)) \<longleftrightarrow> \<not> has_key pending n"
    using listed new(3) names by (auto simp: has_key_def)
  then have "in_order M {} (keys (plugins reg)) (filter (has_key pending) ns)"
    by (intro in_order_filter [OF order(1)]) simp_all
  then have "in_order M {} (keys (plugins reg)) (map plugin_name ms)" by (simp add: picked)
  moreover have "map_of (manifests_of reg) \<subseteq>\<^sub>m map_of M"
    by (auto simp: M_def manifests_of_def map_le_def map_add_def split: option.splits)
  moreover have "map_of M (plugin_name m) = Some (tree_manifest (module_tree m))" if "m \<in> set mods" for m
  proof -
    have "map_of (map (\<lambda>m. (plugin_name m, tree_manifest (module_tree m))) mods) (plugin_name m) = Some (tree_manifest (module_tree m))"
      using new(2) that by (intro map_of_is_SomeI) (auto simp: o_def)
    moreover have "\<not> has_key (plugin_modules reg) (plugin_name m)"
      using new(3) that has_key_keys [OF keys] by blast
    then have "map_of (manifests_of reg) (plugin_name m) = None"
      by (simp add: map_of_manifests has_key_iff)
    ultimately show ?thesis by (simp add: M_def manifests_of_def map_add_def o_def)
  qed
  moreover have "set ms = set mods" using picked(2) order(2) by auto
  ultimately show ?thesis using new(4) by (intro that [of M]) simp_all
qed


lemma load_each_ok:
  "load_each repr shown ms h = (h', Inr ()) \<Longrightarrow> registry_ok (active h) \<Longrightarrow>
     in_order M {} (keys (plugins (active h))) (map plugin_name ms) \<Longrightarrow> map_of (manifests_of (active h)) \<subseteq>\<^sub>m map_of M \<Longrightarrow>
     \<forall>m \<in> set ms. map_of M (plugin_name m) = Some (tree_manifest (module_tree m)) \<Longrightarrow>
   registry_ok (active h') \<and> grows (active h) (active h') \<and>
     plugin_modules (active h') = plugin_modules (active h) @ map (\<lambda>m. (plugin_name m, module_tree m)) ms"
proof (induction ms arbitrary: h)
  case (Cons m ms)
  obtain h1 where m: "load_module repr shown m h = (h1, Inr ())" "load_each repr shown ms h1 = (h', Inr ())"
    using Cons.prems(1) by (auto split: prod.splits sum.splits)
  have r: "plugin_name m \<notin> set (keys (plugins (active h)))" "ready M {} (keys (plugins (active h))) (plugin_name m)"
      "in_order M {} (keys (plugins (active h)) @ [plugin_name m]) (map plugin_name ms)"
    using Cons.prems(3) by simp_all
  have keys: "keys (manifests_of (active h)) = keys (plugins (active h))"
    using Cons.prems(2) by (simp add: registry_ok_def)
  have "has_key (plugins (active h)) d \<and> map_option plugin_version (map_of (manifests_of (active h)) d) = Some v"
    if "(d, v) \<in> set (requires (tree_manifest (module_tree m)))" for d v
  proof -
    have d: "has_key (plugins (active h)) d" "map_option plugin_version (map_of M d) = Some v"
      using r(2) that Cons.prems(5) by (auto simp: ready_def list_all_iff has_key_def)
    then obtain x where x: "map_of (manifests_of (active h)) d = Some x"
      using has_key_keys [OF keys] by (auto simp: has_key_iff)
    with d map_leD [OF Cons.prems(4) x] show ?thesis by simp
  qed
  then have "requirements_met (active h) m" by (auto simp: requirements_met_def list_all_iff)
  with m(1) Cons.prems(2) r(1) have h1: "registry_ok (active h1)" "grows (active h) (active h1)"
      "keys (plugins (active h1)) = keys (plugins (active h)) @ [plugin_name m]"
      "plugin_modules (active h1) = plugin_modules (active h) @ [(plugin_name m, module_tree m)]"
    using load_module_ok by (auto simp: has_key_def)
  have "map_of M n = Some x" if "map_of (manifests_of (active h1)) n = Some x" for n x
  proof (cases "map_of (manifests_of (active h)) n = Some x")
    case True
    then show ?thesis by (rule map_leD [OF Cons.prems(4)])
  next
    case False
    then have "n = plugin_name m \<and> x = tree_manifest (module_tree m)"
      using that by (auto simp: manifests_of_def h1(4) map_add_def split: option.splits if_splits)
    then show ?thesis using Cons.prems(5) by simp
  qed
  then have "map_of (manifests_of (active h1)) \<subseteq>\<^sub>m map_of M" by (auto simp: map_le_def)
  from Cons.IH [OF m(2) h1(1) _ this] r(3) h1 Cons.prems(5) grows_trans [OF h1(2)] show ?case by simp
qed simp

lemma load_keeps_ok:
  assumes "registry_ok (active h)" "load repr shown mods h = (h', Inr ())"
  obtains ms where "registry_ok (active h')" "grows (active h) (active h')" "set ms = set mods"
    "plugin_modules (active h') = plugin_modules (active h) @ map (\<lambda>m. (plugin_name m, module_tree m)) ms"
    "\<forall>m \<in> set mods. plugin_sdk (tree_manifest (module_tree m)) = api_version"
proof -
  obtain ms where ms: "ordered_modules (active h) mods = Inr ms" "load_each repr shown ms h = (h', Inr ())"
    using assms(2) by (auto simp: load_def raise_def Let_def split: if_splits sum.splits prod.splits)
  obtain M where M: "in_order M {} (keys (plugins (active h))) (map plugin_name ms)"
    "map_of (manifests_of (active h)) \<subseteq>\<^sub>m map_of M" "\<forall>m \<in> set ms. map_of M (plugin_name m) = Some (tree_manifest (module_tree m))"
    "set ms = set mods" "\<forall>m \<in> set mods. plugin_sdk (tree_manifest (module_tree m)) = api_version"
    using ordered_modules_Inr [OF ms(1) assms(1)] .
  from load_each_ok [OF ms(2) assms(1) M(1-3)] M(4,5) that show ?thesis by blast
qed

text \<open>C15: Loading only adds. From a registry in which every registration belongs to a loaded plugin, every
  event has one contract and every plugin follows the plugins it requires, in the versions it requires,
  a load that succeeds reaches such a registry again; it has loaded exactly the given modules beside
  the old ones, all of the current API version, and whatever was registered before is registered as
  it was: no plugin replaces a tool, a service or a handler of another.\<close>

theorem load_only_adds:
  assumes "registry_ok (active h)" "load repr shown mods h = (h', Inr ())"
  shows "registry_ok (active h') \<and> grows (active h) (active h') \<and>
    (\<exists>ms. set ms = set mods \<and> plugin_modules (active h') = plugin_modules (active h) @ map (\<lambda>m. (plugin_name m, module_tree m)) ms) \<and>
    (\<forall>m \<in> set mods. plugin_sdk (tree_manifest (module_tree m)) = api_version)"
  using load_keeps_ok [OF assms] by metis


section \<open>Examples\<close>

text \<open>\<open>b\<close> requires \<open>a\<close>; both stage a cleanup callback. \<open>clash\<close> stages a callback and then registers the tool
  of \<open>a\<close> again.\<close>

definition demo_module :: "nat \<Rightarrow> string \<Rightarrow> (string \<times> string) list \<Rightarrow> api_call list \<Rightarrow> module" where
  "demo_module i n ds calls = \<lparr>module_tree = \<lparr>tree_id = i, tree_path = ustr ''/p/'' @ ustr n,
     tree_manifest = snd (demo_package n ds)\<rparr>, register_calls = Some calls\<rparr>"

definition demo_modules :: "module list" where
  "demo_modules = [demo_module 2 ''b'' [(''a'', ''1.0.12'')] [On_Close 7 True True, Require_Service (ustr ''store'')],
     demo_module 1 ''a'' [] [Register Services (ustr ''store'') 3 True, Register Tools (ustr ''read'') 4 True, On_Close 8 False True]]"

definition demo_clash :: module where
  "demo_clash = demo_module 3 ''clash'' [(''a'', ''1.0.12'')] [On_Close 9 True True, Register Tools (ustr ''read'') 5 True]"

definition demo_host :: host where
  "demo_host = \<lparr>active = empty_registry, effects = [], host_closed = False\<rparr>"

lemma empty_registry_ok: "registry_ok empty_registry"
  by (simp add: registry_ok_def owned_def empty_registry_def keys_def)

lemma demo_loads: "snd (load id last_name demo_modules demo_host) = Inr ()"
  by code_simp

lemma demo_b_waits_for_a:
  "(case load id last_name demo_modules demo_host of (h, _) \<Rightarrow> (keys (plugins (active h)), effects h)) =
     ([ustr ''a'', ustr ''b''], [Staged \<lparr>owner = ustr ''a'', callback = 8, on_reload = False\<rparr>,
       Staged \<lparr>owner = ustr ''b'', callback = 7, on_reload = True\<rparr>])"
  by code_simp

text \<open>The clash undoes the whole load: callbacks run newest first, and the error names the plugin.\<close>

lemma demo_clash_is_undone:
  "(case load id last_name (demo_clash # demo_modules) demo_host of (h, r) \<Rightarrow> (List.map_filter (\<lambda>x. case x of
       Cleaned c \<Rightarrow> Some (callback c) | _ \<Rightarrow> None) (effects h), r)) =
     ([9, 8], raise_text PluginError (ustr ''Cannot register plugin '' @ [39] @ ustr ''clash'' @ [39] @
       ustr '' at /p/clash: PluginError: Duplicate tools registration: read. Repair or update this package.''))"
  by code_simp

lemma demo_clash_retires:
  "List.map_filter (\<lambda>x. case x of Retired t \<Rightarrow> Some (tree_id t) | _ \<Rightarrow> None)
     (effects (fst (load id last_name (demo_clash # demo_modules) demo_host))) = [1, 3]"
  by code_simp


lemma load_only_adds_witness:
  "registry_ok (active (fst (load id last_name demo_modules demo_host)))"
proof -
  have "load id last_name demo_modules demo_host = (fst (load id last_name demo_modules demo_host), Inr ())"
    using demo_loads by (metis prod.collapse)
  from load_only_adds [OF _ this] show ?thesis by (simp add: demo_host_def empty_registry_ok)
qed

end
