(* ===== verification/Plugin_Operations.thy ===== *)
theory Plugin_Operations
  imports Machines "HOL-Library.Multiset"
begin

text \<open>
  Operations and updates of \<open>Runtime\<close> in \<open>raychat/plugins.py\<close>: every operation of a thread pins the
  generation of plugins it began with, updates it requests are held until it has succeeded and no
  operation is left, and closing waits for the operations under way. Threads interleave between the
  sections the runtime's lock protects: beginning an operation, settling the requests of one that
  ends, releasing it, a request, a reload and closing are one step each. What the callbacks of a
  request do is part of the request (each is called once at most), as is what the replacement of the
  generation comes to; callbacks do not call back into the runtime.
\<close>

section \<open>State\<close>

text \<open>\<open>Kept e\<close> is a replacement that raises before the new generation is current, \<open>Switched_Raised e\<close> one that
  raises after it.\<close>

datatype replacement = Switched | Kept exn | Switched_Raised exn

text \<open>A hook is the exception it raises; an absent prepare, commit or rollback hook is one that returns.
  A notification callback may be absent (\<open>None\<close>).\<close>

type_synonym hook = "exn option"
type_synonym notifier = "hook option"

record request =
  request_id :: nat
  prepare_hook :: hook
  install :: replacement
  commit_hook :: hook
  rollback_hook :: hook
  notify_hook :: notifier

text \<open>What a thread is doing: nothing, operations with the innermost frame of requests first, or, after the
  outermost frame is settled, releasing it with the exception it ended with.\<close>

datatype phase = Idle | Running "request list list" | is_releasing: Releasing "exn option"

datatype event = Accepted request | Committed request | Rolled_Back request | Replaced nat | Runtime_Closed

record runtime =
  generation :: nat
  busy :: int
  applying :: bool
  pending_requests :: "request list"
  runtime_closed :: bool
  closing :: bool
  phases :: "phase list"
  pinned :: "nat option list"
  history :: "event list"

definition new_runtime :: "nat \<Rightarrow> runtime" where
  "new_runtime threads = \<lparr>generation = 0, busy = 0, applying = False, pending_requests = [], runtime_closed = False,
     closing = False, phases = replicate threads Idle, pinned = replicate threads None, history = []\<rparr>"

section \<open>Replacing the generation\<close>

definition switch_generation :: "replacement \<Rightarrow> runtime \<Rightarrow> runtime \<times> unit result" where
  "switch_generation i s =
     (let next = s\<lparr>generation := generation s + 1, history := history s @ [Replaced (generation s + 1)]\<rparr> in
      case i of Switched \<Rightarrow> (next, Inr ()) | Kept e \<Rightarrow> (s, Inl e) | Switched_Raised e \<Rightarrow> (next, Inl e))"

definition turn_boundary :: string where
  "turn_boundary = ''Plugin replacement requires a turn boundary.''"

definition reload :: "replacement \<Rightarrow> runtime \<Rightarrow> runtime \<times> unit result" where
  "reload i s =
     (if runtime_closed s \<or> busy s \<noteq> 0 \<or> applying s then (s, raise PluginError turn_boundary)
      else case switch_generation i (s\<lparr>applying := True\<rparr>) of (s', r) \<Rightarrow> (s'\<lparr>applying := False\<rparr>, r))"

definition reload_request :: "request \<Rightarrow> runtime \<Rightarrow> runtime \<times> unit result" where
  "reload_request r s =
     (if busy s \<noteq> 0 \<or> runtime_closed s \<or> applying s then (s, raise PluginError turn_boundary)
      else case prepare_hook r of Some e \<Rightarrow> (s, Inl e) | None \<Rightarrow> reload (install r) s)"

text \<open>\<open>_rollback\<close> runs the rollback hooks newest first and collects what they raise; \<open>_rollback_error\<close> joins
  that to an \<open>Exception\<close> and leaves other exceptions as they are.\<close>

definition run_rollbacks :: "request list \<Rightarrow> runtime \<Rightarrow> runtime" where
  "run_rollbacks rs s = s\<lparr>history := history s @ map Rolled_Back (rev rs)\<rparr>"

definition rollback_failures :: "request list \<Rightarrow> exn list" where
  "rollback_failures rs = List.map_filter rollback_hook (rev rs)"

definition rollback_error :: "exn \<Rightarrow> exn list \<Rightarrow> exn" where
  "rollback_error e failures =
     (if failures = [] \<or> \<not> isa (exn_kind e) Exception then e
      else Exn PluginError (exn_text e @ ustr ''; Plugin rollback failed: '' @ join (ustr ''; '') (map exn_text failures)))"

definition apply_request :: "request \<Rightarrow> runtime \<Rightarrow> runtime \<times> unit result" where
  "apply_request r s = (case reload_request r s of
      (s', Inl e) \<Rightarrow>
        if generation s' = generation s then (run_rollbacks [r] s', Inl (rollback_error e (rollback_failures [r])))
        else (s', Inl e)
    | (s', Inr _) \<Rightarrow> (s'\<lparr>history := history s' @ [Committed r]\<rparr>,
        case commit_hook r of Some e \<Rightarrow> Inl e | None \<Rightarrow> Inr ()))"

section \<open>Requests held by operations\<close>

definition apply_pending :: "notifier \<Rightarrow> request \<Rightarrow> runtime \<Rightarrow> runtime \<times> exn option result" where
  "apply_pending notify r s =
     (let callback = (case notify_hook r of Some n \<Rightarrow> Some n | None \<Rightarrow> notify) in
      case apply_request r s of
        (s', Inr _) \<Rightarrow> (s', Inr None)
      | (s', Inl e) \<Rightarrow>
          if \<not> isa (exn_kind e) Exception then (s', Inl e)
          else (s', case callback of None \<Rightarrow> Inr (Some e) | Some None \<Rightarrow> Inr None | Some (Some x) \<Rightarrow> Inl x))"

fun apply_all :: "notifier \<Rightarrow> request list \<Rightarrow> exn list \<Rightarrow> runtime \<Rightarrow> runtime \<times> exn list result" where
  "apply_all notify [] failures s = (s, Inr failures)"
| "apply_all notify (r # rs) failures s = (case apply_pending notify r s of
      (s', Inl e) \<Rightarrow> (s', Inl e)
    | (s', Inr failure) \<Rightarrow> apply_all notify rs (case failure of None \<Rightarrow> failures | Some e \<Rightarrow> failures @ [e]) s')"

text \<open>\<open>close\<close>, with what the plugins' own cleanup raises.\<close>

definition close_runtime :: "exn list \<Rightarrow> runtime \<Rightarrow> runtime \<times> unit result" where
  "close_runtime cleanup_failures s =
     (if runtime_closed s then (s, Inr ())
      else if busy s \<noteq> 0 then (s\<lparr>closing := True\<rparr>, Inr ())
      else let failures = rollback_failures (pending_requests s) @ cleanup_failures;
               s' = run_rollbacks (pending_requests s) (s\<lparr>runtime_closed := True, pending_requests := []\<rparr>)
           in (s'\<lparr>history := history s' @ [Runtime_Closed]\<rparr>,
               if failures = [] then Inr ()
               else raise_text PluginError (ustr ''Plugin cleanup failed: '' @ join (ustr ''; '') (map exn_text failures))))"

definition refresh :: "(replacement \<times> notifier) option \<Rightarrow> runtime \<Rightarrow> runtime \<times> unit result" where
  "refresh update s = (case update of
      None \<Rightarrow> (s, Inr ())
    | Some (i, notify) \<Rightarrow>
        if busy s \<noteq> 0 \<or> applying s then (s, Inr ())
        else case reload i s of
          (s', Inr _) \<Rightarrow> (s', Inr ())
        | (s', Inl e) \<Rightarrow> (s', if \<not> isa (exn_kind e) Exception then Inl e
            else case notify of Some (Some x) \<Rightarrow> Inl x | _ \<Rightarrow> Inr ()))"

definition begin_operation :: "nat \<Rightarrow> (replacement \<times> notifier) option \<Rightarrow> runtime \<Rightarrow> runtime \<times> unit result" where
  "begin_operation t update s = (case phases s ! t of
      Running frames \<Rightarrow> (s\<lparr>phases := (phases s)[t := Running ([] # frames)]\<rparr>, Inr ())
    | _ \<Rightarrow> (case refresh update s of
        (s', Inl e) \<Rightarrow> (s', Inl e)
      | (s', Inr _) \<Rightarrow>
          if runtime_closed s' \<or> closing s' \<or> applying s'
          then (s', raise PluginError ''Runtime is closed or changing generations.'')
          else (s'\<lparr>busy := busy s' + 1, pinned := (pinned s')[t := Some (generation s')],
            phases := (phases s')[t := Running [[]]]\<rparr>, Inr ())))"

text \<open>\<open>_finish_operation\<close> up to the release, for an operation that succeeds or ends with an exception.\<close>

definition settle_frame :: "nat \<Rightarrow> exn option \<Rightarrow> runtime \<Rightarrow> runtime" where
  "settle_frame t error s = (case phases s ! t of
      Running (frame # frames) \<Rightarrow>
        (case error of
          None \<Rightarrow> (case frames of
              outer # rest \<Rightarrow> s\<lparr>phases := (phases s)[t := Running ((outer @ frame) # rest)]\<rparr>
            | [] \<Rightarrow> s\<lparr>pending_requests := pending_requests s @ frame, phases := (phases s)[t := Releasing None]\<rparr>)
        | Some e \<Rightarrow> let s' = run_rollbacks frame s in
            s'\<lparr>phases := (phases s')[t := (if frames = [] then Releasing (Some (rollback_error e (rollback_failures frame)))
              else Running frames)]\<rparr>)
    | _ \<Rightarrow> s)"

definition release_operation :: "nat \<Rightarrow> notifier \<Rightarrow> exn list \<Rightarrow> runtime \<Rightarrow> runtime \<times> unit result" where
  "release_operation t notify cleanup_failures s =
     (let s1 = s\<lparr>pinned := (pinned s)[t := None], phases := (phases s)[t := Idle], busy := busy s - 1\<rparr> in
      if busy s1 = 0 \<and> closing s1 then close_runtime cleanup_failures s1
      else if busy s1 = 0 \<and> pending_requests s1 \<noteq> [] then
        (case apply_all notify (pending_requests s1) [] (s1\<lparr>pending_requests := []\<rparr>) of
          (s2, Inl e) \<Rightarrow> (s2, Inl e)
        | (s2, Inr failures) \<Rightarrow> (s2, case failures of [] \<Rightarrow> Inr () | e # _ \<Rightarrow> Inl e))
      else (s1, Inr ()))"

definition request_reload :: "nat \<Rightarrow> request \<Rightarrow> runtime \<Rightarrow> runtime \<times> bool result" where
  "request_reload t r s0 =
     (let s = s0\<lparr>history := history s0 @ [Accepted r]\<rparr> in
      case phases s ! t of
        Running (frame # frames) \<Rightarrow> (s\<lparr>phases := (phases s)[t := Running ((frame @ [r]) # frames)]\<rparr>, Inr False)
      | _ \<Rightarrow>
          if busy s \<noteq> 0 then (s\<lparr>pending_requests := pending_requests s @ [r]\<rparr>, Inr False)
          else case apply_request r s of (s', Inl e) \<Rightarrow> (s', Inl e) | (s', Inr _) \<Rightarrow> (s', Inr True))"

section \<open>Interleavings\<close>

text \<open>A thread that releases its operation does nothing else before; the other cases do not arise.\<close>

datatype runtime_op =
    Begin nat "(replacement \<times> notifier) option"
  | Settle nat "exn option"
  | Release nat notifier "exn list"
  | Request nat request
  | Reload replacement
  | Close "exn list"

definition runtime_step :: "runtime_op \<Rightarrow> runtime \<Rightarrow> runtime" where
  "runtime_step x s = (case x of
      Begin t update \<Rightarrow>
        if t < length (phases s) \<and> \<not> is_releasing (phases s ! t) then fst (begin_operation t update s) else s
    | Settle t error \<Rightarrow> if t < length (phases s) then settle_frame t error s else s
    | Release t notify failures \<Rightarrow>
        if t < length (phases s) \<and> is_releasing (phases s ! t) then fst (release_operation t notify failures s) else s
    | Request t r \<Rightarrow> if t < length (phases s) \<and> \<not> is_releasing (phases s ! t) then fst (request_reload t r s) else s
    | Reload i \<Rightarrow> fst (reload i s)
    | Close failures \<Rightarrow> fst (close_runtime failures s))"


section \<open>Accounts\<close>

definition accepted :: "event list \<Rightarrow> request multiset" where
  "accepted h = mset (List.map_filter (\<lambda>x. case x of Accepted r \<Rightarrow> Some r | _ \<Rightarrow> None) h)"

text \<open>The requests whose commit hook or rollback hook, if any, has been called.\<close>

definition settled :: "event list \<Rightarrow> request multiset" where
  "settled h = mset (List.map_filter (\<lambda>x. case x of Committed r \<Rightarrow> Some r | Rolled_Back r \<Rightarrow> Some r | _ \<Rightarrow> None) h)"

definition frames_of :: "phase \<Rightarrow> request list" where
  "frames_of p = (case p of Running frames \<Rightarrow> concat frames | _ \<Rightarrow> [])"

text \<open>The requests that operations and the runtime hold.\<close>

definition held :: "runtime \<Rightarrow> request multiset" where
  "held s = mset (pending_requests s) + mset (concat (map frames_of (phases s)))"

lemma accepted_simps [simp]:
  "accepted [] = {#}" "accepted (h @ h') = accepted h + accepted h'" "accepted [Accepted r] = {#r#}"
  "accepted [Committed r] = {#}" "accepted (map Rolled_Back rs) = {#}" "accepted [Rolled_Back r] = {#}"
  "accepted [Replaced n] = {#}" "accepted [Runtime_Closed] = {#}"
  by (simp_all add: accepted_def List.map_filter_def o_def)

lemma settled_simps [simp]:
  "settled [] = {#}" "settled (h @ h') = settled h + settled h'" "settled [Accepted r] = {#}"
  "settled [Committed r] = {#r#}" "settled (map Rolled_Back rs) = mset rs" "settled [Rolled_Back r] = {#r#}"
  "settled [Replaced n] = {#}" "settled [Runtime_Closed] = {#}"
  by (simp_all add: settled_def List.map_filter_def o_def)

lemma mset_concat_update:
  "t < length xs \<Longrightarrow> mset (concat (map f (xs[t := y]))) + mset (f (xs ! t)) = mset (concat (map f xs)) + mset (f y)"
  by (induction xs arbitrary: t) (auto split: nat.split simp: nth_Cons)

text \<open>What is accepted between two states is held, settled or lost in the second.\<close>

definition accounts :: "request multiset \<Rightarrow> runtime \<Rightarrow> runtime \<Rightarrow> bool" where
  "accounts lost s s' \<longleftrightarrow> accepted (history s') + held s + settled (history s) =
     accepted (history s) + held s' + settled (history s') + lost"

lemma accounts_refl [simp]: "accounts {#} s s"
  by (simp add: accounts_def)

lemma accounts_trans:
  assumes "accounts l s s1" "accounts m s1 s2"
  shows "accounts (l + m) s s2"
  unfolding accounts_def
proof (rule multiset_eqI)
  fix r
  from assms have "count (accepted (history s1) + held s + settled (history s)) r =
      count (accepted (history s) + held s1 + settled (history s1) + l) r"
    "count (accepted (history s2) + held s1 + settled (history s1)) r =
      count (accepted (history s1) + held s2 + settled (history s2) + m) r"
    by (simp_all only: accounts_def)
  then show "count (accepted (history s2) + held s + settled (history s)) r =
      count (accepted (history s) + held s2 + settled (history s2) + (l + m)) r"
    by simp
qed

text \<open>Requests and notifiers whose callbacks raise nothing but an \<open>Exception\<close> before the generation is replaced and
  nothing while the outcome is reported.\<close>

definition ordinary :: "hook \<Rightarrow> bool" where
  "ordinary x = (case x of None \<Rightarrow> True | Some e \<Rightarrow> isa (exn_kind e) Exception)"

definition quiet_notifier :: "notifier \<Rightarrow> bool" where
  "quiet_notifier n = (case n of Some (Some _) \<Rightarrow> False | _ \<Rightarrow> True)"

definition ordinary_replacement :: "replacement \<Rightarrow> bool" where
  "ordinary_replacement i = (case i of Switched \<Rightarrow> True | Kept e \<Rightarrow> isa (exn_kind e) Exception | Switched_Raised e \<Rightarrow> False)"

definition ordinary_request :: "request \<Rightarrow> bool" where
  "ordinary_request r \<longleftrightarrow> ordinary (prepare_hook r) \<and> ordinary_replacement (install r) \<and> ordinary (commit_hook r) \<and>
     quiet_notifier (notify_hook r)"

section \<open>One request\<close>

lemma plugin_error_ordinary [simp]: "isa PluginError Exception"
  by code_simp

lemma reload_frame:
  assumes "reload i s = (s', x)" "\<not> applying s"
  shows "\<exists>g h. s' = s\<lparr>generation := g, history := history s @ h\<rparr> \<and> (busy s \<noteq> 0 \<longrightarrow> g = generation s) \<and>
    accepted h = {#} \<and> settled h = {#} \<and> (case x of Inl e \<Rightarrow>
      ordinary_replacement i \<longrightarrow> g = generation s \<and> isa (exn_kind e) Exception | Inr _ \<Rightarrow> True)"
proof (cases "runtime_closed s \<or> busy s \<noteq> 0")
  case True
  with assms have "s' = s" "x = raise PluginError turn_boundary" by (auto simp: reload_def)
  then show ?thesis
    by (intro exI [of _ "generation s"] exI [of _ "[]"]) (simp add: raise_def)
next
  case False
  show ?thesis
  proof (cases i)
    case Switched
    with False assms show ?thesis
      by (intro exI [of _ "generation s + 1"] exI [of _ "[Replaced (generation s + 1)]"])
        (auto simp: reload_def switch_generation_def Let_def)
  next
    case (Kept e)
    with False assms show ?thesis
      by (intro exI [of _ "generation s"] exI [of _ "[]"])
        (auto simp: reload_def switch_generation_def Let_def ordinary_replacement_def)
  next
    case (Switched_Raised e)
    with False assms show ?thesis
      by (intro exI [of _ "generation s + 1"] exI [of _ "[Replaced (generation s + 1)]"])
        (auto simp: reload_def switch_generation_def Let_def ordinary_replacement_def)
  qed
qed

lemma rollback_error_ordinary: "isa (exn_kind e) Exception \<Longrightarrow> isa (exn_kind (rollback_error e fs)) Exception"
  by (simp add: rollback_error_def)


text \<open>Applying a request settles it, unless the replacement raised after the generation was switched.\<close>

lemma reload_request_frame:
  assumes "reload_request r s = (s', x)" "\<not> applying s"
  shows "\<exists>g h. s' = s\<lparr>generation := g, history := history s @ h\<rparr> \<and> (busy s \<noteq> 0 \<longrightarrow> g = generation s) \<and>
    accepted h = {#} \<and> settled h = {#} \<and> (case x of Inl e \<Rightarrow>
      ordinary_request r \<longrightarrow> g = generation s \<and> isa (exn_kind e) Exception | Inr _ \<Rightarrow> True)"
proof (cases "busy s \<noteq> 0 \<or> runtime_closed s")
  case True
  with assms have "s' = s" "x = raise PluginError turn_boundary" by (auto simp: reload_request_def)
  then show ?thesis
    by (intro exI [of _ "generation s"] exI [of _ "[]"]) (simp add: raise_def)
next
  case False
  show ?thesis
  proof (cases "prepare_hook r")
    case None
    with False assms have "reload (install r) s = (s', x)" by (simp add: reload_request_def)
    from reload_frame [OF this assms(2)] show ?thesis
      by (auto simp: ordinary_request_def split: sum.splits)
  next
    case (Some e)
    with False assms have "s' = s" "x = Inl e" by (auto simp: reload_request_def)
    with Some show ?thesis
      by (intro exI [of _ "generation s"] exI [of _ "[]"]) (simp add: ordinary_request_def ordinary_def)
  qed
qed

lemma apply_request_frame:
  assumes "apply_request r s = (s', x)" "\<not> applying s"
  shows "\<exists>g h. s' = s\<lparr>generation := g, history := history s @ h\<rparr> \<and> (busy s \<noteq> 0 \<longrightarrow> g = generation s) \<and>
    accepted h = {#} \<and> settled h \<subseteq># {#r#} \<and> (ordinary_request r \<longrightarrow> settled h = {#r#} \<and>
      (case x of Inl e \<Rightarrow> isa (exn_kind e) Exception | Inr _ \<Rightarrow> True))"
proof -
  obtain s1 y where rr: "reload_request r s = (s1, y)" by fastforce
  obtain g h where f: "s1 = s\<lparr>generation := g, history := history s @ h\<rparr>" "busy s \<noteq> 0 \<longrightarrow> g = generation s"
      "accepted h = {#}" "settled h = {#}"
      "case y of Inl e \<Rightarrow> ordinary_request r \<longrightarrow> g = generation s \<and> isa (exn_kind e) Exception | Inr _ \<Rightarrow> True"
    using reload_request_frame [OF rr assms(2)] by blast
  show ?thesis
  proof (cases y)
    case (Inr u)
    with assms rr f have "s' = s\<lparr>generation := g, history := history s @ (h @ [Committed r])\<rparr>"
        "x = (case commit_hook r of Some e \<Rightarrow> Inl e | None \<Rightarrow> Inr ())"
      by (simp_all add: apply_request_def)
    with f show ?thesis
      by (intro exI [of _ g] exI [of _ "h @ [Committed r]"])
        (auto simp: ordinary_request_def ordinary_def split: option.splits)
  next
    case (Inl e)
    show ?thesis
    proof (cases "g = generation s")
      case True
      with assms rr f Inl have "s' = s\<lparr>generation := g, history := history s @ (h @ [Rolled_Back r])\<rparr>"
          "x = Inl (rollback_error e (rollback_failures [r]))"
        by (simp_all add: apply_request_def run_rollbacks_def)
      with f Inl show ?thesis
        by (intro exI [of _ g] exI [of _ "h @ [Rolled_Back r]"]) (auto intro: rollback_error_ordinary)
    next
      case False
      with assms rr f Inl have "s' = s1" by (simp add: apply_request_def)
      with f Inl False show ?thesis by (intro exI [of _ g] exI [of _ h]) simp
    qed
  qed
qed

lemma apply_all_frame:
  "apply_all notify rs failures s = (s', x) \<Longrightarrow> \<not> applying s \<Longrightarrow>
    \<exists>g h. s' = s\<lparr>generation := g, history := history s @ h\<rparr> \<and> (busy s \<noteq> 0 \<longrightarrow> g = generation s) \<and>
      accepted h = {#} \<and> settled h \<subseteq># mset rs \<and>
      (list_all ordinary_request rs \<and> quiet_notifier notify \<longrightarrow> settled h = mset rs)"
proof (induction rs arbitrary: s failures)
  case Nil
  then show ?case by (intro exI [of _ "generation s"] exI [of _ "[]"]) simp
next
  case (Cons r rs)
  obtain s1 y where r: "apply_request r s = (s1, y)" by fastforce
  obtain g h where f: "s1 = s\<lparr>generation := g, history := history s @ h\<rparr>" "busy s \<noteq> 0 \<longrightarrow> g = generation s"
      "accepted h = {#}" "settled h \<subseteq># {#r#}" "ordinary_request r \<longrightarrow> settled h = {#r#} \<and>
      (case y of Inl e \<Rightarrow> isa (exn_kind e) Exception | Inr _ \<Rightarrow> True)"
    using apply_request_frame [OF r Cons.prems(2)] by blast
  have "fst (apply_pending notify r s) = s1"
    using r by (cases y) (simp_all add: apply_pending_def Let_def)
  then obtain z where pending: "apply_pending notify r s = (s1, z)" by (metis prod.collapse)
  have "\<exists>v. z = Inr v" if "ordinary_request r" "quiet_notifier notify"
  proof (cases y)
    case (Inl e)
    with f(5) that(1) have "isa (exn_kind e) Exception" by simp
    with pending r Inl that show ?thesis
      by (auto simp: apply_pending_def Let_def ordinary_request_def quiet_notifier_def split: option.splits)
  next
    case (Inr u)
    with pending r have "z = Inr None" by (simp add: apply_pending_def Let_def)
    then show ?thesis by blast
  qed
  with pending have pend: "apply_pending notify r s = (s1, z)"
      "ordinary_request r \<and> quiet_notifier notify \<longrightarrow> (\<exists>v. z = Inr v)" by blast+
  show ?case
  proof (cases z)
    case (Inl e)
    with Cons.prems pend have "s' = s1" by simp
    with f Inl pend(2) show ?thesis
      by (intro exI [of _ g] exI [of _ h]) (auto intro: subset_mset.order_trans)
  next
    case (Inr v)
    with Cons.prems pend have "apply_all notify rs (case v of None \<Rightarrow> failures | Some e \<Rightarrow> failures @ [e]) s1 = (s', x)" by simp
    from Cons.IH [OF this] f(1) Cons.prems(2) obtain g2 h2 where
        f2: "s' = s1\<lparr>generation := g2, history := history s1 @ h2\<rparr>" "busy s1 \<noteq> 0 \<longrightarrow> g2 = generation s1"
        "accepted h2 = {#}" "settled h2 \<subseteq># mset rs"
        "list_all ordinary_request rs \<and> quiet_notifier notify \<longrightarrow> settled h2 = mset rs"
      by auto
    have "settled (h @ h2) \<subseteq># mset (r # rs)" using subset_mset.add_mono [OF f(4) f2(4)] by simp
    with f f2 show ?thesis by (intro exI [of _ g2] exI [of _ "h @ h2"]) auto
  qed
qed


section \<open>The invariant of the runtime\<close>

text \<open>\<open>busy\<close> counts the threads with an operation, each of which has pinned the current generation; without
  operations nothing is pending and a runtime that was asked to close has closed.\<close>

definition runtime_ok :: "runtime \<Rightarrow> bool" where
  "runtime_ok s \<longleftrightarrow> busy s = int (length (filter (\<lambda>p. p \<noteq> Idle) (phases s))) \<and> length (pinned s) = length (phases s) \<and>
     Running [] \<notin> set (phases s) \<and>
     (\<forall>t < length (phases s). pinned s ! t = (if phases s ! t = Idle then None else Some (generation s))) \<and>
     \<not> applying s \<and> (busy s = 0 \<longrightarrow> pending_requests s = [] \<and> (closing s \<longrightarrow> runtime_closed s)) \<and>
     (runtime_closed s \<longrightarrow> busy s = 0)"

lemma idle_iff: "runtime_ok s \<Longrightarrow> busy s = 0 \<longleftrightarrow> (\<forall>t < length (phases s). phases s ! t = Idle)"
  by (auto simp: runtime_ok_def filter_empty_conv all_set_conv_all_nth)

lemma busy_nonneg: "runtime_ok s \<Longrightarrow> 0 \<le> busy s"
  by (simp add: runtime_ok_def)

lemma busy_open: "runtime_ok s \<Longrightarrow> t < length (phases s) \<Longrightarrow> phases s ! t \<noteq> Idle \<Longrightarrow> 0 < busy s"
  using idle_iff [of s] busy_nonneg [of s] by force

lemma filter_update_length:
  "t < length xs \<Longrightarrow> length (filter P (xs[t := y])) + (if P (xs ! t) then 1 else 0) =
     length (filter P xs) + (if P y then 1 else 0)"
proof (induction xs arbitrary: t)
  case (Cons x xs)
  show ?case
  proof (cases t)
    case (Suc u)
    with Cons.IH [of u] Cons.prems show ?thesis by simp
  qed simp
qed simp

lemma not_in_update: "x \<notin> set xs \<Longrightarrow> x \<noteq> y \<Longrightarrow> x \<notin> set (xs[t := y])"
  by (meson insertE set_update_subset_insert subsetD)

lemma runtime_ok_frame:
  assumes "runtime_ok s" "busy s \<noteq> 0 \<longrightarrow> g = generation s"
  shows "runtime_ok (s\<lparr>generation := g, history := h\<rparr>)"
  using assms idle_iff [OF assms(1)] by (cases "busy s = 0") (simp_all add: runtime_ok_def)

lemma runtime_ok_history [simp]: "runtime_ok (s\<lparr>history := h\<rparr>) = runtime_ok s"
  by (simp add: runtime_ok_def)

lemma held_frame [simp]: "held (s\<lparr>generation := g\<rparr>) = held s" "held (s\<lparr>history := h\<rparr>) = held s"
  by (simp_all add: held_def)

text \<open>A thread that has an operation and goes on with it.\<close>

lemma runtime_ok_phase:
  assumes "runtime_ok s" "t < length (phases s)" "phases s ! t \<noteq> Idle" "p \<noteq> Idle" "p \<noteq> Running []"
  shows "runtime_ok (s\<lparr>phases := (phases s)[t := p]\<rparr>)"
  using assms filter_update_length [of t "phases s" "\<lambda>p. p \<noteq> Idle" p] not_in_update [of "Running []" "phases s" p t]
  by (auto simp: runtime_ok_def nth_list_update)

lemma runtime_ok_more_pending:
  "runtime_ok s \<Longrightarrow> busy s \<noteq> 0 \<Longrightarrow> runtime_ok (s\<lparr>pending_requests := rs\<rparr>)"
  by (simp add: runtime_ok_def)

definition keeps_accounts :: "bool \<Rightarrow> runtime \<Rightarrow> runtime \<Rightarrow> bool" where
  "keeps_accounts strict s s' \<longleftrightarrow> (\<exists>lost. accounts lost s s' \<and> (strict \<longrightarrow> lost = {#}))"

lemma keeps_accounts_trans: "keeps_accounts strict s s1 \<Longrightarrow> keeps_accounts strict s1 s2 \<Longrightarrow> keeps_accounts strict s s2"
  unfolding keeps_accounts_def using accounts_trans by (metis add_0)

lemma keeps_accountsI: "accounts {#} s s' \<Longrightarrow> keeps_accounts strict s s'"
  by (auto simp: keeps_accounts_def)

lemma reload_step:
  assumes "runtime_ok s"
  shows "runtime_ok (fst (reload i s)) \<and> keeps_accounts strict s (fst (reload i s)) \<and> phases (fst (reload i s)) = phases s"
proof -
  obtain s' x where r: "reload i s = (s', x)" by fastforce
  obtain g h where "s' = s\<lparr>generation := g, history := history s @ h\<rparr>" "busy s \<noteq> 0 \<longrightarrow> g = generation s"
      "accepted h = {#}" "settled h = {#}"
    using reload_frame [OF r] assms by (auto simp: runtime_ok_def)
  with r runtime_ok_frame [OF assms] show ?thesis
    by (auto simp: accounts_def intro: keeps_accountsI)
qed

lemma refresh_step:
  assumes "runtime_ok s"
  shows "runtime_ok (fst (refresh update s)) \<and> keeps_accounts strict s (fst (refresh update s)) \<and>
    phases (fst (refresh update s)) = phases s"
proof (cases update)
  case None
  with assms show ?thesis by (simp add: refresh_def keeps_accountsI)
next
  case (Some u)
  obtain i notify where u: "u = (i, notify)" by fastforce
  have "fst (refresh update s) = s \<or> fst (refresh update s) = fst (reload i s)"
    by (auto simp: refresh_def Some u split: prod.splits sum.splits)
  with reload_step [OF assms, of i strict] assms show ?thesis by (auto simp: keeps_accountsI)
qed

lemma begin_step:
  assumes "runtime_ok s" "t < length (phases s)" "\<not> is_releasing (phases s ! t)"
  shows "runtime_ok (fst (begin_operation t update s)) \<and> keeps_accounts strict s (fst (begin_operation t update s))"
proof (cases "phases s ! t")
  case (Running frames)
  with assms mset_concat_update [OF assms(2), of frames_of "Running ([] # frames)"] show ?thesis
    by (auto simp: begin_operation_def frames_of_def accounts_def held_def intro!: runtime_ok_phase keeps_accountsI)
next
  case (Releasing e)
  with assms(3) show ?thesis by simp
next
  case Idle
  obtain s1 x where r: "refresh update s = (s1, x)" by fastforce
  then have s1: "runtime_ok s1" "keeps_accounts strict s s1" "phases s1 = phases s"
    using refresh_step [OF assms(1), of update strict] by simp_all
  show ?thesis
  proof (cases "(\<exists>e. x = Inl e) \<or> runtime_closed s1 \<or> closing s1 \<or> applying s1")
    case True
    with r Idle s1 show ?thesis by (auto simp: begin_operation_def split: sum.splits)
  next
    case False
    define s2 where "s2 = s1\<lparr>busy := busy s1 + 1, pinned := (pinned s1)[t := Some (generation s1)], phases := (phases s1)[t := Running [[]]]\<rparr>"
    have "fst (begin_operation t update s) = s2"
      using r Idle False by (cases x) (auto simp: begin_operation_def s2_def)
    moreover have "runtime_ok s2"
      using s1 False assms(2) Idle filter_update_length [of t "phases s1" "\<lambda>p. p \<noteq> Idle" "Running [[]]"]
        not_in_update [of "Running []" "phases s1" "Running [[]]" t] busy_nonneg [OF s1(1)]
      by (auto simp: runtime_ok_def s2_def nth_list_update)
    moreover have "accounts {#} s1 s2"
      using mset_concat_update [of t "phases s1" frames_of "Running [[]]"] assms(2) s1(3) Idle
      by (simp add: accounts_def held_def s2_def frames_of_def)
    ultimately show ?thesis using s1(2) keeps_accounts_trans keeps_accountsI by metis
  qed
qed


lemma settle_step:
  assumes "runtime_ok s" "t < length (phases s)"
  shows "runtime_ok (settle_frame t error s) \<and> keeps_accounts strict s (settle_frame t error s)"
proof (cases "phases s ! t")
  case (Running all_frames)
  have "all_frames \<noteq> []" using assms Running nth_mem [OF assms(2)] by (auto simp: runtime_ok_def)
  then obtain frame frames where frames: "phases s ! t = Running (frame # frames)"
    using Running by (cases all_frames) auto
  have open_t: "phases s ! t \<noteq> Idle" "busy s \<noteq> 0" using frames busy_open [OF assms] by auto
  note upd = mset_concat_update [OF assms(2), of frames_of]
  show ?thesis
  proof (cases error)
    case None
    show ?thesis
    proof (cases frames)
      case Nil
      define s1 where "s1 = s\<lparr>pending_requests := pending_requests s @ frame\<rparr>"
      have "settle_frame t error s = s1\<lparr>phases := (phases s1)[t := Releasing None]\<rparr>"
        by (simp add: settle_frame_def frames None Nil s1_def)
      moreover have "runtime_ok s1" using runtime_ok_more_pending [OF assms(1) open_t(2)] by (simp add: s1_def)
      moreover have "phases s1 = phases s" by (simp add: s1_def)
      ultimately show ?thesis
        using runtime_ok_phase [of s1 t "Releasing None"] assms(2) open_t upd [of "Releasing None", symmetric]
        by (auto simp: s1_def accounts_def held_def frames frames_of_def Nil add.commute intro!: keeps_accountsI)
    next
      case (Cons outer rest)
      then have "settle_frame t error s = s\<lparr>phases := (phases s)[t := Running ((outer @ frame) # rest)]\<rparr>"
        by (simp add: settle_frame_def frames None)
      with runtime_ok_phase [OF assms open_t(1), of "Running ((outer @ frame) # rest)"]
        upd [of "Running ((outer @ frame) # rest)"] show ?thesis
        by (auto simp: accounts_def held_def frames frames_of_def Cons intro!: keeps_accountsI)
    qed
  next
    case (Some e)
    define p where "p = (if frames = [] then Releasing (Some (rollback_error e (rollback_failures frame))) else Running frames)"
    have p: "p \<noteq> Idle" "p \<noteq> Running []" "frames_of p = concat frames" by (auto simp: p_def frames_of_def)
    have "settle_frame t error s = (run_rollbacks frame s)\<lparr>phases := (phases s)[t := p]\<rparr>"
      by (simp add: settle_frame_def frames Some p_def run_rollbacks_def Let_def)
    moreover have "runtime_ok (run_rollbacks frame s)" using assms(1) by (simp add: run_rollbacks_def)
    moreover have "phases (run_rollbacks frame s) = phases s" by (simp add: run_rollbacks_def)
    ultimately show ?thesis
      using runtime_ok_phase [of "run_rollbacks frame s" t p] assms(2) open_t p upd [of p]
      by (auto simp: accounts_def held_def frames frames_of_def [of "Running _"] run_rollbacks_def intro!: keeps_accountsI)
  qed
qed (use assms in \<open>simp_all add: settle_frame_def keeps_accountsI\<close>)

lemma close_step:
  assumes "runtime_ok s"
  shows "runtime_ok (fst (close_runtime failures s)) \<and> keeps_accounts strict s (fst (close_runtime failures s))"
  using assms
  by (auto simp: close_runtime_def run_rollbacks_def Let_def runtime_ok_def accounts_def held_def intro!: keeps_accountsI)

lemma request_step:
  assumes "runtime_ok s" "t < length (phases s)" "\<not> is_releasing (phases s ! t)" "strict \<longrightarrow> ordinary_request r"
  shows "runtime_ok (fst (request_reload t r s)) \<and> keeps_accounts strict s (fst (request_reload t r s))"
proof (cases "phases s ! t")
  case (Running all_frames)
  have "all_frames \<noteq> []" using assms Running nth_mem [OF assms(2)] by (auto simp: runtime_ok_def)
  then obtain frame frames where frames: "phases s ! t = Running (frame # frames)"
    using Running by (cases all_frames) auto
  then have "fst (request_reload t r s) =
      s\<lparr>history := history s @ [Accepted r], phases := (phases s)[t := Running ((frame @ [r]) # frames)]\<rparr>"
    by (simp add: request_reload_def)
  with frames runtime_ok_phase [OF assms(1,2), of "Running ((frame @ [r]) # frames)"]
    mset_concat_update [OF assms(2), of frames_of "Running ((frame @ [r]) # frames)"] show ?thesis
    by (auto simp: accounts_def held_def frames_of_def runtime_ok_def intro!: keeps_accountsI)
next
  case (Releasing e)
  with assms(3) show ?thesis by simp
next
  case Idle
  define s0 where "s0 = s\<lparr>history := history s @ [Accepted r]\<rparr>"
  have s0: "runtime_ok s0" "accepted (history s0) = accepted (history s) + {#r#}" "settled (history s0) = settled (history s)"
      "held s0 = held s"
    using assms(1) by (simp_all add: s0_def)
  show ?thesis
  proof (cases "busy s = 0")
    case False
    with Idle have "fst (request_reload t r s) = s0\<lparr>pending_requests := pending_requests s @ [r]\<rparr>"
      by (simp add: request_reload_def s0_def)
    with runtime_ok_more_pending [OF s0(1)] False s0 show ?thesis
      by (auto simp: s0_def accounts_def held_def intro!: keeps_accountsI)
  next
    case True
    obtain s1 x where a: "apply_request r s0 = (s1, x)" by fastforce
    have "\<not> applying s0" using s0(1) by (simp add: runtime_ok_def)
    from apply_request_frame [OF a this] obtain g h where
        f: "s1 = s0\<lparr>generation := g, history := history s0 @ h\<rparr>" "busy s0 \<noteq> 0 \<longrightarrow> g = generation s0"
        "accepted h = {#}" "settled h \<subseteq># {#r#}" "ordinary_request r \<longrightarrow> settled h = {#r#}"
      by blast
    have "fst (request_reload t r s) = s1"
      using Idle True a by (cases x) (simp_all add: request_reload_def s0_def)
    moreover have "accounts ({#r#} - settled h) s s1"
      using f s0 by (simp add: accounts_def add.assoc)
    ultimately show ?thesis
      using f assms(4) runtime_ok_frame [OF s0(1) f(2)] by (auto simp: keeps_accounts_def)
  qed
qed

lemma release_step:
  assumes "runtime_ok s" "t < length (phases s)" "is_releasing (phases s ! t)"
    "strict \<longrightarrow> quiet_notifier notify \<and> list_all ordinary_request (pending_requests s)"
  shows "runtime_ok (fst (release_operation t notify failures s)) \<and>
    keeps_accounts strict s (fst (release_operation t notify failures s))"
proof -
  define s1 where "s1 = s\<lparr>pinned := (pinned s)[t := None], phases := (phases s)[t := Idle], busy := busy s - 1\<rparr>"
  obtain e where e: "phases s ! t = Releasing e" using assms(3) by (cases "phases s ! t") auto
  have open_s: "\<not> runtime_closed s" "0 < busy s" using assms(1,2) e busy_open [OF assms(1,2)] by (auto simp: runtime_ok_def)
  have s1: "busy s1 = int (length (filter (\<lambda>p. p \<noteq> Idle) (phases s1)))" "length (pinned s1) = length (phases s1)"
     "Running [] \<notin> set (phases s1)"
     "\<forall>t < length (phases s1). pinned s1 ! t = (if phases s1 ! t = Idle then None else Some (generation s1))"
     "\<not> applying s1" "\<not> runtime_closed s1"
    using assms(1,2) e open_s filter_update_length [OF assms(2), of "\<lambda>p. p \<noteq> Idle" Idle]
      not_in_update [of "Running []" "phases s" Idle t]
    by (auto simp: runtime_ok_def s1_def nth_list_update)
  have a1: "accounts {#} s s1"
    using mset_concat_update [OF assms(2), of frames_of Idle] e by (simp add: accounts_def held_def s1_def frames_of_def)
  consider "busy s1 = 0" "closing s1" | "busy s1 = 0" "\<not> closing s1" "pending_requests s1 \<noteq> []"
    | "busy s1 \<noteq> 0 \<or> \<not> closing s1 \<and> pending_requests s1 = []" by blast
  then show ?thesis
  proof cases
    case 1
    then have "fst (release_operation t notify failures s) = fst (close_runtime failures s1)"
      by (simp add: release_operation_def s1_def Let_def)
    moreover have "runtime_ok (fst (close_runtime failures s1))"
      using 1 s1 by (simp add: close_runtime_def Let_def run_rollbacks_def runtime_ok_def)
    moreover have "accounts {#} s1 (fst (close_runtime failures s1))"
      using 1 s1 by (simp add: close_runtime_def Let_def run_rollbacks_def accounts_def held_def)
    ultimately show ?thesis using a1 keeps_accountsI keeps_accounts_trans by metis
  next
    case 2
    define s2 where "s2 = s1\<lparr>pending_requests := []\<rparr>"
    have s2: "runtime_ok s2" using 2 s1 by (simp add: runtime_ok_def s2_def)
    obtain s3 x where a: "apply_all notify (pending_requests s1) [] s2 = (s3, x)" by fastforce
    have "\<not> applying s2" using s1(5) by (simp add: s2_def)
    from apply_all_frame [OF a this] obtain g h where
        f: "s3 = s2\<lparr>generation := g, history := history s2 @ h\<rparr>" "busy s2 \<noteq> 0 \<longrightarrow> g = generation s2"
        "accepted h = {#}" "settled h \<subseteq># mset (pending_requests s1)"
        "list_all ordinary_request (pending_requests s1) \<and> quiet_notifier notify \<longrightarrow> settled h = mset (pending_requests s1)"
      by blast
    have "fst (release_operation t notify failures s) = s3"
      using 2 a by (cases x) (simp_all add: release_operation_def s1_def s2_def Let_def)
    moreover obtain lost where lost: "mset (pending_requests s1) = settled h + lost"
      using f(4) by (auto simp: subset_mset.le_iff_add)
    then have "accounts lost s1 s3"
      using f by (simp add: accounts_def held_def s2_def add.assoc add.commute add.left_commute)
    moreover have "strict \<longrightarrow> lost = {#}" using f(5) assms(4) lost by (auto simp: s1_def)
    ultimately have "keeps_accounts strict s1 s3" "fst (release_operation t notify failures s) = s3"
      by (auto simp: keeps_accounts_def)
    moreover note calculation
    ultimately show ?thesis
      using runtime_ok_frame [OF s2 f(2)] f(1) keeps_accounts_trans [OF keeps_accountsI [OF a1]] by auto
  next
    case 3
    then have "fst (release_operation t notify failures s) = s1"
      by (auto simp: release_operation_def s1_def Let_def)
    moreover have "runtime_ok s1" using 3 s1 by (auto simp: runtime_ok_def)
    ultimately show ?thesis using a1 keeps_accountsI by simp
  qed
qed


section \<open>Every interleaving\<close>

definition ordinary_op :: "runtime_op \<Rightarrow> bool" where
  "ordinary_op x = (case x of Release t notify failures \<Rightarrow> quiet_notifier notify | Request t r \<Rightarrow> ordinary_request r | _ \<Rightarrow> True)"

lemma runtime_step_ok:
  assumes "runtime_ok s" "strict \<longrightarrow> ordinary_op x \<and> list_all ordinary_request (pending_requests s)"
  shows "runtime_ok (runtime_step x s) \<and> keeps_accounts strict s (runtime_step x s)"
proof (cases x)
  case (Begin t update)
  with begin_step [OF assms(1), of t update strict] assms(1) show ?thesis
    by (auto simp: runtime_step_def keeps_accountsI)
next
  case (Settle t error)
  with settle_step [OF assms(1), of t error strict] assms(1) show ?thesis
    by (auto simp: runtime_step_def keeps_accountsI)
next
  case (Release t notify failures)
  with release_step [OF assms(1), of t strict notify failures] assms show ?thesis
    by (auto simp: runtime_step_def ordinary_op_def keeps_accountsI)
next
  case (Request t r)
  with request_step [OF assms(1), of t strict r] assms show ?thesis
    by (auto simp: runtime_step_def ordinary_op_def keeps_accountsI)
next
  case (Reload i)
  with reload_step [OF assms(1), of i strict] show ?thesis by (simp add: runtime_step_def)
next
  case (Close failures)
  with close_step [OF assms(1), of failures strict] show ?thesis by (simp add: runtime_step_def)
qed

text \<open>Only a request is accepted, and only that one.\<close>

lemma reload_accepts: "\<not> applying s \<Longrightarrow> accepted (history (fst (reload i s))) = accepted (history s)"
  using reload_frame [of i s "fst (reload i s)" "snd (reload i s)"] by auto

lemma refresh_accepts: "\<not> applying s \<Longrightarrow> accepted (history (fst (refresh update s))) = accepted (history s)"
  using reload_accepts [of s] by (auto simp: refresh_def split: option.splits prod.splits sum.splits) (metis fst_conv)+

lemma begin_accepts: "\<not> applying s \<Longrightarrow> accepted (history (fst (begin_operation t update s))) = accepted (history s)"
  using refresh_accepts [of s update]
  by (cases "refresh update s") (auto simp: begin_operation_def split: phase.splits sum.splits)

lemma close_accepts: "accepted (history (fst (close_runtime failures s))) = accepted (history s)"
  by (simp add: close_runtime_def run_rollbacks_def Let_def)

lemma release_accepts:
  assumes "\<not> applying s"
  shows "accepted (history (fst (release_operation t notify failures s))) = accepted (history s)"
proof -
  define s1 where "s1 = s\<lparr>pinned := (pinned s)[t := None], phases := (phases s)[t := Idle], busy := busy s - 1\<rparr>"
  obtain s3 x where a: "apply_all notify (pending_requests s1) [] (s1\<lparr>pending_requests := []\<rparr>) = (s3, x)" by fastforce
  have "\<not> applying (s1\<lparr>pending_requests := []\<rparr>)" using assms by (simp add: s1_def)
  from apply_all_frame [OF a this] have "accepted (history s3) = accepted (history s1)" by auto
  moreover have "fst (release_operation t notify failures s) \<in> {fst (close_runtime failures s1), s3, s1}"
    using a by (auto simp: release_operation_def s1_def [symmetric] Let_def split: sum.splits)
  ultimately show ?thesis using close_accepts [of failures s1] by (auto simp: s1_def)
qed

lemma request_accepts:
  assumes "\<not> applying s"
  shows "accepted (history (fst (request_reload t r s))) = accepted (history s) + {#r#}"
proof -
  define s0 where "s0 = s\<lparr>history := history s @ [Accepted r]\<rparr>"
  obtain s1 x where a: "apply_request r s0 = (s1, x)" by fastforce
  have "\<not> applying s0" using assms by (simp add: s0_def)
  from apply_request_frame [OF a this] have "accepted (history s1) = accepted (history s0)" by auto
  then show ?thesis using a
    by (auto simp: request_reload_def s0_def Let_def split: phase.splits list.splits sum.splits)
qed

lemma step_accepts:
  assumes "runtime_ok s"
  shows "accepted (history (runtime_step x s)) = accepted (history s) \<or>
    (\<exists>t r. x = Request t r \<and> accepted (history (runtime_step x s)) = accepted (history s) + {#r#})"
proof -
  have "\<not> applying s" using assms by (simp add: runtime_ok_def)
  then show ?thesis
    using reload_accepts [of s] begin_accepts [of s] close_accepts release_accepts [of s] request_accepts [of s]
    by (cases x) (auto simp: runtime_step_def settle_frame_def run_rollbacks_def Let_def
        split: phase.splits list.splits option.splits)
qed

definition books_ok :: "runtime \<Rightarrow> bool" where
  "books_ok s \<longleftrightarrow> runtime_ok s \<and> held s + settled (history s) \<subseteq># accepted (history s)"

definition books_balance :: "runtime \<Rightarrow> bool" where
  "books_balance s \<longleftrightarrow> runtime_ok s \<and> held s + settled (history s) = accepted (history s) \<and>
     (\<forall>r \<in># accepted (history s). ordinary_request r)"

lemma books_step: "books_ok s \<Longrightarrow> books_ok (runtime_step x s)"
proof -
  assume s: "books_ok s"
  then have ok: "runtime_ok (runtime_step x s)" "keeps_accounts False s (runtime_step x s)"
    using runtime_step_ok [of s False x] by (auto simp: books_ok_def)
  from s obtain k where k: "accepted (history s) = held s + settled (history s) + k"
    by (auto simp: books_ok_def subset_mset.le_iff_add)
  from ok(2) obtain lost where "accounts lost s (runtime_step x s)" by (auto simp: keeps_accounts_def)
  then have "accepted (history (runtime_step x s)) = held (runtime_step x s) + settled (history (runtime_step x s)) + (k + lost)"
    by (simp add: accounts_def k add.assoc add.commute add.left_commute)
  with ok(1) show ?thesis by (simp add: books_ok_def)
qed

lemma balance_step: "books_balance s \<Longrightarrow> ordinary_op x \<Longrightarrow> books_balance (runtime_step x s)"
proof -
  assume s: "books_balance s" and x: "ordinary_op x"
  have "set_mset (held s) \<subseteq> set_mset (accepted (history s))"
    using s by (metis books_balance_def mset_subset_eq_add_left set_mset_mono)
  then have "list_all ordinary_request (pending_requests s)"
    using s by (auto simp: books_balance_def held_def list_all_iff)
  then have ok: "runtime_ok (runtime_step x s)" "keeps_accounts True s (runtime_step x s)"
    using runtime_step_ok [of s True x] s x by (auto simp: books_balance_def)
  then have "accepted (history (runtime_step x s)) = held (runtime_step x s) + settled (history (runtime_step x s))"
    using s by (auto simp: keeps_accounts_def accounts_def books_balance_def add.assoc)
  moreover have "\<forall>r \<in># accepted (history (runtime_step x s)). ordinary_request r"
    using step_accepts [of s x] s x by (auto simp: books_balance_def ordinary_op_def)
  ultimately show ?thesis using ok(1) by (simp add: books_balance_def)
qed

interpretation runtime_books: op_machine runtime_step books_ok "\<lambda>_. True"
  by unfold_locales (rule books_step)

interpretation runtime_balance: op_machine runtime_step books_balance ordinary_op
  by unfold_locales (rule balance_step)

lemma new_runtime_ok: "runtime_ok (new_runtime n)"
  by (auto simp: runtime_ok_def new_runtime_def)

lemma new_runtime_books: "books_ok (new_runtime n)" "books_balance (new_runtime n)"
  by (auto simp: books_ok_def books_balance_def new_runtime_ok) (simp_all add: new_runtime_def held_def frames_of_def)


section \<open>An operation pins its generation\<close>

definition open_operation :: "nat \<Rightarrow> runtime \<Rightarrow> bool" where
  "open_operation t s \<longleftrightarrow> t < length (phases s) \<and> phases s ! t \<noteq> Idle"

definition releases :: "nat \<Rightarrow> runtime_op \<Rightarrow> bool" where
  "releases t x = (case x of Release u _ _ \<Rightarrow> u = t | _ \<Rightarrow> False)"

lemma busy_after_release:
  assumes "runtime_ok s" "open_operation t s" "t \<noteq> u" "u < length (phases s)" "phases s ! u \<noteq> Idle"
  shows "busy s - 1 \<noteq> 0"
proof -
  let ?ps = "(phases s)[u := Idle]"
  have "?ps ! t \<noteq> Idle" "t < length ?ps" using assms by (simp_all add: open_operation_def)
  then have "\<exists>p \<in> set ?ps. p \<noteq> Idle" using nth_mem [of t ?ps] by blast
  then have "filter (\<lambda>p. p \<noteq> Idle) ?ps \<noteq> []" by (simp add: filter_empty_conv)
  then have "0 < length (filter (\<lambda>p. p \<noteq> Idle) ?ps)" by simp
  moreover have "int (length (filter (\<lambda>p. p \<noteq> Idle) ?ps)) = busy s - 1"
    using assms(1,5) filter_update_length [OF assms(4), of "\<lambda>p. p \<noteq> Idle" Idle] by (simp add: runtime_ok_def)
  ultimately show ?thesis by linarith
qed

lemma reload_refused: "busy s \<noteq> 0 \<Longrightarrow> fst (reload i s) = s"
  by (simp add: reload_def)

lemma begin_busy:
  "busy s \<noteq> 0 \<Longrightarrow> \<not> is_releasing (phases s ! t) \<Longrightarrow> \<exists>p. p \<noteq> Idle \<and> phases (fst (begin_operation t u s)) \<in> {phases s, (phases s)[t := p]} \<and>
     generation (fst (begin_operation t u s)) = generation s"
  by (auto simp: begin_operation_def refresh_def split: phase.splits option.splits)

lemma settle_phases: "\<exists>p. p \<noteq> Idle \<and> phases (settle_frame t error s) \<in> {phases s, (phases s)[t := p]} \<and>
    generation (settle_frame t error s) = generation s"
  by (auto simp: settle_frame_def run_rollbacks_def Let_def split: phase.splits list.splits option.splits)

lemma request_busy: "busy s \<noteq> 0 \<Longrightarrow> \<exists>p. p \<noteq> Idle \<and> phases (fst (request_reload t r s)) \<in> {phases s, (phases s)[t := p]} \<and>
    generation (fst (request_reload t r s)) = generation s"
  by (auto simp: request_reload_def Let_def split: phase.splits list.splits)

lemma release_busy: "busy s - 1 \<noteq> 0 \<Longrightarrow> phases (fst (release_operation t n f s)) = (phases s)[t := Idle] \<and>
    generation (fst (release_operation t n f s)) = generation s"
  by (simp add: release_operation_def Let_def)

lemma step_pins:
  assumes "runtime_ok s" "open_operation t s" "\<not> releases t x"
  shows "generation (runtime_step x s) = generation s \<and> open_operation t (runtime_step x s)"
proof -
  have busy: "busy s \<noteq> 0" using busy_open [of s t] assms by (auto simp: open_operation_def)
  have keeps: "open_operation t s'" if "p \<noteq> Idle" "phases s' \<in> {phases s, (phases s)[u := p]}" for s' p u
    using that assms(2) by (cases "t = u") (auto simp: open_operation_def)
  show ?thesis
  proof (cases x)
    case (Begin u update)
    with begin_busy [OF busy, of u update] keeps assms(2) show ?thesis by (auto simp: runtime_step_def)
  next
    case (Settle u error)
    with settle_phases [of u error s] keeps assms(2) show ?thesis by (auto simp: runtime_step_def)
  next
    case (Release u notify failures)
    then have u: "t \<noteq> u" using assms(3) by (simp add: releases_def)
    show ?thesis
    proof (cases "u < length (phases s) \<and> is_releasing (phases s ! u)")
      case True
      then have "busy s - 1 \<noteq> 0"
        using busy_after_release [OF assms(1,2) u] by (cases "phases s ! u") auto
      from release_busy [OF this, of u notify failures] True Release u assms(2) show ?thesis
        by (simp add: runtime_step_def open_operation_def)
    next
      case False
      with Release assms(2) show ?thesis by (auto simp: runtime_step_def)
    qed
  next
    case (Request u r)
    with request_busy [OF busy, of u r] keeps assms(2) show ?thesis by (auto simp: runtime_step_def)
  next
    case (Reload i)
    with reload_refused [OF busy, of i] assms(2) show ?thesis by (simp add: runtime_step_def)
  next
    case (Close failures)
    with busy assms(2) show ?thesis by (auto simp: runtime_step_def close_runtime_def open_operation_def)
  qed
qed

interpretation pinned_operation: frame_machine runtime_step runtime_ok "\<lambda>_. True" generation
  "\<lambda>x. \<not> releases t x" "open_operation t" for t
  by unfold_locales (use runtime_step_ok [of _ False] step_pins in auto)

lemma reachable_ok: "runtime_ok (run_ops runtime_step xs (new_runtime n))"
  using pinned_operation.run_inv [OF new_runtime_ok, of xs] by (simp add: list_all_iff)

section \<open>Guarantees\<close>

text \<open>C12: An operation pins its generation. In every run of the runtime, from the moment a thread has begun an
  operation until it releases it, whatever the other threads do (request, reload, begin and end
  operations, close), the generation of plugins stays the one the operation pinned, and no reload or
  update is applied.\<close>

theorem operation_pins_generation:
  assumes "open_operation t (run_ops runtime_step xs (new_runtime n))" "list_all (\<lambda>x. \<not> releases t x) ys"
  shows "generation (run_ops runtime_step (xs @ ys) (new_runtime n)) = generation (run_ops runtime_step xs (new_runtime n)) \<and>
    pinned (run_ops runtime_step (xs @ ys) (new_runtime n)) ! t = Some (generation (run_ops runtime_step xs (new_runtime n)))"
proof -
  let ?s = "run_ops runtime_step xs (new_runtime n)" and ?s' = "run_ops runtime_step (xs @ ys) (new_runtime n)"
  have run: "open_operation t ?s'" "generation ?s' = generation ?s"
    using pinned_operation.run_view [OF reachable_ok assms] by simp_all
  moreover have "runtime_ok ?s'" by (rule reachable_ok)
  ultimately show ?thesis by (simp add: runtime_ok_def open_operation_def)
qed

lemma nothing_held: "runtime_ok s \<Longrightarrow> busy s = 0 \<Longrightarrow> held s = {#}"
proof -
  assume s: "runtime_ok s" "busy s = 0"
  then have "\<forall>p \<in> set (phases s). p = Idle" using idle_iff [OF s(1)] by (auto simp: in_set_conv_nth)
  then have "concat (map frames_of (phases s)) = []" by (auto simp: frames_of_def)
  with s show ?thesis by (simp add: held_def runtime_ok_def)
qed

text \<open>C11: In every interleaving of threads, whatever callbacks raise, the requests that are held (by an
  operation or the runtime) or settled (committed or rolled back) are accepted ones, none of them
  counted twice: a request is settled once at most, and not while it is still held. No accepted request
  is lost, and as soon as no operation is open each one has been committed or rolled back exactly
  once, if three conditions hold of every request and release: the prepare and commit hooks raise
  nothing but subclasses of \<open>Exception\<close>; replacing the generation raises nothing but such exceptions and
  only before it has switched; and no notification callback raises anything, not even an ordinary
  exception. The last two are needed: \<open>raising_notifier_loses_updates\<close> and \<open>late_failure_settles_nothing\<close> below.\<close>

theorem accepted_updates_are_settled:
  fixes xs n
  defines "s \<equiv> run_ops runtime_step xs (new_runtime n)"
  shows "held s + settled (history s) \<subseteq># accepted (history s) \<and>
    (list_all ordinary_op xs \<longrightarrow> held s + settled (history s) = accepted (history s) \<and>
      (busy s = 0 \<longrightarrow> settled (history s) = accepted (history s)))"
proof -
  have "books_ok s" unfolding s_def using runtime_books.run_inv [OF new_runtime_books(1), of xs] by (simp add: list_all_iff)
  moreover have "books_balance s" if "list_all ordinary_op xs"
    unfolding s_def by (rule runtime_balance.run_inv [OF new_runtime_books(2) that])
  moreover have "settled (history s) = accepted (history s)" if "books_balance s" "busy s = 0"
  proof -
    have "runtime_ok s" "held s + settled (history s) = accepted (history s)"
      using that(1) unfolding books_balance_def by blast+
    with nothing_held [OF _ that(2)] show ?thesis by (metis add_0)
  qed
  ultimately show ?thesis unfolding books_ok_def books_balance_def by blast
qed

lemma begin_refused:
  assumes "runtime_ok s" "closing s \<or> runtime_closed s" "phases s ! t = Idle"
  shows "\<exists>e. snd (begin_operation t update s) = Inl e"
proof -
  have refused: "reload i s = (s, raise PluginError turn_boundary)" for i
    using assms(1,2) by (cases "busy s = 0") (auto simp: runtime_ok_def reload_def)
  obtain s' x where r: "refresh update s = (s', x)" by fastforce
  have "s' = s" using r by (auto simp: refresh_def refused raise_def split: option.splits if_splits)
  with r assms show ?thesis by (cases x) (auto simp: begin_operation_def raise_def)
qed

text \<open>C16: Closing waits for the operations under way. A runtime that was asked to close begins no operation of
  an idle thread any more; it has closed as soon as no operation is open, never while one is, and a
  closed runtime holds no request.\<close>

theorem closing_waits_for_operations:
  fixes xs n
  defines "s \<equiv> run_ops runtime_step xs (new_runtime n)"
  assumes "closing s \<or> runtime_closed s"
  shows "(runtime_closed s \<longleftrightarrow> busy s = 0) \<and> (runtime_closed s \<longrightarrow> held s = {#}) \<and>
    (phases s ! t = Idle \<longrightarrow> (\<exists>e. snd (begin_operation t update s) = Inl e))"
proof -
  have ok: "runtime_ok s" unfolding s_def by (rule reachable_ok)
  then have closed: "runtime_closed s \<longleftrightarrow> busy s = 0" using assms(2) by (auto simp: runtime_ok_def)
  moreover have "held s = {#}" if "runtime_closed s" using that closed nothing_held [OF ok] by simp
  moreover have "\<exists>e. snd (begin_operation t update s) = Inl e" if "phases s ! t = Idle"
    by (rule begin_refused [OF ok assms(2) that])
  ultimately show ?thesis by blast
qed


section \<open>Examples\<close>

definition demo_request :: "nat \<Rightarrow> hook \<Rightarrow> replacement \<Rightarrow> notifier \<Rightarrow> request" where
  "demo_request i p r n = \<lparr>request_id = i, prepare_hook = p, install = r, commit_hook = None, rollback_hook = None, notify_hook = n\<rparr>"

definition demo_good :: request where
  "demo_good = demo_request 1 None Switched None"

definition demo_failing :: request where
  "demo_failing = demo_request 2 (Some (Exn ValueError [])) Switched (Some None)"

definition demo_ops :: "runtime_op list" where
  "demo_ops = [Begin 0 None, Request 0 demo_good, Begin 0 None, Request 0 demo_failing, Settle 0 None, Begin 1 None,
     Settle 0 None, Release 0 None [], Reload Switched]"

definition demo_end :: "runtime_op list" where
  "demo_end = [Close [], Settle 1 None, Release 1 None []]"

lemma operation_pins_generation_witness:
  "generation (run_ops runtime_step (take 6 demo_ops @ drop 6 demo_ops) (new_runtime 2)) =
     generation (run_ops runtime_step (take 6 demo_ops) (new_runtime 2))"
proof -
  have "open_operation 1 (run_ops runtime_step (take 6 demo_ops) (new_runtime 2))" by code_simp
  moreover have "list_all (\<lambda>x. \<not> releases 1 x) (drop 6 demo_ops)" by code_simp
  ultimately show ?thesis using operation_pins_generation by blast
qed

lemma demo_settles:
  "history (run_ops runtime_step (demo_ops @ [Settle 1 None, Release 1 None []]) (new_runtime 2)) =
     [Accepted demo_good, Accepted demo_failing, Replaced 1, Committed demo_good, Rolled_Back demo_failing]"
  by code_simp

lemma accepted_updates_are_settled_witness:
  "settled (history (run_ops runtime_step (demo_ops @ [Settle 1 None, Release 1 None []]) (new_runtime 2))) =
     {#demo_good, demo_failing#}"
proof -
  have "list_all ordinary_op (demo_ops @ [Settle 1 None, Release 1 None []])" by code_simp
  moreover have "busy (run_ops runtime_step (demo_ops @ [Settle 1 None, Release 1 None []]) (new_runtime 2)) = 0" by code_simp
  ultimately have "settled (history (run_ops runtime_step (demo_ops @ [Settle 1 None, Release 1 None []]) (new_runtime 2))) =
      accepted (history (run_ops runtime_step (demo_ops @ [Settle 1 None, Release 1 None []]) (new_runtime 2)))"
    using accepted_updates_are_settled by blast
  then show ?thesis unfolding demo_settles by (simp add: accepted_def List.map_filter_def)
qed

lemma closing_waits_for_operations_witness:
  "\<not> runtime_closed (run_ops runtime_step (demo_ops @ take 1 demo_end) (new_runtime 2)) \<and>
   (\<exists>e. snd (begin_operation 0 None (run_ops runtime_step (demo_ops @ take 1 demo_end) (new_runtime 2))) = Inl e)"
proof -
  let ?s = "run_ops runtime_step (demo_ops @ take 1 demo_end) (new_runtime 2)"
  have "closing ?s" "busy ?s \<noteq> 0" "phases ?s ! 0 = Idle" by code_simp+
  with closing_waits_for_operations [of "demo_ops @ take 1 demo_end" 2 0 None] show ?thesis by blast
qed

lemma demo_closes:
  "history (run_ops runtime_step (demo_ops @ demo_end) (new_runtime 2)) =
     [Accepted demo_good, Accepted demo_failing, Rolled_Back demo_failing, Rolled_Back demo_good, Runtime_Closed]"
  by code_simp

text \<open>A notification callback that raises while one rejected update is reported loses the updates after it: they are
  neither committed nor rolled back. So does a callback that raises after the generation was switched,
  for the very update that was installed.\<close>

lemma raising_notifier_loses_updates:
  "history (run_ops runtime_step [Begin 0 None, Request 0 (demo_failing\<lparr>notify_hook := Some (Some (Exn ValueError []))\<rparr>),
       Request 0 demo_good, Settle 0 None, Release 0 None []] (new_runtime 1)) =
     [Accepted (demo_failing\<lparr>notify_hook := Some (Some (Exn ValueError []))\<rparr>), Accepted demo_good,
      Rolled_Back (demo_failing\<lparr>notify_hook := Some (Some (Exn ValueError []))\<rparr>)]"
  by code_simp

lemma late_failure_settles_nothing:
  "history (run_ops runtime_step [Request 0 (demo_good\<lparr>install := Switched_Raised (Exn ValueError [])\<rparr>)] (new_runtime 1)) =
     [Accepted (demo_good\<lparr>install := Switched_Raised (Exn ValueError [])\<rparr>), Replaced 1]"
  by code_simp

end
