(* ===== verification/Plugin_Generations.thy ===== *)
theory Plugin_Generations
  imports Plugin_Registry "HOL-Library.List_Lexorder" "HOL-Library.Multiset"
begin

text \<open>
  \<open>_replace_generation\<close> of \<open>raychat/plugins.py\<close>: the sources of every plugin that stays and of those that
  are added are captured again, loaded into a registry of their own, configured and handed the resources
  of their predecessors; then the new registry becomes the current one and the old one is retired, or,
  when anything raised, the new one is discarded. The file system (manifests, captured sources, their
  fingerprints) and the callbacks of plugins and of the host are parameters; a callback of a plugin is
  the sequence of calls it makes on its context. A callback that exports a resource changes nothing of the
  registry it exports from.
\<close>

section \<open>Parameters\<close>

datatype context_call = Read_Service pystr | Write_Service pystr nat | Write_State pystr pyval | Raise exn

type_synonym callback_run = "pystr \<times> context_call list"

record world =
  resolved_path :: "pystr \<Rightarrow> pystr"
  manifest_at :: "pystr \<Rightarrow> manifest result"
  capture :: "pystr \<Rightarrow> (nat \<times> manifest) result"
  entry_calls :: "tree \<Rightarrow> api_call list option result"
  export_raises :: "pystr \<Rightarrow> exn option"
  configure_calls :: "registry \<Rightarrow> callback_run list"
  restore_calls :: "pystr \<Rightarrow> context_call list"
  session_calls :: "registry \<Rightarrow> callback_run list"
  watch_raises :: "exn option"
  source_changed :: "tree \<Rightarrow> bool"
  state_raises :: "(pystr, fields) dict \<Rightarrow> exn option"
  announce_raises :: "exn option"

record generation_state =
  generation_registry :: registry
  generation_number :: nat
  generation_effects :: "effect list"
  disabled_plugins :: "pystr list"

section \<open>Preparing\<close>

definition call_context :: "pystr \<Rightarrow> context_call \<Rightarrow> registry \<Rightarrow> registry result" where
  "call_context plugin call reg = (case call of
      Read_Service name \<Rightarrow> bindR (service reg plugin name) (\<lambda>_. Inr reg)
    | Write_Service name v \<Rightarrow> replace_service reg plugin name v
    | Write_State k v \<Rightarrow>
        let st = (case map_of (plugin_state reg) plugin of Some fs \<Rightarrow> fs | None \<Rightarrow> [])
        in Inr (reg\<lparr>plugin_state := AList.update plugin (AList.update k v st) (plugin_state reg)\<rparr>)
    | Raise e \<Rightarrow> Inl e)"

text \<open>A callback that raises leaves what it changed before.\<close>

fun run_calls :: "pystr \<Rightarrow> context_call list \<Rightarrow> registry \<Rightarrow> registry \<times> unit result" where
  "run_calls plugin [] reg = (reg, Inr ())"
| "run_calls plugin (c # cs) reg = (case call_context plugin c reg of
      Inl e \<Rightarrow> (reg, Inl e) | Inr reg' \<Rightarrow> run_calls plugin cs reg')"

fun run_callbacks :: "callback_run list \<Rightarrow> registry \<Rightarrow> registry \<times> unit result" where
  "run_callbacks [] reg = (reg, Inr ())"
| "run_callbacks ((plugin, cs) # rest) reg = (case run_calls plugin cs reg of
      (reg', Inl e) \<Rightarrow> (reg', Inl e)
    | (reg', Inr _) \<Rightarrow> run_callbacks rest reg')"

text \<open>\<open>fresh\<close>: a source path is captured once per update; its tree is staged before its entrypoint is imported.\<close>

definition fresh_tree :: "world \<Rightarrow> pystr \<Rightarrow> (pystr, tree) dict \<Rightarrow> (pystr, tree) dict \<times> tree result" where
  "fresh_tree w path trees = (case map_of trees path of
      Some t \<Rightarrow> (trees, Inr t)
    | None \<Rightarrow> (case bindR (manifest_at w path) (\<lambda>_. capture w path) of
        Inl e \<Rightarrow> (trees, Inl e)
      | Inr (i, m) \<Rightarrow>
          let t = \<lparr>tree_id = i, tree_path = path, tree_manifest = m\<rparr> in (trees @ [(path, t)], Inr t)))"

fun fresh_modules :: "world \<Rightarrow> pystr list \<Rightarrow> (pystr, tree) dict \<Rightarrow> (pystr, tree) dict \<times> module list result" where
  "fresh_modules w [] trees = (trees, Inr [])"
| "fresh_modules w (p # ps) trees = (case fresh_tree w (resolved_path w p) trees of
      (trees', Inl e) \<Rightarrow> (trees', Inl e)
    | (trees', Inr t) \<Rightarrow> (case entry_calls w t of
        Inl e \<Rightarrow> (trees', Inl e)
      | Inr calls \<Rightarrow> (case fresh_modules w ps trees' of
          (trees'', Inl e) \<Rightarrow> (trees'', Inl e)
        | (trees'', Inr ms) \<Rightarrow> (trees'', Inr (\<lparr>module_tree = t, register_calls = calls\<rparr> # ms)))))"

definition replacement_paths :: "registry \<Rightarrow> pystr list \<Rightarrow> pystr list \<Rightarrow> pystr list" where
  "replacement_paths old added removed =
     map (\<lambda>(n, t). tree_path t) (filter (\<lambda>(n, t). n \<notin> set removed) (plugin_modules old)) @ rev (remdups (rev added))"

text \<open>\<open>loading\<close> says whether the staged registry has become the active one, which is when discarding it runs
  its cleanup callbacks.\<close>

record update =
  staged :: registry
  update_effects :: "effect list"
  loading :: bool
  retired :: "pystr list"

definition export_all :: "world \<Rightarrow> registry \<Rightarrow> pystr list \<Rightarrow> pystr list result" where
  "export_all w old gone =
     (let ns = filter (\<lambda>n. n \<notin> set gone) (map last_name (keys (tables old Reload_Handlers))) in
      case List.map_filter (export_raises w) ns of [] \<Rightarrow> Inr ns | e # _ \<Rightarrow> Inl e)"

definition restore_generation :: "world \<Rightarrow> pystr list \<Rightarrow> registry \<Rightarrow> registry \<times> unit result" where
  "restore_generation w handoffs reg =
     (case run_callbacks (configure_calls w reg) reg of
        (reg1, Inl e) \<Rightarrow> (reg1, Inl e)
      | (reg1, Inr _) \<Rightarrow>
          (case run_callbacks (map (\<lambda>n. (n, restore_calls w n)) (filter (\<lambda>n. has_key (tables reg1 Reload_Handlers) (Plain n)) handoffs)) reg1 of
             (reg2, Inl e) \<Rightarrow> (reg2, Inl e)
           | (reg2, Inr _) \<Rightarrow> run_callbacks (session_calls w reg2) reg2))"

definition validate_generation :: "world \<Rightarrow> registry \<Rightarrow> unit result" where
  "validate_generation w reg =
     (case watch_raises w of
        Some e \<Rightarrow> Inl e
      | None \<Rightarrow>
          if list_ex (source_changed w) (source_trees reg)
          then raise PluginError ''Plugin source changed during loading; retry the update.''
          else (case state_raises w (plugin_state reg) of Some e \<Rightarrow> Inl e | None \<Rightarrow> Inr ()))"

definition load_generation ::
    "(pystr \<Rightarrow> pystr) \<Rightarrow> (rname \<Rightarrow> pystr) \<Rightarrow> world \<Rightarrow> pystr list \<Rightarrow> module list \<Rightarrow> update \<Rightarrow> update \<times> unit result" where
  "load_generation repr shown w handoffs mods u =
     (case load repr shown mods \<lparr>active = staged u, effects = update_effects u, host_closed = False\<rparr> of
        (h, r) \<Rightarrow>
          let u1 = u\<lparr>staged := active h, update_effects := effects h, loading := True\<rparr> in
          (case r of
             Inl e \<Rightarrow> (u1, Inl e)
           | Inr _ \<Rightarrow> (case restore_generation w handoffs (active h) of
               (reg, Inl e) \<Rightarrow> (u1\<lparr>staged := reg\<rparr>, Inl e)
             | (reg, Inr _) \<Rightarrow> (u1\<lparr>staged := reg\<rparr>, validate_generation w reg))))"

definition prepare_generation ::
    "(pystr \<Rightarrow> pystr) \<Rightarrow> (rname \<Rightarrow> pystr) \<Rightarrow> world \<Rightarrow> pystr list \<Rightarrow> pystr list \<Rightarrow> registry \<Rightarrow> update \<Rightarrow> update \<times> unit result" where
  "prepare_generation repr shown w added removed old u =
     (let missing = filter (\<lambda>n. \<not> has_key (plugins old) n) (remdups removed) in
      if missing \<noteq> [] then (u, raise_text PluginError (ustr ''Unknown plugins: '' @ join (ustr '', '') (sort missing)))
      else case mapR (manifest_at w) added of
        Inl e \<Rightarrow> (u, Inl e)
      | Inr ms \<Rightarrow>
        let gone = filter (\<lambda>n. n \<notin> plugin_id ` set ms) removed; u1 = u\<lparr>retired := gone\<rparr> in
        (case export_all w old gone of
           Inl e \<Rightarrow> (u1, Inl e)
         | Inr handoffs \<Rightarrow>
           (case fresh_modules w (replacement_paths old added removed) [] of
              (trees, r) \<Rightarrow>
                let u2 = u1\<lparr>staged := (staged u1)\<lparr>source_trees := source_trees (staged u1) @ map snd trees\<rparr>\<rparr> in
                (case r of Inl e \<Rightarrow> (u2, Inl e) | Inr mods \<Rightarrow> load_generation repr shown w handoffs mods u2))))"

section \<open>Activating or discarding\<close>

definition discard_generation :: "registry \<Rightarrow> update \<Rightarrow> effect list" where
  "discard_generation old u =
     (let cs = cleanups (staged u); loaded = (\<lambda>c. has_key (plugins old) (owner c)) in
      (if loading u then map Cleaned (rev (filter on_reload (filter loaded cs))) @ map Cleaned (rev (filter (\<lambda>c. \<not> loaded c) cs))
       else []) @ map Retired (source_trees (staged u)))"

definition retire_generation :: "registry \<Rightarrow> pystr list \<Rightarrow> effect list" where
  "retire_generation old gone =
     map Cleaned (rev (filter on_reload (filter (\<lambda>c. owner c \<notin> set gone) (cleanups old)))) @
     map Cleaned (rev (filter (\<lambda>c. owner c \<in> set gone) (cleanups old))) @ map Retired (source_trees old)"

definition activate_generation ::
    "world \<Rightarrow> pystr list \<Rightarrow> update \<Rightarrow> generation_state \<Rightarrow> generation_state \<times> unit result" where
  "activate_generation w removed u s =
     (s\<lparr>generation_registry := staged u, generation_number := generation_number s + 1,
        generation_effects := update_effects u @ retire_generation (generation_registry s) (retired u),
        disabled_plugins := filter (\<lambda>n. \<not> has_key (plugins (staged u)) n) (disabled_plugins s @ removed)\<rparr>,
      case announce_raises w of Some e \<Rightarrow> Inl e | None \<Rightarrow> Inr ())"

text \<open>The registry an update starts from keeps the options, the state of the plugins and the services of the host.\<close>

definition next_registry :: "registry \<Rightarrow> registry" where
  "next_registry old = empty_registry\<lparr>options := options old, plugin_state := plugin_state old,
     tables := (tables empty_registry)(Services := filter (\<lambda>(n, v). \<not> has_key (owners old) (Services, n)) (tables old Services))\<rparr>"

definition replace_generation ::
    "(pystr \<Rightarrow> pystr) \<Rightarrow> (rname \<Rightarrow> pystr) \<Rightarrow> world \<Rightarrow> pystr list \<Rightarrow> pystr list \<Rightarrow> generation_state \<Rightarrow>
     generation_state \<times> unit result" where
  "replace_generation repr shown w added removed s =
     (let old = generation_registry s in
      case prepare_generation repr shown w added removed old
          \<lparr>staged = next_registry old, update_effects = generation_effects s, loading = False, retired = []\<rparr> of
        (u, Inl e) \<Rightarrow> (s\<lparr>generation_effects := update_effects u @ discard_generation old u\<rparr>, Inl e)
      | (u, Inr _) \<Rightarrow> activate_generation w removed u s)"


section \<open>What captures and callbacks leave\<close>





text \<open>A callback changes the values of its plugin's own services and the state of its plugin, nothing else.\<close>

definition same_shape :: "registry \<Rightarrow> registry \<Rightarrow> bool" where
  "same_shape reg reg' \<longleftrightarrow> options reg' = options reg \<and> (\<forall>k n. has_key (tables reg' k) n = has_key (tables reg k) n) \<and>
     hooks reg' = hooks reg \<and> cleanups reg' = cleanups reg \<and> plugins reg' = plugins reg \<and> owners reg' = owners reg \<and>
     plugin_modules reg' = plugin_modules reg \<and> source_trees reg' = source_trees reg \<and> source_snapshots reg' = source_snapshots reg \<and>
     (\<forall>n. \<not> has_key (owners reg) (Services, n) \<longrightarrow> map_of (tables reg' Services) n = map_of (tables reg Services) n)"

lemma same_shape_refl [simp]: "same_shape reg reg"
  by (simp add: same_shape_def)








section \<open>Updates\<close>
















section \<open>Guarantees\<close>



section \<open>Examples\<close>

text \<open>\<open>a\<close> is loaded and keeps its callback 8 across reloads; an update adds \<open>b\<close>, whose \<open>configure\<close> callback may raise.\<close>

definition demo_capture :: "pystr \<Rightarrow> (nat \<times> manifest) result" where
  "demo_capture p = (if p = ustr ''/p/a'' then Inr (11, snd (demo_package ''a'' []))
     else if p = ustr ''/p/b'' then Inr (12, snd (demo_package ''b'' [(''a'', ''1.0.12'')])) else raise FileNotFoundError '''')"

definition demo_world :: "context_call list \<Rightarrow> world" where
  "demo_world calls = \<lparr>resolved_path = id, manifest_at = (\<lambda>p. bindR (demo_capture p) (\<lambda>(i, m). Inr m)), capture = demo_capture,
     entry_calls = (\<lambda>t. Inr (Some (if tree_id t = 11 then [Register Services (ustr ''store'') 3 True, On_Close 8 False True]
       else [On_Close 7 True True]))), export_raises = (\<lambda>_. None), configure_calls = (\<lambda>_. [(ustr ''b'', calls)]),
     restore_calls = (\<lambda>_. []), session_calls = (\<lambda>_. []), watch_raises = None, source_changed = (\<lambda>_. False),
     state_raises = (\<lambda>_. None), announce_raises = None\<rparr>"

definition demo_generation :: generation_state where
  "demo_generation = \<lparr>generation_registry = active (fst (load id last_name [demo_modules ! 1] demo_host)), generation_number = 1,
     generation_effects = [], disabled_plugins = []\<rparr>"

definition summarize :: "effect list \<Rightarrow> (string \<times> nat) list" where
  "summarize es = map (\<lambda>x. case x of Staged c \<Rightarrow> (''staged'', callback c) | Cleaned c \<Rightarrow> (''cleaned'', callback c)
     | Retired t \<Rightarrow> (''retired'', tree_id t)) es"

lemma demo_update_succeeds:
  "(case replace_generation id last_name (demo_world [Read_Service (ustr ''store'')]) [ustr ''/p/b''] [] demo_generation of
     (s, r) \<Rightarrow> (generation_number s, keys (plugins (generation_registry s)), summarize (generation_effects s), r)) =
   (2, [ustr ''a'', ustr ''b''], [(''staged'', 8), (''staged'', 7), (''retired'', 1)], Inr ())"
  by code_simp

lemma demo_update_fails:
  "(case replace_generation id last_name (demo_world [Raise (Exn ValueError [])]) [ustr ''/p/b''] [] demo_generation of
     (s, r) \<Rightarrow> (generation_number s, keys (plugins (generation_registry s)), summarize (generation_effects s), r)) =
   (1, [ustr ''a''], [(''staged'', 8), (''staged'', 7), (''cleaned'', 7), (''retired'', 11), (''retired'', 12)], Inl (Exn ValueError []))"
  by code_simp


end
