(* ===== verification/Spec2Isabelle.thy ===== *)
theory Spec2Isabelle
  imports Action_Protocol Message_Queue Session_Properties Goal_Plugin Model_Router Worker_Shutdown Context_Properties Memory_Store Package_Order Package_Archives Plugin_Registry Plugin_Operations Plugin_Generations
begin

text \<open>
  RayChat is a coding chat harness in pure Python. A small session kernel owns the conversation of
  one agent; plugins give it tools, persistence hooks and middleware; a journal file keeps the turns;
  a background worker runs one conversation per thread; the terminal edits prompts and queues them;
  goal mode repeats a conversation until a judge accepts it; the model router picks the profile of a
  child agent. This library models that core, file by file, and proves what makes each part correct.

  THE LANGUAGE. \<open>Py_Prelude\<close> and \<open>Py_Value\<close> hold what the source uses of Python: text as lists of code
  points, values (\<open>pyval\<close>: None, booleans, unbounded integers, IEEE floats by their rational value,
  text, lists, dictionaries as association lists, and opaque objects), exceptions as values with the
  class hierarchy the handlers test, \<open>'a result = exn + 'a\<close>, and effects \<open>('s, 'a) eff = 's \<Rightarrow> 's \<times> 'a result\<close>
  that keep the state a raise leaves behind. Loops that may not end take fuel (\<open>onceL\<close>, \<open>bindL\<close>), and
  running out is \<open>None\<close>, never a result.

  THE PARTS, in the order the theories build on each other.
  \<^item> \<open>Validation\<close> (\<open>raychat/validation.py\<close>): the field checkers every settings and protocol record goes
    through, freezing of settings, strict JSON, assistant text.
  \<^item> \<open>Action_Protocol\<close> (\<open>raychat/protocol.py\<close>): a model reply, with or without a Markdown fence, to the
    action it asks for.
  \<^item> \<open>Machines\<close>: the locale of state machines with an invariant that the queue, the journal and the
    session instantiate.
  \<^item> \<open>Line_Editor\<close> (\<open>LineEditor\<close> of \<open>raychat/ui/terminal.py\<close>): the composer, refined to a zipper.
  \<^item> \<open>Message_Queue\<close> (\<open>raychat/ui/message_queue.py\<close>, \<open>raychat/handoff.py\<close>): queued prompts, the edit
    transaction that borrows the composer, and the document that hands both to a new process.
  \<^item> \<open>Session_Store\<close> (\<open>raychat/storage.py\<close>): the journal. The file is a list of complete lines and a flag
    for a torn last one; every system call can fail; \<open>images\<close> are the contents a crash can leave.
  \<^item> \<open>Session_Kernel\<close>, \<open>Session_Turn\<close>, \<open>Session_Properties\<close> (\<open>raychat/session.py\<close>, \<open>raychat/_common.py\<close>,
    \<open>raychat/event_types.py\<close>): \<open>AgentSession\<close> with the journal, plugin state, checkpoints and the send
    loop. The plugin host, the model, the callbacks and the JSON text functions are fields of \<open>env\<close> and
    \<open>callbacks\<close>; \<open>host_ok\<close> and \<open>callbacks_ok\<close> say that they do not reach into the session's own fields.
  \<^item> \<open>Goal_Commands\<close>, \<open>Goals\<close>, \<open>Goal_Plugin\<close> (\<open>plugins/goals\<close>): the \<open>/goal\<close> command line with \<open>shlex\<close>, the
    settings, the controller with its revisions, the judge, the retry loop and the plugin's hooks. Other
    threads act between the controller's locked sections: \<open>locked\<close> lets the environment move the
    controller by any step that keeps \<open>controller_ok\<close>.
  \<^item> \<open>Model_Router\<close> (\<open>plugins/subagents/models.py\<close>): model profiles, the router and its catalog.
  \<^item> \<open>Workers\<close>, \<open>Worker_Properties\<close>, \<open>Worker_Shutdown\<close> (\<open>raychat/workers.py\<close>): the background worker as a step
    relation over the shared state and the worker thread's program point. Consumers act in the sections
    their lock protects, the thread in \<open>thread_step\<close>; what a conversation does is an arbitrary \<open>choice\<close>.

  \<^item> \<open>Context_Summary\<close>, \<open>Context_Policy\<close>, \<open>Context_Properties\<close> (\<open>plugins/context\<close>): what of a conversation a
    request holds: the summary of every message, the digest of old turns, the search for the shortest
    instructions and for the candidate messages that fit a limit.
  \<^item> \<open>Memory_Store\<close> (\<open>plugins/memory\<close>): the file of numbered notes under failing system calls, its pages, the
    notes shown to the model and the tools on it.
  \<^item> \<open>Packages\<close>, \<open>Package_Order\<close>, \<open>Package_Archives\<close> (\<open>raychat/packages.py\<close>): manifests, the order of
    dependencies, and packing and unpacking archives with every check on their members. The ZIP
    container, JSON text and Unicode case mapping are fields of \<open>text_env\<close>.
  \<^item> \<open>Plugin_Registry\<close>, \<open>Plugin_Generations\<close>, \<open>Plugin_Operations\<close> (\<open>raychat/plugins.py\<close>): the registry, the
    interface on which plugins stage registrations and loading with rollback (\<open>fork_registry\<close> and
    \<open>restore_registry\<close> are \<open>Registry.fork\<close> and \<open>Registry.restore\<close>); the replacement of one
    generation of plugins by the next; and the runtime whose operations pin a generation while threads
    interleave, where what a replacement comes to is an outcome. What plugins register is named by a number, their \<open>register\<close> function
    is the list of calls it makes, and what callbacks raise is part of a request.

  WHAT IS PROVED. Sessions: a send is a transaction (it ends with the lock free and the history extended
  by whole messages), a turn that fails before its commit restores the history, journal and plugin state
  from before it began, except what was checkpointed, no action that needs approval runs without it
  unless approval is automatic, a send with a step limit ends, and after a crash the journal reopens to the
  history unless a write had failed. Journal:
  a commit is atomic under failing system calls, a crash at any moment reopens to the last committed
  state, every run of operations keeps the journal's invariant, and what is stored reads back as it was.
  Queue and editor: invariants under every key and operation, no identifier is issued twice, discarding a
  transaction gives back queue and composer as they were before it opened, saving
  is all or nothing, the handoff document round-trips. Goals: a review only ever settles the goal it
  reviewed, the judge's reply decides or is retried, waits end, saved goals are restored. Router: the
  resolved profile is the best that supports the purpose and does not depend on the order of profiles.
  Worker: every accepted job is reported exactly once and in order, a withdrawn job never completes, an
  approval needs its own answer, and a stopped worker ends within \<open>rank\<close> steps.

  Context: a request is always found when the task fits at all, and it keeps the task. Memory: notes
  survive reopening under every run of the tools and failing system calls, and a change is all or nothing.
  Packages: an order is found exactly when there is one, extraction writes exactly the checked members, at
  portable paths inside the destination, and a packed directory unpacks to itself. Plugins: loading is all or
  nothing (a failed load restores every field and retires the source trees of the modules it tried) and only
  adds to the registry, in dependency order; replacing a generation is atomic, and the losing one is retired;
  an open operation pins its generation; every accepted update is committed or rolled back once at most, and
  once exactly when hooks raise nothing but ordinary exceptions, the replacement raises none after the switch
  and notification callbacks raise none at all; closing waits for the operations under way.

  FUEL AND BOUNDS. \<open>send\<close> and \<open>run_goal\<close> take fuel because a conversation without a step limit need not
  end; \<open>limited_send_ends\<close> gives the fuel that is enough when there is a limit, \<open>retry_wait_ends\<close> the
  fuel of a wait. The other loops are structural or total functions. Lengths and limits are the settings
  of the program, parameters of the model.

  NOT MODELLED. Compiling captured plugin sources and the plugin manager, the file-system and process
  tools, the provider's network client, terminal rendering, the supervisor and the optimization plugin:
  they are file, process and terminal effects around this core, or enter it as the parameters named
  above. Of the journal, the listings and the inter-process lock are not modelled; of the plugin host,
  event dispatch, menus, instructions and the status lines are not.
\<close>

end
